(* ===== verification/Prelude.thy ===== *)
theory Prelude
  imports Main "HOL-Library.Word" "HOL-Library.Monad_Syntax" "HOL-Library.Signed_Division"
begin

text \<open>
  Shared vocabulary of the FlowQ development.  It fixes how the C++ value types are represented
  and collects the lemmas that the component theories use.

  \<^item> \<open>std::byte\<close> is an \<open>8 word\<close>; \<open>flowq::buffer\<close>, \<open>std::vector<std::byte>\<close> and
    \<open>std::span<const std::byte>\<close> are lists of bytes.
  \<^item> \<open>std::uint64_t\<close> and \<open>std::size_t\<close> values are natural numbers below \<open>2 ^ 64\<close>.  Every
    unchecked operation of the source that can wrap is written with the modular operations
    \<open>u64_add\<close>, \<open>u64_sub\<close>, \<open>u64_mul\<close> and \<open>u64_shl\<close> below.  Sizes of containers are \<open>length\<close>s.
  \<^item> \<open>flowq::error\<close> is the record \<open>flowq_error\<close>; a result struct that carries a value or an error
    is a value of \<open>'a result\<close>, with \<open>Inl\<close> for a result whose \<open>ok()\<close> is false.
  \<^item> \<open>std::string\<close> is a HOL string; \<open>byte_of_char\<close> and \<open>char_of_byte\<close> are the two casts.
\<close>

unbundle bit_operations_syntax

named_theorems codec_simps \<open>equations that drive the byte-level codecs on successful input\<close>
named_theorems u64_simps \<open>when the modular operations are exact\<close>

section \<open>Errors and results\<close>

type_synonym byte = "8 word"
type_synonym buffer = "byte list"
type_synonym u64 = nat
type_synonym u32 = "32 word"

datatype error_code =
    EC_none | EC_cancelled | EC_timeout | EC_udp_error | EC_tls_error | EC_protocol_error
  | EC_connection_closed | EC_stream_reset | EC_flow_control_error | EC_internal_error

record flowq_error =
  err_code :: error_code
  err_message :: string

definition no_error :: flowq_error where
  "no_error = \<lparr>err_code = EC_none, err_message = ''''\<rparr>"

definition error_ok :: "flowq_error \<Rightarrow> bool" where
  "error_ok e \<longleftrightarrow> err_code e = EC_none"

lemma error_ok_no_error [simp]: "error_ok no_error"
  by (simp add: error_ok_def no_error_def)

type_synonym 'a result = "flowq_error + 'a"

text \<open>How a call ends where the source allows more than a return: it returns, an exception leaves it, or its behaviour
  is undefined.\<close>

datatype 'a outcome = Returns 'a | Throws string | Undefined

definition protocol_error :: "string \<Rightarrow> flowq_error" where
  "protocol_error m = \<lparr>err_code = EC_protocol_error, err_message = m\<rparr>"

definition flow_control_error :: "string \<Rightarrow> flowq_error" where
  "flow_control_error m = \<lparr>err_code = EC_flow_control_error, err_message = m\<rparr>"

lemma error_ok_protocol_error [simp]: "\<not> error_ok (protocol_error m)"
  by (simp add: error_ok_def protocol_error_def)

lemma error_ok_flow_control_error [simp]: "\<not> error_ok (flow_control_error m)"
  by (simp add: error_ok_def flow_control_error_def)

section \<open>Unsigned 64-bit arithmetic\<close>

abbreviation u64_max :: u64 where
  "u64_max \<equiv> 18446744073709551615"

definition is_u64 :: "u64 \<Rightarrow> bool" where
  "is_u64 x \<longleftrightarrow> x < 2 ^ 64"

definition u64_add :: "u64 \<Rightarrow> u64 \<Rightarrow> u64" where
  "u64_add a b = (a + b) mod 2 ^ 64"

definition u64_sub :: "u64 \<Rightarrow> u64 \<Rightarrow> u64" where
  "u64_sub a b = (a + (2 ^ 64 - b mod 2 ^ 64)) mod 2 ^ 64"

definition u64_mul :: "u64 \<Rightarrow> u64 \<Rightarrow> u64" where
  "u64_mul a b = (a * b) mod 2 ^ 64"

definition u64_shl :: "u64 \<Rightarrow> nat \<Rightarrow> u64" where
  "u64_shl a n = push_bit n a mod 2 ^ 64"

definition u64_not :: "u64 \<Rightarrow> u64" where
  "u64_not a = u64_max - a"

lemma is_u64_u64_add [simp]: "is_u64 (u64_add a b)"
  by (simp add: is_u64_def u64_add_def)

lemma is_u64_u64_sub [simp]: "is_u64 (u64_sub a b)"
  by (simp add: is_u64_def u64_sub_def)

lemma is_u64_u64_mul [simp]: "is_u64 (u64_mul a b)"
  by (simp add: is_u64_def u64_mul_def)

lemma u64_add_exact [u64_simps]: "a + b < 2 ^ 64 \<Longrightarrow> u64_add a b = a + b"
  by (simp add: u64_add_def)

lemma u64_mul_exact [u64_simps]: "a * b < 2 ^ 64 \<Longrightarrow> u64_mul a b = a * b"
  by (simp add: u64_mul_def)

lemma u64_sub_exact [u64_simps]: "b \<le> a \<Longrightarrow> a < 2 ^ 64 \<Longrightarrow> u64_sub a b = a - b"
proof -
  assume le: "b \<le> a" and lt: "a < 2 ^ 64"
  then have b: "b mod 2 ^ 64 = b" by simp
  have "a + (2 ^ 64 - b) = (a - b) + 2 ^ 64" using le lt by simp
  then have "(a + (2 ^ 64 - b)) mod 2 ^ 64 = (a - b) mod 2 ^ 64" by (simp del: power_numeral)
  then show ?thesis using lt b by (simp add: u64_sub_def)
qed

lemma u64_sub_le: "b \<le> a \<Longrightarrow> is_u64 a \<Longrightarrow> u64_sub a b = a - b"
  by (simp add: is_u64_def u64_sub_exact)

section \<open>Bits of natural numbers as arithmetic\<close>

lemma nat_and_mask: "(x::nat) AND (2 ^ n - 1) = x mod 2 ^ n"
  using take_bit_eq_mask [of n x] by (simp add: take_bit_eq_mod mask_eq_exp_minus_1)

lemma nat_and_numerals [codec_simps]:
  "(x::nat) AND 0x03 = x mod 4" "(x::nat) AND 0x3f = x mod 64"
  "(x::nat) AND 0x7f = x mod 128" "(x::nat) AND 0xff = x mod 256"
  using nat_and_mask [of x 2] nat_and_mask [of x 6] nat_and_mask [of x 7] nat_and_mask [of x 8]
  by simp_all

lemma nat_or_low: "y < 2 ^ n \<Longrightarrow> (2 ^ n * x) OR (y::nat) = 2 ^ n * x + y"
proof -
  assume y: "y < 2 ^ n"
  have "(push_bit n x) AND y = 0"
  proof (rule bit_eqI)
    fix k
    show "bit (push_bit n x AND y) k \<longleftrightarrow> bit (0::nat) k"
      using y by (auto simp: bit_and_iff bit_push_bit_iff dest: bit_imp_possible_bit)
        (metis bit_take_bit_iff not_le take_bit_nat_eq_self)
  qed
  then have "push_bit n x OR y = push_bit n x + y"
    by (simp add: disjunctive_add_eq_or)
  then show ?thesis by (simp add: push_bit_eq_mult mult.commute)
qed

lemma nat_or_low_256 [codec_simps]: "y < 256 \<Longrightarrow> (256 * x) OR (y::nat) = 256 * x + y"
  using nat_or_low [of y 8 x] by simp

lemma nat_or_low_256' [codec_simps]: "y < 256 \<Longrightarrow> (x * 256) OR (y::nat) = x * 256 + y"
  using nat_or_low_256 [of y x] by (simp add: mult.commute)

lemma nat_or_tags [codec_simps]:
  "y < 64 \<Longrightarrow> 0x40 OR (y::nat) = 64 + y"
  "y < 64 \<Longrightarrow> 0x80 OR (y::nat) = 128 + y"
  "y < 64 \<Longrightarrow> 0xc0 OR (y::nat) = 192 + y"
  "y < 128 \<Longrightarrow> 0x80 OR (y::nat) = 128 + y"
  using nat_or_low [of y 6 1] nat_or_low [of y 6 2] nat_or_low [of y 6 3] nat_or_low [of y 7 1]
  by simp_all

section \<open>Big-endian byte strings\<close>

definition to_byte :: "nat \<Rightarrow> byte" where
  "to_byte n = word_of_nat n"

lemma unat_to_byte [simp]: "unat (to_byte n) = n mod 256"
  by (simp add: to_byte_def unat_of_nat)

lemma to_byte_unat [simp]: "to_byte (unat b) = b"
  by (simp add: to_byte_def)

lemma unat_byte_less [simp]: "unat (b::byte) < 256"
  using unsigned_less [of b, where 'a = nat] by simp

text \<open>The bytes of \<open>v\<close>, \<open>n\<close> of them, most significant first; and the number such bytes denote.\<close>

fun be_bytes :: "nat \<Rightarrow> nat \<Rightarrow> buffer" where
  "be_bytes 0 v = []"
| "be_bytes (Suc n) v = to_byte (v div 256 ^ n) # be_bytes n v"

definition be_val :: "buffer \<Rightarrow> nat" where
  "be_val bs = foldl (\<lambda>acc b. 256 * acc + unat b) 0 bs"

lemma length_be_bytes [simp]: "length (be_bytes n v) = n"
  by (induction n) auto

lemma be_bytes_3: "be_bytes 3 v = [to_byte (v div 65536), to_byte (v div 256), to_byte v]"
proof -
  have "be_bytes (Suc (Suc (Suc 0))) v = [to_byte (v div 65536), to_byte (v div 256), to_byte v]"
    by simp
  moreover have "Suc (Suc (Suc 0)) = 3" by simp
  ultimately show ?thesis by (simp only:)
qed

lemma be_bytes_7: "be_bytes 7 v =
    [to_byte (v div 281474976710656), to_byte (v div 1099511627776), to_byte (v div 4294967296),
     to_byte (v div 16777216), to_byte (v div 65536), to_byte (v div 256), to_byte v]"
  using be_bytes.simps(2) [of 6 v] be_bytes.simps(2) [of 5 v] be_bytes.simps(2) [of 4 v]
    be_bytes.simps(2) [of 3 v] be_bytes_3 [of v] by simp

lemma be_val_foldl: "foldl (\<lambda>acc b. 256 * acc + unat b) a bs = a * 256 ^ length bs + be_val bs"
  unfolding be_val_def
proof (induction bs arbitrary: a)
  case Nil
  then show ?case by simp
next
  case (Cons b bs)
  from Cons.IH [of "256 * a + unat b"] Cons.IH [of "unat b"] show ?case
    by (simp add: algebra_simps)
qed

lemma be_val_Nil [simp]: "be_val [] = 0"
  by (simp add: be_val_def)

lemma be_val_Cons: "be_val (b # bs) = unat b * 256 ^ length bs + be_val bs"
  using be_val_foldl [of "unat b" bs] by (simp add: be_val_def)

lemma be_val_less: "be_val bs < 256 ^ length bs"
proof (induction bs)
  case Nil
  then show ?case by simp
next
  case (Cons b bs)
  have "unat b * 256 ^ length bs + be_val bs < (unat b + 1) * 256 ^ length bs"
    using Cons by simp
  also have "\<dots> \<le> 256 * 256 ^ length bs"
    using unat_byte_less [of b] by (intro mult_right_mono) (linarith, simp)
  finally show ?case by (simp add: be_val_Cons)
qed

lemma be_val_be_bytes: "be_val (be_bytes n v) = v mod 256 ^ n"
proof (induction n)
  case 0
  then show ?case by simp
next
  case (Suc n)
  have "v mod 256 ^ Suc n = (v div 256 ^ n) mod 256 * 256 ^ n + v mod 256 ^ n"
    using mod_mult2_eq [of v "256 ^ n" 256] by (simp add: mult.commute)
  then show ?case using Suc by (simp add: be_val_Cons)
qed

section \<open>Characters\<close>

definition byte_of_char :: "char \<Rightarrow> byte" where
  "byte_of_char c = to_byte (of_char c)"

definition char_of_byte :: "byte \<Rightarrow> char" where
  "char_of_byte b = char_of (unat b)"

lemma char_of_byte_of_char [simp]: "char_of_byte (byte_of_char c) = c"
  by (simp add: char_of_byte_def byte_of_char_def)

lemma map_char_of_byte_of_char [simp]: "map (char_of_byte \<circ> byte_of_char) s = s"
  by (induction s) auto

section \<open>Cursors over a byte sequence\<close>

text \<open>
  The decoders of the source walk over an input with an offset.  \<open>at_bytes input off bs\<close> says that
  \<open>bs\<close> is what is left at the offset; the decoder lemmas are chained through it.
\<close>

definition at_bytes :: "'a list \<Rightarrow> nat \<Rightarrow> 'a list \<Rightarrow> bool" where
  "at_bytes input off bs \<longleftrightarrow> off \<le> length input \<and> drop off input = bs"

lemma at_bytes_start [intro]: "at_bytes bs 0 bs"
  by (simp add: at_bytes_def)

lemma at_bytes_length: "at_bytes input off bs \<Longrightarrow> length input = off + length bs"
  by (auto simp: at_bytes_def)

lemma at_bytes_advance: "at_bytes input off (xs @ ys) \<Longrightarrow> at_bytes input (off + length xs) ys"
  unfolding at_bytes_def
  by (metis add.commute append_eq_conv_conj drop_drop le_add1 le_add_diff_inverse length_append
      length_drop nat_add_left_cancel_le)

lemma at_bytes_drop: "at_bytes input off bs \<Longrightarrow> drop off input = bs"
  by (simp add: at_bytes_def)

lemma at_bytes_take: "at_bytes input off (xs @ ys) \<Longrightarrow> take (length xs) (drop off input) = xs"
  by (simp add: at_bytes_def)

lemma at_bytes_nth: "at_bytes input off (x # ys) \<Longrightarrow> input ! off = x"
  unfolding at_bytes_def by (metis list.size(3) drop_eq_Nil2 list.discI nth_via_drop)


text \<open>
  The contract of a field reader: wherever the encoding of a valid value is at the cursor, the
  reader returns the value and moves the cursor past the encoding.  The clients of this contract
  need only three consequences: where the cursor is afterwards, that encodings are prefix-free, and
  that the counted loop \<open>read_list\<close> reads back a sequence.
\<close>

fun read_list :: "(buffer \<Rightarrow> nat \<Rightarrow> ('a \<times> nat) option) \<Rightarrow> nat \<Rightarrow> buffer \<Rightarrow> nat \<Rightarrow> ('a list \<times> nat) option" where
  "read_list rd 0 input off = Some ([], off)"
| "read_list rd (Suc n) input off =
     do { (x, off1) \<leftarrow> rd input off;
          (xs, off2) \<leftarrow> read_list rd n input off1;
          Some (x # xs, off2) }"

locale cursor_codec =
  fixes enc :: "'a \<Rightarrow> buffer"
    and valid :: "'a \<Rightarrow> bool"
    and rd :: "buffer \<Rightarrow> nat \<Rightarrow> ('a \<times> nat) option"
  assumes rd_enc: "valid x \<Longrightarrow> at_bytes input off (enc x @ rest) \<Longrightarrow> rd input off = Some (x, off + length (enc x))"
begin

lemma rd_advance:
  assumes "valid x" and "at_bytes input off (enc x @ rest)"
  shows "rd input off = Some (x, off + length (enc x)) \<and> at_bytes input (off + length (enc x)) rest"
  using rd_enc [OF assms] at_bytes_advance [OF assms(2)] by simp

lemma prefix_free:
  assumes "valid x" and "valid y" and "enc x @ r = enc y @ s"
  shows "x = y \<and> r = s"
proof -
  have "at_bytes (enc x @ r) 0 (enc x @ r)" by (rule at_bytes_start)
  then have "rd (enc x @ r) 0 = Some (x, length (enc x))" using rd_enc [OF assms(1)] by fastforce
  moreover have "at_bytes (enc x @ r) 0 (enc y @ s)" using assms(3) by (simp add: at_bytes_def)
  then have "rd (enc x @ r) 0 = Some (y, length (enc y))" using rd_enc [OF assms(2)] by fastforce
  ultimately show ?thesis using assms(3) by simp
qed

lemma read_list_enc:
  assumes "list_all valid xs" and "at_bytes input off (concat (map enc xs) @ rest)"
  shows "read_list rd (length xs) input off = Some (xs, off + length (concat (map enc xs)))"
  using assms
proof (induction xs arbitrary: off)
  case Nil
  then show ?case by simp
next
  case (Cons x xs)
  then have "at_bytes input off (enc x @ (concat (map enc xs) @ rest))" and "valid x" by simp_all
  from rd_advance [OF this(2,1)] Cons.IH [of "off + length (enc x)"] Cons.prems(1)
  show ?case by (simp add: add.assoc)
qed

end

end
