(* ===== verification/Varint.thy ===== *)
theory Varint
  imports Prelude
begin

text \<open>
  QUIC variable-length integers, \<open>src/include/flowq/quic/varint.hpp\<close>: the size of an encoding,
  the encoder that writes into a caller's buffer, and the decoder.  The reference encoding
  \<open>varint_bytes\<close> is the big-endian number with the two-bit length prefix of RFC 9000, section 16;
  the lemmas show that the code's fast paths and its table-driven paths implement it.
\<close>

section \<open>The codec of the source\<close>

definition max_varint :: u64 where
  "max_varint = 4611686018427387903"

definition codec_error :: "string \<Rightarrow> flowq_error" where
  "codec_error m = protocol_error m"

definition encoded_size :: "u64 \<Rightarrow> nat result" where
  "encoded_size value =
     (if value > max_varint then Inl (codec_error ''QUIC varint value exceeds 2^62 - 1'')
      else if value \<le> 63 then Inr 1
      else if value \<le> 16383 then Inr 2
      else if value \<le> 1073741823 then Inr 4
      else Inr 8)"

text \<open>The result is the number of bytes written and the span after the writes.\<close>

definition encode_varint :: "u64 \<Rightarrow> buffer \<Rightarrow> (nat \<times> buffer) result" where
  "encode_varint value output =
     (if value < 64 then
        (if length output < 1
         then Inl (codec_error ''destination buffer too small for QUIC varint'')
         else Inr (1, output[0 := to_byte value]))
      else if value < 16384 then
        (if length output < 2
         then Inl (codec_error ''destination buffer too small for QUIC varint'')
         else Inr (2, output
           [0 := to_byte (0x40 OR (drop_bit 8 value AND 0x3f)),
            1 := to_byte (value AND 0xff)]))
      else (case encoded_size value of
          Inl e \<Rightarrow> Inl e
        | Inr n \<Rightarrow>
            (if length output < n
             then Inl (codec_error ''destination buffer too small for QUIC varint'')
             else if n = 4 then Inr (n, output
               [0 := to_byte (0x80 OR (drop_bit 24 value AND 0x3f)),
                1 := to_byte (drop_bit 16 value AND 0xff),
                2 := to_byte (drop_bit 8 value AND 0xff),
                3 := to_byte (value AND 0xff)])
             else Inr (n, output
               [0 := to_byte (0xc0 OR (drop_bit 56 value AND 0x3f)),
                1 := to_byte (drop_bit 48 value AND 0xff),
                2 := to_byte (drop_bit 40 value AND 0xff),
                3 := to_byte (drop_bit 32 value AND 0xff),
                4 := to_byte (drop_bit 24 value AND 0xff),
                5 := to_byte (drop_bit 16 value AND 0xff),
                6 := to_byte (drop_bit 8 value AND 0xff),
                7 := to_byte (value AND 0xff)]))))"

text \<open>The loop \<open>value = (value << 8) | input[index]\<close> over \<open>index = 1 .. length - 1\<close>.\<close>

definition varint_loop :: "u64 \<Rightarrow> buffer \<Rightarrow> u64" where
  "varint_loop value bytes = foldl (\<lambda>v b. u64_shl v 8 OR unat b) value bytes"

definition decode_varint :: "buffer \<Rightarrow> (u64 \<times> nat) result" where
  "decode_varint input =
     (if input = [] then Inl (codec_error ''empty QUIC varint input'')
      else
        let first = unat (input ! 0); prefix = drop_bit 6 first in
        if prefix = 0 then Inr (first AND 0x3f, 1)
        else if prefix = 1 then
          (if length input < 2 then Inl (codec_error ''truncated QUIC varint'')
           else Inr (push_bit 8 (first AND 0x3f) OR unat (input ! 1), 2))
        else
          let len = (if prefix = 2 then 4 else 8) in
          if length input < len then Inl (codec_error ''truncated QUIC varint'')
          else
            let value = varint_loop (first AND 0x3f) (take (len - 1) (drop 1 input)) in
            if value > max_varint
            then Inl (codec_error ''decoded QUIC varint exceeds 2^62 - 1'')
            else Inr (value, len))"

section \<open>The reference encoding\<close>

definition varint_len :: "u64 \<Rightarrow> nat" where
  "varint_len v = (if v < 64 then 1 else if v < 16384 then 2 else if v < 1073741824 then 4 else 8)"

definition varint_tag :: "nat \<Rightarrow> nat" where
  "varint_tag n = (if n = 1 then 0 else if n = 2 then 1 else if n = 4 then 2 else 3)"

definition varint_bytes :: "u64 \<Rightarrow> buffer" where
  "varint_bytes v =
     be_bytes (varint_len v) (varint_tag (varint_len v) * 2 ^ (8 * varint_len v - 2) + v)"

lemma length_varint_bytes [simp]: "length (varint_bytes v) = varint_len v"
  by (simp add: varint_bytes_def)

lemma varint_len_pos [simp]: "0 < varint_len v"
  by (simp add: varint_len_def)

lemma varint_len_bounds: "1 \<le> varint_len v" "varint_len v \<le> 8"
  by (simp_all add: varint_len_def)

lemma encoded_size_eq: "v \<le> max_varint \<Longrightarrow> encoded_size v = Inr (varint_len v)"
  by (auto simp: encoded_size_def varint_len_def)

lemma encoded_size_overflow: "max_varint < v \<Longrightarrow> \<exists>e. encoded_size v = Inl e"
  by (simp add: encoded_size_def)


lemma to_byte_shift: "m = 256 * k \<Longrightarrow> to_byte ((m * d + v) div d) = to_byte (v div d)" if "0 < d"
proof -
  assume "m = 256 * k"
  moreover have "(m * d + v) div d = m + v div d" using that by simp
  ultimately show ?thesis by (intro word_unat_eq_iff [THEN iffD2]) simp
qed

lemma be_bytes_prefix: "n \<le> m \<Longrightarrow> be_bytes n (t * 256 ^ m + v) = be_bytes n v"
proof (induction n)
  case 0
  then show ?case by simp
next
  case (Suc n)
  then obtain d where "m = n + Suc d" using less_iff_Suc_add by (metis Suc_le_eq add_Suc_right)
  then have "t * 256 ^ m = (256 * (t * 256 ^ d)) * 256 ^ n" by (simp add: power_add)
  then have "to_byte ((t * 256 ^ m + v) div 256 ^ n) = to_byte (v div 256 ^ n)"
    using to_byte_shift [of "256 ^ n" "256 * (t * 256 ^ d)" "t * 256 ^ d" v] by (simp only:) simp
  then show ?case using Suc by simp
qed

lemma be_bytes_tagged:
  assumes "v < 2 ^ (8 * n + 6)"
  shows "be_bytes (Suc n) (t * 2 ^ (8 * Suc n - 2) + v) =
    to_byte (t * 64 + v div 256 ^ n) # be_bytes n v"
proof -
  have p: "(2::nat) ^ (8 * Suc n - 2) = 64 * 256 ^ n"
    using power_add [of "2::nat" 6 "8 * n"] by (simp add: power_mult)
  have "(t * 64 * 256 ^ n + v) div 256 ^ n = t * 64 + v div 256 ^ n"
    by simp
  then have "(t * 2 ^ (8 * Suc n - 2) + v) div 256 ^ n = t * 64 + v div 256 ^ n"
    by (simp only: p mult.assoc)
  moreover have "be_bytes n (t * 2 ^ (8 * Suc n - 2) + v) = be_bytes n v"
    using be_bytes_prefix [of n n "t * 64" v] by (simp only: p mult.assoc)
  ultimately show ?thesis by simp
qed

lemma to_byte_mod [simp]: "to_byte (n mod 256) = to_byte n"
  by (rule word_unat_eq_iff [THEN iffD2]) simp

lemma varint_bytes_expand:
  "v < 64 \<Longrightarrow> varint_bytes v = [to_byte v]"
  "64 \<le> v \<Longrightarrow> v < 16384 \<Longrightarrow> varint_bytes v = to_byte (64 + v div 256) # be_bytes 1 v"
  "16384 \<le> v \<Longrightarrow> v < 1073741824 \<Longrightarrow> varint_bytes v = to_byte (128 + v div 256 ^ 3) # be_bytes 3 v"
  "1073741824 \<le> v \<Longrightarrow> v \<le> max_varint \<Longrightarrow>
     varint_bytes v = to_byte (192 + v div 256 ^ 7) # be_bytes 7 v"
proof -
  show "v < 64 \<Longrightarrow> varint_bytes v = [to_byte v]"
    by (simp add: varint_bytes_def varint_len_def varint_tag_def)
  show "64 \<le> v \<Longrightarrow> v < 16384 \<Longrightarrow> varint_bytes v = to_byte (64 + v div 256) # be_bytes 1 v"
    using be_bytes_tagged [of v 1 1]
    by (simp add: varint_bytes_def varint_len_def varint_tag_def del: be_bytes.simps)
      (simp add: numeral_2_eq_2)
  show "16384 \<le> v \<Longrightarrow> v < 1073741824 \<Longrightarrow>
      varint_bytes v = to_byte (128 + v div 256 ^ 3) # be_bytes 3 v"
    using be_bytes_tagged [of v 3 2]
    by (simp add: varint_bytes_def varint_len_def varint_tag_def del: be_bytes.simps)
  show "1073741824 \<le> v \<Longrightarrow> v \<le> max_varint \<Longrightarrow>
      varint_bytes v = to_byte (192 + v div 256 ^ 7) # be_bytes 7 v"
    using be_bytes_tagged [of v 7 3]
    by (simp add: varint_bytes_def varint_len_def varint_tag_def max_varint_def
        del: be_bytes.simps)
qed

text \<open>A successful write replaces a prefix of the destination.\<close>

lemma list_update_prefix:
  "1 \<le> length xs \<Longrightarrow> xs[0 := a] = a # drop 1 xs"
  "2 \<le> length xs \<Longrightarrow> xs[0 := a, Suc 0 := b] = [a, b] @ drop 2 xs"
  "4 \<le> length xs \<Longrightarrow> xs[0 := a, Suc 0 := b, 2 := c, 3 := d] = [a, b, c, d] @ drop 4 xs"
  "8 \<le> length xs \<Longrightarrow> xs[0 := a, Suc 0 := b, 2 := c, 3 := d, 4 := e, 5 := f, 6 := g, 7 := h] =
     [a, b, c, d, e, f, g, h] @ drop 8 xs"
  by (auto simp: numeral_eq_Suc Suc_le_length_iff)

lemma encode_varint_ok:
  assumes "v \<le> max_varint" and "varint_len v \<le> length output"
  shows "encode_varint v output = Inr (varint_len v, varint_bytes v @ drop (varint_len v) output)"
proof -
  consider "v < 64" | "64 \<le> v" "v < 16384" | "16384 \<le> v" "v < 1073741824" | "1073741824 \<le> v"
    by linarith
  then show ?thesis
  proof cases
    case 1
    with assms(2) show ?thesis
      by (auto simp: encode_varint_def varint_bytes_expand varint_len_def list_update_prefix(1))
  next
    case 2
    then have "v div 256 < 64" by simp
    with 2 assms(2) show ?thesis
      by (auto simp: encode_varint_def varint_bytes_expand varint_len_def list_update_prefix(2)
          codec_simps drop_bit_eq_div)
  next
    case 3
    then have "v div 16777216 < 64" by simp
    with 3 assms show ?thesis
      by (auto simp: encode_varint_def varint_bytes_expand varint_len_def list_update_prefix(3)
          codec_simps drop_bit_eq_div encoded_size_eq be_bytes_3 be_bytes_7)
  next
    case 4
    with assms have "v div 72057594037927936 < 64" by (simp add: max_varint_def)
    with 4 assms show ?thesis
      by (auto simp: encode_varint_def varint_bytes_expand varint_len_def list_update_prefix(4)
          codec_simps drop_bit_eq_div encoded_size_eq be_bytes_3 be_bytes_7)
  qed
qed

lemma encode_varint_fail:
  "max_varint < v \<or> length output < varint_len v \<Longrightarrow> \<exists>e. encode_varint v output = Inl e"
  by (auto simp: encode_varint_def varint_len_def encoded_size_def max_varint_def split: if_splits)

lemma encode_varint_Inr_iff:
  "encode_varint v output = Inr r \<longleftrightarrow>
     v \<le> max_varint \<and> varint_len v \<le> length output \<and>
     r = (varint_len v, varint_bytes v @ drop (varint_len v) output)"
  using encode_varint_ok encode_varint_fail
  by (metis Inl_Inr_False Inr_inject not_le)


section \<open>Decoding\<close>

lemma varint_loop_be:
  "v * 256 ^ length bs + be_val bs < 2 ^ 64 \<Longrightarrow> varint_loop v bs = v * 256 ^ length bs + be_val bs"
proof (induction bs arbitrary: v)
  case Nil
  then show ?case by (simp add: varint_loop_def)
next
  case (Cons b bs)
  have eq: "(v * 256 + unat b) * 256 ^ length bs + be_val bs
      = v * 256 ^ length (b # bs) + be_val (b # bs)"
    by (simp add: be_val_Cons algebra_simps)
  have "v * 256 + unat b \<le> (v * 256 + unat b) * 256 ^ length bs + be_val bs"
    by (simp add: trans_le_add1)
  also have "\<dots> < 2 ^ 64" using Cons.prems eq by simp
  finally have "u64_shl v 8 OR unat b = v * 256 + unat b"
    by (simp add: u64_shl_def push_bit_eq_mult codec_simps)
  then have "varint_loop v (b # bs) = varint_loop (v * 256 + unat b) bs"
    by (simp add: varint_loop_def)
  also have "\<dots> = (v * 256 + unat b) * 256 ^ length bs + be_val bs"
    using Cons.prems eq by (intro Cons.IH) simp
  finally show ?case by (simp add: eq)
qed

lemma varint_loop_exact:
  assumes "length bs = n" and "first < 64" and "n \<le> 7"
  shows "varint_loop first bs = first * 256 ^ n + be_val bs"
    and "first * 256 ^ n + be_val bs < 64 * 256 ^ n"
proof -
  have "first * 256 ^ n + be_val bs < (first + 1) * 256 ^ n"
    using be_val_less [of bs] assms(1) by simp
  also have "\<dots> \<le> 64 * 256 ^ n" using assms(2) by (intro mult_right_mono) auto
  finally show lt: "first * 256 ^ n + be_val bs < 64 * 256 ^ n" .
  have "(256::nat) ^ n \<le> 256 ^ 7" using assms(3) by (intro power_increasing) auto
  with lt have "first * 256 ^ n + be_val bs < 2 ^ 64" by simp
  then show "varint_loop first bs = first * 256 ^ n + be_val bs"
    using varint_loop_be [of first bs] assms(1) by simp
qed

text \<open>What a first byte with length tag \<open>t\<close> and payload \<open>h\<close> decodes to.\<close>

lemma decode_varint_tagged:
  assumes "h < 64" and "t < 4" and "n = (if t = 0 then 0 else if t = 1 then 1 else if t = 2 then 3 else 7)"
    and "length bs = n"
  shows "decode_varint (to_byte (t * 64 + h) # bs @ rest) = Inr (h * 256 ^ n + be_val bs, Suc n)"
proof -
  have first: "unat (to_byte (t * 64 + h)) = t * 64 + h" using assms(1,2) by simp
  have prefix: "drop_bit 6 (t * 64 + h) = t" using assms(1) by (simp add: drop_bit_eq_div)
  have low: "(t * 64 + h) AND 0x3f = h" using assms(1) by (simp add: codec_simps)
  have loop: "varint_loop h bs = h * 256 ^ n + be_val bs"
    using varint_loop_exact(1) [OF assms(4,1)] assms(3) by simp
  have "h * 256 ^ n + be_val bs < 64 * 256 ^ n"
    using varint_loop_exact(2) [OF assms(4,1)] assms(3) by simp
  also have "\<dots> \<le> 64 * 256 ^ 7" using assms(3) by (intro mult_left_mono power_increasing) auto
  finally have bound: "h * 256 ^ n + be_val bs \<le> max_varint" by (simp add: max_varint_def)
  consider "t = 0" | "t = 1" | "t = 2" | "t = 3" using assms(2) by linarith
  then show ?thesis
  proof cases
    case 1
    with assms first prefix low show ?thesis by (simp add: decode_varint_def)
  next
    case 2
    with assms obtain b where "bs = [b]" by (auto simp: length_Suc_conv)
    with 2 assms first prefix low show ?thesis
      by (simp add: decode_varint_def be_val_Cons push_bit_eq_mult codec_simps)
  next
    case 3
    with assms first prefix low loop bound show ?thesis
      by (simp add: decode_varint_def)
  next
    case 4
    with assms first prefix low loop bound show ?thesis
      by (simp add: decode_varint_def)
  qed
qed

lemma decode_varint_bytes [codec_simps]:
  assumes "v \<le> max_varint"
  shows "decode_varint (varint_bytes v @ rest) = Inr (v, varint_len v)"
proof -
  consider "v < 64" | "64 \<le> v" "v < 16384" | "16384 \<le> v" "v < 1073741824" | "1073741824 \<le> v"
    by linarith
  then show ?thesis
  proof cases
    case 1
    then show ?thesis
      using decode_varint_tagged [of v 0 0 "[]" rest]
      by (simp add: varint_bytes_expand varint_len_def)
  next
    case 2
    then have "v div 256 < 64" "v div 256 * 256 + v mod 256 = v" by simp_all
    with 2 show ?thesis
      using decode_varint_tagged [of "v div 256" 1 1 "be_bytes 1 v" rest]
      by (simp add: varint_bytes_expand varint_len_def be_val_be_bytes del: be_bytes.simps)
  next
    case 3
    then have "v div 256 ^ 3 < 64" "v div 256 ^ 3 * 256 ^ 3 + v mod 256 ^ 3 = v" by simp_all
    with 3 show ?thesis
      using decode_varint_tagged [of "v div 256 ^ 3" 2 3 "be_bytes 3 v" rest]
      by (simp add: varint_bytes_expand varint_len_def be_val_be_bytes del: be_bytes.simps)
  next
    case 4
    with assms have "v div 256 ^ 7 < 64" "v div 256 ^ 7 * 256 ^ 7 + v mod 256 ^ 7 = v"
      by (simp_all add: max_varint_def)
    with 4 assms show ?thesis
      using decode_varint_tagged [of "v div 256 ^ 7" 3 7 "be_bytes 7 v" rest]
      by (simp add: varint_bytes_expand varint_len_def be_val_be_bytes del: be_bytes.simps)
  qed
qed

text \<open>Every successful decoding stays within the input and within the varint range.\<close>

lemma decode_varint_bounds:
  assumes "decode_varint input = Inr (v, n)"
  shows "v \<le> max_varint \<and> n \<in> {1, 2, 4, 8} \<and> n \<le> length input"
proof (cases "drop_bit 6 (unat (input ! 0)) = 1")
  case True
  have "unat (input ! 0) mod 64 * 256 + unat (input ! 1) \<le> 63 * 256 + 255"
    by (intro add_mono mult_right_mono) (simp_all add: less_Suc_eq_le [symmetric])
  with True assms show ?thesis
    by (auto simp: decode_varint_def Let_def codec_simps push_bit_eq_mult max_varint_def
        split: if_splits)
next
  case False
  have "unat (input ! 0) mod 64 \<le> max_varint"
    by (simp add: max_varint_def less_imp_le less_trans [of _ 64])
  with False assms show ?thesis
    by (auto simp: decode_varint_def Let_def codec_simps neq_Nil_conv split: if_splits)
qed

text \<open>Decoding fails only on an input shorter than the length its first byte announces.\<close>

definition varint_need :: "byte \<Rightarrow> nat" where
  "varint_need b = 2 ^ (unat b div 64)"

lemma decode_varint_total:
  "(\<exists>v n. decode_varint input = Inr (v, n)) \<longleftrightarrow> input \<noteq> [] \<and> varint_need (hd input) \<le> length input"
proof (cases input)
  case Nil
  then show ?thesis by (simp add: decode_varint_def)
next
  case (Cons b bs)
  define t where "t = unat b div 64"
  define h where "h = unat b mod 64"
  define m where "m = (if t = 0 then 0 else if t = 1 then 1 else if t = 2 then 3 else (7::nat))"
  have t: "t < 4" using unsigned_less [of b, where 'a = nat] by (simp add: t_def less_mult_imp_div_less)
  have h: "h < 64" by (simp add: h_def)
  have b: "b = to_byte (t * 64 + h)" by (simp add: t_def h_def)
  from t have "t = 0 \<or> t = 1 \<or> t = 2 \<or> t = 3" by linarith
  then have need: "varint_need b = Suc m"
    by (auto simp: varint_need_def m_def t_def [symmetric])
  show ?thesis
  proof (cases "m \<le> length bs")
    case True
    then have "decode_varint input = Inr (h * 256 ^ m + be_val (take m bs), Suc m)"
      using decode_varint_tagged [OF h t m_def, of "take m bs" "drop m bs"] Cons b by simp
    with True Cons need show ?thesis by auto
  next
    case False
    have "drop_bit 6 (unat b) = t" by (simp add: t_def drop_bit_eq_div)
    with False Cons need show ?thesis
      by (auto simp: decode_varint_def Let_def m_def Suc_le_eq split: if_splits)
  qed
qed

section \<open>Properties\<close>

text \<open>what the encoder writes, followed by anything, decodes to the value that was encoded and
  to exactly the number of bytes written.\<close>

theorem varint_roundtrip:
  assumes "encode_varint v output = Inr (n, output')"
  shows "decode_varint (take n output' @ rest) = Inr (v, n)"
  using assms by (auto simp: encode_varint_Inr_iff decode_varint_bytes)

theorem varint_roundtrip_witness:
  "encode_varint 15293 [0, 0, 0] = Inr (2, [0x7b, 0xbd, 0]) \<and>
   decode_varint (take 2 [0x7b, 0xbd, 0] @ [9, 9]) = Inr (15293, 2)"
proof -
  have enc: "encode_varint 15293 [0, 0, 0] = Inr (2, [0x7b, 0xbd, 0])"
    by (simp add: encode_varint_def to_byte_def)
  show ?thesis using enc varint_roundtrip [OF enc, of "[9, 9]"] by simp
qed

text \<open>the encoder, with its fast paths, succeeds exactly on values up to \<open>2 ^ 62 - 1\<close> that fit
  the destination; it then writes the shortest reference encoding and leaves the rest of the
  destination unchanged.\<close>

theorem encode_varint_correct:
  "encode_varint v output =
     (if v > max_varint then Inl (codec_error ''QUIC varint value exceeds 2^62 - 1'')
      else if length output < varint_len v
      then Inl (codec_error ''destination buffer too small for QUIC varint'')
      else Inr (varint_len v, varint_bytes v @ drop (varint_len v) output))"
proof -
  have "v > max_varint \<Longrightarrow> encode_varint v output = Inl (codec_error ''QUIC varint value exceeds 2^62 - 1'')"
    by (simp add: encode_varint_def encoded_size_def max_varint_def)
  moreover have "v \<le> max_varint \<Longrightarrow> length output < varint_len v \<Longrightarrow>
      encode_varint v output = Inl (codec_error ''destination buffer too small for QUIC varint'')"
    by (auto simp: encode_varint_def varint_len_def encoded_size_def max_varint_def split: if_splits)
  ultimately show ?thesis using encode_varint_ok by simp
qed

text \<open>the decoder succeeds exactly when the input holds as many bytes as its first byte
  announces; the value is then below \<open>2 ^ 62\<close> and the count is 1, 2, 4 or 8 and within the input.\<close>

theorem decode_varint_exact:
  "(case decode_varint input of
      Inr (v, n) \<Rightarrow> v \<le> max_varint \<and> n \<in> {1, 2, 4, 8} \<and> n \<le> length input \<and> varint_need (hd input) \<le> length input
    | Inl e \<Rightarrow> input = [] \<or> length input < varint_need (hd input))"
  using decode_varint_bounds [of input] decode_varint_total [of input]
  by (auto split: sum.splits)

end
