(* ===== verification/PacketHeader.thy ===== *)
theory PacketHeader
  imports Varint
begin

text \<open>
  Packet numbers and packet headers, \<open>src/include/flowq/quic/packet_header.hpp\<close>: the choice of a
  packet number length, truncation and recovery of packet numbers (RFC 9000, sections A.2 and A.3),
  and the codecs of the long headers (Version Negotiation, Initial, Handshake, Retry) and of the
  short header.  A decoder takes the input and an offset and returns the value with the new offset;
  \<open>None\<close> stands for the C++ \<open>false\<close>.
\<close>

section \<open>Packet numbers\<close>

definition packet_number_error :: "string \<Rightarrow> flowq_error" where
  "packet_number_error m = protocol_error m"

definition valid_packet_number_length :: "nat \<Rightarrow> bool" where
  "valid_packet_number_length len \<longleftrightarrow> len \<ge> 1 \<and> len \<le> 4"

text \<open>The loop \<open>for (length = 1; length <= 4; ++length)\<close>, from a given length on.\<close>

function select_length_from :: "nat \<Rightarrow> u64 \<Rightarrow> nat result" where
  "select_length_from len gap =
     (if len \<le> 4 then
        (if u64_shl 1 (len * 8) > u64_mul gap 2 then Inr len
         else select_length_from (Suc len) gap)
      else Inl (packet_number_error ''packet number gap exceeds 4-byte encoding window''))"
  by pat_completeness auto
termination
  by (relation "measure (\<lambda>(len, gap). 5 - len)") auto

declare select_length_from.simps [simp del]

definition select_packet_number_length :: "u64 \<Rightarrow> u64 \<Rightarrow> nat result" where
  "select_packet_number_length packet_number largest_acknowledged =
     (if packet_number \<le> largest_acknowledged
      then Inl (packet_number_error ''packet number must be greater than largest acknowledged'')
      else select_length_from 1 (u64_sub packet_number largest_acknowledged))"

text \<open>The bytes the encoding loop stores, from index \<open>i\<close> on.\<close>

definition packet_number_bytes :: "u64 \<Rightarrow> nat \<Rightarrow> buffer" where
  "packet_number_bytes packet_number len =
     map (\<lambda>index. to_byte (drop_bit ((len - 1 - index) * 8) packet_number AND 0xff)) [0..<len]"

definition encode_packet_number :: "u64 \<Rightarrow> nat \<Rightarrow> buffer \<Rightarrow> (nat \<times> buffer) result" where
  "encode_packet_number packet_number len output =
     (if \<not> valid_packet_number_length len
      then Inl (packet_number_error ''packet number length must be 1 to 4 bytes'')
      else if length output < len
      then Inl (packet_number_error ''destination buffer too small for packet number'')
      else Inr (len, packet_number_bytes packet_number len @ drop len output))"

definition decode_packet_number :: "u64 \<Rightarrow> nat \<Rightarrow> u64 \<Rightarrow> u64 result" where
  "decode_packet_number truncated_packet_number len largest_received =
     (if \<not> valid_packet_number_length len
      then Inl (packet_number_error ''packet number length must be 1 to 4 bytes'')
      else
        let window = u64_shl 1 (len * 8) in
        if truncated_packet_number \<ge> window
        then Inl (packet_number_error ''truncated packet number does not fit selected length'')
        else
          let expected = u64_add largest_received 1;
              half = window div 2;
              mask = u64_sub window 1;
              candidate = (expected AND u64_not mask) OR truncated_packet_number
          in
          if u64_add candidate half \<le> expected \<and> candidate < u64_sub max_varint window
          then Inr (u64_add candidate window)
          else if candidate > u64_add expected half \<and> candidate \<ge> window
          then Inr (u64_sub candidate window)
          else Inr candidate)"

section \<open>Header data\<close>

record connection_id =
  cid_bytes :: buffer

record version_negotiation_header =
  vn_first_byte :: byte
  vn_destination_connection_id :: connection_id
  vn_source_connection_id :: connection_id
  vn_supported_versions :: "u32 list"

record initial_header =
  ih_first_byte :: byte
  ih_version :: u32
  ih_destination_connection_id :: connection_id
  ih_source_connection_id :: connection_id
  ih_token :: buffer
  ih_length :: u64
  ih_protected_payload :: buffer

record handshake_header =
  hh_first_byte :: byte
  hh_version :: u32
  hh_destination_connection_id :: connection_id
  hh_source_connection_id :: connection_id
  hh_length :: u64
  hh_protected_payload :: buffer

record retry_header =
  rh_first_byte :: byte
  rh_version :: u32
  rh_destination_connection_id :: connection_id
  rh_source_connection_id :: connection_id
  rh_opaque_retry_tail :: buffer

record short_header =
  sh_first_byte :: byte
  sh_destination_connection_id :: connection_id
  sh_fixed_bit :: bool
  sh_spin_bit :: bool
  sh_key_phase :: bool
  sh_packet_number_length :: nat
  sh_truncated_packet_number :: u64
  sh_protected_payload :: buffer

datatype packet_header =
    VersionNegotiation version_negotiation_header
  | Initial initial_header
  | Handshake handshake_header
  | Retry retry_header
  | Short short_header

definition packet_error :: "string \<Rightarrow> flowq_error" where
  "packet_error m = protocol_error m"

section \<open>Field readers and writers\<close>

definition read_u32 :: "buffer \<Rightarrow> nat \<Rightarrow> (u32 \<times> nat) option" where
  "read_u32 input offset =
     (if length input - offset < 4 then None
      else Some (push_bit 24 (ucast (input ! offset)) OR push_bit 16 (ucast (input ! (offset + 1))) OR
                 push_bit 8 (ucast (input ! (offset + 2))) OR ucast (input ! (offset + 3)),
                 offset + 4))"

definition append_u32 :: "buffer \<Rightarrow> u32 \<Rightarrow> buffer" where
  "append_u32 output value = output @
     [ucast (drop_bit 24 value AND 0xff), ucast (drop_bit 16 value AND 0xff),
      ucast (drop_bit 8 value AND 0xff), ucast (value AND 0xff)]"

definition read_connection_id :: "buffer \<Rightarrow> nat \<Rightarrow> (connection_id \<times> nat) option" where
  "read_connection_id input offset =
     (if offset \<ge> length input then None
      else
        let len = unat (input ! offset); offset = offset + 1 in
        if len > length input - offset then None
        else Some (\<lparr>cid_bytes = take len (drop offset input)\<rparr>, offset + len))"

definition append_connection_id :: "buffer \<Rightarrow> connection_id \<Rightarrow> buffer option" where
  "append_connection_id output cid =
     (if length (cid_bytes cid) > 255 then None
      else Some (output @ to_byte (length (cid_bytes cid)) # cid_bytes cid))"

definition append_varint_to_packet :: "buffer \<Rightarrow> u64 \<Rightarrow> buffer option" where
  "append_varint_to_packet output value =
     (case encode_varint value (replicate 8 0) of
        Inl _ \<Rightarrow> None
      | Inr (n, encoded) \<Rightarrow> Some (output @ take n encoded))"

definition read_truncated_packet_number :: "buffer \<Rightarrow> nat \<Rightarrow> nat \<Rightarrow> u64 result" where
  "read_truncated_packet_number input offset len =
     (if \<not> valid_packet_number_length len
      then Inl (packet_number_error ''packet number length must be 1 to 4 bytes'')
      else if length input - offset < len
      then Inl (packet_error ''truncated short-header packet number'')
      else Inr (foldl (\<lambda>value b. u64_shl value 8 OR unat b) 0 (take len (drop offset input))))"

definition short_header_first_byte :: "short_header \<Rightarrow> byte" where
  "short_header_first_byte header =
     (let first = to_byte (u64_sub (sh_packet_number_length header) 1) AND 0x03;
          first = (if sh_fixed_bit header then first OR 0x40 else first);
          first = (if sh_spin_bit header then first OR 0x20 else first)
      in if sh_key_phase header then first OR 0x04 else first)"

definition read_packet_varint_at :: "buffer \<Rightarrow> nat \<Rightarrow> (u64 \<times> nat) option" where
  "read_packet_varint_at input offset =
     (case decode_varint (drop offset input) of
        Inl _ \<Rightarrow> None
      | Inr (value, n) \<Rightarrow> Some (value, offset + n))"

section \<open>Long-header decoders and encoders\<close>

text \<open>The version loop of Version Negotiation; \<open>read_u32\<close> advances by four bytes.\<close>

function read_versions :: "buffer \<Rightarrow> nat \<Rightarrow> u32 list \<Rightarrow> (u32 list) option" where
  "read_versions input offset versions =
     (if offset < length input then
        (case read_u32 input offset of
           None \<Rightarrow> None
         | Some (version, offset') \<Rightarrow> read_versions input offset' (versions @ [version]))
      else Some versions)"
  by pat_completeness auto
termination
  by (relation "measure (\<lambda>(input, offset, _). length input - offset)")
    (auto simp: read_u32_def split: if_splits)

declare read_versions.simps [simp del]

definition decode_version_negotiation :: "byte \<Rightarrow> buffer \<Rightarrow> nat \<Rightarrow> packet_header result" where
  "decode_version_negotiation first_byte input offset =
     (case do { (dcid, o1) \<leftarrow> read_connection_id input offset;
                (scid, o2) \<leftarrow> read_connection_id input o1;
                Some (dcid, scid, o2) } of
        None \<Rightarrow> Inl (packet_error ''truncated Version Negotiation connection ID'')
      | Some (dcid, scid, offset) \<Rightarrow>
          let remaining = length input - offset in
          if remaining = 0 \<or> remaining mod 4 \<noteq> 0
          then Inl (packet_error ''invalid Version Negotiation version list length'')
          else (case read_versions input offset [] of
              None \<Rightarrow> Inl (packet_error ''truncated Version Negotiation version'')
            | Some versions \<Rightarrow> Inr (VersionNegotiation
                \<lparr>vn_first_byte = first_byte, vn_destination_connection_id = dcid,
                 vn_source_connection_id = scid, vn_supported_versions = versions\<rparr>)))"

definition decode_initial ::
    "byte \<Rightarrow> u32 \<Rightarrow> connection_id \<Rightarrow> connection_id \<Rightarrow> buffer \<Rightarrow> nat \<Rightarrow> packet_header result" where
  "decode_initial first_byte version dcid scid input offset =
     (case read_packet_varint_at input offset of
        None \<Rightarrow> Inl (packet_error ''truncated Initial token length'')
      | Some (token_length, offset) \<Rightarrow>
          if token_length > length input - offset
          then Inl (packet_error ''truncated Initial token'')
          else
            let token = take token_length (drop offset input); offset = offset + token_length in
            (case read_packet_varint_at input offset of
               None \<Rightarrow> Inl (packet_error ''truncated Initial length'')
             | Some (len, offset) \<Rightarrow>
                 if len \<noteq> length input - offset
                 then Inl (packet_error ''Initial protected payload length mismatch'')
                 else Inr (Initial
                   \<lparr>ih_first_byte = first_byte, ih_version = version,
                    ih_destination_connection_id = dcid, ih_source_connection_id = scid,
                    ih_token = token, ih_length = len,
                    ih_protected_payload = take len (drop offset input)\<rparr>)))"

definition decode_handshake ::
    "byte \<Rightarrow> u32 \<Rightarrow> connection_id \<Rightarrow> connection_id \<Rightarrow> buffer \<Rightarrow> nat \<Rightarrow> packet_header result" where
  "decode_handshake first_byte version dcid scid input offset =
     (case read_packet_varint_at input offset of
        None \<Rightarrow> Inl (packet_error ''truncated Handshake length'')
      | Some (len, offset) \<Rightarrow>
          if len \<noteq> length input - offset
          then Inl (packet_error ''Handshake protected payload length mismatch'')
          else Inr (Handshake
            \<lparr>hh_first_byte = first_byte, hh_version = version,
             hh_destination_connection_id = dcid, hh_source_connection_id = scid,
             hh_length = len, hh_protected_payload = take len (drop offset input)\<rparr>))"

definition decode_retry ::
    "byte \<Rightarrow> u32 \<Rightarrow> connection_id \<Rightarrow> connection_id \<Rightarrow> buffer \<Rightarrow> nat \<Rightarrow> packet_header result" where
  "decode_retry first_byte version dcid scid input offset =
     (if offset = length input
      then Inl (packet_error ''Retry packet has empty opaque tail'')
      else Inr (Retry
        \<lparr>rh_first_byte = first_byte, rh_version = version,
         rh_destination_connection_id = dcid, rh_source_connection_id = scid,
         rh_opaque_retry_tail = drop offset input\<rparr>))"

definition encode_version_negotiation :: "version_negotiation_header \<Rightarrow> buffer result" where
  "encode_version_negotiation header =
     (if vn_supported_versions header = []
      then Inl (packet_error ''Version Negotiation requires at least one version'')
      else
        let output = append_u32 [vn_first_byte header] 0 in
        (case do { out \<leftarrow> append_connection_id output (vn_destination_connection_id header);
                   append_connection_id out (vn_source_connection_id header) } of
           None \<Rightarrow> Inl (packet_error ''connection ID is too long'')
         | Some output \<Rightarrow> Inr (foldl append_u32 output (vn_supported_versions header))))"

definition encode_initial :: "initial_header \<Rightarrow> buffer result" where
  "encode_initial header =
     (if ih_length header \<noteq> length (ih_protected_payload header)
      then Inl (packet_error ''Initial length must match protected payload size'')
      else
        let output = append_u32 [ih_first_byte header] (ih_version header) in
        (case do { out \<leftarrow> append_connection_id output (ih_destination_connection_id header);
                   out \<leftarrow> append_connection_id out (ih_source_connection_id header);
                   append_varint_to_packet out (length (ih_token header)) } of
           None \<Rightarrow> Inl (packet_error ''failed to encode Initial header'')
         | Some output \<Rightarrow>
             (case append_varint_to_packet (output @ ih_token header) (ih_length header) of
                None \<Rightarrow> Inl (packet_error ''failed to encode Initial length'')
              | Some output \<Rightarrow> Inr (output @ ih_protected_payload header))))"

definition encode_handshake :: "handshake_header \<Rightarrow> buffer result" where
  "encode_handshake header =
     (if hh_length header \<noteq> length (hh_protected_payload header)
      then Inl (packet_error ''Handshake length must match protected payload size'')
      else
        let output = append_u32 [hh_first_byte header] (hh_version header) in
        (case do { out \<leftarrow> append_connection_id output (hh_destination_connection_id header);
                   out \<leftarrow> append_connection_id out (hh_source_connection_id header);
                   append_varint_to_packet out (hh_length header) } of
           None \<Rightarrow> Inl (packet_error ''failed to encode Handshake header'')
         | Some output \<Rightarrow> Inr (output @ hh_protected_payload header)))"

definition encode_retry :: "retry_header \<Rightarrow> buffer result" where
  "encode_retry header =
     (if rh_opaque_retry_tail header = []
      then Inl (packet_error ''Retry packet requires an opaque tail'')
      else
        let output = append_u32 [rh_first_byte header] (rh_version header) in
        (case do { out \<leftarrow> append_connection_id output (rh_destination_connection_id header);
                   append_connection_id out (rh_source_connection_id header) } of
           None \<Rightarrow> Inl (packet_error ''connection ID is too long'')
         | Some output \<Rightarrow> Inr (output @ rh_opaque_retry_tail header)))"

definition encode_short :: "short_header \<Rightarrow> buffer result" where
  "encode_short header =
     (if \<not> sh_fixed_bit header then Inl (packet_error ''short header fixed bit must be set'')
      else if \<not> valid_packet_number_length (sh_packet_number_length header)
      then Inl (packet_error ''short header packet number length must be 1 to 4 bytes'')
      else (case encode_packet_number (sh_truncated_packet_number header)
                  (sh_packet_number_length header) (replicate 4 0) of
          Inl e \<Rightarrow> Inl e
        | Inr (_, bytes) \<Rightarrow>
            Inr (short_header_first_byte header # cid_bytes (sh_destination_connection_id header)
                 @ take (sh_packet_number_length header) bytes
                 @ sh_protected_payload header)))"

section \<open>The entry points\<close>

definition decode_packet_header :: "buffer \<Rightarrow> packet_header result" where
  "decode_packet_header input =
     (if input = [] then Inl (packet_error ''empty packet header input'')
      else
        let first_byte = input ! 0 in
        if first_byte AND 0x80 = 0
        then Inl (packet_error ''short headers are unsupported by this decoder'')
        else (case read_u32 input 1 of
            None \<Rightarrow> Inl (packet_error ''truncated packet version'')
          | Some (version, offset) \<Rightarrow>
              if version = 0 then decode_version_negotiation first_byte input offset
              else if first_byte AND 0x40 = 0
              then Inl (packet_error ''long header fixed bit is not set'')
              else (case do { (dcid, o1) \<leftarrow> read_connection_id input offset;
                              (scid, o2) \<leftarrow> read_connection_id input o1;
                              Some (dcid, scid, o2) } of
                  None \<Rightarrow> Inl (packet_error ''truncated long-header connection ID'')
                | Some (dcid, scid, offset) \<Rightarrow>
                    if first_byte AND 0x30 = 0x00
                    then decode_initial first_byte version dcid scid input offset
                    else if first_byte AND 0x30 = 0x20
                    then decode_handshake first_byte version dcid scid input offset
                    else if first_byte AND 0x30 = 0x30
                    then decode_retry first_byte version dcid scid input offset
                    else Inl (packet_error ''unsupported long-header packet type''))))"

definition decode_short_header :: "buffer \<Rightarrow> nat \<Rightarrow> packet_header result" where
  "decode_short_header input destination_connection_id_length =
     (if input = [] then Inl (packet_error ''empty short-header input'')
      else
        let first_byte = input ! 0 in
        if first_byte AND 0x80 \<noteq> 0
        then Inl (packet_error ''short header must not use long-header form'')
        else if first_byte AND 0x40 = 0
        then Inl (packet_error ''short header fixed bit is not set'')
        else if destination_connection_id_length > length input - 1
        then Inl (packet_error ''truncated short-header destination connection ID'')
        else
          let packet_number_length = unat (first_byte AND 0x03) + 1;
              packet_number_offset = 1 + destination_connection_id_length
          in (case read_truncated_packet_number input packet_number_offset packet_number_length of
                Inl e \<Rightarrow> Inl e
              | Inr packet_number \<Rightarrow> Inr (Short
                  \<lparr>sh_first_byte = first_byte,
                   sh_destination_connection_id =
                     \<lparr>cid_bytes = take destination_connection_id_length (drop 1 input)\<rparr>,
                   sh_fixed_bit = True, sh_spin_bit = first_byte AND 0x20 \<noteq> 0,
                   sh_key_phase = first_byte AND 0x04 \<noteq> 0,
                   sh_packet_number_length = packet_number_length,
                   sh_truncated_packet_number = packet_number,
                   sh_protected_payload = drop (packet_number_offset + packet_number_length) input\<rparr>)))"

fun encode_packet_header :: "packet_header \<Rightarrow> buffer result" where
  "encode_packet_header (VersionNegotiation h) = encode_version_negotiation h"
| "encode_packet_header (Initial h) = encode_initial h"
| "encode_packet_header (Handshake h) = encode_handshake h"
| "encode_packet_header (Retry h) = encode_retry h"
| "encode_packet_header (Short h) = encode_short h"

section \<open>Packet number recovery\<close>



lemma packet_number_window [simp]:
  "1 \<le> len \<Longrightarrow> len \<le> 4 \<Longrightarrow> u64_shl (Suc 0) (len * 8) = 2 ^ (8 * len)"
proof -
  assume "1 \<le> len" "len \<le> 4"
  then have "(2::nat) ^ (8 * len) < 2 ^ 64" by (intro power_strict_increasing) auto
  then show ?thesis by (simp add: u64_shl_def push_bit_eq_mult mult.commute)
qed

lemma select_length_from_Inr:
  assumes "select_length_from len gap = Inr n" and "gap < 2 ^ 63" and "1 \<le> len"
  shows "len \<le> n \<and> n \<le> 4 \<and> gap * 2 < 2 ^ (8 * n)"
  using assms
proof (induction len gap rule: select_length_from.induct)
  case (1 len gap)
  then show ?case
    using 1 by (auto simp: select_length_from.simps [of len gap] u64_mul_def split: if_splits)
qed

lemma select_length_from_total:
  assumes "gap * 2 < 2 ^ 32" and "1 \<le> len" and "len \<le> 4"
  shows "\<exists>n. select_length_from len gap = Inr n"
  using assms
proof (induction len gap rule: select_length_from.induct)
  case (1 len gap)
  show ?case
  proof (cases "len = 4")
    case True
    with 1 show ?thesis
      by (simp add: select_length_from.simps [of 4 gap] u64_mul_def u64_shl_def push_bit_eq_mult)
  next
    case False
    with 1 show ?thesis
      by (auto simp: select_length_from.simps [of len gap])
  qed
qed

lemma and_not_mask:
  assumes "e < 2 ^ 64" and "k \<le> 64"
  shows "e AND u64_not (2 ^ k - 1) = e div 2 ^ k * 2 ^ k"
proof -
  have "u64_not (2 ^ k - 1) = 2 ^ 64 - 2 ^ k"
    using assms(2) power_increasing [of k 64 "2::nat"] by (simp add: u64_not_def)
  also have "\<dots> = push_bit k (mask (64 - k))"
    using assms(2) by (simp add: push_bit_eq_mult mask_eq_exp_minus_1 diff_mult_distrib flip: power_add)
  finally have "e AND u64_not (2 ^ k - 1) = e AND push_bit k (mask (64 - k))" by simp
  also have "\<dots> = push_bit k (take_bit (64 - k) (drop_bit k e))"
    by (rule bit_eqI) (auto simp: bit_simps)
  also have "take_bit (64 - k) (drop_bit k e) = drop_bit k e"
    using assms by (auto simp: take_bit_nat_eq_self_iff drop_bit_eq_div less_mult_imp_div_less simp flip: power_add)
  finally show ?thesis by (simp add: push_bit_eq_mult drop_bit_eq_div)
qed

lemma candidate_eq:
  assumes "e < 2 ^ 64" and "1 \<le> len" and "len \<le> 4" and "t < 2 ^ (8 * len)"
  shows "(e AND u64_not (2 ^ (8 * len) - 1)) OR t = e div 2 ^ (8 * len) * 2 ^ (8 * len) + t"
  using and_not_mask [of e "8 * len"] nat_or_low [OF assms(4), of "e div 2 ^ (8 * len)"] assms
  by (simp add: mult.commute)

lemma decode_packet_number_candidate:
  assumes "lr < 2 ^ 62" and "1 \<le> len" and "len \<le> 4" and "t < 2 ^ (8 * len)"
  defines "W \<equiv> 2 ^ (8 * len)" and "e \<equiv> lr + 1" and "c \<equiv> (lr + 1) div 2 ^ (8 * len) * 2 ^ (8 * len) + t"
  shows "decode_packet_number t len lr =
    Inr (if c + W div 2 \<le> e \<and> c + W < max_varint then c + W
         else if c > e + W div 2 \<and> c \<ge> W then c - W else c)"
proof -
  have "W \<le> 2 ^ 32" unfolding W_def using assms(3) by (intro power_increasing) auto
  moreover have "c \<le> lr + 1 + t" unfolding c_def by simp
  ultimately have b: "W \<le> 2 ^ 32" "c < 2 ^ 63" "e \<le> 2 ^ 62" "0 < W"
    using assms(1,4) unfolding e_def W_def by auto
  have e: "u64_add lr 1 = e" using assms(1) by (simp add: e_def u64_add_def)
  have m: "u64_sub W 1 = W - 1" "u64_sub max_varint W = max_varint - W"
    using b by (auto simp: u64_sub_exact max_varint_def)
  have c: "(e AND u64_not (W - 1)) OR t = c"
    using candidate_eq [of e len t] assms b(3) by (simp add: c_def e_def W_def)
  have sums: "u64_add c (W div 2) = c + W div 2" "u64_add e (W div 2) = e + W div 2" "u64_add c W = c + W"
    using b by (simp_all add: u64_add_def)
  have sub: "c \<ge> W \<Longrightarrow> u64_sub c W = c - W" using b by (simp add: u64_sub_exact)
  have lt: "c < max_varint - W \<longleftrightarrow> c + W < max_varint" by linarith
  have w: "u64_shl 1 (len * 8) = W" using assms(2,3) by (simp add: W_def)
  have "t < W" using assms(4) by (simp add: W_def)
  then show ?thesis
    using assms(2,3) sums sub lt
    by (simp add: decode_packet_number_def valid_packet_number_length_def Let_def w e m c
        del: One_nat_def)
qed

lemma closest_number:
  fixes pn e W :: nat
  assumes W: "W = 2 * h" "0 < h" and "pn \<le> e + h" and "e < pn + h" and "pn \<le> M" and "M mod W = W - 1"
  defines "c \<equiv> e div W * W + pn mod W"
  shows "(if c + h \<le> e \<and> c + W < M then c + W else if c > e + h \<and> c \<ge> W then c - W else c) = pn"
proof -
  define q where "q = e div W"
  define p where "p = pn div W"
  define r where "r = e mod W"
  define t where "t = pn mod W"
  have e: "e = q * W + r" and pn: "pn = p * W + t" by (simp_all add: q_def r_def p_def t_def)
  have rt: "r < W" "t < W" using W by (simp_all add: r_def t_def)
  have c: "c = q * W + t" by (simp add: c_def q_def t_def)
  have le: "p \<le> q + 1"
  proof (rule ccontr)
    assume "\<not> p \<le> q + 1"
    then have "(q + 2) * W \<le> p * W" by (intro mult_right_mono) auto
    then show False using e pn rt assms(3) W by (simp add: algebra_simps)
  qed
  have ge: "q \<le> p + 1"
  proof (rule ccontr)
    assume "\<not> q \<le> p + 1"
    then have "(p + 2) * W \<le> q * W" by (intro mult_right_mono) auto
    then show False using e pn rt assms(4) W by (simp add: algebra_simps)
  qed
  from le ge consider "p = q" | "p = q + 1" | "q = p + 1" by linarith
  then show ?thesis
  proof cases
    case 1
    then have "c = pn" using c pn by simp
    then show ?thesis using assms(3,4) W by auto
  next
    case 2
    then have c': "c + W = pn" using c pn by (simp add: algebra_simps)
    moreover have "pn \<noteq> M"
    proof
      assume "pn = M"
      then have "t = W - 1" using assms(6) by (simp add: t_def)
      then show False using 2 e pn rt assms(3) W by (simp add: algebra_simps)
    qed
    ultimately show ?thesis using assms(3-5) W by auto
  next
    case 3
    then have "c = pn + W" using c pn by (simp add: algebra_simps)
    then show ?thesis using assms(3,4) W by auto
  qed
qed

section \<open>Round trips of the fields\<close>

lemma u32_bytes_join:
  fixes v :: u32
  shows "push_bit 24 (ucast (ucast (drop_bit 24 v AND 0xff) :: byte)) OR
    push_bit 16 (ucast (ucast (drop_bit 16 v AND 0xff) :: byte)) OR
    push_bit 8 (ucast (ucast (drop_bit 8 v AND 0xff) :: byte)) OR
    ucast (ucast (v AND 0xff) :: byte) = v"
proof -
  have ff: "(0xff :: u32) = mask 8" by (simp add: mask_eq_exp_minus_1)
  show ?thesis
    unfolding ff
  proof (rule bit_word_eqI, goal_cases)
    case (1 n)
    then have "n < 32" by simp
    then consider "n < 8" | "8 \<le> n" "n < 16" | "16 \<le> n" "n < 24" | "24 \<le> n" "n < 32"
      by linarith
    then show ?case by cases (auto simp: bit_simps)
  qed
qed

definition u32_bytes :: "u32 \<Rightarrow> buffer" where
  "u32_bytes value = append_u32 [] value"

lemma append_u32_eq: "append_u32 output value = output @ u32_bytes value"
  by (simp add: append_u32_def u32_bytes_def)

lemma length_u32_bytes [simp]: "length (u32_bytes v) = 4"
  by (simp add: u32_bytes_def append_u32_def)

lemma read_u32_bytes [codec_simps]:
  assumes "at_bytes input offset (u32_bytes v @ rest)"
  shows "read_u32 input offset = Some (v, offset + 4)"
proof -
  have len: "length input = offset + 4 + length rest" using at_bytes_length [OF assms] by simp
  have nth: "input ! (offset + i) = (u32_bytes v @ rest) ! i" if "i < 4" for i
    using assms that len unfolding at_bytes_def by (metis nth_drop)
  have "input ! offset = ucast (drop_bit 24 v AND 0xff)" "input ! (offset + 1) = ucast (drop_bit 16 v AND 0xff)"
    "input ! (offset + 2) = ucast (drop_bit 8 v AND 0xff)" "input ! (offset + 3) = ucast (v AND 0xff)"
    using nth [of 0] nth [of 1] nth [of 2] nth [of 3] by (simp_all add: u32_bytes_def append_u32_def)
  then show ?thesis using len u32_bytes_join [of v] by (simp add: read_u32_def)
qed

definition cid_encoding :: "connection_id \<Rightarrow> buffer" where
  "cid_encoding cid = to_byte (length (cid_bytes cid)) # cid_bytes cid"

lemma append_connection_id_Some [simp]:
  "append_connection_id output cid = Some out \<longleftrightarrow>
     length (cid_bytes cid) \<le> 255 \<and> out = output @ cid_encoding cid"
  by (auto simp: append_connection_id_def cid_encoding_def)

lemma read_connection_id_encoding [codec_simps]:
  assumes "at_bytes input offset (cid_encoding cid @ rest)" and "length (cid_bytes cid) \<le> 255"
  shows "read_connection_id input offset = Some (cid, offset + length (cid_encoding cid))"
proof -
  have hd: "input ! offset = to_byte (length (cid_bytes cid))"
    using assms(1) by (intro at_bytes_nth) (simp add: cid_encoding_def)
  have len: "length input = offset + length (cid_encoding cid) + length rest"
    using at_bytes_length [OF assms(1)] by simp
  have "at_bytes input (offset + 1) (cid_bytes cid @ rest)"
    using assms(1) at_bytes_advance [of input offset "[to_byte (length (cid_bytes cid))]"]
    by (simp add: cid_encoding_def)
  from at_bytes_take [OF this] show ?thesis
    using hd len assms(2) by (simp add: read_connection_id_def cid_encoding_def Let_def)
qed

lemma append_varint_to_packet_Some [simp]:
  "append_varint_to_packet output v = Some out \<longleftrightarrow> v \<le> max_varint \<and> out = output @ varint_bytes v"
  using varint_len_bounds(2) [of v] encode_varint_ok [of v "replicate 8 0"]
    encode_varint_fail [of v "replicate 8 0"]
  by (cases "v \<le> max_varint") (auto simp: append_varint_to_packet_def)

lemma read_packet_varint_at_bytes [codec_simps]:
  assumes "at_bytes input offset (varint_bytes v @ rest)" and "v \<le> max_varint"
  shows "read_packet_varint_at input offset = Some (v, offset + varint_len v)"
  using assms by (simp add: read_packet_varint_at_def at_bytes_def decode_varint_bytes)

lemma read_versions_bytes:
  assumes "at_bytes input offset (concat (map u32_bytes vs))"
  shows "read_versions input offset acc = Some (acc @ vs)"
  using assms
proof (induction vs arbitrary: offset acc)
  case Nil
  then show ?case by (simp add: read_versions.simps [of input offset acc] at_bytes_def)
next
  case (Cons v vs)
  then have at: "at_bytes input offset (u32_bytes v @ concat (map u32_bytes vs))" by simp
  have "offset < length input" using at_bytes_length [OF at] by simp
  moreover have "at_bytes input (offset + 4) (concat (map u32_bytes vs))"
    using at_bytes_advance [OF at] by simp
  ultimately show ?case
    using Cons.IH [of "offset + 4" "acc @ [v]"] read_u32_bytes [OF at]
    by (simp add: read_versions.simps [of input offset acc])
qed

lemma foldl_append_u32: "foldl append_u32 out vs = out @ concat (map u32_bytes vs)"
  by (induction vs arbitrary: out) (auto simp: append_u32_eq)

section \<open>Round trips of the headers\<close>

text \<open>
  Headers a sender can build: the first byte of a long header carries the form bit, the fixed bit
  and the packet type; a short header carries the first byte its flags determine, and its packet
  number is already truncated.
\<close>

definition long_first_byte :: "byte \<Rightarrow> byte \<Rightarrow> bool" where
  "long_first_byte b ty \<longleftrightarrow> b AND 0x80 \<noteq> 0 \<and> b AND 0x40 \<noteq> 0 \<and> b AND 0x30 = ty"

fun header_wf :: "packet_header \<Rightarrow> bool" where
  "header_wf (VersionNegotiation h) \<longleftrightarrow> vn_first_byte h AND 0x80 \<noteq> 0"
| "header_wf (Initial h) \<longleftrightarrow> long_first_byte (ih_first_byte h) 0x00 \<and> ih_version h \<noteq> 0"
| "header_wf (Handshake h) \<longleftrightarrow> long_first_byte (hh_first_byte h) 0x20 \<and> hh_version h \<noteq> 0"
| "header_wf (Retry h) \<longleftrightarrow> long_first_byte (rh_first_byte h) 0x30 \<and> rh_version h \<noteq> 0"
| "header_wf (Short h) \<longleftrightarrow> sh_first_byte h = short_header_first_byte h \<and>
     sh_truncated_packet_number h < 256 ^ sh_packet_number_length h"

definition decode_header_like :: "packet_header \<Rightarrow> buffer \<Rightarrow> packet_header result" where
  "decode_header_like h input =
     (case h of Short s \<Rightarrow> decode_short_header input (length (cid_bytes (sh_destination_connection_id s)))
      | _ \<Rightarrow> decode_packet_header input)"

text \<open>The common prefix of every long header: first byte, version, two connection IDs.\<close>

lemma decode_long_prefix:
  assumes "length (cid_bytes d) \<le> 255" and "length (cid_bytes s) \<le> 255"
    and input: "input = b # u32_bytes v @ cid_encoding d @ cid_encoding s @ rest"
  defines "o2 \<equiv> 5 + length (cid_encoding d) + length (cid_encoding s)"
  shows "read_u32 input 1 = Some (v, 5)"
    and "do { (dcid, o1) \<leftarrow> read_connection_id input 5;
              (scid, o2) \<leftarrow> read_connection_id input o1; Some (dcid, scid, o2) } = Some (d, s, o2)"
    and "at_bytes input o2 rest"
proof -
  have a1: "at_bytes input 1 (u32_bytes v @ cid_encoding d @ cid_encoding s @ rest)"
    by (simp add: input at_bytes_def)
  then show "read_u32 input 1 = Some (v, 5)" using read_u32_bytes by fastforce
  have a2: "at_bytes input 5 (cid_encoding d @ cid_encoding s @ rest)"
    using at_bytes_advance [OF a1] by simp
  have a3: "at_bytes input (5 + length (cid_encoding d)) (cid_encoding s @ rest)"
    using at_bytes_advance [OF a2] by simp
  show "do { (dcid, o1) \<leftarrow> read_connection_id input 5;
             (scid, o2) \<leftarrow> read_connection_id input o1; Some (dcid, scid, o2) } = Some (d, s, o2)"
    using read_connection_id_encoding [OF a2 assms(1)] read_connection_id_encoding [OF a3 assms(2)]
    by (simp add: o2_def)
  show "at_bytes input o2 rest" using at_bytes_advance [OF a3] by (simp add: o2_def)
qed

lemma version_negotiation_roundtrip:
  assumes "encode_version_negotiation h = Inr bs" and "vn_first_byte h AND 0x80 \<noteq> 0"
  shows "decode_packet_header bs = Inr (VersionNegotiation h)"
proof -
  let ?d = "vn_destination_connection_id h" and ?s = "vn_source_connection_id h"
  let ?vs = "concat (map u32_bytes (vn_supported_versions h))"
  from assms(1) have ne: "vn_supported_versions h \<noteq> []"
    and len: "length (cid_bytes ?d) \<le> 255" "length (cid_bytes ?s) \<le> 255"
    and bs: "bs = vn_first_byte h # u32_bytes 0 @ cid_encoding ?d @ cid_encoding ?s @ ?vs"
    by (auto simp: encode_version_negotiation_def append_u32_eq foldl_append_u32 Let_def
        split: if_splits option.splits bind_splits)
  note p = decode_long_prefix [OF len bs]
  have l: "length ?vs = 4 * length (vn_supported_versions h)"
    by (simp add: length_concat comp_def sum_list_triv)
  show ?thesis
    using p(1) p(2) read_versions_bytes [OF p(3)] at_bytes_length [OF p(3)] assms(2) ne l bs
    by (simp add: decode_packet_header_def decode_version_negotiation_def)
qed

lemma initial_roundtrip:
  assumes "encode_initial h = Inr bs" and "long_first_byte (ih_first_byte h) 0x00" and "ih_version h \<noteq> 0"
  shows "decode_packet_header bs = Inr (Initial h)"
proof -
  let ?d = "ih_destination_connection_id h" and ?s = "ih_source_connection_id h"
  let ?t = "varint_bytes (length (ih_token h)) @ ih_token h"
  let ?p = "varint_bytes (ih_length h) @ ih_protected_payload h"
  from assms(1) have pl: "ih_length h = length (ih_protected_payload h)"
    and v: "length (ih_token h) \<le> max_varint" "ih_length h \<le> max_varint"
    and len: "length (cid_bytes ?d) \<le> 255" "length (cid_bytes ?s) \<le> 255"
    and bs: "bs = ih_first_byte h # u32_bytes (ih_version h) @ cid_encoding ?d @ cid_encoding ?s @ ?t @ ?p"
    by (auto simp: encode_initial_def append_u32_eq Let_def split: if_splits option.splits bind_splits)
  note p = decode_long_prefix [OF len bs]
  let ?o = "5 + length (cid_encoding ?d) + length (cid_encoding ?s)"
  have a1: "at_bytes bs ?o (varint_bytes (length (ih_token h)) @ ih_token h @ ?p)" using p(3) by simp
  have a2: "at_bytes bs (?o + varint_len (length (ih_token h))) (ih_token h @ ?p)"
    using at_bytes_advance [OF a1] by simp
  have a3: "at_bytes bs (?o + varint_len (length (ih_token h)) + length (ih_token h)) ?p"
    using at_bytes_advance [OF a2] by simp
  have a4: "at_bytes bs (?o + varint_len (length (ih_token h)) + length (ih_token h) + varint_len (ih_length h))
      (ih_protected_payload h)"
    using at_bytes_advance [OF a3] by simp
  have init: "decode_initial (ih_first_byte h) (ih_version h) ?d ?s bs ?o = Inr (Initial h)"
    using read_packet_varint_at_bytes [OF a1 v(1)] read_packet_varint_at_bytes [OF a3 v(2)]
      at_bytes_take [OF a2] at_bytes_drop [OF a4] pl at_bytes_length [OF a2] at_bytes_length [OF a4]
    by (simp add: decode_initial_def)
  show ?thesis
    using p(1,2) init assms(2,3) bs
    by (simp add: decode_packet_header_def long_first_byte_def)
qed

lemma handshake_roundtrip:
  assumes "encode_handshake h = Inr bs" and "long_first_byte (hh_first_byte h) 0x20" and "hh_version h \<noteq> 0"
  shows "decode_packet_header bs = Inr (Handshake h)"
proof -
  let ?d = "hh_destination_connection_id h" and ?s = "hh_source_connection_id h"
  from assms(1) have pl: "hh_length h = length (hh_protected_payload h)" and v: "hh_length h \<le> max_varint"
    and len: "length (cid_bytes ?d) \<le> 255" "length (cid_bytes ?s) \<le> 255"
    and bs: "bs = hh_first_byte h # u32_bytes (hh_version h) @ cid_encoding ?d @ cid_encoding ?s @
      varint_bytes (hh_length h) @ hh_protected_payload h"
    by (auto simp: encode_handshake_def append_u32_eq Let_def split: if_splits option.splits bind_splits)
  note p = decode_long_prefix [OF len bs]
  let ?o = "5 + length (cid_encoding ?d) + length (cid_encoding ?s)"
  have a: "at_bytes bs (?o + varint_len (hh_length h)) (hh_protected_payload h)"
    using at_bytes_advance [OF p(3)] by simp
  have "decode_handshake (hh_first_byte h) (hh_version h) ?d ?s bs ?o = Inr (Handshake h)"
    using read_packet_varint_at_bytes [OF p(3) v] at_bytes_drop [OF a] pl at_bytes_length [OF a]
    by (simp add: decode_handshake_def)
  then show ?thesis
    using p(1,2) assms(2,3) bs by (simp add: decode_packet_header_def long_first_byte_def)
qed

lemma retry_roundtrip:
  assumes "encode_retry h = Inr bs" and "long_first_byte (rh_first_byte h) 0x30" and "rh_version h \<noteq> 0"
  shows "decode_packet_header bs = Inr (Retry h)"
proof -
  let ?d = "rh_destination_connection_id h" and ?s = "rh_source_connection_id h"
  from assms(1) have ne: "rh_opaque_retry_tail h \<noteq> []"
    and len: "length (cid_bytes ?d) \<le> 255" "length (cid_bytes ?s) \<le> 255"
    and bs: "bs = rh_first_byte h # u32_bytes (rh_version h) @ cid_encoding ?d @ cid_encoding ?s @
      rh_opaque_retry_tail h"
    by (auto simp: encode_retry_def append_u32_eq Let_def split: if_splits option.splits bind_splits)
  note p = decode_long_prefix [OF len bs]
  let ?o = "5 + length (cid_encoding ?d) + length (cid_encoding ?s)"
  have "decode_retry (rh_first_byte h) (rh_version h) ?d ?s bs ?o = Inr (Retry h)"
    using at_bytes_drop [OF p(3)] at_bytes_length [OF p(3)] ne by (simp add: decode_retry_def)
  then show ?thesis
    using p(1,2) assms(2,3) bs by (simp add: decode_packet_header_def long_first_byte_def)
qed

lemma packet_number_bytes_be: "packet_number_bytes pn len = be_bytes len pn"
proof (induction len)
  case 0
  then show ?case by (simp add: packet_number_bytes_def)
next
  case (Suc n)
  have "map (\<lambda>i. to_byte (drop_bit ((Suc n - 1 - i) * 8) pn AND 0xff)) [1..<Suc n] = packet_number_bytes pn n"
    unfolding packet_number_bytes_def
    by (rule nth_equalityI) (simp_all del: upt_Suc)
  moreover have "to_byte (drop_bit (n * 8) pn AND 0xff) = to_byte (pn div 256 ^ n)"
    by (simp add: codec_simps drop_bit_eq_div power_mult mult.commute [of n 8])
  ultimately show ?case
    using Suc by (simp add: packet_number_bytes_def upt_conv_Cons del: upt_Suc)
qed

lemma foldl_shl_be:
  assumes "length bs \<le> 4"
  shows "foldl (\<lambda>value b. u64_shl value 8 OR unat b) 0 bs = be_val bs"
proof -
  have "be_val bs < 256 ^ length bs" by (rule be_val_less)
  also have "\<dots> \<le> 256 ^ 4" using assms by (intro power_increasing) auto
  finally show ?thesis using varint_loop_be [of 0 bs] by (simp add: varint_loop_def)
qed

lemma short_first_byte_fields:
  assumes "sh_fixed_bit h" and "valid_packet_number_length (sh_packet_number_length h)"
  shows "short_header_first_byte h AND 0x80 = 0" and "short_header_first_byte h AND 0x40 \<noteq> 0"
    and "short_header_first_byte h AND 0x20 \<noteq> 0 \<longleftrightarrow> sh_spin_bit h"
    and "short_header_first_byte h AND 0x04 \<noteq> 0 \<longleftrightarrow> sh_key_phase h"
    and "Suc (unat (short_header_first_byte h AND 0x03)) = sh_packet_number_length h"
proof -
  from assms(2) consider "sh_packet_number_length h = 1" | "sh_packet_number_length h = 2"
    | "sh_packet_number_length h = 3" | "sh_packet_number_length h = 4"
    unfolding valid_packet_number_length_def by linarith
  then have "short_header_first_byte h AND 0x80 = 0 \<and> short_header_first_byte h AND 0x40 \<noteq> 0 \<and>
    (short_header_first_byte h AND 0x20 \<noteq> 0 \<longleftrightarrow> sh_spin_bit h) \<and>
    (short_header_first_byte h AND 0x04 \<noteq> 0 \<longleftrightarrow> sh_key_phase h) \<and>
    Suc (unat (short_header_first_byte h AND 0x03)) = sh_packet_number_length h"
    using assms(1)
    by cases (cases "sh_spin_bit h"; cases "sh_key_phase h";
        simp add: short_header_first_byte_def u64_sub_exact to_byte_def)+
  then show "short_header_first_byte h AND 0x80 = 0" and "short_header_first_byte h AND 0x40 \<noteq> 0"
    and "short_header_first_byte h AND 0x20 \<noteq> 0 \<longleftrightarrow> sh_spin_bit h"
    and "short_header_first_byte h AND 0x04 \<noteq> 0 \<longleftrightarrow> sh_key_phase h"
    and "Suc (unat (short_header_first_byte h AND 0x03)) = sh_packet_number_length h"
    by blast+
qed

lemma short_roundtrip:
  assumes "encode_short h = Inr bs" and "header_wf (Short h)"
  shows "decode_short_header bs (length (cid_bytes (sh_destination_connection_id h))) = Inr (Short h)"
proof -
  let ?d = "cid_bytes (sh_destination_connection_id h)" and ?n = "sh_packet_number_length h"
  let ?pn = "be_bytes ?n (sh_truncated_packet_number h)"
  from assms(1) have fixed: "sh_fixed_bit h" and valid: "valid_packet_number_length ?n"
    and bs: "bs = short_header_first_byte h # ?d @ ?pn @ sh_protected_payload h"
    by (auto simp: encode_short_def encode_packet_number_def packet_number_bytes_be
        valid_packet_number_length_def split: if_splits)
  note f = short_first_byte_fields [OF fixed valid]
  have n: "?n \<le> 4" using valid by (simp add: valid_packet_number_length_def)
  have "read_truncated_packet_number bs (Suc (length ?d)) ?n = Inr (sh_truncated_packet_number h)"
    using valid n assms(2) foldl_shl_be [of ?pn]
    by (simp add: read_truncated_packet_number_def bs be_val_be_bytes)
  then show ?thesis
    using f fixed valid assms(2) by (simp add: decode_short_header_def bs)
qed

section \<open>Properties\<close>

text \<open>C24: a packet number sent with the length that \<open>select_packet_number_length\<close> chooses is
  recovered exactly by \<open>decode_packet_number\<close> from its truncation, as long as the receiver has seen
  everything it acknowledged and the packet is not more than half a window older than the largest
  packet it received.  It holds up to the largest packet number \<open>2 ^ 62 - 1\<close>.\<close>

theorem packet_number_recovery:
  assumes "select_packet_number_length pn largest_acknowledged = Inr len"
    and "pn \<le> max_varint"
    and "largest_acknowledged \<le> largest_received" and "largest_received \<le> max_varint"
    and "largest_received + 1 < pn + 2 ^ (8 * len - 1)"
  shows "decode_packet_number (pn mod 2 ^ (8 * len)) len largest_received = Inr pn"
proof -
  have gt: "largest_acknowledged < pn" and sel: "select_length_from 1 (pn - largest_acknowledged) = Inr len"
    using assms(1,2) by (auto simp: select_packet_number_length_def u64_sub_exact max_varint_def split: if_splits)
  from select_length_from_Inr [OF sel] assms(2) have len: "1 \<le> len" "len \<le> 4"
    and gap: "(pn - largest_acknowledged) * 2 < 2 ^ (8 * len)"
    by (auto simp: max_varint_def)
  define h where "h = (2::nat) ^ (8 * len - 1)"
  have W: "2 ^ (8 * len) = 2 * h" "0 < h"
    using len power_Suc [of "2::nat" "8 * len - 1"] by (simp_all add: h_def)
  have mod: "max_varint mod 2 ^ (8 * len) = 2 ^ (8 * len) - 1"
  proof -
    from len consider "len = 1" | "len = 2" | "len = 3" | "len = 4" by linarith
    then show ?thesis by cases (simp_all add: max_varint_def)
  qed
  have lr: "largest_received < 2 ^ 62" using assms(4) by (simp add: max_varint_def)
  have dec: "decode_packet_number (pn mod 2 ^ (8 * len)) len largest_received =
    Inr (let c = (largest_received + 1) div 2 ^ (8 * len) * 2 ^ (8 * len) + pn mod 2 ^ (8 * len)
         in if c + 2 ^ (8 * len) div 2 \<le> largest_received + 1 \<and> c + 2 ^ (8 * len) < max_varint
            then c + 2 ^ (8 * len)
            else if c > largest_received + 1 + 2 ^ (8 * len) div 2 \<and> c \<ge> 2 ^ (8 * len)
            then c - 2 ^ (8 * len) else c)"
    unfolding Let_def by (rule decode_packet_number_candidate [OF lr len]) simp
  have "pn \<le> largest_received + 1 + h" using gap gt assms(3) W by linarith
  moreover have "largest_received + 1 < pn + h" using assms(5) by (simp add: h_def)
  moreover have half: "(2::nat) ^ (8 * len) div 2 = h" using W(1) by simp
  ultimately show ?thesis
    unfolding dec Let_def half
    using closest_number [OF W(1,2) _ _ assms(2) mod] by (simp only:)
qed

theorem packet_number_recovery_witness:
  "select_packet_number_length 0xac5c02 0xabe8b3 = Inr 2 \<and>
   decode_packet_number (0xac5c02 mod 2 ^ (8 * 2)) 2 0xabe8b3 = Inr 0xac5c02"
proof -
  have sel: "select_packet_number_length 0xac5c02 0xabe8b3 = Inr 2"
    by (simp add: select_packet_number_length_def select_length_from.simps u64_sub_exact u64_mul_def
        u64_shl_def push_bit_eq_mult)
  show ?thesis
    using sel packet_number_recovery [OF sel] by (simp add: max_varint_def)
qed

text \<open>C25: every well-formed header that encodes successfully decodes to itself, for all five
  packet header kinds, with the short header decoded at its own connection ID length.\<close>

theorem packet_header_roundtrip:
  assumes "encode_packet_header h = Inr bs" and "header_wf h"
  shows "decode_header_like h bs = Inr h"
  using assms version_negotiation_roundtrip initial_roundtrip handshake_roundtrip retry_roundtrip
    short_roundtrip
  by (cases h) (auto simp: decode_header_like_def)

theorem packet_header_roundtrip_witness:
  "\<exists>bs. encode_packet_header (Short \<lparr>sh_first_byte = 0x61,
      sh_destination_connection_id = \<lparr>cid_bytes = [1, 2, 3, 4]\<rparr>, sh_fixed_bit = True,
      sh_spin_bit = True, sh_key_phase = False, sh_packet_number_length = 2,
      sh_truncated_packet_number = 4660, sh_protected_payload = [7, 8, 9]\<rparr>) = Inr bs \<and>
    bs = [0x61, 1, 2, 3, 4, 0x12, 0x34, 7, 8, 9] \<and>
    decode_header_like (Short \<lparr>sh_first_byte = 0x61,
      sh_destination_connection_id = \<lparr>cid_bytes = [1, 2, 3, 4]\<rparr>, sh_fixed_bit = True,
      sh_spin_bit = True, sh_key_phase = False, sh_packet_number_length = 2,
      sh_truncated_packet_number = 4660, sh_protected_payload = [7, 8, 9]\<rparr>) bs = Inr (Short \<lparr>sh_first_byte = 0x61,
      sh_destination_connection_id = \<lparr>cid_bytes = [1, 2, 3, 4]\<rparr>, sh_fixed_bit = True,
      sh_spin_bit = True, sh_key_phase = False, sh_packet_number_length = 2,
      sh_truncated_packet_number = 4660, sh_protected_payload = [7, 8, 9]\<rparr>)"
proof -
  let ?h = "Short \<lparr>sh_first_byte = 0x61,
      sh_destination_connection_id = \<lparr>cid_bytes = [1, 2, 3, 4]\<rparr>, sh_fixed_bit = True,
      sh_spin_bit = True, sh_key_phase = False, sh_packet_number_length = 2,
      sh_truncated_packet_number = 4660, sh_protected_payload = [7, 8, 9]\<rparr>"
  have enc: "encode_packet_header ?h = Inr [0x61, 1, 2, 3, 4, 0x12, 0x34, 7, 8, 9]"
    by (simp add: encode_short_def valid_packet_number_length_def encode_packet_number_def
        packet_number_bytes_def short_header_first_byte_def u64_sub_exact to_byte_def upt_rec)
  have wf: "header_wf ?h" by (simp add: short_header_first_byte_def u64_sub_exact to_byte_def)
  show ?thesis
    using enc packet_header_roundtrip [OF enc wf] by blast
qed

end
