(* ===== verification/Frame.thy ===== *)
theory Frame
  imports PacketHeader
begin

text \<open>
  QUIC frames, \<open>src/include/flowq/quic/frame.hpp\<close>: the frame structs, one encoder per frame kind,
  and the decoder of a packet payload into a frame sequence.  Each branch of \<open>decode_frames\<close> is a
  definition of its own that takes the offset after the frame type.
\<close>

section \<open>Frames\<close>

record connection_close_frame =
  cc_error_code :: u64
  cc_frame_type :: u64
  cc_reason :: string

record application_close_frame =
  ac_error_code :: u64
  ac_reason :: string

record reset_stream_frame =
  rs_stream_id :: u64
  rs_application_error_code :: u64
  rs_final_size :: u64

record stop_sending_frame =
  ss_stream_id :: u64
  ss_application_error_code :: u64

record ack_range =
  ar_gap :: u64
  ar_length :: u64

record ack_ecn_counts =
  ecn_ect0 :: u64
  ecn_ect1 :: u64
  ecn_ce :: u64

record ack_frame =
  af_largest_acknowledged :: u64
  af_ack_delay :: u64
  af_first_ack_range :: u64
  af_ranges :: "ack_range list"
  af_ecn_counts :: "ack_ecn_counts option"

record crypto_frame =
  cf_offset :: u64
  cf_data :: buffer

record new_token_frame =
  nt_token :: buffer

record stream_frame =
  sf_stream_id :: u64
  sf_offset :: u64
  sf_offset_present :: bool
  sf_length_present :: bool
  sf_fin :: bool
  sf_data :: buffer

record max_stream_data_frame =
  msd_stream_id :: u64
  msd_maximum_stream_data :: u64

record stream_data_blocked_frame =
  sdb_stream_id :: u64
  sdb_maximum_stream_data :: u64

datatype stream_direction = Bidirectional | Unidirectional

record max_streams_frame =
  ms_direction :: stream_direction
  ms_maximum_streams :: u64

record streams_blocked_frame =
  sb_direction :: stream_direction
  sb_maximum_streams :: u64

record new_connection_id_frame =
  nci_sequence_number :: u64
  nci_retire_prior_to :: u64
  nci_conn_id :: connection_id
  nci_stateless_reset_token :: buffer

text \<open>\<open>padding_frame\<close>, \<open>max_data_frame\<close>, \<open>data_blocked_frame\<close>, \<open>retire_connection_id_frame\<close> and the two
  path frames have one field, which the constructor carries.  The fixed array
  \<open>std::array<std::byte, 8>\<close> of the path frames is a byte list.\<close>

datatype frame =
    PaddingFrame nat
  | PingFrame
  | ConnectionCloseFrame connection_close_frame
  | ApplicationCloseFrame application_close_frame
  | ResetStreamFrame reset_stream_frame
  | StopSendingFrame stop_sending_frame
  | AckFrame ack_frame
  | CryptoFrame crypto_frame
  | NewTokenFrame new_token_frame
  | StreamFrame stream_frame
  | MaxDataFrame u64
  | MaxStreamDataFrame max_stream_data_frame
  | DataBlockedFrame u64
  | StreamDataBlockedFrame stream_data_blocked_frame
  | MaxStreamsFrame max_streams_frame
  | StreamsBlockedFrame streams_blocked_frame
  | NewConnectionIdFrame new_connection_id_frame
  | RetireConnectionIdFrame u64
  | HandshakeDoneFrame
  | PathChallengeFrame buffer
  | PathResponseFrame buffer

section \<open>Encoders\<close>

definition append_varint :: "buffer \<Rightarrow> u64 \<Rightarrow> buffer option" where
  "append_varint output value =
     (case encode_varint value (replicate 8 0) of
        Inl _ \<Rightarrow> None
      | Inr (n, encoded) \<Rightarrow> Some (output @ take n encoded))"

text \<open>A chain \<open>!append_varint(output, a) || !append_varint(output, b) || ...\<close>: \<open>None\<close> if any fails.\<close>

fun append_varints :: "buffer \<Rightarrow> u64 list \<Rightarrow> buffer option" where
  "append_varints output [] = Some output"
| "append_varints output (v # vs) =
     do { out \<leftarrow> append_varint output v; append_varints out vs }"

definition encode_connection_close :: "connection_close_frame \<Rightarrow> buffer result" where
  "encode_connection_close f =
     (case append_varints [] [0x1c, cc_error_code f, cc_frame_type f] of
        None \<Rightarrow> Inl (codec_error ''failed to encode CONNECTION_CLOSE frame'')
      | Some output \<Rightarrow>
          (case append_varint output (length (cc_reason f)) of
             None \<Rightarrow> Inl (codec_error ''failed to encode CONNECTION_CLOSE reason length'')
           | Some output \<Rightarrow> Inr (output @ map byte_of_char (cc_reason f))))"

definition encode_application_close :: "application_close_frame \<Rightarrow> buffer result" where
  "encode_application_close f =
     (case append_varints [] [0x1d, ac_error_code f] of
        None \<Rightarrow> Inl (codec_error ''failed to encode APPLICATION_CLOSE frame'')
      | Some output \<Rightarrow>
          (case append_varint output (length (ac_reason f)) of
             None \<Rightarrow> Inl (codec_error ''failed to encode APPLICATION_CLOSE reason length'')
           | Some output \<Rightarrow> Inr (output @ map byte_of_char (ac_reason f))))"

definition encode_reset_stream :: "reset_stream_frame \<Rightarrow> buffer result" where
  "encode_reset_stream f =
     (case append_varints [] [0x04, rs_stream_id f, rs_application_error_code f, rs_final_size f] of
        None \<Rightarrow> Inl (codec_error ''failed to encode RESET_STREAM frame'')
      | Some output \<Rightarrow> Inr output)"

definition encode_stop_sending :: "stop_sending_frame \<Rightarrow> buffer result" where
  "encode_stop_sending f =
     (case append_varints [] [0x05, ss_stream_id f, ss_application_error_code f] of
        None \<Rightarrow> Inl (codec_error ''failed to encode STOP_SENDING frame'')
      | Some output \<Rightarrow> Inr output)"

fun append_ack_ranges :: "buffer \<Rightarrow> ack_range list \<Rightarrow> buffer option" where
  "append_ack_ranges output [] = Some output"
| "append_ack_ranges output (r # rs) =
     (case append_varints output [ar_gap r, ar_length r] of
        None \<Rightarrow> None
      | Some output \<Rightarrow> append_ack_ranges output rs)"

definition encode_ack :: "ack_frame \<Rightarrow> buffer result" where
  "encode_ack f =
     (let type = (case af_ecn_counts f of Some _ \<Rightarrow> 0x03 | None \<Rightarrow> 0x02) in
      case append_varints [] [type, af_largest_acknowledged f, af_ack_delay f,
             length (af_ranges f), af_first_ack_range f] of
        None \<Rightarrow> Inl (codec_error ''failed to encode ACK frame'')
      | Some output \<Rightarrow>
          (case append_ack_ranges output (af_ranges f) of
             None \<Rightarrow> Inl (codec_error ''failed to encode ACK range'')
           | Some output \<Rightarrow>
               (case af_ecn_counts f of
                  None \<Rightarrow> Inr output
                | Some counts \<Rightarrow>
                    (case append_varints output [ecn_ect0 counts, ecn_ect1 counts, ecn_ce counts] of
                       None \<Rightarrow> Inl (codec_error ''failed to encode ACK ECN counts'')
                     | Some output \<Rightarrow> Inr output))))"

definition encode_crypto :: "crypto_frame \<Rightarrow> buffer result" where
  "encode_crypto f =
     (case append_varints [] [0x06, cf_offset f, length (cf_data f)] of
        None \<Rightarrow> Inl (codec_error ''failed to encode CRYPTO frame'')
      | Some output \<Rightarrow> Inr (output @ cf_data f))"

definition encode_new_token :: "new_token_frame \<Rightarrow> buffer result" where
  "encode_new_token f =
     (if nt_token f = [] then Inl (codec_error ''NEW_TOKEN token must not be empty'')
      else (case append_varints [] [0x07, length (nt_token f)] of
          None \<Rightarrow> Inl (codec_error ''failed to encode NEW_TOKEN frame'')
        | Some output \<Rightarrow> Inr (output @ nt_token f)))"

definition stream_type :: "stream_frame \<Rightarrow> u64" where
  "stream_type f = 0x08 OR (if sf_offset_present f then 0x04 else 0x00)
     OR (if sf_length_present f then 0x02 else 0x00) OR (if sf_fin f then 0x01 else 0x00)"

definition encode_stream :: "stream_frame \<Rightarrow> buffer result" where
  "encode_stream f =
     (case append_varints [] [stream_type f, sf_stream_id f] of
        None \<Rightarrow> Inl (codec_error ''failed to encode STREAM frame'')
      | Some output \<Rightarrow>
          (case (if sf_offset_present f then append_varint output (sf_offset f) else Some output) of
             None \<Rightarrow> Inl (codec_error ''failed to encode STREAM offset'')
           | Some output \<Rightarrow>
               (case (if sf_length_present f then append_varint output (length (sf_data f)) else Some output) of
                  None \<Rightarrow> Inl (codec_error ''failed to encode STREAM length'')
                | Some output \<Rightarrow> Inr (output @ sf_data f))))"

definition encode_single_limit_frame :: "u64 \<Rightarrow> u64 \<Rightarrow> string \<Rightarrow> buffer result" where
  "encode_single_limit_frame type maximum_data message =
     (case append_varints [] [type, maximum_data] of
        None \<Rightarrow> Inl (codec_error message)
      | Some output \<Rightarrow> Inr output)"

definition encode_stream_limit_frame :: "u64 \<Rightarrow> u64 \<Rightarrow> u64 \<Rightarrow> string \<Rightarrow> buffer result" where
  "encode_stream_limit_frame type stream_id maximum_stream_data message =
     (case append_varints [] [type, stream_id, maximum_stream_data] of
        None \<Rightarrow> Inl (codec_error message)
      | Some output \<Rightarrow> Inr output)"

definition encode_stream_count_frame ::
    "u64 \<Rightarrow> u64 \<Rightarrow> stream_direction \<Rightarrow> u64 \<Rightarrow> string \<Rightarrow> buffer result" where
  "encode_stream_count_frame bidirectional_type unidirectional_type direction maximum_streams message =
     (let type = (if direction = Bidirectional then bidirectional_type else unidirectional_type) in
      case append_varints [] [type, maximum_streams] of
        None \<Rightarrow> Inl (codec_error message)
      | Some output \<Rightarrow> Inr output)"

definition encode_new_connection_id :: "new_connection_id_frame \<Rightarrow> buffer result" where
  "encode_new_connection_id f =
     (if cid_bytes (nci_conn_id f) = [] \<or> length (cid_bytes (nci_conn_id f)) > 20
      then Inl (codec_error ''NEW_CONNECTION_ID connection ID length must be 1 to 20 bytes'')
      else if length (nci_stateless_reset_token f) \<noteq> 16
      then Inl (codec_error ''NEW_CONNECTION_ID stateless reset token must be 16 bytes'')
      else if nci_retire_prior_to f > nci_sequence_number f
      then Inl (codec_error ''NEW_CONNECTION_ID retire_prior_to must not exceed sequence_number'')
      else (case append_varints [] [0x18, nci_sequence_number f, nci_retire_prior_to f,
                   length (cid_bytes (nci_conn_id f))] of
          None \<Rightarrow> Inl (codec_error ''NEW_CONNECTION_ID failed to encode varints'')
        | Some output \<Rightarrow> Inr (output @ cid_bytes (nci_conn_id f) @ nci_stateless_reset_token f)))"

definition encode_path_validation_frame :: "u64 \<Rightarrow> buffer \<Rightarrow> string \<Rightarrow> buffer result" where
  "encode_path_validation_frame type data message =
     (case append_varints [] [type] of
        None \<Rightarrow> Inl (codec_error message)
      | Some output \<Rightarrow> Inr (output @ data))"

fun encode_frame :: "frame \<Rightarrow> buffer result" where
  "encode_frame (PaddingFrame n) = Inr (replicate n 0x00)"
| "encode_frame PingFrame = Inr [0x01]"
| "encode_frame (ConnectionCloseFrame f) = encode_connection_close f"
| "encode_frame (ApplicationCloseFrame f) = encode_application_close f"
| "encode_frame (ResetStreamFrame f) = encode_reset_stream f"
| "encode_frame (StopSendingFrame f) = encode_stop_sending f"
| "encode_frame (AckFrame f) = encode_ack f"
| "encode_frame (CryptoFrame f) = encode_crypto f"
| "encode_frame (NewTokenFrame f) = encode_new_token f"
| "encode_frame (StreamFrame f) = encode_stream f"
| "encode_frame (MaxDataFrame m) = encode_single_limit_frame 0x10 m ''failed to encode MAX_DATA frame''"
| "encode_frame (MaxStreamDataFrame f) =
     encode_stream_limit_frame 0x11 (msd_stream_id f) (msd_maximum_stream_data f)
       ''failed to encode MAX_STREAM_DATA frame''"
| "encode_frame (DataBlockedFrame m) =
     encode_single_limit_frame 0x14 m ''failed to encode DATA_BLOCKED frame''"
| "encode_frame (StreamDataBlockedFrame f) =
     encode_stream_limit_frame 0x15 (sdb_stream_id f) (sdb_maximum_stream_data f)
       ''failed to encode STREAM_DATA_BLOCKED frame''"
| "encode_frame (MaxStreamsFrame f) =
     encode_stream_count_frame 0x12 0x13 (ms_direction f) (ms_maximum_streams f)
       ''failed to encode MAX_STREAMS frame''"
| "encode_frame (StreamsBlockedFrame f) =
     encode_stream_count_frame 0x16 0x17 (sb_direction f) (sb_maximum_streams f)
       ''failed to encode STREAMS_BLOCKED frame''"
| "encode_frame (NewConnectionIdFrame f) = encode_new_connection_id f"
| "encode_frame (RetireConnectionIdFrame n) =
     encode_single_limit_frame 0x19 n ''failed to encode RETIRE_CONNECTION_ID frame''"
| "encode_frame HandshakeDoneFrame = Inr [0x1e]"
| "encode_frame (PathChallengeFrame data) =
     encode_path_validation_frame 0x1a data ''failed to encode PATH_CHALLENGE frame''"
| "encode_frame (PathResponseFrame data) =
     encode_path_validation_frame 0x1b data ''failed to encode PATH_RESPONSE frame''"

section \<open>Decoders\<close>

definition read_varint_at :: "buffer \<Rightarrow> nat \<Rightarrow> (u64 \<times> nat) option" where
  "read_varint_at input offset =
     (case decode_varint (drop offset input) of
        Inl _ \<Rightarrow> None
      | Inr (value, n) \<Rightarrow> Some (value, offset + n))"

definition read_path_validation_data :: "buffer \<Rightarrow> nat \<Rightarrow> (buffer \<times> nat) option" where
  "read_path_validation_data input offset =
     (if length input - offset < 8 then None
      else Some (map (\<lambda>index. input ! (offset + index)) [0..<8], offset + 8))"

text \<open>The padding loop: how many zero bytes follow at the offset.\<close>

function count_padding :: "buffer \<Rightarrow> nat \<Rightarrow> nat \<Rightarrow> nat \<times> nat" where
  "count_padding input offset count =
     (if offset < length input \<and> input ! offset = 0x00
      then count_padding input (Suc offset) (Suc count)
      else (count, offset))"
  by pat_completeness auto
termination
  by (relation "measure (\<lambda>(input, offset, _). length input - offset)") auto

declare count_padding.simps [simp del]

definition read_ack_range :: "buffer \<Rightarrow> nat \<Rightarrow> (ack_range \<times> nat) option" where
  "read_ack_range input offset =
     do { (gap, o1) \<leftarrow> read_varint_at input offset;
          (len, o2) \<leftarrow> read_varint_at input o1;
          Some (\<lparr>ar_gap = gap, ar_length = len\<rparr>, o2) }"

definition read_ecn_counts :: "buffer \<Rightarrow> nat \<Rightarrow> (ack_ecn_counts \<times> nat) option" where
  "read_ecn_counts input offset =
     do { (a, o1) \<leftarrow> read_varint_at input offset;
          (b, o2) \<leftarrow> read_varint_at input o1;
          (c, o3) \<leftarrow> read_varint_at input o2;
          Some (\<lparr>ecn_ect0 = a, ecn_ect1 = b, ecn_ce = c\<rparr>, o3) }"

definition decode_ack :: "u64 \<Rightarrow> buffer \<Rightarrow> nat \<Rightarrow> (frame \<times> nat) result" where
  "decode_ack type input offset =
     (case do { (largest, o1) \<leftarrow> read_varint_at input offset;
                (delay, o2) \<leftarrow> read_varint_at input o1;
                (range_count, o3) \<leftarrow> read_varint_at input o2;
                (first_range, o4) \<leftarrow> read_varint_at input o3;
                Some (largest, delay, range_count, first_range, o4) } of
        None \<Rightarrow> Inl (codec_error ''truncated ACK frame'')
      | Some (largest, delay, range_count, first_range, offset) \<Rightarrow>
          if range_count > (length input - offset) div 2
          then Inl (codec_error ''truncated ACK range'')
          else (case read_list read_ack_range range_count input offset of
              None \<Rightarrow> Inl (codec_error ''truncated ACK range'')
            | Some (ranges, offset) \<Rightarrow>
                if type = 0x03 then
                  (case read_ecn_counts input offset of
                     None \<Rightarrow> Inl (codec_error ''truncated ACK ECN counts'')
                   | Some (counts, offset) \<Rightarrow> Inr (AckFrame
                       \<lparr>af_largest_acknowledged = largest, af_ack_delay = delay,
                        af_first_ack_range = first_range, af_ranges = ranges,
                        af_ecn_counts = Some counts\<rparr>, offset))
                else Inr (AckFrame
                  \<lparr>af_largest_acknowledged = largest, af_ack_delay = delay,
                   af_first_ack_range = first_range, af_ranges = ranges,
                   af_ecn_counts = None\<rparr>, offset)))"

definition decode_reset_stream :: "buffer \<Rightarrow> nat \<Rightarrow> (frame \<times> nat) result" where
  "decode_reset_stream input offset =
     (case do { (sid, o1) \<leftarrow> read_varint_at input offset;
                (code, o2) \<leftarrow> read_varint_at input o1;
                (fsize, o3) \<leftarrow> read_varint_at input o2;
                Some (sid, code, fsize, o3) } of
        None \<Rightarrow> Inl (codec_error ''truncated RESET_STREAM frame'')
      | Some (sid, code, fsize, offset) \<Rightarrow> Inr (ResetStreamFrame
          \<lparr>rs_stream_id = sid, rs_application_error_code = code, rs_final_size = fsize\<rparr>, offset))"

definition decode_stop_sending :: "buffer \<Rightarrow> nat \<Rightarrow> (frame \<times> nat) result" where
  "decode_stop_sending input offset =
     (case do { (sid, o1) \<leftarrow> read_varint_at input offset;
                (code, o2) \<leftarrow> read_varint_at input o1;
                Some (sid, code, o2) } of
        None \<Rightarrow> Inl (codec_error ''truncated STOP_SENDING frame'')
      | Some (sid, code, offset) \<Rightarrow> Inr (StopSendingFrame
          \<lparr>ss_stream_id = sid, ss_application_error_code = code\<rparr>, offset))"

definition decode_crypto :: "buffer \<Rightarrow> nat \<Rightarrow> (frame \<times> nat) result" where
  "decode_crypto input offset =
     (case do { (coff, o1) \<leftarrow> read_varint_at input offset;
                (len, o2) \<leftarrow> read_varint_at input o1;
                Some (coff, len, o2) } of
        None \<Rightarrow> Inl (codec_error ''truncated CRYPTO frame'')
      | Some (coff, len, offset) \<Rightarrow>
          if len > length input - offset then Inl (codec_error ''truncated CRYPTO data'')
          else Inr (CryptoFrame \<lparr>cf_offset = coff, cf_data = take len (drop offset input)\<rparr>, offset + len))"

definition decode_new_token :: "buffer \<Rightarrow> nat \<Rightarrow> (frame \<times> nat) result" where
  "decode_new_token input offset =
     (case read_varint_at input offset of
        None \<Rightarrow> Inl (codec_error ''truncated NEW_TOKEN frame'')
      | Some (len, offset) \<Rightarrow>
          if len = 0 then Inl (codec_error ''NEW_TOKEN token must not be empty'')
          else if len > length input - offset then Inl (codec_error ''truncated NEW_TOKEN token'')
          else Inr (NewTokenFrame \<lparr>nt_token = take len (drop offset input)\<rparr>, offset + len))"

definition decode_stream :: "u64 \<Rightarrow> buffer \<Rightarrow> nat \<Rightarrow> (frame \<times> nat) result" where
  "decode_stream type input offset =
     (case read_varint_at input offset of
        None \<Rightarrow> Inl (codec_error ''truncated STREAM id'')
      | Some (sid, offset) \<Rightarrow>
          let offset_present = (type AND 0x04 \<noteq> 0); length_present = (type AND 0x02 \<noteq> 0);
              fin = (type AND 0x01 \<noteq> 0)
          in (case (if offset_present then read_varint_at input offset else Some (0, offset)) of
                None \<Rightarrow> Inl (codec_error ''truncated STREAM offset'')
              | Some (stream_offset, offset) \<Rightarrow>
                  (case (if length_present then read_varint_at input offset
                         else Some (length input - offset, offset)) of
                     None \<Rightarrow> Inl (codec_error ''truncated STREAM length'')
                   | Some (len, offset) \<Rightarrow>
                       if len > length input - offset
                       then Inl (codec_error ''truncated STREAM data'')
                       else Inr (StreamFrame
                         \<lparr>sf_stream_id = sid, sf_offset = stream_offset,
                          sf_offset_present = offset_present, sf_length_present = length_present,
                          sf_fin = fin, sf_data = take len (drop offset input)\<rparr>, offset + len))))"

definition decode_limit :: "(u64 \<Rightarrow> frame) \<Rightarrow> string \<Rightarrow> buffer \<Rightarrow> nat \<Rightarrow> (frame \<times> nat) result" where
  "decode_limit mk message input offset =
     (case read_varint_at input offset of
        None \<Rightarrow> Inl (codec_error message)
      | Some (limit, offset) \<Rightarrow> Inr (mk limit, offset))"

definition decode_stream_limit ::
    "(u64 \<Rightarrow> u64 \<Rightarrow> frame) \<Rightarrow> string \<Rightarrow> buffer \<Rightarrow> nat \<Rightarrow> (frame \<times> nat) result" where
  "decode_stream_limit mk message input offset =
     (case do { (sid, o1) \<leftarrow> read_varint_at input offset;
                (limit, o2) \<leftarrow> read_varint_at input o1;
                Some (sid, limit, o2) } of
        None \<Rightarrow> Inl (codec_error message)
      | Some (sid, limit, offset) \<Rightarrow> Inr (mk sid limit, offset))"

definition decode_new_connection_id :: "buffer \<Rightarrow> nat \<Rightarrow> (frame \<times> nat) result" where
  "decode_new_connection_id input offset =
     (case do { (seq, o1) \<leftarrow> read_varint_at input offset;
                (retire, o2) \<leftarrow> read_varint_at input o1;
                (len, o3) \<leftarrow> read_varint_at input o2;
                Some (seq, retire, len, o3) } of
        None \<Rightarrow> Inl (codec_error ''truncated NEW_CONNECTION_ID frame'')
      | Some (seq, retire, len, offset) \<Rightarrow>
          if retire > seq
          then Inl (codec_error ''NEW_CONNECTION_ID retire_prior_to must not exceed sequence_number'')
          else if len = 0 \<or> len > 20
          then Inl (codec_error ''NEW_CONNECTION_ID connection ID length must be 1 to 20 bytes'')
          else if len + 16 > length input - offset
          then Inl (codec_error ''truncated NEW_CONNECTION_ID frame'')
          else Inr (NewConnectionIdFrame
            \<lparr>nci_sequence_number = seq, nci_retire_prior_to = retire,
             nci_conn_id = \<lparr>cid_bytes = take len (drop offset input)\<rparr>,
             nci_stateless_reset_token = take 16 (drop (offset + len) input)\<rparr>, offset + len + 16))"

definition decode_path :: "(buffer \<Rightarrow> frame) \<Rightarrow> string \<Rightarrow> buffer \<Rightarrow> nat \<Rightarrow> (frame \<times> nat) result" where
  "decode_path mk message input offset =
     (case read_path_validation_data input offset of
        None \<Rightarrow> Inl (codec_error message)
      | Some (data, offset) \<Rightarrow> Inr (mk data, offset))"

definition read_reason :: "nat \<Rightarrow> buffer \<Rightarrow> nat \<Rightarrow> string" where
  "read_reason n input offset = map char_of_byte (take n (drop offset input))"

definition decode_connection_close :: "buffer \<Rightarrow> nat \<Rightarrow> (frame \<times> nat) result" where
  "decode_connection_close input offset =
     (case do { (code, o1) \<leftarrow> read_varint_at input offset;
                (ftype, o2) \<leftarrow> read_varint_at input o1;
                (n, o3) \<leftarrow> read_varint_at input o2;
                Some (code, ftype, n, o3) } of
        None \<Rightarrow> Inl (codec_error ''truncated CONNECTION_CLOSE frame'')
      | Some (code, ftype, n, offset) \<Rightarrow>
          if n > length input - offset
          then Inl (codec_error ''truncated CONNECTION_CLOSE reason phrase'')
          else Inr (ConnectionCloseFrame
            \<lparr>cc_error_code = code, cc_frame_type = ftype, cc_reason = read_reason n input offset\<rparr>,
            offset + n))"

definition decode_application_close :: "buffer \<Rightarrow> nat \<Rightarrow> (frame \<times> nat) result" where
  "decode_application_close input offset =
     (case do { (code, o1) \<leftarrow> read_varint_at input offset;
                (n, o2) \<leftarrow> read_varint_at input o1;
                Some (code, n, o2) } of
        None \<Rightarrow> Inl (codec_error ''truncated APPLICATION_CLOSE frame'')
      | Some (code, n, offset) \<Rightarrow>
          if n > length input - offset
          then Inl (codec_error ''truncated APPLICATION_CLOSE reason phrase'')
          else Inr (ApplicationCloseFrame
            \<lparr>ac_error_code = code, ac_reason = read_reason n input offset\<rparr>, offset + n))"

text \<open>One iteration of the decoding loop: the frame type and the branch it selects.\<close>

definition decode_typed_frame :: "u64 \<Rightarrow> buffer \<Rightarrow> nat \<Rightarrow> (frame \<times> nat) result" where
  "decode_typed_frame type input offset =
     (if type = 0x00 then
        (case count_padding input offset 1 of (count, offset) \<Rightarrow> Inr (PaddingFrame count, offset))
      else if type = 0x01 then Inr (PingFrame, offset)
      else if type = 0x02 \<or> type = 0x03 then decode_ack type input offset
      else if type = 0x04 then decode_reset_stream input offset
      else if type = 0x05 then decode_stop_sending input offset
      else if type = 0x06 then decode_crypto input offset
      else if type = 0x07 then decode_new_token input offset
      else if type \<ge> 0x08 \<and> type \<le> 0x0f then decode_stream type input offset
      else if type = 0x10 then decode_limit MaxDataFrame ''truncated MAX_DATA frame'' input offset
      else if type = 0x11 then decode_stream_limit
        (\<lambda>s m. MaxStreamDataFrame \<lparr>msd_stream_id = s, msd_maximum_stream_data = m\<rparr>)
        ''truncated MAX_STREAM_DATA frame'' input offset
      else if type = 0x14 then decode_limit DataBlockedFrame ''truncated DATA_BLOCKED frame'' input offset
      else if type = 0x15 then decode_stream_limit
        (\<lambda>s m. StreamDataBlockedFrame \<lparr>sdb_stream_id = s, sdb_maximum_stream_data = m\<rparr>)
        ''truncated STREAM_DATA_BLOCKED frame'' input offset
      else if type = 0x12 \<or> type = 0x13 then decode_limit
        (\<lambda>m. MaxStreamsFrame \<lparr>ms_direction = (if type = 0x12 then Bidirectional else Unidirectional),
                               ms_maximum_streams = m\<rparr>)
        ''truncated MAX_STREAMS frame'' input offset
      else if type = 0x16 \<or> type = 0x17 then decode_limit
        (\<lambda>m. StreamsBlockedFrame \<lparr>sb_direction = (if type = 0x16 then Bidirectional else Unidirectional),
                                   sb_maximum_streams = m\<rparr>)
        ''truncated STREAMS_BLOCKED frame'' input offset
      else if type = 0x18 then decode_new_connection_id input offset
      else if type = 0x19 then decode_limit RetireConnectionIdFrame
        ''truncated RETIRE_CONNECTION_ID frame'' input offset
      else if type = 0x1a then decode_path PathChallengeFrame ''truncated PATH_CHALLENGE frame'' input offset
      else if type = 0x1b then decode_path PathResponseFrame ''truncated PATH_RESPONSE frame'' input offset
      else if type = 0x1c then decode_connection_close input offset
      else if type = 0x1d then decode_application_close input offset
      else if type = 0x1e then Inr (HandshakeDoneFrame, offset)
      else Inl (codec_error ''unsupported QUIC frame type''))"

definition decode_frame_at :: "buffer \<Rightarrow> nat \<Rightarrow> (frame \<times> nat) result" where
  "decode_frame_at input offset =
     (case read_varint_at input offset of
        None \<Rightarrow> Inl (codec_error ''truncated QUIC frame type'')
      | Some (type, offset) \<Rightarrow> decode_typed_frame type input offset)"

section \<open>Progress and the decoding loop\<close>

lemma read_varint_at_progress:
  "read_varint_at input offset = Some (v, offset') \<Longrightarrow>
     offset < offset' \<and> offset' \<le> length input \<and> v \<le> max_varint"
  using decode_varint_bounds [of "drop offset input"]
  by (fastforce simp: read_varint_at_def split: sum.splits)

lemma read_ack_range_progress:
  "read_ack_range input offset = Some (r, offset') \<Longrightarrow> offset < offset' \<and> offset' \<le> length input"
  by (auto simp: read_ack_range_def split: bind_splits dest!: read_varint_at_progress)

lemma read_ecn_counts_progress:
  "read_ecn_counts input offset = Some (c, offset') \<Longrightarrow> offset < offset' \<and> offset' \<le> length input"
  by (auto simp: read_ecn_counts_def split: bind_splits dest!: read_varint_at_progress)

lemma read_list_progress:
  assumes "\<And>off x off'. rd input off = Some (x, off') \<Longrightarrow> off < off' \<and> off' \<le> length input"
  shows "read_list rd n input off = Some (xs, off') \<Longrightarrow> off \<le> length input \<Longrightarrow>
    off \<le> off' \<and> off' \<le> length input"
proof (induction n arbitrary: off xs off')
  case 0
  then show ?case by simp
next
  case (Suc n)
  then obtain x o1 ys where "rd input off = Some (x, o1)" "read_list rd n input o1 = Some (ys, off')"
    by (auto split: bind_splits)
  with Suc.IH [of o1 ys off'] assms [of off x o1] show ?case by auto
qed

lemma count_padding_progress:
  "count_padding input offset count = (c, offset') \<Longrightarrow> offset \<le> length input \<Longrightarrow>
    offset \<le> offset' \<and> offset' \<le> length input"
proof (induction input offset count rule: count_padding.induct)
  case (1 input offset count)
  then show ?case by (auto simp: count_padding.simps [of input offset count] split: if_splits)
qed

lemmas reader_progress = read_varint_at_progress read_ack_range_progress read_ecn_counts_progress

lemma decode_ack_progress:
  assumes "decode_ack type input offset = Inr (f, offset')"
  shows "offset \<le> offset' \<and> offset' \<le> length input"
  using assms
  by (auto simp: decode_ack_def split: option.splits if_splits bind_splits prod.splits
      dest!: reader_progress read_list_progress [where rd = read_ack_range, rotated])

lemmas decoder_defs = decode_reset_stream_def decode_stop_sending_def decode_crypto_def
  decode_new_token_def decode_stream_def decode_limit_def decode_stream_limit_def
  decode_new_connection_id_def decode_path_def decode_connection_close_def
  decode_application_close_def read_path_validation_data_def

lemma decode_typed_frame_progress:
  assumes "decode_typed_frame type input offset = Inr (f, offset')" and "offset \<le> length input"
  shows "offset \<le> offset' \<and> offset' \<le> length input"
proof -
  have pad: "count_padding input offset 1 = (c, offset') \<Longrightarrow> offset \<le> offset' \<and> offset' \<le> length input" for c
    using count_padding_progress assms(2) by blast
  have ack: "decode_ack type input offset = Inr (f, offset') \<Longrightarrow> offset \<le> offset' \<and> offset' \<le> length input"
    by (rule decode_ack_progress)
  have other: "decode_reset_stream input offset = Inr (f, offset') \<Longrightarrow> offset \<le> offset' \<and> offset' \<le> length input"
   "decode_stop_sending input offset = Inr (f, offset') \<Longrightarrow> offset \<le> offset' \<and> offset' \<le> length input"
   "decode_crypto input offset = Inr (f, offset') \<Longrightarrow> offset \<le> offset' \<and> offset' \<le> length input"
   "decode_new_token input offset = Inr (f, offset') \<Longrightarrow> offset \<le> offset' \<and> offset' \<le> length input"
   "decode_stream type input offset = Inr (f, offset') \<Longrightarrow> offset \<le> offset' \<and> offset' \<le> length input"
   "decode_new_connection_id input offset = Inr (f, offset') \<Longrightarrow> offset \<le> offset' \<and> offset' \<le> length input"
   "decode_connection_close input offset = Inr (f, offset') \<Longrightarrow> offset \<le> offset' \<and> offset' \<le> length input"
   "decode_application_close input offset = Inr (f, offset') \<Longrightarrow> offset \<le> offset' \<and> offset' \<le> length input"
    using assms(2)
    by (auto simp: decoder_defs Let_def not_less le_diff_conv2 split: option.splits if_splits bind_splits
        dest!: read_varint_at_progress)
  have params: "\<And>mk m. decode_limit mk m input offset = Inr (f, offset') \<Longrightarrow> offset \<le> offset' \<and> offset' \<le> length input"
   "\<And>mk m. decode_stream_limit mk m input offset = Inr (f, offset') \<Longrightarrow> offset \<le> offset' \<and> offset' \<le> length input"
   "\<And>mk m. decode_path mk m input offset = Inr (f, offset') \<Longrightarrow> offset \<le> offset' \<and> offset' \<le> length input"
    using assms(2)
    by (auto simp: decoder_defs Let_def split: option.splits if_splits bind_splits
        dest!: read_varint_at_progress)
  show ?thesis
    using assms unfolding decode_typed_frame_def
    by (simp split: if_splits prod.splits add: pad ack other params)
qed

lemma decode_frame_at_progress:
  assumes "decode_frame_at input offset = Inr (f, offset')"
  shows "offset < offset' \<and> offset' \<le> length input"
  using assms decode_typed_frame_progress
  by (fastforce simp: decode_frame_at_def split: option.splits dest: read_varint_at_progress)

function decode_frames_loop :: "buffer \<Rightarrow> nat \<Rightarrow> frame list \<Rightarrow> frame list result" where
  "decode_frames_loop input offset frames =
     (if offset < length input then
        (case decode_frame_at input offset of
           Inl e \<Rightarrow> Inl e
         | Inr (f, offset') \<Rightarrow> decode_frames_loop input offset' (frames @ [f]))
      else Inr frames)"
  by pat_completeness auto
termination
  by (relation "measure (\<lambda>(input, offset, _). length input - offset)")
    (auto dest!: decode_frame_at_progress)

declare decode_frames_loop.simps [simp del]

definition decode_frames :: "buffer \<Rightarrow> frame list result" where
  "decode_frames input =
     (if input = [] then Inl (codec_error ''QUIC packet payload contains no frames'')
      else decode_frames_loop input 0 [])"

section \<open>What the encoders write\<close>

lemma append_varint_eq [simp]:
  "append_varint out v = (if v \<le> max_varint then Some (out @ varint_bytes v) else None)"
  using varint_len_bounds(2) [of v] encode_varint_ok [of v "replicate 8 0"]
    encode_varint_fail [of v "replicate 8 0"]
  by (cases "v \<le> max_varint") (auto simp: append_varint_def)

lemma append_varints_eq [simp]:
  "append_varints out vs =
     (if list_all (\<lambda>v. v \<le> max_varint) vs then Some (out @ concat (map varint_bytes vs)) else None)"
  by (induction vs arbitrary: out) auto

definition ack_range_bytes :: "ack_range \<Rightarrow> buffer" where
  "ack_range_bytes r = varint_bytes (ar_gap r) @ varint_bytes (ar_length r)"

definition ack_range_valid :: "ack_range \<Rightarrow> bool" where
  "ack_range_valid r \<longleftrightarrow> ar_gap r \<le> max_varint \<and> ar_length r \<le> max_varint"

lemma append_ack_ranges_eq [simp]:
  "append_ack_ranges out rs =
     (if list_all ack_range_valid rs then Some (out @ concat (map ack_range_bytes rs)) else None)"
  by (induction rs arbitrary: out) (auto simp: ack_range_valid_def ack_range_bytes_def)

section \<open>Reading back\<close>

lemma drop_plus: "drop (a + b) xs = drop b (drop a xs)"
  by (simp add: add.commute)

interpretation varint_reader: cursor_codec varint_bytes "\<lambda>v. v \<le> max_varint" read_varint_at
  by unfold_locales (simp add: read_varint_at_def at_bytes_def codec_simps)

interpretation ack_range_reader: cursor_codec ack_range_bytes ack_range_valid read_ack_range
proof
  fix r input off rest
  assume v: "ack_range_valid r" and a: "at_bytes input off (ack_range_bytes r @ rest)"
  from a have "at_bytes input off (varint_bytes (ar_gap r) @ varint_bytes (ar_length r) @ rest)"
    by (simp add: ack_range_bytes_def)
  from varint_reader.rd_advance [OF _ this] v
  show "read_ack_range input off = Some (r, off + length (ack_range_bytes r))"
    using varint_reader.rd_enc [of "ar_length r" input _ rest]
    by (simp add: read_ack_range_def ack_range_valid_def ack_range_bytes_def)
qed

text \<open>The shape of a frame's encoding at a cursor, with the arithmetic the decoders need.\<close>

lemma at_bytes_frame:
  assumes "at_bytes input off (bs @ rest)"
  shows "drop off input = bs @ rest" and "length input = off + length bs + length rest"
  using assms at_bytes_length [OF assms] by (auto simp: at_bytes_def)

lemmas frame_decode_simps = decode_frame_at_def decode_typed_frame_def read_varint_at_def drop_plus
  decode_varint_bytes

lemma not_Bidirectional [simp]: "d \<noteq> Bidirectional \<longleftrightarrow> d = Unidirectional"
  by (cases d) auto

lemma small_varint [simp]: "n \<le> 63 \<Longrightarrow> n \<le> max_varint"
  by (simp add: max_varint_def)

lemma varint_bytes_small: "n \<le> 63 \<Longrightarrow> varint_bytes n = [to_byte n]"
  by (simp add: varint_bytes_expand)

lemma simple_frames_at:
  assumes "encode_frame fr = Inr bs" and "at_bytes input off (bs @ rest)"
  shows "fr = PingFrame \<Longrightarrow> decode_frame_at input off = Inr (fr, off + length bs)"
    and "fr = HandshakeDoneFrame \<Longrightarrow> decode_frame_at input off = Inr (fr, off + length bs)"
    and "fr = ResetStreamFrame f1 \<Longrightarrow> decode_frame_at input off = Inr (fr, off + length bs)"
    and "fr = StopSendingFrame f2 \<Longrightarrow> decode_frame_at input off = Inr (fr, off + length bs)"
proof -
  note at = at_bytes_frame [OF assms(2)]
  show "decode_frame_at input off = Inr (fr, off + length bs)" if "fr = PingFrame"
  proof -
    have "bs = varint_bytes 1" using assms(1) that by (simp add: varint_bytes_small to_byte_def)
    then show ?thesis using at(1) that by (simp add: frame_decode_simps del: drop_drop)
  qed
  show "decode_frame_at input off = Inr (fr, off + length bs)" if "fr = HandshakeDoneFrame"
  proof -
    have "bs = varint_bytes 0x1e" using assms(1) that by (simp add: varint_bytes_small to_byte_def)
    then show ?thesis using at(1) that by (simp add: frame_decode_simps del: drop_drop)
  qed
  show "decode_frame_at input off = Inr (fr, off + length bs)" if "fr = ResetStreamFrame f1"
    using at(1) assms(1) that
    by (auto simp: encode_reset_stream_def frame_decode_simps decode_reset_stream_def
        simp del: drop_drop split: if_splits)
  show "decode_frame_at input off = Inr (fr, off + length bs)" if "fr = StopSendingFrame f2"
    using at(1) assms(1) that
    by (auto simp: encode_stop_sending_def frame_decode_simps decode_stop_sending_def
        simp del: drop_drop split: if_splits)
qed

lemma limit_frames_at:
  assumes "encode_frame fr = Inr bs" and "at_bytes input off (bs @ rest)"
  shows "fr = MaxDataFrame m \<Longrightarrow> decode_frame_at input off = Inr (fr, off + length bs)"
    and "fr = DataBlockedFrame m \<Longrightarrow> decode_frame_at input off = Inr (fr, off + length bs)"
    and "fr = RetireConnectionIdFrame m \<Longrightarrow> decode_frame_at input off = Inr (fr, off + length bs)"
    and "fr = MaxStreamDataFrame f1 \<Longrightarrow> decode_frame_at input off = Inr (fr, off + length bs)"
    and "fr = StreamDataBlockedFrame f2 \<Longrightarrow> decode_frame_at input off = Inr (fr, off + length bs)"
    and "fr = MaxStreamsFrame f3 \<Longrightarrow> decode_frame_at input off = Inr (fr, off + length bs)"
    and "fr = StreamsBlockedFrame f4 \<Longrightarrow> decode_frame_at input off = Inr (fr, off + length bs)"
  using assms(1) at_bytes_frame(1) [OF assms(2)]
  by (auto simp: encode_single_limit_frame_def encode_stream_limit_frame_def
      encode_stream_count_frame_def frame_decode_simps decode_limit_def decode_stream_limit_def
      simp del: drop_drop split: if_splits)

lemma data_frames_at:
  assumes "encode_frame fr = Inr bs" and "at_bytes input off (bs @ rest)"
  shows "fr = CryptoFrame f1 \<Longrightarrow> decode_frame_at input off = Inr (fr, off + length bs)"
    and "fr = NewTokenFrame f2 \<Longrightarrow> decode_frame_at input off = Inr (fr, off + length bs)"
    and "fr = ConnectionCloseFrame f3 \<Longrightarrow> decode_frame_at input off = Inr (fr, off + length bs)"
    and "fr = ApplicationCloseFrame f4 \<Longrightarrow> decode_frame_at input off = Inr (fr, off + length bs)"
    and "fr = NewConnectionIdFrame f5 \<Longrightarrow> decode_frame_at input off = Inr (fr, off + length bs)"
  using assms(1) at_bytes_frame [OF assms(2)]
  by (auto simp: encode_crypto_def encode_new_token_def encode_connection_close_def
      encode_application_close_def encode_new_connection_id_def frame_decode_simps decode_crypto_def
      decode_new_token_def decode_connection_close_def decode_application_close_def
      decode_new_connection_id_def read_reason_def
      simp del: drop_drop split: if_splits)

lemma map_nth_drop: "n \<le> length input - off \<Longrightarrow> map (\<lambda>i. input ! (off + i)) [0..<n] = take n (drop off input)"
  by (rule nth_equalityI) auto

lemma path_frames_at:
  assumes "encode_frame fr = Inr bs" and "at_bytes input off (bs @ rest)" and "length d = 8"
  shows "fr = PathChallengeFrame d \<Longrightarrow> decode_frame_at input off = Inr (fr, off + length bs)"
    and "fr = PathResponseFrame d \<Longrightarrow> decode_frame_at input off = Inr (fr, off + length bs)"
  using assms(1,3) at_bytes_frame [OF assms(2)]
  by (auto simp: encode_path_validation_frame_def frame_decode_simps decode_path_def
      read_path_validation_data_def map_nth_drop simp del: drop_drop split: if_splits)

lemma length_ack_range_bytes: "2 * length rs \<le> length (concat (map ack_range_bytes rs))"
proof (induction rs)
  case Nil
  then show ?case by simp
next
  case (Cons r rs)
  have "2 \<le> length (ack_range_bytes r)"
    using varint_len_bounds(1) [of "ar_gap r"] varint_len_bounds(1) [of "ar_length r"]
    by (simp add: ack_range_bytes_def)
  with Cons show ?case by simp
qed

lemma ack_at:
  assumes "encode_ack f = Inr bs" and "at_bytes input off (bs @ rest)"
  shows "decode_frame_at input off = Inr (AckFrame f, off + length bs)"
proof -
  define type :: nat where "type = (case af_ecn_counts f of Some _ \<Rightarrow> 0x03 | None \<Rightarrow> 0x02)"
  define R where "R = concat (map ack_range_bytes (af_ranges f))"
  define E where "E = (case af_ecn_counts f of None \<Rightarrow> []
    | Some c \<Rightarrow> varint_bytes (ecn_ect0 c) @ varint_bytes (ecn_ect1 c) @ varint_bytes (ecn_ce c))"
  define H where "H = varint_bytes type @ varint_bytes (af_largest_acknowledged f) @ varint_bytes (af_ack_delay f) @
    varint_bytes (length (af_ranges f)) @ varint_bytes (af_first_ack_range f)"
  from assms(1) have v: "af_largest_acknowledged f \<le> max_varint" "af_ack_delay f \<le> max_varint"
    "length (af_ranges f) \<le> max_varint" "af_first_ack_range f \<le> max_varint"
    "list_all ack_range_valid (af_ranges f)"
    "\<And>c. af_ecn_counts f = Some c \<Longrightarrow> ecn_ect0 c \<le> max_varint \<and> ecn_ect1 c \<le> max_varint \<and> ecn_ce c \<le> max_varint"
    and bs: "bs = H @ R @ E"
    by (auto simp: encode_ack_def type_def R_def E_def H_def Let_def split: if_splits option.splits)
  have type: "type = 2 \<or> type = 3" by (simp add: type_def split: option.splits)
  have a1: "at_bytes input off (H @ R @ E @ rest)" using assms(2) bs by simp
  have a2: "at_bytes input (off + length H) (R @ E @ rest)" using at_bytes_advance [OF a1] .
  have a3: "at_bytes input (off + length H + length R) (E @ rest)" using at_bytes_advance [OF a2] .
  have ranges: "read_list read_ack_range (length (af_ranges f)) input (off + length H) =
      Some (af_ranges f, off + length H + length R)"
    using ack_range_reader.read_list_enc [OF v(5)] a2 by (simp add: R_def)
  have count: "length (af_ranges f) \<le> (length input - (off + length H)) div 2"
    using length_ack_range_bytes [of "af_ranges f"] at_bytes_length [OF a2] by (simp add: R_def)
  have head: "decode_frame_at input off = decode_ack type input (off + varint_len type)"
    using type at_bytes_drop [OF a1]
    by (auto simp: frame_decode_simps H_def simp del: drop_drop)
  have fields: "do { (largest, o1) \<leftarrow> read_varint_at input (off + varint_len type);
      (delay, o2) \<leftarrow> read_varint_at input o1; (range_count, o3) \<leftarrow> read_varint_at input o2;
      (first_range, o4) \<leftarrow> read_varint_at input o3;
      Some (largest, delay, range_count, first_range, o4) } =
    Some (af_largest_acknowledged f, af_ack_delay f, length (af_ranges f), af_first_ack_range f, off + length H)"
    using at_bytes_drop [OF a1] v(1-4)
    by (simp add: read_varint_at_def drop_plus decode_varint_bytes H_def del: drop_drop)
  have ecn: "read_ecn_counts input (off + length H + length R) = Some (c, off + length bs)"
    if "af_ecn_counts f = Some c" for c
    using at_bytes_drop [OF a3] v(6) [OF that] that
    by (simp add: read_ecn_counts_def read_varint_at_def drop_plus decode_varint_bytes E_def bs del: drop_drop)
  show ?thesis
    unfolding head decode_ack_def fields
    using ranges count ecn bs by (cases "af_ecn_counts f") (auto simp: type_def E_def)
qed

lemma stream_type_bits:
  "stream_type f AND 0x04 \<noteq> 0 \<longleftrightarrow> sf_offset_present f"
  "stream_type f AND 0x02 \<noteq> 0 \<longleftrightarrow> sf_length_present f"
  "stream_type f AND 0x01 \<noteq> 0 \<longleftrightarrow> sf_fin f"
  "0x08 \<le> stream_type f" "stream_type f \<le> 0x0f"
  by (simp_all add: stream_type_def)

lemma stream_at:
  assumes "encode_stream f = Inr bs" and "at_bytes input off (bs @ rest)"
    and "\<not> sf_offset_present f \<Longrightarrow> sf_offset f = 0" and "\<not> sf_length_present f \<Longrightarrow> rest = []"
  shows "decode_frame_at input off = Inr (StreamFrame f, off + length bs)"
proof -
  define O' where "O' = (if sf_offset_present f then varint_bytes (sf_offset f) else [])"
  define L where "L = (if sf_length_present f then varint_bytes (length (sf_data f)) else [])"
  from assms(1) have v: "sf_stream_id f \<le> max_varint" "sf_offset_present f \<Longrightarrow> sf_offset f \<le> max_varint"
    "sf_length_present f \<Longrightarrow> length (sf_data f) \<le> max_varint" "stream_type f \<le> max_varint"
    and bs: "bs = varint_bytes (stream_type f) @ varint_bytes (sf_stream_id f) @ O' @ L @ sf_data f"
    by (auto simp: encode_stream_def O'_def L_def split: if_splits)
  note at = at_bytes_frame [OF assms(2)]
  note t = stream_type_bits [of f]
  have ty: "decode_typed_frame (stream_type f) input o1 = decode_stream (stream_type f) input o1" for o1
    using t(4,5) by (simp add: decode_typed_frame_def)
  have head: "decode_frame_at input off = decode_stream (stream_type f) input (off + varint_len (stream_type f))"
    using at(1) v(4) ty by (simp add: decode_frame_at_def read_varint_at_def decode_varint_bytes bs)
  show ?thesis
    unfolding head decode_stream_def
    using at v assms(3,4) t(1-3)
    by (cases "sf_offset_present f"; cases "sf_length_present f")
      (simp_all add: read_varint_at_def drop_plus decode_varint_bytes bs O'_def L_def Let_def
        del: drop_drop)
qed

lemma count_padding_zeros:
  assumes "at_bytes input off (replicate n 0 @ rest)" and "rest = [] \<or> hd rest \<noteq> 0"
  shows "count_padding input off c = (c + n, off + n)"
  using assms(1)
proof (induction n arbitrary: off c)
  case 0
  then have "off < length input \<Longrightarrow> input ! off = hd rest \<and> rest \<noteq> []"
    using at_bytes_length [of input off rest] at_bytes_nth [of input off "hd rest" "tl rest"]
    by (cases rest) auto
  then show ?case using assms(2) by (auto simp: count_padding.simps [of input off c])
next
  case (Suc n)
  then have a: "at_bytes input off (0 # (replicate n 0 @ rest))" by simp
  then have "off < length input" "input ! off = 0"
    using at_bytes_length [OF a] at_bytes_nth [OF a] by auto
  moreover have "at_bytes input (Suc off) (replicate n 0 @ rest)"
    using at_bytes_advance [of input off "[0]"] a by simp
  ultimately show ?case using Suc.IH by (simp add: count_padding.simps [of input off c])
qed

lemma padding_at:
  assumes "0 < n" and "at_bytes input off (replicate n 0 @ rest)" and "rest = [] \<or> hd rest \<noteq> 0"
  shows "decode_frame_at input off = Inr (PaddingFrame n, off + n)"
proof -
  obtain m where n: "n = Suc m" using assms(1) by (cases n) auto
  have a: "at_bytes input off (varint_bytes 0 @ replicate m 0 @ rest)"
    using assms(2) n by (simp add: varint_bytes_small to_byte_def)
  have r: "read_varint_at input off = Some (0, Suc off)"
    using varint_reader.rd_enc [OF _ a] by (simp add: varint_len_def)
  have "at_bytes input (Suc off) (replicate m 0 @ rest)"
    using at_bytes_advance [OF a] by (simp add: varint_len_def)
  from count_padding_zeros [OF this assms(3), of 1] show ?thesis
    by (simp add: decode_frame_at_def r decode_typed_frame_def n)
qed

section \<open>Frame sequences\<close>

text \<open>
  Frames that carry their own boundaries: a padding run is not empty, path data has eight bytes,
  a STREAM frame without the offset bit starts at offset zero.
\<close>

fun frame_wf :: "frame \<Rightarrow> bool" where
  "frame_wf (PaddingFrame n) \<longleftrightarrow> 0 < n"
| "frame_wf (StreamFrame f) \<longleftrightarrow> (sf_offset_present f \<or> sf_offset f = 0)"
| "frame_wf (PathChallengeFrame d) \<longleftrightarrow> length d = 8"
| "frame_wf (PathResponseFrame d) \<longleftrightarrow> length d = 8"
| "frame_wf _ \<longleftrightarrow> True"

fun is_padding :: "frame \<Rightarrow> bool" where
  "is_padding (PaddingFrame _) \<longleftrightarrow> True"
| "is_padding _ \<longleftrightarrow> False"

fun open_ended :: "frame \<Rightarrow> bool" where
  "open_ended (StreamFrame f) \<longleftrightarrow> \<not> sf_length_present f"
| "open_ended _ \<longleftrightarrow> False"

definition follows :: "frame \<Rightarrow> buffer \<Rightarrow> bool" where
  "follows f rest \<longleftrightarrow> (is_padding f \<longrightarrow> rest = [] \<or> hd rest \<noteq> 0) \<and> (open_ended f \<longrightarrow> rest = [])"

lemma decode_frame_at_encode:
  assumes "encode_frame f = Inr bs" and "frame_wf f" and "follows f rest"
    and "at_bytes input off (bs @ rest)"
  shows "decode_frame_at input off = Inr (f, off + length bs)"
proof (cases f)
  case (PaddingFrame n)
  with assms show ?thesis using padding_at [of n input off rest] by (auto simp: follows_def)
next
  case (AckFrame a)
  with assms show ?thesis using ack_at by auto
next
  case (StreamFrame s)
  with assms show ?thesis using stream_at [of s bs input off rest] by (auto simp: follows_def)
qed (use assms in \<open>simp_all add: simple_frames_at [OF assms(1,4)] limit_frames_at [OF assms(1,4)]
    data_frames_at [OF assms(1,4)] path_frames_at [OF assms(1,4)]\<close>)

lemma encode_frame_first_byte:
  assumes "encode_frame f = Inr bs" and "frame_wf f"
  shows "bs \<noteq> []" and "\<not> is_padding f \<Longrightarrow> hd bs \<noteq> 0"
proof -
  have dec: "decode_frame_at bs 0 = Inr (f, length bs)"
    using decode_frame_at_encode [OF assms, of "[]" bs 0] by (simp add: follows_def at_bytes_def)
  show "bs \<noteq> []"
    using decode_frame_at_progress [OF dec] by auto
  show "hd bs \<noteq> 0" if "\<not> is_padding f"
  proof
    assume "hd bs = 0"
    with \<open>bs \<noteq> []\<close> obtain xs where "bs = varint_bytes 0 @ xs"
      by (cases bs) (auto simp: varint_bytes_small to_byte_def)
    then have "read_varint_at bs 0 = Some (0, 1)"
      by (simp add: read_varint_at_def decode_varint_bytes varint_len_def)
    with dec that show False
      by (auto simp: decode_frame_at_def decode_typed_frame_def split: prod.splits)
  qed
qed

text \<open>Sequences whose encodings can be told apart again: padding runs are maximal and a frame that
  extends to the end of the packet is the last one.\<close>

fun frames_ok :: "frame list \<Rightarrow> bool" where
  "frames_ok [] \<longleftrightarrow> True"
| "frames_ok [f] \<longleftrightarrow> frame_wf f"
| "frames_ok (f # g # fs) \<longleftrightarrow>
     frame_wf f \<and> \<not> open_ended f \<and> (is_padding f \<longrightarrow> \<not> is_padding g) \<and> frames_ok (g # fs)"

lemma frames_ok_ConsD: "frames_ok (f # fs) \<Longrightarrow> frame_wf f \<and> frames_ok fs"
  by (cases fs) auto

lemma frames_ok_follows:
  assumes "frames_ok (f # fs)" and "list_all2 (\<lambda>f bs. encode_frame f = Inr bs) fs bss"
  shows "follows f (concat bss)"
proof (cases fs)
  case Nil
  with assms(2) show ?thesis by (simp add: follows_def)
next
  case (Cons g gs)
  with assms(2) obtain b bs' where bss: "bss = b # bs'" and g: "encode_frame g = Inr b"
    by (auto simp: list_all2_Cons1)
  have wf: "frame_wf g" 
    using frames_ok_ConsD [OF assms(1)] frames_ok_ConsD [of g gs] Cons by simp
  from encode_frame_first_byte(1) [OF g wf] have hd: "hd (concat bss) = hd b" by (simp add: bss)
  from assms(1) Cons have "\<not> open_ended f" "is_padding f \<Longrightarrow> \<not> is_padding g" by auto
  with encode_frame_first_byte(2) [OF g wf] hd show ?thesis by (simp add: follows_def)
qed

lemma decode_frames_loop_encode:
  assumes "list_all2 (\<lambda>f bs. encode_frame f = Inr bs) fs bss" and "frames_ok fs"
    and "at_bytes input off (concat bss)"
  shows "decode_frames_loop input off acc = Inr (acc @ fs)"
  using assms
proof (induction fs bss arbitrary: off acc rule: list_all2_induct)
  case Nil
  then show ?case by (simp add: decode_frames_loop.simps [of input off acc] at_bytes_def)
next
  case (Cons f fs b bss)
  have wf: "frame_wf f" "frames_ok fs" using frames_ok_ConsD [OF Cons.prems(1)] by auto
  have fol: "follows f (concat bss)" using frames_ok_follows [OF Cons.prems(1) Cons.hyps(2)] .
  have a: "at_bytes input off (b @ concat bss)" using Cons.prems(2) by simp
  have dec: "decode_frame_at input off = Inr (f, off + length b)"
    using decode_frame_at_encode [OF Cons.hyps(1) wf(1) fol a] .
  have "off < length input" using decode_frame_at_progress [OF dec] by linarith
  then show ?case
    using dec Cons.IH [OF wf(2) at_bytes_advance [OF a]]
    by (simp add: decode_frames_loop.simps [of input off acc])
qed

section \<open>Decoded frames are well-formed\<close>

definition frame_encodable :: "frame \<Rightarrow> bool" where
  "frame_encodable f \<longleftrightarrow> frame_wf f \<and> (\<exists>bs. encode_frame f = Inr bs)"

lemma read_ack_range_valid: "read_ack_range input off = Some (r, off') \<Longrightarrow> ack_range_valid r"
  by (auto simp: read_ack_range_def ack_range_valid_def split: bind_splits dest!: read_varint_at_progress)

lemma read_list_valid:
  assumes "\<And>off x off'. rd input off = Some (x, off') \<Longrightarrow> P x"
  shows "read_list rd n input off = Some (xs, off') \<Longrightarrow> list_all P xs \<and> length xs = n"
proof (induction n arbitrary: off xs off')
  case 0
  then show ?case by simp
next
  case (Suc n)
  then obtain x o1 ys where "rd input off = Some (x, o1)" "read_list rd n input o1 = Some (ys, off')"
    and "xs = x # ys"
    by (auto split: bind_splits)
  with Suc.IH [of o1 ys off'] assms [of off x o1] show ?case by simp
qed

lemma read_ack_ranges_valid:
  "read_list read_ack_range n input off = Some (xs, off') \<Longrightarrow> list_all ack_range_valid xs \<and> length xs = n"
  by (rule read_list_valid [OF read_ack_range_valid])

lemma decode_ack_encodable:
  "decode_ack type input off = Inr (f, off') \<Longrightarrow> frame_encodable f"
  by (auto simp: decode_ack_def frame_encodable_def encode_ack_def read_ecn_counts_def
      split: option.splits if_splits bind_splits prod.splits
      dest!: read_varint_at_progress read_ack_ranges_valid)

lemma read_path_data_length: "read_path_validation_data input off = Some (d, off') \<Longrightarrow> length d = 8"
  by (simp add: read_path_validation_data_def split: if_splits) (metis diff_zero length_map length_upt)

lemma decode_typed_frame_encodable:
  assumes "decode_typed_frame type input off = Inr (f, off')"
  shows "frame_encodable f"
proof -
  have pad: "c \<le> fst (count_padding input off c)" for c
  proof (induction input off c rule: count_padding.induct)
    case (1 input off c)
    then show ?case by (auto simp: count_padding.simps [of input off c])
  qed
  have pad1: "count_padding input off (Suc 0) = (c, o') \<Longrightarrow> 0 < c" for c o'
    using pad [of "Suc 0"] by simp
  note enc = frame_encodable_def encode_single_limit_frame_def encode_stream_limit_frame_def
      encode_stream_count_frame_def encode_crypto_def encode_new_token_def encode_connection_close_def
      encode_application_close_def encode_new_connection_id_def encode_reset_stream_def
      encode_stop_sending_def encode_stream_def encode_path_validation_frame_def read_reason_def
  have other: "decode_reset_stream input off = Inr (f, off') \<Longrightarrow> frame_encodable f"
   "decode_stop_sending input off = Inr (f, off') \<Longrightarrow> frame_encodable f"
   "decode_crypto input off = Inr (f, off') \<Longrightarrow> frame_encodable f"
   "decode_new_token input off = Inr (f, off') \<Longrightarrow> frame_encodable f"
   "decode_new_connection_id input off = Inr (f, off') \<Longrightarrow> frame_encodable f"
   "decode_connection_close input off = Inr (f, off') \<Longrightarrow> frame_encodable f"
   "decode_application_close input off = Inr (f, off') \<Longrightarrow> frame_encodable f"
    by (auto simp: decoder_defs Let_def enc split: option.splits if_splits bind_splits
        dest!: read_varint_at_progress)
  have stream: "decode_stream type input off = Inr (f, off') \<Longrightarrow> frame_encodable f"
  proof -
    have "stream_type s \<le> max_varint" for s using stream_type_bits(5) [of s] by simp
    then show "decode_stream type input off = Inr (f, off') \<Longrightarrow> frame_encodable f"
      by (auto simp: decode_stream_def Let_def enc split: option.splits if_splits bind_splits
        dest!: read_varint_at_progress)
  qed
  have lims: "decode_limit mk m input off = Inr (f, off') \<Longrightarrow> \<exists>v \<le> max_varint. f = mk v"
    "decode_stream_limit mk2 m input off = Inr (f, off') \<Longrightarrow>
       \<exists>v w. v \<le> max_varint \<and> w \<le> max_varint \<and> f = mk2 v w"
    "decode_path mk3 m input off = Inr (f, off') \<Longrightarrow> \<exists>d. length d = 8 \<and> f = mk3 d" for mk mk2 mk3 m
  proof -
    show "decode_limit mk m input off = Inr (f, off') \<Longrightarrow> \<exists>v \<le> max_varint. f = mk v"
      by (auto simp: decode_limit_def split: option.splits dest!: read_varint_at_progress)
    show "decode_stream_limit mk2 m input off = Inr (f, off') \<Longrightarrow>
       \<exists>v w. v \<le> max_varint \<and> w \<le> max_varint \<and> f = mk2 v w"
      by (simp add: decode_stream_limit_def split: option.splits bind_splits prod.splits)
        (metis read_varint_at_progress)
    show "decode_path mk3 m input off = Inr (f, off') \<Longrightarrow> \<exists>d. length d = 8 \<and> f = mk3 d"
      using read_path_data_length [of input off]
      by (simp add: decode_path_def split: option.splits prod.splits) metis
  qed
  show ?thesis
    using assms unfolding decode_typed_frame_def
    by (auto simp: enc split: if_splits prod.splits dest!: lims pad1 dest: other stream decode_ack_encodable)
qed


lemma decode_frames_loop_encodable:
  assumes "decode_frames_loop input off acc = Inr fs" and "list_all frame_encodable acc"
  shows "list_all frame_encodable fs \<and> length acc \<le> length fs \<and> (off < length input \<longrightarrow> length acc < length fs)"
  using assms
proof (induction input off acc rule: decode_frames_loop.induct)
  case (1 input off acc)
  show ?case
  proof (cases "off < length input")
    case True
    with "1.prems"(1) obtain f off' where f: "decode_frame_at input off = Inr (f, off')"
      and rest: "decode_frames_loop input off' (acc @ [f]) = Inr fs"
      by (auto simp: decode_frames_loop.simps [of input off acc] split: sum.splits)
    from f have "frame_encodable f"
      by (auto simp: decode_frame_at_def split: option.splits dest: decode_typed_frame_encodable)
    with "1.IH" [OF True f refl rest] "1.prems"(2) show ?thesis by auto
  next
    case False
    with "1.prems" show ?thesis by (simp add: decode_frames_loop.simps [of input off acc])
  qed
qed

section \<open>Properties\<close>

text \<open>C26: the frames of a payload survive the wire: whenever every frame of a sequence encodes and
  the sequence is delimited (padding runs are maximal, a STREAM frame without a length comes
  last), decoding the concatenated encodings gives back exactly that sequence.\<close>

theorem frames_roundtrip:
  assumes "frames_ok fs" and "fs \<noteq> []"
    and "list_all2 (\<lambda>f bs. encode_frame f = Inr bs) fs bss"
  shows "decode_frames (concat bss) = Inr fs"
proof -
  obtain f fs' where fs: "fs = f # fs'" using assms(2) by (cases fs) auto
  then obtain b bss' where "bss = b # bss'" "encode_frame f = Inr b"
    using assms(3) by (auto simp: list_all2_Cons1)
  moreover have "frame_wf f" using assms(1) fs frames_ok_ConsD by blast
  ultimately have "concat bss \<noteq> []" using encode_frame_first_byte(1) by auto
  with decode_frames_loop_encode [OF assms(3,1) at_bytes_start, of "[]"] show ?thesis
    by (simp add: decode_frames_def)
qed

theorem frames_roundtrip_witness:
  "decode_frames (concat [[0x01], [0x0b, 4, 1, 9], [0x10, 5], [0]]) =
     Inr [PingFrame,
          StreamFrame \<lparr>sf_stream_id = 4, sf_offset = 0, sf_offset_present = False,
            sf_length_present = True, sf_fin = True, sf_data = [9]\<rparr>,
          MaxDataFrame 5, PaddingFrame 1]"
proof (rule frames_roundtrip)
  let ?fs = "[PingFrame,
          StreamFrame \<lparr>sf_stream_id = 4, sf_offset = 0, sf_offset_present = False,
            sf_length_present = True, sf_fin = True, sf_data = [9]\<rparr>,
          MaxDataFrame 5, PaddingFrame 1]"
  show "frames_ok ?fs" by simp
  show "?fs \<noteq> []" by simp
  show "list_all2 (\<lambda>f bs. encode_frame f = Inr bs) ?fs [[0x01], [0x0b, 4, 1, 9], [0x10, 5], [0]]"
    by (simp add: encode_stream_def stream_type_def encode_single_limit_frame_def varint_bytes_small
        to_byte_def)
qed

text \<open>whatever a payload decodes to is well-formed: the payload has at least one frame, and each
  decoded frame can be encoded again and then decodes to itself.\<close>

theorem decoded_frames_reencode:
  assumes "decode_frames input = Inr fs"
  shows "fs \<noteq> [] \<and> (\<forall>f \<in> set fs. \<exists>bs. encode_frame f = Inr bs \<and> decode_frames bs = Inr [f])"
proof -
  from assms have "input \<noteq> []" and loop: "decode_frames_loop input 0 [] = Inr fs"
    by (auto simp: decode_frames_def split: if_splits)
  with decode_frames_loop_encodable [OF loop] have ne: "fs \<noteq> []" and enc: "list_all frame_encodable fs"
    by auto
  have "\<exists>bs. encode_frame f = Inr bs \<and> decode_frames bs = Inr [f]" if f: "f \<in> set fs" for f
  proof -
    from enc f have wf: "frame_wf f" and "\<exists>bs. encode_frame f = Inr bs"
      by (auto simp: list_all_iff frame_encodable_def)
    then obtain bs where bs: "encode_frame f = Inr bs" by blast
    with wf have "decode_frames_loop (concat [bs]) 0 [] = Inr ([] @ [f])"
      by (intro decode_frames_loop_encode) (auto simp: at_bytes_def)
    with bs encode_frame_first_byte(1) [OF bs wf] show ?thesis by (simp add: decode_frames_def)
  qed
  with ne show ?thesis by blast
qed

theorem decoded_frames_reencode_witness:
  "decode_frames [0x40, 0x01] = Inr [PingFrame] \<and>
   (\<exists>bs. encode_frame PingFrame = Inr bs \<and> decode_frames bs = Inr [PingFrame])"
proof -
  have dec: "decode_frames [0x40, 0x01] = Inr [PingFrame]"
    by (simp add: decode_frames_def decode_frames_loop.simps decode_frame_at_def read_varint_at_def
        decode_varint_def decode_typed_frame_def drop_bit_eq_div)
  show ?thesis using dec decoded_frames_reencode [OF dec] by simp
qed

end
