(* ===== verification/AckLoss.thy ===== *)
theory AckLoss
  imports Frame
begin

text \<open>
  Acknowledgement and loss detection, \<open>src/include/flowq/quic/ack_loss.hpp\<close>: building and expanding
  ACK frames, the trackers of received and sent packets, the RTT estimator, and the loss and probe
  timers.  \<open>std::set<std::uint64_t>\<close> is a set of numbers, iterated in order.  Durations and time points
  of \<open>steady_clock\<close> are integers counting nanoseconds; \<open>sdiv\<close> is the truncating division of C++.
  Signed overflow is undefined in C++ and the integers here are unbounded.
\<close>

section \<open>Acknowledged packet sets\<close>

datatype packet_number_space = InitialSpace | HandshakeSpace | ApplicationSpace

datatype sent_packet_state = Outstanding | Acknowledged | Lost

record sent_packet =
  sp_space :: packet_number_space
  sp_packet_number :: u64
  sp_ack_eliciting :: bool
  sp_state :: sent_packet_state

record loss_detection_result =
  newly_acknowledged :: "u64 list"
  newly_lost :: "u64 list"

text \<open>The loop \<open>for (packet = low; packet <= high; ++packet)\<close>.  It leaves at \<open>packet == high\<close>, so the
  increment never passes the largest 64-bit value.\<close>

function append_ack_loop :: "u64 set \<Rightarrow> u64 \<Rightarrow> u64 \<Rightarrow> u64 set" where
  "append_ack_loop packets packet high =
     (if packet \<le> high then
        (if packet = high then insert packet packets
         else append_ack_loop (insert packet packets) (packet + 1) high)
      else packets)"
  by pat_completeness auto
termination
  by (relation "measure (\<lambda>(_, packet, high). high - packet)") auto

declare append_ack_loop.simps [simp del]

definition append_ack_range :: "u64 set \<Rightarrow> u64 \<Rightarrow> u64 \<Rightarrow> u64 set option" where
  "append_ack_range packets low high =
     (if low > high then None else Some (append_ack_loop packets low high))"

fun expand_ack_loop :: "u64 set \<Rightarrow> u64 \<Rightarrow> ack_range list \<Rightarrow> u64 set" where
  "expand_ack_loop acknowledged range_low [] = acknowledged"
| "expand_ack_loop acknowledged range_low (r # rs) =
     (let skipped = u64_add (ar_gap r) 2 in
      if range_low < skipped then {}
      else
        let range_high = u64_sub range_low skipped in
        if ar_length r > range_high then {}
        else
          let range_low = u64_sub range_high (ar_length r) in
          (case append_ack_range acknowledged range_low range_high of
             None \<Rightarrow> {}
           | Some acknowledged \<Rightarrow> expand_ack_loop acknowledged range_low rs))"

definition expand_ack_frame :: "ack_frame \<Rightarrow> u64 set" where
  "expand_ack_frame f =
     (if af_first_ack_range f > af_largest_acknowledged f then {}
      else
        let range_high = af_largest_acknowledged f;
            range_low = u64_sub (af_largest_acknowledged f) (af_first_ack_range f)
        in (case append_ack_range {} range_low range_high of
              None \<Rightarrow> {}
            | Some acknowledged \<Rightarrow> expand_ack_loop acknowledged range_low (af_ranges f)))"

section \<open>The received packet tracker\<close>

record received_packet_tracker =
  rpt_packets :: "u64 set"

definition empty_received_tracker :: received_packet_tracker where
  "empty_received_tracker = \<lparr>rpt_packets = {}\<rparr>"

definition observe :: "received_packet_tracker \<Rightarrow> u64 \<Rightarrow> bool \<times> received_packet_tracker" where
  "observe t packet_number =
     (packet_number \<notin> rpt_packets t, t\<lparr>rpt_packets := insert packet_number (rpt_packets t)\<rparr>)"

definition received_empty :: "received_packet_tracker \<Rightarrow> bool" where
  "received_empty t \<longleftrightarrow> rpt_packets t = {}"

definition received_clear :: "received_packet_tracker \<Rightarrow> received_packet_tracker" where
  "received_clear t = t\<lparr>rpt_packets := {}\<rparr>"

text \<open>The reverse iteration that joins consecutive numbers; the ranges are \<open>(low, high)\<close> pairs.\<close>

fun ack_ranges_loop :: "u64 \<Rightarrow> u64 \<Rightarrow> u64 list \<Rightarrow> (u64 \<times> u64) list" where
  "ack_ranges_loop current_low current_high [] = [(current_low, current_high)]"
| "ack_ranges_loop current_low current_high (packet # packets) =
     (if u64_add packet 1 = current_low
      then ack_ranges_loop packet current_high packets
      else (current_low, current_high) # ack_ranges_loop packet packet packets)"

fun ack_gaps_loop :: "u64 \<Rightarrow> (u64 \<times> u64) list \<Rightarrow> ack_range list" where
  "ack_gaps_loop previous_low [] = []"
| "ack_gaps_loop previous_low ((low, high) # ranges) =
     \<lparr>ar_gap = u64_sub (u64_sub previous_low high) 2, ar_length = u64_sub high low\<rparr>
       # ack_gaps_loop low ranges"

definition empty_ack_frame :: ack_frame where
  "empty_ack_frame = \<lparr>af_largest_acknowledged = 0, af_ack_delay = 0, af_first_ack_range = 0,
     af_ranges = [], af_ecn_counts = None\<rparr>"

definition to_ack_frame :: "received_packet_tracker \<Rightarrow> u64 \<Rightarrow> ack_frame" where
  "to_ack_frame t ack_delay =
     (case rev (sorted_list_of_set (rpt_packets t)) of
        [] \<Rightarrow> empty_ack_frame
      | newest # older \<Rightarrow>
          (case ack_ranges_loop newest newest older of
             [] \<Rightarrow> empty_ack_frame
           | (low, high) # ranges \<Rightarrow>
               \<lparr>af_largest_acknowledged = high, af_ack_delay = ack_delay,
                af_first_ack_range = u64_sub high low, af_ranges = ack_gaps_loop low ranges,
                af_ecn_counts = None\<rparr>))"

section \<open>The sent packet tracker\<close>

record sent_packet_tracker =
  spt_space :: packet_number_space
  spt_packets :: "sent_packet list"

definition on_packet_sent :: "sent_packet_tracker \<Rightarrow> u64 \<Rightarrow> bool \<Rightarrow> sent_packet_tracker" where
  "on_packet_sent t packet_number ack_eliciting =
     t\<lparr>spt_packets := spt_packets t @
        [\<lparr>sp_space = spt_space t, sp_packet_number = packet_number,
          sp_ack_eliciting = ack_eliciting, sp_state = Outstanding\<rparr>]\<rparr>"

text \<open>The two passes over the packets, each returning the packets and the numbers it recorded.\<close>

fun ack_pass :: "u64 set \<Rightarrow> sent_packet list \<Rightarrow> sent_packet list \<times> u64 list" where
  "ack_pass acknowledged [] = ([], [])"
| "ack_pass acknowledged (p # ps) =
     (let (ps', newly) = ack_pass acknowledged ps in
      if sp_packet_number p \<in> acknowledged \<and> sp_state p = Outstanding
      then (p\<lparr>sp_state := Acknowledged\<rparr> # ps', sp_packet_number p # newly)
      else (p # ps', newly))"

fun loss_pass :: "u64 \<Rightarrow> u64 \<Rightarrow> sent_packet list \<Rightarrow> sent_packet list \<times> u64 list" where
  "loss_pass largest packet_threshold [] = ([], [])"
| "loss_pass largest packet_threshold (p # ps) =
     (let (ps', newly) = loss_pass largest packet_threshold ps in
      if sp_state p \<noteq> Outstanding \<or> \<not> sp_ack_eliciting p then (p # ps', newly)
      else if sp_packet_number p \<le> largest \<and> u64_sub largest (sp_packet_number p) \<ge> packet_threshold
      then (p\<lparr>sp_state := Lost\<rparr> # ps', sp_packet_number p # newly)
      else (p # ps', newly))"

definition on_ack_received ::
    "sent_packet_tracker \<Rightarrow> ack_frame \<Rightarrow> u64 \<Rightarrow> loss_detection_result \<times> sent_packet_tracker" where
  "on_ack_received t f packet_threshold =
     (let acknowledged = expand_ack_frame f in
      if acknowledged = {} then (\<lparr>newly_acknowledged = [], newly_lost = []\<rparr>, t)
      else
        let (ps1, acked) = ack_pass acknowledged (spt_packets t);
            (ps2, lost) = loss_pass (af_largest_acknowledged f) packet_threshold ps1
        in (\<lparr>newly_acknowledged = acked, newly_lost = lost\<rparr>, t\<lparr>spt_packets := ps2\<rparr>))"

definition sent_clear :: "sent_packet_tracker \<Rightarrow> sent_packet_tracker" where
  "sent_clear t = t\<lparr>spt_packets := []\<rparr>"

fun mark_lost_loop :: "u64 \<Rightarrow> sent_packet list \<Rightarrow> sent_packet list" where
  "mark_lost_loop packet_number [] = []"
| "mark_lost_loop packet_number (p # ps) =
     (if sp_packet_number p = packet_number \<and> sp_state p = Outstanding
      then p\<lparr>sp_state := Lost\<rparr> # ps
      else p # mark_lost_loop packet_number ps)"

definition mark_lost :: "sent_packet_tracker \<Rightarrow> u64 \<Rightarrow> sent_packet_tracker" where
  "mark_lost t packet_number = t\<lparr>spt_packets := mark_lost_loop packet_number (spt_packets t)\<rparr>"

section \<open>Round-trip time\<close>

type_synonym duration = int
type_synonym time_point = int

abbreviation duration_max :: duration where
  "duration_max \<equiv> 9223372036854775807"

definition scale_duration :: "duration \<Rightarrow> int \<Rightarrow> int \<Rightarrow> duration" where
  "scale_duration d numerator denominator = (d * numerator) sdiv denominator"

definition abs_duration :: "duration \<Rightarrow> duration" where
  "abs_duration d = (if d < 0 then - d else d)"

definition decode_ack_delay :: "u64 \<Rightarrow> u64 \<Rightarrow> duration" where
  "decode_ack_delay encoded_ack_delay ack_delay_exponent =
     (if ack_delay_exponent \<ge> 64 then duration_max
      else
        let multiplier = u64_shl 1 ack_delay_exponent; maximum = nat (duration_max sdiv 1000) in
        if encoded_ack_delay > maximum div multiplier then duration_max
        else int (u64_mul encoded_ack_delay multiplier) * 1000)"

record rtt_sample =
  smp_latest_rtt :: duration
  smp_ack_delay :: duration
  smp_peer_max_ack_delay :: duration
  smp_handshake_confirmed :: bool

record rtt_estimator =
  rtt_has_sample :: bool
  rtt_latest :: duration
  rtt_min :: duration
  rtt_smoothed :: duration
  rtt_variance :: duration

definition new_rtt_estimator :: rtt_estimator where
  "new_rtt_estimator = \<lparr>rtt_has_sample = False, rtt_latest = 0, rtt_min = 0, rtt_smoothed = 0, rtt_variance = 0\<rparr>"

definition rtt_update :: "rtt_estimator \<Rightarrow> rtt_sample \<Rightarrow> rtt_estimator" where
  "rtt_update e sample =
     (if \<not> rtt_has_sample e then
        e\<lparr>rtt_latest := smp_latest_rtt sample, rtt_has_sample := True,
          rtt_min := smp_latest_rtt sample, rtt_smoothed := smp_latest_rtt sample,
          rtt_variance := smp_latest_rtt sample sdiv 2\<rparr>
      else
        let min_rtt = min (rtt_min e) (smp_latest_rtt sample);
            ack_delay = min (smp_ack_delay sample) (smp_peer_max_ack_delay sample);
            adjusted = (if smp_handshake_confirmed sample \<and> smp_latest_rtt sample - min_rtt > ack_delay
                        then smp_latest_rtt sample - ack_delay else smp_latest_rtt sample)
        in e\<lparr>rtt_latest := smp_latest_rtt sample, rtt_min := min_rtt,
             rtt_variance := scale_duration (rtt_variance e) 3 4
               + scale_duration (abs_duration (rtt_smoothed e - adjusted)) 1 4,
             rtt_smoothed := scale_duration (rtt_smoothed e) 7 8 + scale_duration adjusted 1 8\<rparr>)"

section \<open>Loss and probe timers\<close>

record recovery_packet =
  rp_space :: packet_number_space
  rp_packet_number :: u64
  rp_sent_at :: time_point
  rp_ack_eliciting :: bool
  rp_state :: sent_packet_state

record pto_config =
  pto_max_ack_delay :: duration
  pto_initial_rtt :: duration
  pto_count :: nat
  pto_handshake_confirmed :: bool

datatype loss_timer_mode = NoTimer | LossTime | Pto

record loss_timer_deadline =
  ltd_mode :: loss_timer_mode
  ltd_deadline :: "time_point option"

definition recovery_granularity :: duration where
  "recovery_granularity = 1000000"

definition time_threshold_loss_delay :: "rtt_estimator \<Rightarrow> duration" where
  "time_threshold_loss_delay e =
     (let rtt = max (rtt_latest e) (rtt_smoothed e)
      in max (scale_duration rtt 9 8) recovery_granularity)"

definition earlier :: "time_point option \<Rightarrow> time_point \<Rightarrow> time_point option" where
  "earlier current t = (case current of None \<Rightarrow> Some t | Some c \<Rightarrow> if t < c then Some t else Some c)"

text \<open>The loop of \<open>detect_time_threshold_losses\<close>: the packets, the lost numbers, the earliest loss time.\<close>

fun time_loss_loop ::
    "duration \<Rightarrow> packet_number_space \<Rightarrow> u64 \<Rightarrow> time_point \<Rightarrow> recovery_packet list \<Rightarrow> u64 list \<Rightarrow> time_point option
     \<Rightarrow> recovery_packet list \<times> u64 list \<times> time_point option" where
  "time_loss_loop loss_delay space largest now [] lost earliest = ([], lost, earliest)"
| "time_loss_loop loss_delay space largest now (p # ps) lost earliest =
     (if rp_space p \<noteq> space \<or> rp_state p \<noteq> Outstanding \<or> \<not> rp_ack_eliciting p \<or> rp_packet_number p \<ge> largest
      then (let (ps', r) = time_loss_loop loss_delay space largest now ps lost earliest in (p # ps', r))
      else
        let loss_time = rp_sent_at p + loss_delay in
        if loss_time \<le> now
        then (let (ps', r) = time_loss_loop loss_delay space largest now ps (lost @ [rp_packet_number p]) earliest
              in (p\<lparr>rp_state := Lost\<rparr> # ps', r))
        else (let (ps', r) = time_loss_loop loss_delay space largest now ps lost (earlier earliest loss_time)
              in (p # ps', r)))"

definition detect_time_threshold_losses ::
    "recovery_packet list \<Rightarrow> rtt_estimator \<Rightarrow> packet_number_space \<Rightarrow> u64 \<Rightarrow> time_point
     \<Rightarrow> recovery_packet list \<times> u64 list \<times> time_point option" where
  "detect_time_threshold_losses packets e space largest now =
     (if \<not> rtt_has_sample e then (packets, [], None)
      else time_loss_loop (time_threshold_loss_delay e) space largest now packets [] None)"

definition pto_allowed :: "packet_number_space \<Rightarrow> pto_config \<Rightarrow> bool" where
  "pto_allowed space config \<longleftrightarrow> space \<noteq> ApplicationSpace \<or> pto_handshake_confirmed config"

text \<open>The loop \<open>for (count = 0; count < pto_count; ++count) duration *= 2\<close>.\<close>

fun double_duration :: "nat \<Rightarrow> duration \<Rightarrow> duration" where
  "double_duration 0 d = d"
| "double_duration (Suc n) d = double_duration n (d * 2)"

definition pto_duration :: "rtt_estimator \<Rightarrow> packet_number_space \<Rightarrow> pto_config \<Rightarrow> duration" where
  "pto_duration e space config =
     (let smoothed_rtt = (if rtt_has_sample e then rtt_smoothed e else pto_initial_rtt config);
          variance = (if rtt_has_sample e then rtt_variance e else pto_initial_rtt config sdiv 2);
          ack_delay = (if space = ApplicationSpace \<and> pto_handshake_confirmed config
                       then pto_max_ack_delay config else 0);
          d = smoothed_rtt + max (variance * 4) recovery_granularity + ack_delay
      in max (double_duration (pto_count config) d) recovery_granularity)"

definition pto_deadline ::
    "time_point \<Rightarrow> rtt_estimator \<Rightarrow> packet_number_space \<Rightarrow> pto_config \<Rightarrow> time_point" where
  "pto_deadline now e space config = now + pto_duration e space config"

definition later :: "time_point option \<Rightarrow> time_point \<Rightarrow> time_point option" where
  "later current t = (case current of None \<Rightarrow> Some t | Some c \<Rightarrow> if t > c then Some t else Some c)"

fun loss_timer_loop ::
    "bool \<Rightarrow> duration \<Rightarrow> packet_number_space \<Rightarrow> recovery_packet list \<Rightarrow> time_point option \<Rightarrow> time_point option
     \<Rightarrow> time_point option \<times> time_point option" where
  "loss_timer_loop has_sample loss_delay space [] last_sent earliest = (last_sent, earliest)"
| "loss_timer_loop has_sample loss_delay space (p # ps) last_sent earliest =
     (if rp_space p \<noteq> space \<or> rp_state p \<noteq> Outstanding \<or> \<not> rp_ack_eliciting p
      then loss_timer_loop has_sample loss_delay space ps last_sent earliest
      else loss_timer_loop has_sample loss_delay space ps (later last_sent (rp_sent_at p))
             (if has_sample then earlier earliest (rp_sent_at p + loss_delay) else earliest))"

definition next_loss_timer ::
    "recovery_packet list \<Rightarrow> rtt_estimator \<Rightarrow> packet_number_space \<Rightarrow> pto_config \<Rightarrow> loss_timer_deadline" where
  "next_loss_timer packets e space config =
     (let loss_delay = (if rtt_has_sample e then time_threshold_loss_delay e else 0);
          (last_sent, earliest) = loss_timer_loop (rtt_has_sample e) loss_delay space packets None None
      in case earliest of
           Some t \<Rightarrow> \<lparr>ltd_mode = LossTime, ltd_deadline = Some t\<rparr>
         | None \<Rightarrow>
             (case last_sent of
                Some t \<Rightarrow>
                  if pto_allowed space config
                  then \<lparr>ltd_mode = Pto, ltd_deadline = Some (pto_deadline t e space config)\<rparr>
                  else \<lparr>ltd_mode = NoTimer, ltd_deadline = None\<rparr>
              | None \<Rightarrow> \<lparr>ltd_mode = NoTimer, ltd_deadline = None\<rparr>))"

section \<open>ACK frames denote the received set\<close>

lemma append_ack_loop_last: "append_ack_loop packets high high = insert high packets"
  by (subst append_ack_loop.simps) simp

lemma append_ack_loop_step:
  "packet < high \<Longrightarrow>
     append_ack_loop packets packet high = append_ack_loop (insert packet packets) (Suc packet) high"
  by (rule trans [OF append_ack_loop.simps]) simp

lemma append_ack_loop_eq: "packet \<le> high \<Longrightarrow> append_ack_loop packets packet high = packets \<union> {packet..high}"
proof (induction packet arbitrary: packets rule: inc_induct)
  case base
  then show ?case by (simp add: append_ack_loop_last)
next
  case (step packet)
  then have "{packet..high} = insert packet {Suc packet..high}" by auto
  with step show ?case by (simp add: append_ack_loop_step)
qed

lemma append_ack_range_eq:
  "append_ack_range packets low high = (if low \<le> high then Some (packets \<union> {low..high}) else None)"
  by (auto simp: append_ack_range_def append_ack_loop_eq)

text \<open>Range lists as the tracker builds them: descending, and with a gap of at least one number.\<close>

fun descending_ranges :: "u64 \<Rightarrow> (u64 \<times> u64) list \<Rightarrow> bool" where
  "descending_ranges previous_low [] \<longleftrightarrow> True"
| "descending_ranges previous_low ((low, high) # rs) \<longleftrightarrow>
     low \<le> high \<and> high + 2 \<le> previous_low \<and> descending_ranges low rs"

definition ranges_set :: "(u64 \<times> u64) list \<Rightarrow> u64 set" where
  "ranges_set rs = (\<Union>(low, high) \<in> set rs. {low..high})"

lemma ranges_set_simps [simp]:
  "ranges_set [] = {}" "ranges_set ((low, high) # rs) = {low..high} \<union> ranges_set rs"
  by (auto simp: ranges_set_def)

lemma ack_ranges_loop_correct:
  assumes "sorted_wrt (>) (low # ps)" and "low \<le> high" and "high < 2 ^ 64"
  shows "\<exists>l rs. ack_ranges_loop low high ps = (l, high) # rs \<and> l \<le> high \<and> descending_ranges l rs \<and>
     {l..high} \<union> ranges_set rs = {low..high} \<union> set ps"
  using assms
proof (induction ps arbitrary: low high)
  case Nil
  then show ?case by simp
next
  case (Cons p ps)
  then have p: "p < low" "sorted_wrt (>) (p # ps)" "p + 1 < 2 ^ 64" by auto
  then have add: "u64_add p 1 = p + 1" by (intro u64_add_exact)
  show ?case
  proof (cases "p + 1 = low")
    case True
    from Cons.IH [OF p(2), of high] Cons.prems p obtain l rs where
      "ack_ranges_loop p high ps = (l, high) # rs" "l \<le> high" "descending_ranges l rs"
      "{l..high} \<union> ranges_set rs = {p..high} \<union> set ps" by auto
    moreover have "{p..high} = {low..high} \<union> {p}" using True Cons.prems(2) by auto
    ultimately show ?thesis using True add by auto
  next
    case False
    from Cons.IH [OF p(2), of p] p obtain l rs where
      "ack_ranges_loop p p ps = (l, p) # rs" "l \<le> p" "descending_ranges l rs"
      "{l..p} \<union> ranges_set rs = {p..p} \<union> set ps" by auto
    then show ?thesis using False add p Cons.prems(2) by auto
  qed
qed

lemma expand_gaps:
  assumes "descending_ranges previous_low rs" and "previous_low < 2 ^ 64"
  shows "expand_ack_loop acc previous_low (ack_gaps_loop previous_low rs) = acc \<union> ranges_set rs"
  using assms
proof (induction previous_low rs arbitrary: acc rule: descending_ranges.induct)
  case (1 previous_low)
  then show ?case by simp
next
  case (2 previous_low low high rs)
  then have b: "low \<le> high" "high + 2 \<le> previous_low" by auto
  with 2 have "u64_sub previous_low high = previous_low - high"
    "u64_sub (previous_low - high) 2 = previous_low - high - 2" "u64_sub high low = high - low"
    "u64_add (previous_low - high - 2) 2 = previous_low - high"
    "u64_sub previous_low (previous_low - high) = high" "u64_sub high (high - low) = low"
    by (auto simp: u64_sub_exact u64_add_exact)
  with 2 b show ?case by (simp add: Let_def append_ack_range_eq Un_assoc leD)
qed

lemma to_ack_frame_ranges:
  assumes "finite S" and "S \<noteq> {}" and "\<forall>p \<in> S. p < 2 ^ 64"
  obtains l h rs where "to_ack_frame \<lparr>rpt_packets = S\<rparr> d = \<lparr>af_largest_acknowledged = h,
      af_ack_delay = d, af_first_ack_range = h - l, af_ranges = ack_gaps_loop l rs, af_ecn_counts = None\<rparr>"
    and "h = Max S" and "l \<le> h" and "descending_ranges l rs" and "{l..h} \<union> ranges_set rs = S"
proof -
  let ?ds = "rev (sorted_list_of_set S)"
  have set: "set ?ds = S" using assms(1) by simp
  have desc: "sorted_wrt (>) ?ds" by (simp add: sorted_wrt_rev strict_sorted_list_of_set)
  from set assms(2) obtain h ps where ds: "?ds = h # ps" by (cases ?ds) auto
  have "h < 2 ^ 64" using set ds assms(3) by auto
  moreover have max: "h = Max S"
    using desc set ds assms(1) by (intro Max_eqI [symmetric]) (auto simp: less_imp_le)
  ultimately obtain l rs where r: "ack_ranges_loop h h ps = (l, h) # rs" "l \<le> h" "descending_ranges l rs"
      "{l..h} \<union> ranges_set rs = {h..h} \<union> set ps"
    using ack_ranges_loop_correct [of h ps h] desc ds by auto
  then have "to_ack_frame \<lparr>rpt_packets = S\<rparr> d = \<lparr>af_largest_acknowledged = h,
      af_ack_delay = d, af_first_ack_range = h - l, af_ranges = ack_gaps_loop l rs, af_ecn_counts = None\<rparr>"
    using ds \<open>h < 2 ^ 64\<close> by (simp add: to_ack_frame_def u64_sub_exact)
  moreover have "{l..h} \<union> ranges_set rs = S" using r(4) set ds by auto
  ultimately show ?thesis using that max r(2,3) by blast
qed

lemma ack_frame_denotes_received:
  assumes "finite S" and "S \<noteq> {}" and "\<forall>p \<in> S. p < 2 ^ 64"
  shows "expand_ack_frame (to_ack_frame \<lparr>rpt_packets = S\<rparr> d) = S"
proof -
  from to_ack_frame_ranges [OF assms] obtain l h rs where
    f: "to_ack_frame \<lparr>rpt_packets = S\<rparr> d = \<lparr>af_largest_acknowledged = h,
      af_ack_delay = d, af_first_ack_range = h - l, af_ranges = ack_gaps_loop l rs, af_ecn_counts = None\<rparr>"
    and r: "h = Max S" "l \<le> h" "descending_ranges l rs" "{l..h} \<union> ranges_set rs = S" .
  have "h < 2 ^ 64" using r assms by (auto simp: Max_in)
  then have "u64_sub h (h - l) = l" "l < 2 ^ 64" using r(2) by (simp_all add: u64_sub_exact)
  then show ?thesis
    using r expand_gaps [OF r(3), of "{l..h}"]
    by (simp add: expand_ack_frame_def f append_ack_range_eq leD)
qed

text \<open>Whatever a peer sends, the expansion stays at or below the largest acknowledged number.\<close>

lemma expand_ack_loop_bound:
  assumes "range_low \<le> m" and "acc \<subseteq> {..m}" and "m < 2 ^ 64"
  shows "expand_ack_loop acc range_low rs \<subseteq> {..m}"
  using assms
proof (induction rs arbitrary: acc range_low)
  case Nil
  then show ?case by simp
next
  case (Cons r rs)
  let ?sk = "u64_add (ar_gap r) 2"
  let ?hi = "u64_sub range_low ?sk"
  let ?lo = "u64_sub ?hi (ar_length r)"
  show ?case
  proof (cases "range_low < ?sk \<or> ar_length r > ?hi")
    case True
    then show ?thesis by (auto simp: Let_def)
  next
    case False
    with Cons.prems have hi: "?hi = range_low - ?sk" and lo: "?lo = ?hi - ar_length r"
      by (auto simp: u64_sub_exact)
    then have "?lo \<le> m" "?lo \<le> ?hi" "acc \<union> {?lo..?hi} \<subseteq> {..m}" using Cons.prems by auto
    with Cons.IH [of ?lo "acc \<union> {?lo..?hi}"] False Cons.prems(3) show ?thesis
      by (simp add: Let_def append_ack_range_eq del: Un_subset_iff)
  qed
qed

lemma expand_ack_frame_bound:
  assumes "af_largest_acknowledged f < 2 ^ 64"
  shows "expand_ack_frame f \<subseteq> {..af_largest_acknowledged f}"
proof (cases "af_first_ack_range f > af_largest_acknowledged f")
  case False
  let ?h = "af_largest_acknowledged f"
  let ?l = "u64_sub ?h (af_first_ack_range f)"
  have "?l = ?h - af_first_ack_range f" using False assms by (simp add: u64_sub_exact)
  then show ?thesis
    using expand_ack_loop_bound [of ?l ?h "{?l..?h}"] False assms
    by (auto simp: expand_ack_frame_def append_ack_range_eq Let_def)
qed (simp add: expand_ack_frame_def)

section \<open>Sent packets\<close>

lemma ack_pass_eq:
  "ack_pass A ps =
     (map (\<lambda>p. if sp_packet_number p \<in> A \<and> sp_state p = Outstanding then p\<lparr>sp_state := Acknowledged\<rparr> else p) ps,
      map sp_packet_number (filter (\<lambda>p. sp_packet_number p \<in> A \<and> sp_state p = Outstanding) ps))"
  by (induction ps) auto

definition packet_threshold_lost :: "u64 \<Rightarrow> u64 \<Rightarrow> sent_packet \<Rightarrow> bool" where
  "packet_threshold_lost largest k p \<longleftrightarrow>
     sp_state p = Outstanding \<and> sp_ack_eliciting p \<and> sp_packet_number p + k \<le> largest"

lemma loss_pass_eq:
  assumes "largest < 2 ^ 64"
  shows "loss_pass largest k ps =
     (map (\<lambda>p. if packet_threshold_lost largest k p then p\<lparr>sp_state := Lost\<rparr> else p) ps,
      map sp_packet_number (filter (packet_threshold_lost largest k) ps))"
proof (induction ps)
  case (Cons p ps)
  have "sp_packet_number p \<le> largest \<Longrightarrow> u64_sub largest (sp_packet_number p) = largest - sp_packet_number p"
    using assms by (simp add: u64_sub_exact)
  with Cons show ?case by (auto simp: packet_threshold_lost_def)
qed simp

lemma packet_threshold_lost_after_ack:
  "packet_threshold_lost l k
     (if sp_packet_number p \<in> A \<and> sp_state p = Outstanding then p\<lparr>sp_state := Acknowledged\<rparr> else p)
   \<longleftrightarrow> sp_packet_number p \<notin> A \<and> packet_threshold_lost l k p"
  by (auto simp: packet_threshold_lost_def)

text \<open>What an ACK does to one packet.\<close>

definition ack_outcome :: "u64 set \<Rightarrow> u64 \<Rightarrow> u64 \<Rightarrow> sent_packet \<Rightarrow> sent_packet" where
  "ack_outcome A largest k p =
     (if A = {} then p
      else if sp_packet_number p \<in> A \<and> sp_state p = Outstanding then p\<lparr>sp_state := Acknowledged\<rparr>
      else if packet_threshold_lost largest k p then p\<lparr>sp_state := Lost\<rparr> else p)"

lemma ack_outcome_empty [simp]: "ack_outcome {} largest k = (\<lambda>p. p)"
  by (auto simp: ack_outcome_def)

lemma ack_outcome_keeps [simp]:
  "sp_packet_number (ack_outcome A largest k p) = sp_packet_number p"
  "sp_ack_eliciting (ack_outcome A largest k p) = sp_ack_eliciting p"
  by (auto simp: ack_outcome_def)

lemma on_ack_received_packets:
  assumes "af_largest_acknowledged f < 2 ^ 64"
  shows "on_ack_received t f k =
    (\<lparr>newly_acknowledged =
        map sp_packet_number (filter (\<lambda>p. sp_packet_number p \<in> expand_ack_frame f \<and> sp_state p = Outstanding) (spt_packets t)),
      newly_lost = map sp_packet_number (filter (\<lambda>p. expand_ack_frame f \<noteq> {} \<and> sp_packet_number p \<notin> expand_ack_frame f
          \<and> packet_threshold_lost (af_largest_acknowledged f) k p) (spt_packets t))\<rparr>,
     t\<lparr>spt_packets := map (ack_outcome (expand_ack_frame f) (af_largest_acknowledged f) k) (spt_packets t)\<rparr>)"
proof (cases "expand_ack_frame f = {}")
  case True
  then show ?thesis by (simp add: on_ack_received_def)
next
  case False
  let ?A = "expand_ack_frame f"
  let ?g = "\<lambda>p. if sp_packet_number p \<in> ?A \<and> sp_state p = Outstanding then p\<lparr>sp_state := Acknowledged\<rparr> else p"
  have "filter (packet_threshold_lost (af_largest_acknowledged f) k) (map ?g ps)
      = map ?g (filter (\<lambda>p. sp_packet_number p \<notin> ?A \<and> packet_threshold_lost (af_largest_acknowledged f) k p) ps)" for ps
    by (induction ps) (auto simp: packet_threshold_lost_def)
  moreover have "sp_packet_number \<circ> ?g = sp_packet_number" by auto
  moreover have "(\<lambda>p. if packet_threshold_lost (af_largest_acknowledged f) k p then p\<lparr>sp_state := Lost\<rparr> else p) \<circ> ?g
      = ack_outcome ?A (af_largest_acknowledged f) k"
    using False by (intro ext) (simp add: ack_outcome_def packet_threshold_lost_def)
  ultimately show ?thesis
    using False by (simp add: on_ack_received_def Let_def ack_pass_eq loss_pass_eq [OF assms] case_prod_beta)
qed

text \<open>The runs of a tracker: what was sent so far, and the reports made so far.\<close>

inductive sent_history :: "u64 set \<Rightarrow> u64 list \<Rightarrow> u64 list \<Rightarrow> sent_packet_tracker \<Rightarrow> bool" where
  start: "sent_history {} [] [] \<lparr>spt_space = space, spt_packets = []\<rparr>"
| sent: "sent_history used acked lost t \<Longrightarrow> n \<notin> used \<Longrightarrow>
    sent_history (insert n used) acked lost (on_packet_sent t n ack_eliciting)"
| ack: "sent_history used acked lost t \<Longrightarrow> af_largest_acknowledged f < 2 ^ 64 \<Longrightarrow>
    on_ack_received t f k = (r, t') \<Longrightarrow>
    sent_history used (acked @ newly_acknowledged r) (lost @ newly_lost r) t'"
| mark: "sent_history used acked lost t \<Longrightarrow> sent_history used acked lost (mark_lost t n)"
| clear: "sent_history used acked lost t \<Longrightarrow> sent_history used acked lost (sent_clear t)"

definition sent_inv :: "u64 set \<Rightarrow> u64 list \<Rightarrow> u64 list \<Rightarrow> sent_packet_tracker \<Rightarrow> bool" where
  "sent_inv used acked lost t \<longleftrightarrow>
     distinct (acked @ lost) \<and> set (acked @ lost) \<subseteq> used
     \<and> distinct (map sp_packet_number (spt_packets t))
     \<and> (\<forall>p \<in> set (spt_packets t). sp_packet_number p \<in> used
          \<and> (sp_packet_number p \<in> set acked \<longleftrightarrow> sp_state p = Acknowledged)
          \<and> (sp_packet_number p \<in> set lost \<longrightarrow> sp_state p = Lost))"

lemma mark_lost_loop_packet:
  "q \<in> set (mark_lost_loop n ps) \<Longrightarrow>
     \<exists>p \<in> set ps. q = p \<or> q = p\<lparr>sp_state := Lost\<rparr> \<and> sp_state p = Outstanding"
  by (induction ps) (auto split: if_splits)

lemma mark_lost_loop_numbers [simp]:
  "map sp_packet_number (mark_lost_loop n ps) = map sp_packet_number ps"
  by (induction ps) auto

lemma sent_inv_mark:
  assumes "sent_inv used acked lost t"
  shows "sent_inv used acked lost (mark_lost t n)"
proof -
  have "sp_packet_number q \<in> used
          \<and> (sp_packet_number q \<in> set acked \<longleftrightarrow> sp_state q = Acknowledged)
          \<and> (sp_packet_number q \<in> set lost \<longrightarrow> sp_state q = Lost)"
    if "q \<in> set (mark_lost_loop n (spt_packets t))" for q
    using mark_lost_loop_packet [OF that] assms by (auto simp: sent_inv_def)
  with assms show ?thesis by (auto simp: sent_inv_def mark_lost_def)
qed

lemma distinct_packet_unique:
  "distinct (map sp_packet_number ps) \<Longrightarrow> p \<in> set ps \<Longrightarrow> q \<in> set ps \<Longrightarrow>
     sp_packet_number p = sp_packet_number q \<Longrightarrow> p = q"
  by (auto simp: distinct_map dest: inj_onD)

lemma sent_inv_ack:
  assumes inv: "sent_inv used acked lost t" and "af_largest_acknowledged f < 2 ^ 64"
    and ack: "on_ack_received t f k = (r, t')"
  shows "sent_inv used (acked @ newly_acknowledged r) (lost @ newly_lost r) t'"
proof -
  let ?A = "expand_ack_frame f" and ?l = "af_largest_acknowledged f" and ?ps = "spt_packets t"
  let ?acked = "\<lambda>p. sp_packet_number p \<in> ?A \<and> sp_state p = Outstanding"
  let ?lost = "\<lambda>p. ?A \<noteq> {} \<and> sp_packet_number p \<notin> ?A \<and> packet_threshold_lost ?l k p"
  have r: "newly_acknowledged r = map sp_packet_number (filter ?acked ?ps)"
    "newly_lost r = map sp_packet_number (filter ?lost ?ps)" "t' = t\<lparr>spt_packets := map (ack_outcome ?A ?l k) ?ps\<rparr>"
    using ack on_ack_received_packets [OF assms(2), of t k] by auto
  have d: "distinct (map sp_packet_number ?ps)" using inv by (simp add: sent_inv_def)
  note uniq = distinct_packet_unique [OF d]
  have st: "sp_state p = Outstanding" if "?acked p \<or> ?lost p" for p
    using that by (auto simp: packet_threshold_lost_def)
  have acked_iff: "sp_packet_number p \<in> set (newly_acknowledged r) \<longleftrightarrow> ?acked p" if "p \<in> set ?ps" for p
    using that r(1) uniq by fastforce
  have lost_iff: "sp_packet_number p \<in> set (newly_lost r) \<longleftrightarrow> ?lost p" if "p \<in> set ?ps" for p
    using that r(2) uniq by fastforce
  have old: "n \<notin> set (acked @ lost)" if "n \<in> set (newly_acknowledged r @ newly_lost r)" for n
    using that r(1,2) inv st by (fastforce simp: sent_inv_def)
  have "distinct (newly_acknowledged r @ newly_lost r)"
    using r(1,2) d uniq by (fastforce simp: distinct_map inj_on_def)
  then have "distinct ((acked @ newly_acknowledged r) @ (lost @ newly_lost r))"
    using old inv by (auto simp: sent_inv_def)
  moreover have "set (newly_acknowledged r @ newly_lost r) \<subseteq> used"
    using r(1,2) inv by (auto simp: sent_inv_def)
  moreover have "(sp_packet_number p \<in> set (acked @ newly_acknowledged r)
        \<longleftrightarrow> sp_state (ack_outcome ?A ?l k p) = Acknowledged)
      \<and> (sp_packet_number p \<in> set (lost @ newly_lost r) \<longrightarrow> sp_state (ack_outcome ?A ?l k p) = Lost)"
    if "p \<in> set ?ps" for p
    using that acked_iff [OF that] lost_iff [OF that] inv
    by (auto simp: sent_inv_def ack_outcome_def packet_threshold_lost_def)
  ultimately show ?thesis
    using inv d by (auto simp: sent_inv_def r(3) comp_def)
qed

lemma sent_history_inv: "sent_history used acked lost t \<Longrightarrow> sent_inv used acked lost t"
proof (induction rule: sent_history.induct)
  case (sent used acked lost t n ack_eliciting)
  then show ?case by (fastforce simp: sent_inv_def on_packet_sent_def)
qed (auto simp: sent_inv_mark intro: sent_inv_ack, simp_all add: sent_inv_def sent_clear_def)

section \<open>The RTT estimator\<close>

lemma scale_duration_nonneg: "0 \<le> d \<Longrightarrow> 0 \<le> n \<Longrightarrow> 0 < m \<Longrightarrow> scale_duration d n m = d * n div m"
  by (cases "d * n = 0") (auto simp: scale_duration_def signed_divide_int_def sgn_mult)

definition rtt_run :: "rtt_sample list \<Rightarrow> rtt_estimator" where
  "rtt_run samples = foldl rtt_update new_rtt_estimator samples"

definition sample_ok :: "rtt_sample \<Rightarrow> bool" where
  "sample_ok s \<longleftrightarrow> 0 \<le> smp_latest_rtt s \<and> 0 \<le> smp_ack_delay s \<and> 0 \<le> smp_peer_max_ack_delay s"

text \<open>Each truncating update may lose up to two units, and the loss is damped by 7/8, so it never adds up
  to more than 14 nanoseconds below the minimum.\<close>

definition rtt_inv :: "duration \<Rightarrow> rtt_estimator \<Rightarrow> bool" where
  "rtt_inv M e \<longleftrightarrow> rtt_has_sample e \<and> 0 \<le> rtt_min e \<and> rtt_min e \<le> rtt_latest e \<and> rtt_latest e \<le> M
     \<and> rtt_min e - 14 \<le> rtt_smoothed e \<and> 0 \<le> rtt_smoothed e \<and> rtt_smoothed e \<le> M
     \<and> 0 \<le> rtt_variance e \<and> rtt_variance e \<le> M"

lemma rtt_inv_mono: "rtt_inv M e \<Longrightarrow> M \<le> N \<Longrightarrow> rtt_inv N e"
  by (auto simp: rtt_inv_def)

lemma rtt_first:
  assumes "\<not> rtt_has_sample e" and "sample_ok s"
  shows "rtt_inv (smp_latest_rtt s) (rtt_update e s)"
  using assms
  by (auto simp: rtt_update_def rtt_inv_def sample_ok_def signed_divide_int_def sgn_if)

lemma rtt_next:
  assumes inv: "rtt_inv M e" and ok: "sample_ok s" and M: "smp_latest_rtt s \<le> M"
  shows "rtt_inv M (rtt_update e s) \<and> rtt_min (rtt_update e s) = min (rtt_min e) (smp_latest_rtt s)"
proof -
  define m where "m = min (rtt_min e) (smp_latest_rtt s)"
  define delay where "delay = min (smp_ack_delay s) (smp_peer_max_ack_delay s)"
  define adj where "adj = (if smp_handshake_confirmed s \<and> smp_latest_rtt s - m > delay
                        then smp_latest_rtt s - delay else smp_latest_rtt s)"
  define diff where "diff = abs_duration (rtt_smoothed e - adj)"
  have e: "rtt_has_sample e" "0 \<le> rtt_min e" "rtt_min e - 14 \<le> rtt_smoothed e" "0 \<le> rtt_smoothed e"
     "rtt_smoothed e \<le> M" "0 \<le> rtt_variance e" "rtt_variance e \<le> M"
    using inv by (auto simp: rtt_inv_def)
  have s: "0 \<le> smp_latest_rtt s" "0 \<le> delay" using ok by (auto simp: sample_ok_def delay_def)
  have adj: "m \<le> adj" "0 \<le> adj" "adj \<le> M" "m \<le> rtt_min e" "m \<le> smp_latest_rtt s" "0 \<le> m"
    using s e(2) M by (auto simp: adj_def m_def split: if_splits)
  then have diff: "0 \<le> diff" "diff \<le> M" using e by (auto simp: diff_def abs_duration_def)
  have u: "rtt_update e s = e\<lparr>rtt_latest := smp_latest_rtt s, rtt_min := m,
      rtt_variance := rtt_variance e * 3 div 4 + diff div 4,
      rtt_smoothed := rtt_smoothed e * 7 div 8 + adj div 8\<rparr>"
    using e adj(2) diff(1)
    by (simp add: rtt_update_def Let_def m_def [symmetric] delay_def [symmetric] adj_def [symmetric]
        diff_def [symmetric] scale_duration_nonneg)
  have "m - 14 \<le> rtt_smoothed e * 7 div 8 + adj div 8" "rtt_smoothed e * 7 div 8 + adj div 8 \<le> M"
    "rtt_variance e * 3 div 4 + diff div 4 \<le> M"
    using e adj diff by linarith+
  moreover have "0 \<le> rtt_smoothed e * 7 div 8 + adj div 8" "0 \<le> rtt_variance e * 3 div 4 + diff div 4"
    using e adj diff by simp_all
  ultimately show ?thesis unfolding u rtt_inv_def m_def [symmetric] using e(1) adj(5,6) M by simp
qed

lemma rtt_run_inv:
  assumes "samples \<noteq> []" and "\<forall>s \<in> set samples. sample_ok s"
  shows "rtt_inv (Max (smp_latest_rtt ` set samples)) (rtt_run samples)
    \<and> rtt_min (rtt_run samples) = Min (smp_latest_rtt ` set samples)"
  using assms
proof (induction samples rule: rev_nonempty_induct)
  case (single s)
  have "\<not> rtt_has_sample new_rtt_estimator" by (simp add: new_rtt_estimator_def)
  with single have "rtt_inv (smp_latest_rtt s) (rtt_update new_rtt_estimator s)" by (intro rtt_first) auto
  moreover have "rtt_min (rtt_update new_rtt_estimator s) = smp_latest_rtt s"
    by (simp add: new_rtt_estimator_def rtt_update_def)
  ultimately show ?case unfolding rtt_run_def by simp
next
  case (snoc s samples)
  let ?M = "Max (smp_latest_rtt ` set (samples @ [s]))"
  have "Max (smp_latest_rtt ` set samples) \<le> ?M" using snoc(1) by (intro Max_mono) auto
  with snoc have "rtt_inv ?M (rtt_run samples)" using rtt_inv_mono by auto
  moreover have "smp_latest_rtt s \<le> ?M" by simp
  moreover have "rtt_run (samples @ [s]) = rtt_update (rtt_run samples) s" by (simp add: rtt_run_def)
  moreover have "Min (smp_latest_rtt ` set (samples @ [s])) = min (Min (smp_latest_rtt ` set samples)) (smp_latest_rtt s)"
    using snoc(1) by (simp add: min.commute)
  ultimately show ?case
    using rtt_next [of ?M "rtt_run samples" s] snoc by simp
qed

text \<open>After any non-empty sequence of samples with non-negative times, \<open>min_rtt\<close> is the smallest
  sample, the smoothed RTT lies between \<open>min_rtt\<close> less 14 ns of accumulated truncation and the largest
  sample, and the variance between zero and the largest sample.\<close>

theorem rtt_estimator_bounds:
  assumes "samples \<noteq> []" and "\<forall>s \<in> set samples. sample_ok s"
  defines "e \<equiv> foldl rtt_update new_rtt_estimator samples"
  shows "rtt_has_sample e \<and> rtt_latest e = smp_latest_rtt (last samples)
    \<and> rtt_min e = Min (smp_latest_rtt ` set samples)
    \<and> rtt_min e - 14 \<le> rtt_smoothed e \<and> rtt_smoothed e \<le> Max (smp_latest_rtt ` set samples)
    \<and> 0 \<le> rtt_variance e \<and> rtt_variance e \<le> Max (smp_latest_rtt ` set samples)"
proof -
  have "rtt_latest e = smp_latest_rtt (last samples)"
    using assms(1) by (cases samples rule: rev_cases) (auto simp: e_def rtt_update_def Let_def)
  then show ?thesis using rtt_run_inv [OF assms(1,2)] by (simp add: e_def rtt_run_def rtt_inv_def)
qed

theorem rtt_estimator_bounds_witness:
  "rtt_has_sample (foldl rtt_update new_rtt_estimator
     [\<lparr>smp_latest_rtt = 100, smp_ack_delay = 5, smp_peer_max_ack_delay = 10, smp_handshake_confirmed = True\<rparr>,
      \<lparr>smp_latest_rtt = 60, smp_ack_delay = 5, smp_peer_max_ack_delay = 10, smp_handshake_confirmed = True\<rparr>])"
  using rtt_estimator_bounds [of "[\<lparr>smp_latest_rtt = 100, smp_ack_delay = 5, smp_peer_max_ack_delay = 10, smp_handshake_confirmed = True\<rparr>,
      \<lparr>smp_latest_rtt = 60, smp_ack_delay = 5, smp_peer_max_ack_delay = 10, smp_handshake_confirmed = True\<rparr>]"]
  by (simp add: sample_ok_def)

section \<open>Acknowledgement delays\<close>

lemma decode_ack_delay_exact:
  assumes "x < 64" and "e < 2 ^ 64"
  shows "decode_ack_delay e x =
    (if e * 2 ^ x \<le> 9223372036854775 then int (e * 2 ^ x) * 1000 else duration_max)"
proof -
  have p: "(2::nat) ^ x < 2 ^ 64" using assms(1) by (intro power_strict_increasing) auto
  have shl: "u64_shl 1 x = 2 ^ x" using p by (simp add: u64_shl_def push_bit_nat_def del: One_nat_def)
  have "nat (duration_max sdiv 1000) = 9223372036854775" by (simp add: signed_divide_int_def sgn_if)
  moreover have "e > 9223372036854775 div 2 ^ x \<longleftrightarrow> \<not> e * 2 ^ x \<le> 9223372036854775"
    by (subst less_eq_div_iff_mult_less_eq [symmetric]) auto
  moreover have "e * 2 ^ x \<le> 9223372036854775 \<Longrightarrow> u64_mul e (2 ^ x) = e * 2 ^ x"
    by (rule u64_mul_exact, erule le_less_trans) simp
  ultimately show ?thesis using assms(1) by (simp add: decode_ack_delay_def Let_def shl del: One_nat_def)
qed

section \<open>Timers\<close>

lemma double_duration_eq: "double_duration n d = 2 ^ n * d"
  by (induction n arbitrary: d) auto

text \<open>With non-negative RTT figures the probe timeout is exactly
  \<open>2 ^ pto_count * (srtt + max (4 * rttvar) 1ms + ack_delay)\<close>, where \<open>ack_delay\<close> counts only for
  confirmed application data; the outer maximum never takes effect.\<close>

theorem pto_duration_exact:
  assumes "0 \<le> rtt_smoothed e" and "0 \<le> pto_initial_rtt c" and "0 \<le> pto_max_ack_delay c"
  shows "pto_duration e space c = 2 ^ pto_count c *
    ((if rtt_has_sample e then rtt_smoothed e + max (4 * rtt_variance e) 1000000
      else pto_initial_rtt c + max (4 * (pto_initial_rtt c div 2)) 1000000)
     + (if space = ApplicationSpace \<and> pto_handshake_confirmed c then pto_max_ack_delay c else 0))"
proof -
  have half: "pto_initial_rtt c sdiv 2 = pto_initial_rtt c div 2"
    using assms(2) scale_duration_nonneg [of "pto_initial_rtt c" 1 2] by (simp add: scale_duration_def)
  have le: "(1000000 :: int) \<le> 2 ^ n * d" if "1000000 \<le> d" for n and d :: int
    using mult_mono [of 1 "2 ^ n" 1000000 d] that by simp
  show ?thesis
    using assms
    by (auto simp: pto_duration_def Let_def double_duration_eq half recovery_granularity_def mult.commute
        intro!: max.absorb1 le)
qed

theorem pto_duration_exact_witness:
  "pto_duration new_rtt_estimator ApplicationSpace \<lparr>pto_max_ack_delay = 25000000, pto_initial_rtt = 333000000,
     pto_count = 2, pto_handshake_confirmed = True\<rparr> = 4096000000"
  using pto_duration_exact [of new_rtt_estimator "\<lparr>pto_max_ack_delay = 25000000, pto_initial_rtt = 333000000,
     pto_count = 2, pto_handshake_confirmed = True\<rparr>" ApplicationSpace]
  by (simp add: new_rtt_estimator_def)

text \<open>The packets the loss and probe timers of a space look at.\<close>

definition timed_packet :: "packet_number_space \<Rightarrow> recovery_packet \<Rightarrow> bool" where
  "timed_packet space p \<longleftrightarrow> rp_space p = space \<and> rp_state p = Outstanding \<and> rp_ack_eliciting p"

definition loss_candidate :: "packet_number_space \<Rightarrow> u64 \<Rightarrow> recovery_packet \<Rightarrow> bool" where
  "loss_candidate space largest p \<longleftrightarrow> rp_space p = space \<and> rp_state p = Outstanding \<and> rp_ack_eliciting p
     \<and> rp_packet_number p < largest"

definition loss_time :: "rtt_estimator \<Rightarrow> recovery_packet \<Rightarrow> time_point" where
  "loss_time e p = rp_sent_at p + max (scale_duration (max (rtt_latest e) (rtt_smoothed e)) 9 8) 1000000"

definition timed_send_times :: "packet_number_space \<Rightarrow> recovery_packet list \<Rightarrow> time_point list" where
  "timed_send_times space packets = map rp_sent_at (filter (timed_packet space) packets)"

definition least_time :: "time_point list \<Rightarrow> time_point option" where
  "least_time ts = (if ts = [] then None else Some (Min (set ts)))"

definition greatest_time :: "time_point list \<Rightarrow> time_point option" where
  "greatest_time ts = (if ts = [] then None else Some (Max (set ts)))"

lemma earlier_min: "earlier None t = Some t" "earlier (Some c) t = Some (min t c)"
  by (auto simp: earlier_def)

lemma later_max: "later None t = Some t" "later (Some c) t = Some (max t c)"
  by (auto simp: later_def)

lemma earlier_least [simp]: "earlier (least_time ts) t = least_time (ts @ [t])"
  by (cases "ts = []") (simp_all add: earlier_min least_time_def)

lemma later_greatest [simp]: "later (greatest_time ts) t = greatest_time (ts @ [t])"
  by (cases "ts = []") (simp_all add: later_max greatest_time_def)

lemma time_loss_loop_eq:
  "time_loss_loop delay space largest now ps lost (least_time ts) =
     (let due = \<lambda>p. timed_packet space p \<and> rp_packet_number p < largest \<and> rp_sent_at p + delay \<le> now;
          pending = \<lambda>p. timed_packet space p \<and> rp_packet_number p < largest \<and> rp_sent_at p + delay > now
      in (map (\<lambda>p. if due p then p\<lparr>rp_state := Lost\<rparr> else p) ps,
          lost @ map rp_packet_number (filter due ps),
          least_time (ts @ map (\<lambda>p. rp_sent_at p + delay) (filter pending ps))))"
proof (induction ps arbitrary: lost ts)
  case (Cons p ps)
  show ?case
    by (cases "rp_space p \<noteq> space \<or> rp_state p \<noteq> Outstanding \<or> \<not> rp_ack_eliciting p \<or> rp_packet_number p \<ge> largest")
       (auto simp: timed_packet_def Let_def Cons.IH)
qed simp

lemma loss_timer_loop_eq:
  "loss_timer_loop has_sample delay space ps (greatest_time us) (least_time ts) =
     (greatest_time (us @ map rp_sent_at (filter (timed_packet space) ps)),
      least_time (ts @ (if has_sample then map (\<lambda>p. rp_sent_at p + delay) (filter (timed_packet space) ps) else [])))"
proof (induction ps arbitrary: us ts)
  case (Cons p ps)
  then show ?case by (auto simp: timed_packet_def)
qed simp

lemma least_time_Nil: "least_time [] = None" by (simp add: least_time_def)
lemma greatest_time_Nil: "greatest_time [] = None" by (simp add: greatest_time_def)

text \<open>With an RTT sample, \<open>detect_time_threshold_losses\<close> declares lost exactly the outstanding
  ack-eliciting packets of the space below the largest acknowledged whose loss delay has run out, each
  once and in order, leaves every other packet alone, and returns the earliest loss time among the
  packets below the largest acknowledged that are not yet due.\<close>

theorem detect_time_threshold_losses_exact:
  assumes "rtt_has_sample e"
  shows "detect_time_threshold_losses packets e space largest now =
    (map (\<lambda>p. if loss_candidate space largest p \<and> loss_time e p \<le> now then p\<lparr>rp_state := Lost\<rparr> else p) packets,
     map rp_packet_number (filter (\<lambda>p. loss_candidate space largest p \<and> loss_time e p \<le> now) packets),
     (if \<exists>p \<in> set packets. loss_candidate space largest p \<and> now < loss_time e p
      then Some (Min {loss_time e p | p. p \<in> set packets \<and> loss_candidate space largest p \<and> now < loss_time e p})
      else None))"
proof -
  have delay: "rp_sent_at p + time_threshold_loss_delay e = loss_time e p" for p
    by (simp add: time_threshold_loss_delay_def loss_time_def recovery_granularity_def)
  have cand: "timed_packet space p \<and> rp_packet_number p < largest \<and> b \<longleftrightarrow> loss_candidate space largest p \<and> b" for p b
    by (auto simp: timed_packet_def loss_candidate_def)
  let ?P = "\<lambda>p. loss_candidate space largest p \<and> now < loss_time e p"
  have least: "least_time (map (loss_time e) (filter ?P packets)) =
     (if \<exists>p \<in> set packets. ?P p then Some (Min {loss_time e p | p. p \<in> set packets \<and> ?P p}) else None)"
    by (auto simp: least_time_def filter_empty_conv image_def intro!: arg_cong [where f = Min])
  show ?thesis
    using assms time_loss_loop_eq [of "time_threshold_loss_delay e" space largest now packets "[]" "[]"]
    unfolding detect_time_threshold_losses_def least_time_Nil Let_def delay cand least append_Nil by simp
qed

theorem detect_time_threshold_losses_exact_witness:
  "detect_time_threshold_losses
     [\<lparr>rp_space = ApplicationSpace, rp_packet_number = 1, rp_sent_at = 0, rp_ack_eliciting = True, rp_state = Outstanding\<rparr>]
     \<lparr>rtt_has_sample = True, rtt_latest = 8000000, rtt_min = 0, rtt_smoothed = 0, rtt_variance = 0\<rparr>
     ApplicationSpace 2 9000000
   = ([\<lparr>rp_space = ApplicationSpace, rp_packet_number = 1, rp_sent_at = 0, rp_ack_eliciting = True, rp_state = Lost\<rparr>],
      [1], None)"
  by (subst detect_time_threshold_losses_exact)
     (simp_all add: loss_candidate_def loss_time_def scale_duration_nonneg)

text \<open>\<open>next_loss_timer\<close> arms nothing when no ack-eliciting packet of the space is outstanding.
  Otherwise, once there is an RTT sample it arms the loss timer at the earliest send time plus the loss
  delay; before that it arms the probe timer after the latest send time, if probes are allowed.  So no
  probe timer is ever armed once the estimator has a sample.\<close>

theorem next_loss_timer_exact:
  "next_loss_timer packets e space c =
    (let sent = timed_send_times space packets in
     if sent = [] then \<lparr>ltd_mode = NoTimer, ltd_deadline = None\<rparr>
     else if rtt_has_sample e then
       \<lparr>ltd_mode = LossTime, ltd_deadline = Some (Min (set sent) + time_threshold_loss_delay e)\<rparr>
     else if space = ApplicationSpace \<and> \<not> pto_handshake_confirmed c then \<lparr>ltd_mode = NoTimer, ltd_deadline = None\<rparr>
     else \<lparr>ltd_mode = Pto, ltd_deadline = Some (Max (set sent) + pto_duration e space c)\<rparr>)"
proof -
  let ?ts = "timed_send_times space packets"
  have add: "map (\<lambda>p. rp_sent_at p + d) (filter (timed_packet space) packets) = map (\<lambda>t. t + d) ?ts" for d
    by (simp add: timed_send_times_def)
  have min: "Min ((\<lambda>t. t + d) ` set ts) = Min (set ts) + d" if "ts \<noteq> []" for ts :: "int list" and d
    using that by (simp add: Min_add_commute)
  have loop: "loss_timer_loop s d space packets None None =
      (greatest_time ?ts, least_time (if s then map (\<lambda>t. t + d) ?ts else []))" for s d
    using loss_timer_loop_eq [of s d space packets "[]" "[]"]
    unfolding append_Nil least_time_Nil greatest_time_Nil add timed_send_times_def [symmetric] .
  show ?thesis
    unfolding next_loss_timer_def loop Let_def
    by (cases "?ts = []") (auto simp: least_time_def greatest_time_def pto_allowed_def pto_deadline_def min)
qed

section \<open>Acknowledgement properties\<close>

definition observe_all :: "u64 list \<Rightarrow> received_packet_tracker" where
  "observe_all ns = foldl (\<lambda>t n. snd (observe t n)) empty_received_tracker ns"

lemma observe_all_packets: "observe_all ns = \<lparr>rpt_packets = set ns\<rparr>"
proof -
  have "foldl (\<lambda>t n. snd (observe t n)) t ns = \<lparr>rpt_packets = rpt_packets t \<union> set ns\<rparr>" for t
    by (induction ns arbitrary: t) (auto simp: observe_def)
  then show ?thesis by (simp add: observe_all_def empty_received_tracker_def)
qed

text \<open>The ACK frame built after any non-empty sequence of arrivals, with duplicates and in any
  order, expands to exactly the set of arrived packet numbers, its largest acknowledged number is
  their maximum, and it carries the given delay.\<close>

theorem ack_frame_of_arrivals:
  assumes "ns \<noteq> []" and "\<forall>n \<in> set ns. n < 2 ^ 64"
  shows "expand_ack_frame (to_ack_frame (observe_all ns) delay) = set ns
    \<and> af_largest_acknowledged (to_ack_frame (observe_all ns) delay) = Max (set ns)
    \<and> af_ack_delay (to_ack_frame (observe_all ns) delay) = delay"
proof -
  have S: "finite (set ns)" "set ns \<noteq> {}" using assms(1) by auto
  from to_ack_frame_ranges [OF S assms(2)] have
    "af_largest_acknowledged (to_ack_frame \<lparr>rpt_packets = set ns\<rparr> delay) = Max (set ns)
     \<and> af_ack_delay (to_ack_frame \<lparr>rpt_packets = set ns\<rparr> delay) = delay"
    by (metis ack_frame.select_convs(1,2))
  then show ?thesis
    unfolding observe_all_packets using ack_frame_denotes_received [OF S assms(2)] by simp
qed

theorem ack_frame_of_arrivals_witness:
  "expand_ack_frame (to_ack_frame (observe_all [5, 1, 2, 9, 2]) 7) = {1, 2, 5, 9}"
  using ack_frame_of_arrivals [of "[5, 1, 2, 9, 2]" 7] by auto

text \<open>C7: An ACK frame marks as acknowledged exactly the outstanding packets it covers, and, if it
  covers any number at all, as lost exactly the uncovered outstanding ack-eliciting packets that are
  at least the packet threshold below the largest acknowledged; both are reported in sending order,
  and every other packet, number and flag is untouched.  An ACK that covers nothing changes nothing.\<close>

theorem on_ack_received_exact:
  fixes packet_threshold :: u64
  assumes "af_largest_acknowledged f < 2 ^ 64"
  defines "A \<equiv> expand_ack_frame f"
  defines "lost \<equiv> \<lambda>p. A \<noteq> {} \<and> sp_packet_number p \<notin> A \<and> sp_state p = Outstanding \<and> sp_ack_eliciting p
    \<and> sp_packet_number p + packet_threshold \<le> af_largest_acknowledged f"
  defines "acked \<equiv> \<lambda>p. sp_packet_number p \<in> A \<and> sp_state p = Outstanding"
  shows "on_ack_received t f packet_threshold =
    (\<lparr>newly_acknowledged = map sp_packet_number (filter acked (spt_packets t)),
      newly_lost = map sp_packet_number (filter lost (spt_packets t))\<rparr>,
     t\<lparr>spt_packets := map (\<lambda>p. if acked p then p\<lparr>sp_state := Acknowledged\<rparr>
                              else if lost p then p\<lparr>sp_state := Lost\<rparr> else p) (spt_packets t)\<rparr>)"
proof -
  have "ack_outcome A (af_largest_acknowledged f) packet_threshold
      = (\<lambda>p. if acked p then p\<lparr>sp_state := Acknowledged\<rparr> else if lost p then p\<lparr>sp_state := Lost\<rparr> else p)"
    by (auto simp: ack_outcome_def lost_def acked_def packet_threshold_lost_def)
  then show ?thesis
    unfolding on_ack_received_packets [OF assms(1)] A_def [symmetric]
    by (simp add: lost_def acked_def packet_threshold_lost_def)
qed

theorem on_ack_received_exact_witness:
  "newly_lost (fst (on_ack_received
     (on_packet_sent (on_packet_sent \<lparr>spt_space = InitialSpace, spt_packets = []\<rparr> 0 True) 3 True)
     \<lparr>af_largest_acknowledged = 3, af_ack_delay = 0, af_first_ack_range = 0, af_ranges = [], af_ecn_counts = None\<rparr> 3))
   = [0]"
  by (subst on_ack_received_exact)
     (simp_all add: on_packet_sent_def expand_ack_frame_def append_ack_range_def append_ack_loop_last
        u64_sub_exact)

text \<open>C6: Over any run of a sent-packet tracker that never reuses a packet number (sending, receiving ACKs
  of any content and threshold, marking packets lost and clearing, in any order), every packet number is reported at most
  once in all: never acknowledged twice, lost twice, or both acknowledged and lost.  Only sent packets
  are reported, and those still tracked carry the reported state.\<close>

theorem packets_reported_once:
  assumes "sent_history used acked lost t"
  shows "distinct (acked @ lost) \<and> set (acked @ lost) \<subseteq> used
    \<and> (\<forall>p \<in> set (spt_packets t). (sp_packet_number p \<in> set acked \<longleftrightarrow> sp_state p = Acknowledged)
          \<and> (sp_packet_number p \<in> set lost \<longrightarrow> sp_state p = Lost))"
  using sent_history_inv [OF assms] by (simp add: sent_inv_def)

theorem packets_reported_once_witness:
  "sent_history {3, 0} [3] [0] \<lparr>spt_space = InitialSpace, spt_packets =
     [\<lparr>sp_space = InitialSpace, sp_packet_number = 0, sp_ack_eliciting = True, sp_state = Lost\<rparr>,
      \<lparr>sp_space = InitialSpace, sp_packet_number = 3, sp_ack_eliciting = True, sp_state = Acknowledged\<rparr>]\<rparr>
   \<and> distinct ([3] @ [0 :: u64])"
proof -
  let ?f = "\<lparr>af_largest_acknowledged = 3, af_ack_delay = 0, af_first_ack_range = 0, af_ranges = [], af_ecn_counts = None\<rparr>"
  let ?t = "on_packet_sent (on_packet_sent \<lparr>spt_space = InitialSpace, spt_packets = []\<rparr> 0 True) 3 True"
  have "expand_ack_frame ?f = {3}"
    by (simp add: expand_ack_frame_def append_ack_range_def append_ack_loop_last u64_sub_exact)
  then have r: "on_ack_received ?t ?f 3 = (\<lparr>newly_acknowledged = [3], newly_lost = [0]\<rparr>,
     \<lparr>spt_space = InitialSpace, spt_packets =
     [\<lparr>sp_space = InitialSpace, sp_packet_number = 0, sp_ack_eliciting = True, sp_state = Lost\<rparr>,
      \<lparr>sp_space = InitialSpace, sp_packet_number = 3, sp_ack_eliciting = True, sp_state = Acknowledged\<rparr>]\<rparr>)"
    by (simp add: on_ack_received_def on_packet_sent_def u64_sub_exact)
  have "sent_history {3, 0} [] [] ?t"
    by (intro sent_history.sent sent_history.start) auto
  from sent_history.ack [OF this _ r] have h: "sent_history {3, 0} [3] [0] \<lparr>spt_space = InitialSpace, spt_packets =
     [\<lparr>sp_space = InitialSpace, sp_packet_number = 0, sp_ack_eliciting = True, sp_state = Lost\<rparr>,
      \<lparr>sp_space = InitialSpace, sp_packet_number = 3, sp_ack_eliciting = True, sp_state = Acknowledged\<rparr>]\<rparr>"
    by simp
  then show ?thesis using packets_reported_once [OF h] by blast
qed

end
