(* ===== verification/Congestion.thy ===== *)
theory Congestion
  imports AckLoss "HOL-Library.Multiset"
begin

text \<open>
  Congestion control, \<open>src/include/flowq/quic/congestion.hpp\<close> (the NewReno \<open>congestion_controller\<close>) and
  \<open>congestion_algorithms.hpp\<close> (the interface, its NewReno adapter and the BBR controller).  The interface
  is the locale \<open>congestion_control\<close>, interpreted on both controllers.  Readings of the steady clock are
  arguments of the operations that take them.  The CUBIC controller computes its window with
  floating-point cube roots and is not modelled.
\<close>

section \<open>The NewReno controller\<close>

datatype congestion_phase = SlowStart | CongestionAvoidance | Recovery

record congestion_packet =
  cp_packet_number :: u64
  cp_sent_at :: time_point
  cp_ack_eliciting :: bool
  cp_bytes :: u64

definition default_initial_window :: u64 where
  "default_initial_window = 12000"

definition default_minimum_window :: u64 where
  "default_minimum_window = 2400"

definition persistent_congestion_threshold :: "rtt_estimator \<Rightarrow> duration \<Rightarrow> duration" where
  "persistent_congestion_threshold e max_ack_delay =
     (let rtt = (if rtt_has_sample e then 3 * rtt_smoothed e + 4 * rtt_variance e else 333000000)
      in max rtt 100000000 + max_ack_delay)"

record congestion_controller =
  cc_bytes_in_flight :: u64
  cc_congestion_window :: u64
  cc_ssthresh :: u64
  cc_phase :: congestion_phase
  cc_rtt :: rtt_estimator

definition new_congestion_controller :: congestion_controller where
  "new_congestion_controller = \<lparr>cc_bytes_in_flight = 0, cc_congestion_window = default_initial_window,
     cc_ssthresh = 2 ^ 64 - 1, cc_phase = SlowStart, cc_rtt = new_rtt_estimator\<rparr>"

definition can_send :: "congestion_controller \<Rightarrow> bool" where
  "can_send c \<longleftrightarrow> cc_bytes_in_flight c < cc_congestion_window c"

definition set_slow_start_threshold :: "congestion_controller \<Rightarrow> u64 \<Rightarrow> congestion_controller" where
  "set_slow_start_threshold c v = c\<lparr>cc_ssthresh := v\<rparr>"

definition enter_congestion_avoidance :: "congestion_controller \<Rightarrow> congestion_controller" where
  "enter_congestion_avoidance c = c\<lparr>cc_phase := CongestionAvoidance\<rparr>"

definition update_rtt :: "congestion_controller \<Rightarrow> rtt_sample \<Rightarrow> congestion_controller" where
  "update_rtt c sample = c\<lparr>cc_rtt := rtt_update (cc_rtt c) sample\<rparr>"

definition cc_on_packet_sent :: "congestion_controller \<Rightarrow> u64 \<Rightarrow> bool \<Rightarrow> congestion_controller" where
  "cc_on_packet_sent c bytes ack_eliciting =
     (if ack_eliciting then c\<lparr>cc_bytes_in_flight := u64_add (cc_bytes_in_flight c) bytes\<rparr> else c)"

definition leave_flight :: "congestion_controller \<Rightarrow> u64 \<Rightarrow> congestion_controller" where
  "leave_flight c bytes =
     (if cc_bytes_in_flight c \<ge> bytes
      then c\<lparr>cc_bytes_in_flight := u64_sub (cc_bytes_in_flight c) bytes\<rparr>
      else c\<lparr>cc_bytes_in_flight := 0\<rparr>)"

definition cc_on_packet_acknowledged :: "congestion_controller \<Rightarrow> u64 \<Rightarrow> congestion_controller" where
  "cc_on_packet_acknowledged c bytes =
     (let c1 = leave_flight c bytes;
          c2 = (if cc_phase c1 = SlowStart
                then c1\<lparr>cc_congestion_window := u64_add (cc_congestion_window c1) bytes\<rparr>
                else c1\<lparr>cc_congestion_window :=
                  u64_add (cc_congestion_window c1) (u64_mul 1200 bytes div cc_congestion_window c1)\<rparr>)
      in if cc_phase c2 = SlowStart \<and> cc_congestion_window c2 \<ge> cc_ssthresh c2
         then c2\<lparr>cc_phase := CongestionAvoidance\<rparr> else c2)"

definition cc_on_packet_lost :: "congestion_controller \<Rightarrow> u64 \<Rightarrow> congestion_controller" where
  "cc_on_packet_lost c bytes = leave_flight c bytes"

definition cc_on_congestion_event :: "congestion_controller \<Rightarrow> congestion_controller" where
  "cc_on_congestion_event c =
     (let ssthresh = max (cc_congestion_window c div 2) default_minimum_window
      in c\<lparr>cc_ssthresh := ssthresh, cc_congestion_window := ssthresh, cc_phase := CongestionAvoidance\<rparr>)"

definition on_persistent_congestion :: "congestion_controller \<Rightarrow> congestion_controller" where
  "on_persistent_congestion c = c\<lparr>cc_congestion_window := default_minimum_window,
     cc_ssthresh := default_minimum_window, cc_phase := SlowStart\<rparr>"

fun congestion_span_loop :: "duration \<Rightarrow> congestion_packet list \<Rightarrow> bool" where
  "congestion_span_loop threshold (a # b # ps) \<longleftrightarrow>
     (if \<not> cp_ack_eliciting a \<or> \<not> cp_ack_eliciting b then congestion_span_loop threshold (b # ps)
      else cp_sent_at b - cp_sent_at a \<ge> threshold \<or> congestion_span_loop threshold (b # ps))"
| "congestion_span_loop threshold ps \<longleftrightarrow> False"

definition detect_persistent_congestion ::
    "congestion_controller \<Rightarrow> congestion_packet list \<Rightarrow> time_point \<Rightarrow> bool" where
  "detect_persistent_congestion c packets now \<longleftrightarrow>
     (if length packets < 2 then False
      else
        let threshold = persistent_congestion_threshold (cc_rtt c) 0;
            idle_gap = now - cp_sent_at (last packets)
        in if idle_gap < threshold then False
           else if congestion_span_loop threshold packets then True
           else idle_gap \<ge> threshold)"

section \<open>The BBR controller\<close>

record bbr_congestion_controller =
  bbr_cwnd :: u64
  bbr_bytes_in_flight :: u64
  bbr_total_sent :: u64
  bbr_total_acked :: u64
  bbr_total_lost :: u64
  bbr_delivery_rate :: u64
  bbr_last_ack_time :: time_point
  bbr_min_rtt :: duration
  bbr_phase :: congestion_phase

definition new_bbr :: bbr_congestion_controller where
  "new_bbr = \<lparr>bbr_cwnd = 12000, bbr_bytes_in_flight = 0, bbr_total_sent = 0, bbr_total_acked = 0,
     bbr_total_lost = 0, bbr_delivery_rate = 0, bbr_last_ack_time = 0, bbr_min_rtt = 100000000, bbr_phase = SlowStart\<rparr>"

definition bbr_on_packet_sent :: "bbr_congestion_controller \<Rightarrow> u64 \<Rightarrow> bool \<Rightarrow> bbr_congestion_controller" where
  "bbr_on_packet_sent c bytes ack_eliciting =
     c\<lparr>bbr_bytes_in_flight := u64_add (bbr_bytes_in_flight c) bytes,
       bbr_total_sent := u64_add (bbr_total_sent c) bytes\<rparr>"

definition bbr_on_packet_acknowledged ::
    "bbr_congestion_controller \<Rightarrow> u64 \<Rightarrow> time_point \<Rightarrow> bbr_congestion_controller" where
  "bbr_on_packet_acknowledged c bytes now =
     (let c1 = c\<lparr>bbr_bytes_in_flight := u64_sub (bbr_bytes_in_flight c) bytes,
                 bbr_total_acked := u64_add (bbr_total_acked c) bytes\<rparr>;
          elapsed = (now - bbr_last_ack_time c1) sdiv 1000;
          c2 = (if bbr_last_ack_time c1 > 0 \<and> elapsed > 0
                then c1\<lparr>bbr_delivery_rate := u64_mul bytes 1000000 div nat elapsed\<rparr> else c1)
      in c2\<lparr>bbr_last_ack_time := now\<rparr>)"

definition bbr_on_packet_lost :: "bbr_congestion_controller \<Rightarrow> u64 \<Rightarrow> bbr_congestion_controller" where
  "bbr_on_packet_lost c bytes =
     c\<lparr>bbr_bytes_in_flight := u64_sub (bbr_bytes_in_flight c) bytes,
       bbr_total_lost := u64_add (bbr_total_lost c) bytes,
       bbr_cwnd := max (bbr_cwnd c div 2) 2400,
       bbr_phase := Recovery\<rparr>"

definition bbr_on_congestion_event :: "bbr_congestion_controller \<Rightarrow> bbr_congestion_controller" where
  "bbr_on_congestion_event c = c\<lparr>bbr_cwnd := max (bbr_cwnd c div 2) 2400\<rparr>"

definition bbr_can_send :: "bbr_congestion_controller \<Rightarrow> bool" where
  "bbr_can_send c \<longleftrightarrow> bbr_bytes_in_flight c < bbr_cwnd c"

section \<open>The interface\<close>

text \<open>The calls a connection makes.  An acknowledgement carries the clock reading it is processed at.\<close>

datatype congestion_call =
    PacketSent u64 bool
  | PacketAcknowledged u64 time_point
  | PacketLost u64
  | CongestionEvent

fun new_reno_call :: "congestion_controller \<Rightarrow> congestion_call \<Rightarrow> congestion_controller" where
  "new_reno_call c (PacketSent bytes ack_eliciting) = cc_on_packet_sent c bytes ack_eliciting"
| "new_reno_call c (PacketAcknowledged bytes now) = cc_on_packet_acknowledged c bytes"
| "new_reno_call c (PacketLost bytes) = cc_on_packet_lost c bytes"
| "new_reno_call c CongestionEvent = cc_on_congestion_event c"

fun bbr_call :: "bbr_congestion_controller \<Rightarrow> congestion_call \<Rightarrow> bbr_congestion_controller" where
  "bbr_call c (PacketSent bytes ack_eliciting) = bbr_on_packet_sent c bytes ack_eliciting"
| "bbr_call c (PacketAcknowledged bytes now) = bbr_on_packet_acknowledged c bytes now"
| "bbr_call c (PacketLost bytes) = bbr_on_packet_lost c bytes"
| "bbr_call c CongestionEvent = bbr_on_congestion_event c"

text \<open>The bytes a correct client has in flight, as a multiset of packet sizes, and what it has sent and
  had acknowledged in total: a packet leaves flight only if it is there.\<close>

inductive client_calls :: "(bool \<Rightarrow> bool) \<Rightarrow> congestion_call list \<Rightarrow> u64 multiset \<Rightarrow> nat \<Rightarrow> nat \<Rightarrow> bool"
  for counts :: "bool \<Rightarrow> bool" where
  start: "client_calls counts [] {#} 0 0"
| sent: "client_calls counts cs flight sent acked \<Longrightarrow>
    client_calls counts (cs @ [PacketSent b ae]) (if counts ae then add_mset b flight else flight) (sent + b) acked"
| acked: "client_calls counts cs flight sent acked \<Longrightarrow> b \<in># flight \<Longrightarrow>
    client_calls counts (cs @ [PacketAcknowledged b now]) (flight - {#b#}) sent (acked + b)"
| lost: "client_calls counts cs flight sent acked \<Longrightarrow> b \<in># flight \<Longrightarrow>
    client_calls counts (cs @ [PacketLost b]) (flight - {#b#}) sent acked"
| event: "client_calls counts cs flight sent acked \<Longrightarrow>
    client_calls counts (cs @ [CongestionEvent]) flight sent acked"

text \<open>The bytes acknowledged and in flight are bounded by the bytes sent.\<close>

lemma client_calls_conserve:
  "client_calls counts cs flight sent acked \<Longrightarrow> sum_mset flight + acked \<le> sent"
proof (induction rule: client_calls.induct)
  case (acked cs flight sent acked b now)
  then show ?case by (auto dest!: multi_member_split)
next
  case (lost cs flight sent acked b)
  then show ?case by (auto dest!: multi_member_split)
qed auto

locale congestion_control =
  fixes initial :: 'c
    and call :: "'c \<Rightarrow> congestion_call \<Rightarrow> 'c"
    and window :: "'c \<Rightarrow> u64"
    and in_flight :: "'c \<Rightarrow> u64"
    and sending_allowed :: "'c \<Rightarrow> bool"
    and counts :: "bool \<Rightarrow> bool"
    and budget :: nat
  assumes initial_window: "window initial = 12000"
    and initial_flight: "in_flight initial = 0"
    and budget_fits: "budget < 2 ^ 64"
    and allowed: "sending_allowed c \<longleftrightarrow> in_flight c < window c"
    and sent_flight: "in_flight c + b < 2 ^ 64 \<Longrightarrow>
      in_flight (call c (PacketSent b ae)) = (if counts ae then in_flight c + b else in_flight c)"
    and sent_window: "window (call c (PacketSent b ae)) = window c"
    and leave_acked: "b \<le> in_flight c \<Longrightarrow> in_flight c < 2 ^ 64 \<Longrightarrow>
      in_flight (call c (PacketAcknowledged b now)) = in_flight c - b"
    and leave_lost: "b \<le> in_flight c \<Longrightarrow> in_flight c < 2 ^ 64 \<Longrightarrow>
      in_flight (call c (PacketLost b)) = in_flight c - b"
    and event_flight: "in_flight (call c CongestionEvent) = in_flight c"
    and acked_window: "2400 \<le> window c \<Longrightarrow> window c \<le> 12000 + seen \<Longrightarrow> seen + b \<le> budget \<Longrightarrow>
      window c \<le> window (call c (PacketAcknowledged b now))
        \<and> window (call c (PacketAcknowledged b now)) \<le> 12000 + (seen + b)"
    and lost_window: "2400 \<le> window c \<Longrightarrow>
      2400 \<le> window (call c (PacketLost b)) \<and> window (call c (PacketLost b)) \<le> window c"
    and event_window: "2400 \<le> window c \<Longrightarrow>
      2400 \<le> window (call c CongestionEvent) \<and> window (call c CongestionEvent) \<le> window c"
begin

lemma client_run:
  assumes "client_calls counts cs flight sent acked" and "sent \<le> budget"
  shows "in_flight (foldl call initial cs) = sum_mset flight
    \<and> 2400 \<le> window (foldl call initial cs) \<and> window (foldl call initial cs) \<le> 12000 + acked"
  using assms
proof (induction rule: client_calls.induct)
  case start
  then show ?case by (simp add: initial_window initial_flight)
next
  case (sent cs flight sent acked b ae)
  moreover have "sum_mset flight + b < 2 ^ 64"
    using client_calls_conserve [OF sent(1)] sent(3) budget_fits by linarith
  ultimately show ?case by (simp add: sent_flight sent_window)
next
  case (acked cs flight sent acked b now)
  have le: "b \<le> sum_mset flight" using acked(2) by (auto dest!: multi_member_split)
  have bounds: "sum_mset flight < 2 ^ 64" "acked + b \<le> budget"
    using client_calls_conserve [OF acked(1)] acked(4) budget_fits le by linarith+
  show ?case
    using acked acked_window [of "foldl call initial cs" acked b now] leave_acked le bounds
    by (auto simp: sum_mset_diff)
next
  case (lost cs flight sent acked b)
  have le: "b \<le> sum_mset flight" using lost(2) by (auto dest!: multi_member_split)
  have "sum_mset flight < 2 ^ 64"
    using client_calls_conserve [OF lost(1)] lost(4) budget_fits by linarith
  then show ?case
    using lost lost_window [of "foldl call initial cs" b] leave_lost le by (auto simp: sum_mset_diff)
next
  case (event cs flight sent acked)
  then show ?case using event_window [of "foldl call initial cs"] by (auto simp: event_flight)
qed

lemma never_stuck:
  assumes "client_calls counts cs {#} sent acked" and "sent \<le> budget"
  shows "sending_allowed (foldl call initial cs)"
  using client_run [OF assms] by (auto simp: allowed)

end

section \<open>Both controllers implement the interface\<close>

text \<open>The budget: with at most \<open>2 ^ 53\<close> bytes sent over a connection, neither the window nor the product
  \<open>1200 * bytes\<close> of congestion avoidance leaves 64 bits.\<close>

abbreviation byte_budget :: nat where
  "byte_budget \<equiv> 2 ^ 53"

lemma leave_flight_window [simp]:
  "cc_congestion_window (leave_flight c b) = cc_congestion_window c"
  "cc_phase (leave_flight c b) = cc_phase c" "cc_ssthresh (leave_flight c b) = cc_ssthresh c"
  by (auto simp: leave_flight_def)

lemma leave_flight_exact:
  "cc_bytes_in_flight c < 2 ^ 64 \<Longrightarrow> cc_bytes_in_flight (leave_flight c b) = cc_bytes_in_flight c - b"
  by (auto simp: leave_flight_def u64_sub_exact)

lemma acknowledged_flight:
  "cc_bytes_in_flight (cc_on_packet_acknowledged c b) = cc_bytes_in_flight (leave_flight c b)"
  by (simp add: cc_on_packet_acknowledged_def Let_def)

lemma avoidance_increment:
  assumes "2400 \<le> w" and "b \<le> byte_budget" and "w + b < 2 ^ 64"
  shows "u64_add w (u64_mul 1200 b div w) = w + 1200 * b div w \<and> 1200 * b div w \<le> b"
proof -
  have "1200 * b \<le> b * w" using assms(1) by simp
  then have "1200 * b div w \<le> b" by (metis div_le_mono assms(1) nonzero_mult_div_cancel_right not_numeral_le_zero)
  moreover have "u64_mul 1200 b = 1200 * b" using assms(2) by (intro u64_mul_exact) simp
  ultimately show ?thesis using assms(3) by (simp add: u64_add_exact)
qed

lemma acknowledged_window:
  assumes "2400 \<le> cc_congestion_window c" and "b \<le> byte_budget" and "cc_congestion_window c + b < 2 ^ 64"
  shows "cc_congestion_window (cc_on_packet_acknowledged c b) = cc_congestion_window c +
    (if cc_phase c = SlowStart then b else 1200 * b div cc_congestion_window c)"
  using avoidance_increment [OF assms] assms(3)
  by (simp add: cc_on_packet_acknowledged_def Let_def u64_add_exact)

interpretation new_reno: congestion_control new_congestion_controller new_reno_call cc_congestion_window
  cc_bytes_in_flight can_send "\<lambda>ack_eliciting. ack_eliciting" byte_budget
proof unfold_locales
  fix c :: congestion_controller and b seen and now :: time_point
  assume w: "2400 \<le> cc_congestion_window c" "cc_congestion_window c \<le> 12000 + seen" "seen + b \<le> byte_budget"
  then have b: "b \<le> byte_budget" "cc_congestion_window c + b < 2 ^ 64" by simp_all
  show "cc_congestion_window c \<le> cc_congestion_window (new_reno_call c (PacketAcknowledged b now))
      \<and> cc_congestion_window (new_reno_call c (PacketAcknowledged b now)) \<le> 12000 + (seen + b)"
    using acknowledged_window [OF w(1) b] avoidance_increment [OF w(1) b] w(2) by auto
qed (auto simp: new_congestion_controller_def default_initial_window_def can_send_def cc_on_packet_sent_def
      u64_add_exact acknowledged_flight leave_flight_exact cc_on_packet_lost_def cc_on_congestion_event_def
      default_minimum_window_def Let_def)

interpretation bbr: congestion_control new_bbr bbr_call bbr_cwnd bbr_bytes_in_flight bbr_can_send
  "\<lambda>ack_eliciting. True" byte_budget
  by unfold_locales
     (auto simp: new_bbr_def bbr_can_send_def bbr_on_packet_sent_def u64_add_exact u64_sub_exact
        bbr_on_packet_acknowledged_def bbr_on_packet_lost_def bbr_on_congestion_event_def Let_def)

text \<open>C27: Driven by any correct client that sends at most \<open>2 ^ 53\<close> bytes, the NewReno controller counts
  in flight exactly the ack-eliciting bytes sent and not yet acknowledged or lost, and keeps its window
  between 2400 and 12000 plus the acknowledged bytes; so with nothing in flight it always allows
  sending.\<close>

theorem new_reno_accounting:
  assumes "client_calls (\<lambda>ack_eliciting. ack_eliciting) cs flight sent acked" and "sent \<le> byte_budget"
  defines "c \<equiv> foldl new_reno_call new_congestion_controller cs"
  shows "cc_bytes_in_flight c = sum_mset flight
    \<and> 2400 \<le> cc_congestion_window c \<and> cc_congestion_window c \<le> 12000 + acked
    \<and> (can_send c \<longleftrightarrow> sum_mset flight < cc_congestion_window c)"
  unfolding c_def using new_reno.client_run [OF assms(1,2)] new_reno.allowed by simp

theorem new_reno_accounting_witness:
  "cc_bytes_in_flight (foldl new_reno_call new_congestion_controller
     [PacketSent 1200 True, PacketSent 40 False, PacketSent 1000 True, PacketAcknowledged 1200 5]) = 1000"
proof -
  have "client_calls (\<lambda>ae. ae) ([] @ [PacketSent 1200 True]) (if True then add_mset 1200 {#} else {#}) (0 + 1200) 0"
    by (intro client_calls.sent client_calls.start)
  from client_calls.sent [OF this, of 40 False] have "client_calls (\<lambda>ae. ae) [PacketSent 1200 True, PacketSent 40 False] {#1200#} 1240 0"
    by simp
  from client_calls.sent [OF this, of 1000 True] have "client_calls (\<lambda>ae. ae)
      [PacketSent 1200 True, PacketSent 40 False, PacketSent 1000 True] {#1000, 1200#} 2240 0" by simp
  from client_calls.acked [OF this, of 1200 5] have "client_calls (\<lambda>ae. ae)
      [PacketSent 1200 True, PacketSent 40 False, PacketSent 1000 True, PacketAcknowledged 1200 5] {#1000#} 2240 1200"
    by simp
  from new_reno_accounting [OF this] show ?thesis by simp
qed

text \<open>The same for the BBR controller, which counts every packet, ack-eliciting or not: in-flight
  bytes are exact, its window stays between 2400 and 12000 plus the acknowledged bytes, and an empty
  flight allows sending.\<close>

theorem bbr_accounting:
  assumes "client_calls (\<lambda>ack_eliciting. True) cs flight sent acked" and "sent \<le> byte_budget"
  defines "c \<equiv> foldl bbr_call new_bbr cs"
  shows "bbr_bytes_in_flight c = sum_mset flight
    \<and> 2400 \<le> bbr_cwnd c \<and> bbr_cwnd c \<le> 12000 + acked
    \<and> (bbr_can_send c \<longleftrightarrow> sum_mset flight < bbr_cwnd c)"
  unfolding c_def using bbr.client_run [OF assms(1,2)] bbr.allowed by simp

theorem bbr_accounting_witness:
  "bbr_bytes_in_flight (foldl bbr_call new_bbr [PacketSent 1200 True, PacketSent 40 False, PacketLost 1200]) = 40"
proof -
  have "client_calls (\<lambda>ae. True) ([] @ [PacketSent 1200 True]) (if True then add_mset 1200 {#} else {#}) (0 + 1200) 0"
    by (intro client_calls.sent client_calls.start)
  from client_calls.sent [OF this, of 40 False] have "client_calls (\<lambda>ae. True)
     [PacketSent 1200 True, PacketSent 40 False] {#40, 1200#} 1240 0" by simp
  from client_calls.lost [OF this, of 1200] have "client_calls (\<lambda>ae. True)
     [PacketSent 1200 True, PacketSent 40 False, PacketLost 1200] {#40#} 1240 0" by simp
  from bbr_accounting [OF this] show ?thesis by simp
qed

section \<open>Growth and reduction of the NewReno window\<close>

lemma avoidance_phase:
  "cc_phase c \<noteq> SlowStart \<Longrightarrow> cc_phase (cc_on_packet_acknowledged c b) = cc_phase c"
  by (simp add: cc_on_packet_acknowledged_def Let_def)

text \<open>In congestion avoidance, acknowledging any sequence of packets grows the window by at most
  1200 bytes times the number of windows acknowledged, that is at most one maximum segment per
  window of data.\<close>

theorem avoidance_growth:
  assumes "cc_phase c \<noteq> SlowStart" and "2400 \<le> cc_congestion_window c" and "cc_congestion_window c \<le> 2 ^ 60"
    and "sum_list bs \<le> byte_budget"
  shows "cc_congestion_window c \<le> cc_congestion_window (foldl cc_on_packet_acknowledged c bs)
    \<and> cc_congestion_window (foldl cc_on_packet_acknowledged c bs)
      \<le> cc_congestion_window c + 1200 * sum_list bs div cc_congestion_window c"
proof -
  let ?w = "cc_congestion_window"
  have "cc_phase (foldl cc_on_packet_acknowledged c bs) \<noteq> SlowStart \<and> ?w c \<le> ?w (foldl cc_on_packet_acknowledged c bs)
    \<and> ?w (foldl cc_on_packet_acknowledged c bs) \<le> ?w c + 1200 * sum_list bs div ?w c"
    using assms(4)
  proof (induction bs rule: rev_induct)
    case Nil
    then show ?case using assms(1) by simp
  next
    case (snoc b bs)
    let ?d = "foldl cc_on_packet_acknowledged c bs"
    from snoc have IH: "cc_phase ?d \<noteq> SlowStart" "?w c \<le> ?w ?d" "?w ?d \<le> ?w c + 1200 * sum_list bs div ?w c" by auto
    have b: "b \<le> byte_budget" using snoc.prems by simp
    have "1200 * sum_list bs div ?w c \<le> 1200 * sum_list bs" by (rule div_le_dividend)
    moreover have "sum_list bs + b \<le> 9007199254740992" "?w c \<le> 1152921504606846976"
      using snoc.prems assms(3) by simp_all
    ultimately have "?w ?d + b < 18446744073709551616" using IH(3) by linarith
    then have fit: "?w ?d + b < 2 ^ 64" by simp
    have "1200 * b div ?w ?d \<le> 1200 * b div ?w c" using IH(2) assms(2) by (intro div_le_mono2) auto
    moreover have "1200 * sum_list bs div ?w c + 1200 * b div ?w c \<le> 1200 * sum_list (bs @ [b]) div ?w c"
      using div_add1_eq [of "1200 * sum_list bs" "1200 * b" "?w c"] by (simp add: distrib_left)
    ultimately show ?case
      using acknowledged_window [OF _ b fit] IH assms(2) avoidance_phase [OF IH(1)] by auto
  qed
  then show ?thesis by blast
qed

theorem avoidance_growth_witness:
  "cc_congestion_window (foldl cc_on_packet_acknowledged
     (cc_on_congestion_event new_congestion_controller) [1200, 1200, 1200, 1200, 1200]) \<le> 7200"
  using avoidance_growth [of "cc_on_congestion_event new_congestion_controller" "[1200, 1200, 1200, 1200, 1200]"]
  by (simp add: cc_on_congestion_event_def new_congestion_controller_def default_initial_window_def
      default_minimum_window_def)

text \<open>\<open>detect_persistent_congestion\<close> reports congestion exactly when there are two packets and the idle
  time since the last one reached the threshold: the scan over packet pairs never changes the answer.\<close>

theorem detect_persistent_congestion_idle:
  "detect_persistent_congestion c packets now \<longleftrightarrow>
     2 \<le> length packets \<and>
     now - cp_sent_at (last packets) \<ge>
       (if rtt_has_sample (cc_rtt c)
        then max (3 * rtt_smoothed (cc_rtt c) + 4 * rtt_variance (cc_rtt c)) 100000000 else 333000000)"
  by (auto simp: detect_persistent_congestion_def persistent_congestion_threshold_def Let_def)

text \<open>The in-flight counter of the BBR controller, unlike NewReno's, wraps around when more bytes are
  acknowledged than it holds: one byte acknowledged on a new controller leaves \<open>2 ^ 64 - 1\<close> bytes in
  flight, and sending is blocked.\<close>

theorem bbr_flight_wraps:
  "bbr_bytes_in_flight (bbr_on_packet_acknowledged new_bbr 1 now) = 2 ^ 64 - 1
    \<and> \<not> bbr_can_send (bbr_on_packet_acknowledged new_bbr 1 now)
    \<and> cc_bytes_in_flight (cc_on_packet_acknowledged new_congestion_controller 1) = 0
    \<and> can_send (cc_on_packet_acknowledged new_congestion_controller 1)"
  by (simp add: bbr_on_packet_acknowledged_def new_bbr_def bbr_can_send_def Let_def u64_sub_def
      new_congestion_controller_def can_send_def cc_on_packet_acknowledged_def leave_flight_def
      default_initial_window_def u64_add_def)

end
