(* ===== verification/StreamRecv.thy ===== *)
theory StreamRecv
  imports Frame
begin

text \<open>
  Stream reassembly, the receiving half of \<open>src/include/flowq/quic/stream.hpp\<close>: stream identifiers,
  \<open>stream_receive_state\<close> and \<open>stream_receive_set\<close>.  The \<open>std::map\<close> of pending ranges is an association
  list in key order, on which \<open>lower_bound\<close>, \<open>upper_bound\<close>, \<open>erase\<close> and \<open>emplace\<close> are list operations.
  A range gets into the map only after the check that its end fits in 64 bits, so the sums of a range
  start and a size are exact.
\<close>

section \<open>Stream identifiers\<close>

datatype stream_initiator = Client | Server

record stream_id_info =
  sid_id :: u64
  sid_initiator :: stream_initiator
  sid_direction :: stream_direction

definition classify_stream_id :: "u64 \<Rightarrow> stream_id_info" where
  "classify_stream_id stream_id =
     \<lparr>sid_id = stream_id,
      sid_initiator = (if stream_id AND 1 = 0 then Client else Server),
      sid_direction = (if stream_id AND 2 = 0 then Bidirectional else Unidirectional)\<rparr>"

record stream_limits =
  sl_bidirectional :: u64
  sl_unidirectional :: u64

section \<open>Receive state\<close>

record stream_receive_result =
  srr_data :: buffer
  srr_final_size_known :: bool
  srr_final_size :: u64
  srr_closed :: bool
  srr_error :: flowq_error

type_synonym ranges = "(u64 \<times> buffer) list"

record stream_receive_state =
  recv_next_offset :: u64
  recv_max_data :: u64
  recv_delivered :: buffer
  recv_pending :: ranges
  recv_final_size :: "u64 option"
  recv_reset_received :: bool
  recv_reset_error_code :: "u64 option"

definition new_stream_receive_state :: "u64 \<Rightarrow> stream_receive_state" where
  "new_stream_receive_state max_data = \<lparr>recv_next_offset = 0, recv_max_data = max_data, recv_delivered = [],
     recv_pending = [], recv_final_size = None, recv_reset_received = False, recv_reset_error_code = None\<rparr>"

definition final_size_value :: "stream_receive_state \<Rightarrow> u64" where
  "final_size_value s = (case recv_final_size s of Some n \<Rightarrow> n | None \<Rightarrow> 0)"

definition recv_closed :: "stream_receive_state \<Rightarrow> bool" where
  "recv_closed s \<longleftrightarrow> recv_reset_received s \<or> recv_final_size s = Some (recv_next_offset s)"

fun largest_loop :: "u64 \<Rightarrow> ranges \<Rightarrow> u64" where
  "largest_loop largest [] = largest"
| "largest_loop largest ((start, data) # rest) = largest_loop (max largest (start + length data)) rest"

definition largest_received_offset :: "stream_receive_state \<Rightarrow> u64" where
  "largest_received_offset s = largest_loop (recv_next_offset s) (recv_pending s)"

definition recv_result :: "stream_receive_state \<Rightarrow> buffer \<Rightarrow> flowq_error \<Rightarrow> stream_receive_result" where
  "recv_result s data err = \<lparr>srr_data = data, srr_final_size_known = (recv_final_size s \<noteq> None),
     srr_final_size = final_size_value s, srr_closed = recv_closed s, srr_error = err\<rparr>"

text \<open>\<open>std::prev(pending_.upper_bound(offset))\<close> is the last range that starts at or before the offset.\<close>

definition byte_at :: "stream_receive_state \<Rightarrow> u64 \<Rightarrow> byte option" where
  "byte_at s offset =
     (if offset < length (recv_delivered s) then Some (recv_delivered s ! offset)
      else
        case rev (takeWhile (\<lambda>(start, _). start \<le> offset) (recv_pending s)) of
          [] \<Rightarrow> None
        | (start, bytes) # _ \<Rightarrow>
            if offset \<ge> start \<and> offset < start + length bytes then Some (bytes ! (offset - start)) else None)"

fun validate_overlap :: "stream_receive_state \<Rightarrow> u64 \<Rightarrow> buffer \<Rightarrow> bool" where
  "validate_overlap s absolute [] \<longleftrightarrow> True"
| "validate_overlap s absolute (b # bs) \<longleftrightarrow>
     (case byte_at s absolute of
        Some expected \<Rightarrow> if expected \<noteq> b then False else validate_overlap s (absolute + 1) bs
      | None \<Rightarrow> validate_overlap s (absolute + 1) bs)"

text \<open>The scan over the ranges to merge: the ranges taken, the ranges left, and the merged bounds.\<close>

fun merge_scan :: "u64 \<Rightarrow> u64 \<Rightarrow> ranges \<Rightarrow> ranges \<times> ranges \<times> u64 \<times> u64" where
  "merge_scan merged_start merged_end [] = ([], [], merged_start, merged_end)"
| "merge_scan merged_start merged_end ((range_start, bytes) # rest) =
     (if range_start > merged_end then ([], (range_start, bytes) # rest, merged_start, merged_end)
      else
        let (taken, left, bounds) =
          merge_scan (min merged_start range_start) (max merged_end (range_start + length bytes)) rest
        in ((range_start, bytes) # taken, left, bounds))"

text \<open>Writing bytes one by one at consecutive absolute positions.\<close>

fun write_bytes :: "u64 \<Rightarrow> buffer \<Rightarrow> u64 \<Rightarrow> buffer \<Rightarrow> buffer" where
  "write_bytes merged_start merged absolute [] = merged"
| "write_bytes merged_start merged absolute (b # bs) =
     write_bytes merged_start (merged[absolute - merged_start := b]) (absolute + 1) bs"

fun write_ranges :: "u64 \<Rightarrow> buffer \<Rightarrow> ranges \<Rightarrow> buffer" where
  "write_ranges merged_start merged [] = merged"
| "write_ranges merged_start merged ((start, bytes) # rest) =
     write_ranges merged_start (write_bytes merged_start merged start bytes) rest"

fun emplace :: "u64 \<Rightarrow> buffer \<Rightarrow> ranges \<Rightarrow> ranges" where
  "emplace key bytes [] = [(key, bytes)]"
| "emplace key bytes ((k, b) # rest) =
     (if key < k then (key, bytes) # (k, b) # rest
      else if key = k then (k, b) # rest
      else (k, b) # emplace key bytes rest)"

text \<open>The iterator \<open>first\<close>: \<open>lower_bound(merged_start)\<close>, or the range before it when that one touches.\<close>

definition split_first :: "u64 \<Rightarrow> ranges \<Rightarrow> ranges \<times> ranges" where
  "split_first merged_start pending =
     (let before = takeWhile (\<lambda>(start, _). start < merged_start) pending;
          rest = dropWhile (\<lambda>(start, _). start < merged_start) pending
      in if before \<noteq> [] \<and> fst (last before) + length (snd (last before)) \<ge> merged_start
         then (butlast before, last before # rest) else (before, rest))"

definition buffer_new_suffix :: "stream_receive_state \<Rightarrow> u64 \<Rightarrow> buffer \<Rightarrow> stream_receive_state" where
  "buffer_new_suffix s offset data =
     (if data = [] then s
      else
        let data_end = offset + length data;
            merged_start = max offset (recv_next_offset s)
        in if merged_start \<ge> data_end then s
           else
             let (before, rest) = split_first merged_start (recv_pending s);
                 (taken, left, merged_start, merged_end) = merge_scan merged_start data_end rest;
                 merged = write_ranges merged_start (replicate (merged_end - merged_start) 0) taken;
                 from = max offset merged_start;
                 merged = write_bytes merged_start merged from (drop (from - offset) data);
                 pending = before @ left
             in if merged = [] then s\<lparr>recv_pending := pending\<rparr>
                else s\<lparr>recv_pending := emplace merged_start merged pending\<rparr>)"

function drain_loop :: "stream_receive_state \<Rightarrow> buffer \<Rightarrow> stream_receive_state \<times> buffer" where
  "drain_loop s out =
     (case map_of (recv_pending s) (recv_next_offset s) of
        None \<Rightarrow> (s, out)
      | Some bytes \<Rightarrow>
          drain_loop
            (s\<lparr>recv_delivered := recv_delivered s @ bytes,
               recv_next_offset := recv_next_offset s + length bytes,
               recv_pending := filter (\<lambda>(start, _). start \<noteq> recv_next_offset s) (recv_pending s)\<rparr>)
            (out @ bytes))"
  by pat_completeness auto
termination
  by (relation "measure (\<lambda>(s, _). length (recv_pending s))")
     (auto dest!: map_of_SomeD intro!: length_filter_less)

declare drain_loop.simps [simp del]

definition drain_contiguous :: "stream_receive_state \<Rightarrow> stream_receive_state \<times> buffer" where
  "drain_contiguous s = drain_loop s []"

definition recv_receive :: "stream_receive_state \<Rightarrow> stream_frame \<Rightarrow> stream_receive_result \<times> stream_receive_state" where
  "recv_receive s f =
     (if recv_reset_received s
      then (recv_result s [] (protocol_error ''STREAM data received after RESET_STREAM''), s)
      else
        let offset = (if sf_offset_present f then sf_offset f else 0);
            frame_size = length (sf_data f)
        in if offset > u64_max - frame_size
           then (recv_result s [] (protocol_error ''STREAM frame offset overflows''), s)
           else
             let end_offset = offset + frame_size in
             if end_offset > recv_max_data s
             then (recv_result s [] (flow_control_error ''STREAM data exceeds stream flow-control credit''), s)
             else if sf_fin f \<and> recv_final_size s \<noteq> None \<and> recv_final_size s \<noteq> Some end_offset
             then (recv_result s [] (protocol_error ''STREAM final size changed''), s)
             else
               let proposed_final_size = (if sf_fin f then Some end_offset else recv_final_size s) in
               if (case proposed_final_size of Some n \<Rightarrow> end_offset > n | None \<Rightarrow> False)
               then (recv_result s [] (protocol_error ''STREAM data exceeds final size''), s)
               else if \<not> validate_overlap s offset (sf_data f)
               then (recv_result s [] (protocol_error ''STREAM data conflicts with existing bytes''), s)
               else
                 let s1 = s\<lparr>recv_final_size := proposed_final_size\<rparr>;
                     s2 = buffer_new_suffix s1 offset (sf_data f);
                     (s3, out) = drain_contiguous s2
                 in (recv_result s3 out no_error, s3))"

definition recv_reset :: "stream_receive_state \<Rightarrow> reset_stream_frame \<Rightarrow> stream_receive_result \<times> stream_receive_state" where
  "recv_reset s f =
     (if recv_final_size s \<noteq> None \<and> recv_final_size s \<noteq> Some (rs_final_size f)
      then (recv_result s [] (protocol_error ''RESET_STREAM final size conflicts with known final size''), s)
      else if rs_final_size f < largest_received_offset s
      then (recv_result s [] (protocol_error ''RESET_STREAM final size is below delivered offset''), s)
      else
        (\<lparr>srr_data = [], srr_final_size_known = True, srr_final_size = rs_final_size f, srr_closed = True,
          srr_error = no_error\<rparr>,
         s\<lparr>recv_final_size := Some (rs_final_size f), recv_reset_received := True,
           recv_reset_error_code := Some (rs_application_error_code f)\<rparr>))"

definition recv_update_max_data :: "stream_receive_state \<Rightarrow> u64 \<Rightarrow> stream_receive_state" where
  "recv_update_max_data s max_data = s\<lparr>recv_max_data := max (recv_max_data s) max_data\<rparr>"

section \<open>The set of receive states\<close>

record stream_receive_set =
  rset_initial_max_data :: u64
  rset_local_initiator :: stream_initiator
  rset_peer_limits :: stream_limits
  rset_streams :: "u64 \<rightharpoonup> stream_receive_state"

definition new_stream_receive_set :: "u64 \<Rightarrow> stream_initiator \<Rightarrow> stream_limits \<Rightarrow> stream_receive_set" where
  "new_stream_receive_set initial_max_data local_initiator peer_limits =
     \<lparr>rset_initial_max_data = initial_max_data, rset_local_initiator = local_initiator,
      rset_peer_limits = peer_limits, rset_streams = Map.empty\<rparr>"

text \<open>\<open>try_emplace\<close>: the existing state, or a new one put in the map.\<close>

definition recv_state_for :: "stream_receive_set \<Rightarrow> u64 \<Rightarrow> stream_receive_state" where
  "recv_state_for rs stream_id =
     (case rset_streams rs stream_id of Some s \<Rightarrow> s
      | None \<Rightarrow> new_stream_receive_state (rset_initial_max_data rs))"

definition recv_store :: "stream_receive_set \<Rightarrow> u64 \<Rightarrow> stream_receive_state \<Rightarrow> stream_receive_set" where
  "recv_store rs stream_id s = rs\<lparr>rset_streams := (rset_streams rs)(stream_id \<mapsto> s)\<rparr>"

definition recv_ensure_state_for :: "stream_receive_set \<Rightarrow> u64 \<Rightarrow> stream_receive_state option" where
  "recv_ensure_state_for rs stream_id =
     (case rset_streams rs stream_id of
        Some s \<Rightarrow> Some s
      | None \<Rightarrow>
          let info = classify_stream_id stream_id;
              ordinal = drop_bit 2 stream_id;
              limit = (if sid_direction info = Bidirectional then sl_bidirectional (rset_peer_limits rs)
                       else sl_unidirectional (rset_peer_limits rs))
          in if sid_initiator info \<noteq> rset_local_initiator rs \<and> ordinal \<ge> limit then None
             else Some (recv_state_for rs stream_id))"

definition rset_receive :: "stream_receive_set \<Rightarrow> stream_frame \<Rightarrow> (u64 \<times> stream_receive_result) \<times> stream_receive_set" where
  "rset_receive rs f =
     (case recv_ensure_state_for rs (sf_stream_id f) of
        None \<Rightarrow> ((sf_stream_id f, \<lparr>srr_data = [], srr_final_size_known = False, srr_final_size = 0,
                   srr_closed = False, srr_error = protocol_error ''peer stream count limit exceeded''\<rparr>), rs)
      | Some s \<Rightarrow>
          let (r, s') = recv_receive s f
          in ((sf_stream_id f, r), recv_store rs (sf_stream_id f) s'))"

definition rset_reset :: "stream_receive_set \<Rightarrow> reset_stream_frame \<Rightarrow> (u64 \<times> stream_receive_result) \<times> stream_receive_set" where
  "rset_reset rs f =
     (let (r, s') = recv_reset (recv_state_for rs (rs_stream_id f)) f
      in ((rs_stream_id f, r), recv_store rs (rs_stream_id f) s'))"

definition rset_update_max_data :: "stream_receive_set \<Rightarrow> u64 \<Rightarrow> u64 \<Rightarrow> stream_receive_set" where
  "rset_update_max_data rs stream_id max_data =
     recv_store rs stream_id (recv_update_max_data (recv_state_for rs stream_id) max_data)"

section \<open>Pending ranges as partial maps\<close>

definition seg :: "nat \<Rightarrow> buffer \<Rightarrow> nat \<Rightarrow> byte option" where
  "seg start bytes i = (if start \<le> i \<and> i < start + length bytes then Some (bytes ! (i - start)) else None)"

primrec pend :: "ranges \<Rightarrow> nat \<Rightarrow> byte option" where
  "pend [] i = None"
| "pend (r # rs) i = (case seg (fst r) (snd r) i of Some b \<Rightarrow> Some b | None \<Rightarrow> pend rs i)"

text \<open>Ranges in order, none empty, and with at least one missing byte between two of them.\<close>

fun separated :: "nat \<Rightarrow> ranges \<Rightarrow> bool" where
  "separated low [] \<longleftrightarrow> True"
| "separated low ((start, bytes) # rest) \<longleftrightarrow>
     low \<le> start \<and> bytes \<noteq> [] \<and> separated (Suc (start + length bytes)) rest"

lemma separated_mono: "separated low ps \<Longrightarrow> l \<le> low \<Longrightarrow> separated l ps"
  by (cases "(low, ps)" rule: separated.cases) auto

lemma pend_below: "separated low ps \<Longrightarrow> i < low \<Longrightarrow> pend ps i = None"
  by (induction low ps rule: separated.induct) (auto simp: seg_def)

lemma pend_append: "pend (xs @ ys) i = (case pend xs i of Some b \<Rightarrow> Some b | None \<Rightarrow> pend ys i)"
  by (induction xs) (auto split: option.splits)

lemma separated_append:
  "separated low (xs @ ys) \<longleftrightarrow>
     separated low xs \<and> separated (if xs = [] then low else Suc (fst (last xs) + length (snd (last xs)))) ys"
  by (induction low xs rule: separated.induct) auto

lemma separated_member: "separated low ps \<Longrightarrow> (start, bytes) \<in> set ps \<Longrightarrow> low \<le> start \<and> bytes \<noteq> []"
  by (induction low ps rule: separated.induct) fastforce+

lemma pend_lookup:
  assumes "separated low ps"
  shows "(case rev (takeWhile (\<lambda>(start, _). start \<le> i) ps) of
          [] \<Rightarrow> None
        | (start, bytes) # _ \<Rightarrow>
            if i \<ge> start \<and> i < start + length bytes then Some (bytes ! (i - start)) else None) = pend ps i"
  using assms
proof (induction low ps rule: separated.induct)
  case (2 low start bytes rest)
  then have rest: "separated (Suc (start + length bytes)) rest" by simp
  show ?case
  proof (cases "start \<le> i \<and> rest \<noteq> [] \<and> fst (hd rest) \<le> i")
    case True
    then obtain s b rest' where r: "rest = (s, b) # rest'" "s \<le> i" by (cases rest) auto
    with rest have none: "seg start bytes i = None" by (auto simp: seg_def)
    have ne: "takeWhile (\<lambda>(start, _). start \<le> i) rest \<noteq> []" using r by simp
    from True 2 none ne show ?thesis by (auto simp: neq_Nil_conv split: list.splits)
  next
    case False
    then have "takeWhile (\<lambda>(start, _). start \<le> i) ((start, bytes) # rest)
        = (if start \<le> i then [(start, bytes)] else [])" by (cases rest) auto
    moreover have "pend rest i = None"
    proof (cases "start \<le> i")
      case True
      with False rest show ?thesis by (cases rest) (auto simp: seg_def intro: pend_below)
    next
      case False
      with rest show ?thesis by (auto intro: pend_below)
    qed
    ultimately show ?thesis by (auto simp: seg_def)
  qed
qed simp

lemma seg_append: "seg start (a @ b) i = (case seg start a i of Some x \<Rightarrow> Some x | None \<Rightarrow> seg (start + length a) b i)"
  by (auto simp: seg_def nth_append)

section \<open>Writing the merged range\<close>

lemma length_write_bytes [simp]: "length (write_bytes ms m a bs) = length m"
  by (induction ms m a bs rule: write_bytes.induct) auto

lemma write_bytes_seg:
  assumes "ms \<le> a" and "a + length bs \<le> ms + length m"
  shows "seg ms (write_bytes ms m a bs) i = (case seg a bs i of Some x \<Rightarrow> Some x | None \<Rightarrow> seg ms m i)"
  using assms
proof (induction ms m a bs rule: write_bytes.induct)
  case (2 ms m a b bs)
  then have IH: "seg ms (write_bytes ms (m[a - ms := b]) (a + 1) bs) i =
      (case seg (a + 1) bs i of Some x \<Rightarrow> Some x | None \<Rightarrow> seg ms (m[a - ms := b]) i)" by simp
  have "seg ms (m[a - ms := b]) i = (if i = a then Some b else seg ms m i)"
    using 2(2,3) by (auto simp: seg_def nth_list_update)
  moreover have "seg a (b # bs) i = (if i = a then Some b else seg (a + 1) bs i)"
    by (auto simp: seg_def nth_Cons')
  moreover have "seg (a + 1) bs a = None" by (simp add: seg_def)
  ultimately show ?case using IH by (auto split: option.splits)
qed (auto simp: seg_def)

lemma length_write_ranges [simp]: "length (write_ranges ms m rs) = length m"
  by (induction ms m rs rule: write_ranges.induct) auto

lemma write_ranges_seg:
  assumes "\<forall>(s, b) \<in> set rs. ms \<le> s \<and> s + length b \<le> ms + length m" and "separated low rs"
  shows "seg ms (write_ranges ms m rs) i = (case pend rs i of Some x \<Rightarrow> Some x | None \<Rightarrow> seg ms m i)"
  using assms
proof (induction ms m rs arbitrary: low rule: write_ranges.induct)
  case (2 ms m start bytes rest)
  have "pend rest i = None" if "seg start bytes i \<noteq> None"
    using that 2(3) pend_below [of "Suc (start + length bytes)" rest i] by (auto simp: seg_def split: if_splits)
  then show ?case
    using 2 by (auto simp: write_bytes_seg split: option.splits)
qed (simp add: seg_def)

section \<open>Splitting and scanning\<close>

lemma split_first_eq:
  assumes "separated low ps"
  shows "split_first ms ps = (takeWhile (\<lambda>(s, b). s + length b < ms) ps, dropWhile (\<lambda>(s, b). s + length b < ms) ps)"
  using assms
proof (induction low ps rule: separated.induct)
  case (2 low s b rest)
  then have rest: "separated (Suc (s + length b)) rest" and b: "b \<noteq> []" by auto
  show ?case
  proof (cases "s + length b < ms")
    case True
    with 2 rest show ?thesis
      by (auto simp: split_first_def Let_def split: if_splits)
  next
    case False
    then have "takeWhile (\<lambda>(s, _). s < ms) rest = []" "dropWhile (\<lambda>(s, _). s < ms) rest = rest"
      using rest by (cases rest; auto)+
    with False b show ?thesis by (auto simp: split_first_def Let_def)
  qed
qed (simp add: split_first_def)

lemma merge_scan_spec:
  assumes "merge_scan ms me ps = (taken, left, ms', me')" and "separated low ps"
    and "\<forall>(s, b) \<in> set ps. ms \<le> s + length b" and "ms \<le> me"
  shows "ps = taken @ left \<and> ms' \<le> ms \<and> me \<le> me' \<and> separated (Suc me') left
    \<and> (\<forall>(s, b) \<in> set taken. ms' \<le> s \<and> s + length b \<le> me')
    \<and> (\<forall>i. ms' \<le> i \<and> i < me' \<longrightarrow> ms \<le> i \<and> i < me \<or> pend taken i \<noteq> None)
    \<and> (ms' = ms \<or> taken \<noteq> [] \<and> ms' = fst (hd taken))
    \<and> (me' = me \<or> (\<exists>(s, b) \<in> set taken. me' = s + length b))"
  using assms
proof (induction ms me ps arbitrary: low taken left rule: merge_scan.induct)
  case (2 ms me s b rest)
  show ?case
  proof (cases "s > me")
    case True
    with 2 show ?thesis by auto
  next
    case False
    let ?ms = "min ms s" and ?me = "max me (s + length b)"
    obtain t l where m: "merge_scan ?ms ?me rest = (t, l, ms', me')" and t: "taken = (s, b) # t" "left = l"
      using 2(2) False by (auto split: prod.splits)
    have rest: "separated (Suc (s + length b)) rest" "b \<noteq> []" "low \<le> s" using 2(3) by auto
    have later: "s < fst r" if "r \<in> set rest" for r
      using separated_member [OF rest(1), of "fst r" "snd r"] that by auto
    have sub: "\<forall>(s', b') \<in> set rest. ?ms \<le> s' + length b'" using later by fastforce
    from 2(1) [OF False m rest(1) sub] 2(5) have IH: "rest = t @ l" "ms' \<le> ?ms" "?me \<le> me'" "separated (Suc me') l"
      "\<forall>(s, b) \<in> set t. ms' \<le> s \<and> s + length b \<le> me'"
      "\<forall>i. ms' \<le> i \<and> i < me' \<longrightarrow> ?ms \<le> i \<and> i < ?me \<or> pend t i \<noteq> None"
      "ms' = ?ms \<or> t \<noteq> [] \<and> ms' = fst (hd t)"
      "me' = ?me \<or> (\<exists>(s, b) \<in> set t. me' = s + length b)" by auto
    have ms: "ms' = ?ms" using IH(1,2,7) later [of "hd t"] by (cases t) auto
    have "ms \<le> i \<and> i < me \<or> pend taken i \<noteq> None" if i: "ms' \<le> i \<and> i < me'" for i
    proof (cases "pend t i = None")
      case True
      with IH(6) i have "?ms \<le> i \<and> i < ?me" by auto
      moreover have "ms \<le> s + length b" using 2(4) by auto
      ultimately have "ms \<le> i \<and> i < me \<or> s \<le> i \<and> i < s + length b" using False by auto
      then show ?thesis by (auto simp: t seg_def)
    next
      case False
      then show ?thesis by (auto simp: t split: option.splits)
    qed
    moreover have "me' = me \<or> (\<exists>(s, b) \<in> set taken. me' = s + length b)"
      using IH(8) by (cases "me \<le> s + length b") (auto simp: t)
    moreover have "ms' = ms \<or> taken \<noteq> [] \<and> ms' = fst (hd taken)" using ms by (auto simp: t)
    ultimately show ?thesis using IH ms t by auto
  qed
qed auto

section \<open>Buffering a frame\<close>

lemma emplace_between:
  "\<forall>(k, b) \<in> set before. k < key \<Longrightarrow> \<forall>(k, b) \<in> set left. key < k \<Longrightarrow>
     emplace key bytes (before @ left) = before @ (key, bytes) # left"
proof (induction before)
  case Nil
  then show ?case by (cases left) auto
qed auto

lemma pend_above: "\<forall>(s, b) \<in> set ps. s + length b \<le> i \<Longrightarrow> pend ps i = None"
  by (induction ps) (auto simp: seg_def)

lemma separated_ends:
  "separated low ps \<Longrightarrow> (s, b) \<in> set (butlast ps) \<Longrightarrow> s + length b < fst (last ps)"
proof (induction low ps rule: separated.induct)
  case (2 low s' b' rest)
  show ?case
  proof (cases "(s, b) = (s', b')")
    case True
    with 2 have "rest \<noteq> []" "separated (Suc (s + length b)) rest" by auto
    then show ?thesis using separated_member [of "Suc (s + length b)" rest "fst (last rest)" "snd (last rest)"] by auto
  next
    case False
    with 2 show ?thesis by (auto split: if_splits)
  qed
qed simp

lemma separated_dropWhile: "separated low ps \<Longrightarrow> separated low (dropWhile P ps)"
proof (induction low ps rule: separated.induct)
  case (2 low s b rest)
  then show ?case by (auto intro: separated_mono)
qed simp

lemma dropWhile_ends:
  assumes "separated low ps" and "(s, b) \<in> set (dropWhile (\<lambda>(s, b). s + length b < m) ps)"
  shows "m \<le> s + length b"
  using assms
proof (induction low ps rule: separated.induct)
  case (2 low s' b' rest)
  then show ?case using separated_member [of "Suc (s' + length b')" rest s b] by (auto split: if_splits)
qed simp

text \<open>How \<open>split_first\<close> and \<open>merge_scan\<close> cut the pending list around new data: the ranges before it, those
  it touches, and those after it.\<close>

lemma merge_split:
  assumes sep: "separated low ps" and "low \<le> m" and "m \<le> de"
  obtains before taken left ms me where "split_first m ps = (before, taken @ left)"
    and "merge_scan m de (taken @ left) = (taken, left, ms, me)"
    and "ps = before @ taken @ left" and "low \<le> ms" and "ms \<le> m" and "de \<le> me"
    and "\<forall>(k, b) \<in> set before. k + length b < ms" and "separated (Suc me) left"
    and "\<forall>(k, b) \<in> set taken. ms \<le> k \<and> k + length b \<le> me" and "separated low taken"
    and "\<forall>i. ms \<le> i \<and> i < me \<longrightarrow> m \<le> i \<and> i < de \<or> pend taken i \<noteq> None"
    and "me = de \<or> (\<exists>(k, b) \<in> set taken. me = k + length b)"
proof -
  define before where "before = takeWhile (\<lambda>(k, b). k + length b < m) ps"
  define rest where "rest = dropWhile (\<lambda>(k, b). k + length b < m) ps"
  have split: "split_first m ps = (before, rest)" "ps = before @ rest"
    using split_first_eq [OF sep] by (simp_all add: before_def rest_def)
  obtain taken left ms me where scan: "merge_scan m de rest = (taken, left, ms, me)"
    by (metis prod_cases4)
  have sep_rest: "separated low rest" using sep by (simp add: rest_def separated_dropWhile)
  moreover have "\<forall>(k, b) \<in> set rest. m \<le> k + length b" using dropWhile_ends [OF sep] by (auto simp: rest_def)
  ultimately have sp: "rest = taken @ left" "ms \<le> m" "de \<le> me" "separated (Suc me) left"
      "\<forall>(k, b) \<in> set taken. ms \<le> k \<and> k + length b \<le> me"
      "\<forall>i. ms \<le> i \<and> i < me \<longrightarrow> m \<le> i \<and> i < de \<or> pend taken i \<noteq> None"
      "ms = m \<or> taken \<noteq> [] \<and> ms = fst (hd taken)"
      "me = de \<or> (\<exists>(k, b) \<in> set taken. me = k + length b)"
    using merge_scan_spec [OF scan] assms(3) by auto
  have "low \<le> ms"
    using sp(1,7) assms(2) separated_member [OF sep_rest, of "fst (hd taken)" "snd (hd taken)"] by (cases taken) auto
  moreover have "\<forall>(k, b) \<in> set before. k + length b < ms"
  proof clarify
    fix k b assume kb: "(k, b) \<in> set before"
    then have "k + length b < m" by (auto simp: before_def dest: set_takeWhileD)
    moreover have "k + length b < fst (hd taken)" if t: "taken \<noteq> []"
    proof -
      have "separated low (before @ [hd taken])" using sep split(2) sp(1) t by (cases taken) (auto simp: separated_append)
      from separated_ends [OF this] kb show ?thesis by simp
    qed
    ultimately show "k + length b < ms" using sp(7) by auto
  qed
  moreover have "separated low taken" using sep_rest sp(1) by (simp add: separated_append)
  ultimately show ?thesis using that split scan sp by auto
qed

text \<open>The bytes of the merged range: the new data over the ranges it touches, with no byte left unset.\<close>

lemma merged_bytes:
  assumes "ms \<le> m" and "offset \<le> m" and "m \<le> offset + length data" and "offset + length data \<le> me"
    and "\<forall>(k, b) \<in> set taken. ms \<le> k \<and> k + length b \<le> me" and "separated low taken"
    and "\<forall>i. ms \<le> i \<and> i < me \<longrightarrow> m \<le> i \<and> i < offset + length data \<or> pend taken i \<noteq> None"
  defines "mg \<equiv> write_bytes ms (write_ranges ms (replicate (me - ms) 0) taken) m (drop (m - offset) data)"
  shows "length mg = me - ms" and "seg ms mg i =
    (if m \<le> i \<and> i < offset + length data then Some (data ! (i - offset)) else pend taken i)"
proof -
  show len: "length mg = me - ms" by (simp add: mg_def)
  let ?z = "replicate (me - ms) (0 :: byte)"
  have "seg ms (write_ranges ms ?z taken) i = (case pend taken i of Some x \<Rightarrow> Some x | None \<Rightarrow> seg ms ?z i)"
    using assms(1,3,4,5) by (intro write_ranges_seg [OF _ assms(6)]) auto
  moreover have "seg ms mg i = (case seg m (drop (m - offset) data) i of Some x \<Rightarrow> Some x
      | None \<Rightarrow> seg ms (write_ranges ms ?z taken) i)"
    unfolding mg_def using assms(1-4) by (intro write_bytes_seg) auto
  moreover have "seg m (drop (m - offset) data) i =
      (if m \<le> i \<and> i < offset + length data then Some (data ! (i - offset)) else None)"
    using assms(2,3) by (auto simp: seg_def)
  moreover have "seg ms ?z i = None \<or> m \<le> i \<and> i < offset + length data \<or> pend taken i \<noteq> None"
    using assms(7) by (auto simp: seg_def)
  ultimately show "seg ms mg i =
    (if m \<le> i \<and> i < offset + length data then Some (data ! (i - offset)) else pend taken i)"
    by (auto split: option.splits)
qed

text \<open>What the pending list becomes, for data that reaches past the delivered prefix.\<close>

lemma buffer_pending:
  fixes s :: stream_receive_state
  assumes sep: "separated (recv_next_offset s) (recv_pending s)"
    and new: "recv_next_offset s < offset + length data" and ne: "data \<noteq> []"
  obtains pending where "buffer_new_suffix s offset data = s\<lparr>recv_pending := pending\<rparr>"
    and "separated (recv_next_offset s) pending"
    and "\<forall>i \<ge> recv_next_offset s. pend pending i =
      (case seg offset data i of Some x \<Rightarrow> Some x | None \<Rightarrow> pend (recv_pending s) i)"
    and "\<forall>B. offset + length data \<le> B \<and> (\<forall>(k, b) \<in> set (recv_pending s). k + length b \<le> B) \<longrightarrow>
      (\<forall>(k, b) \<in> set pending. k + length b \<le> B)"
proof -
  let ?next = "recv_next_offset s" and ?ps = "recv_pending s" and ?de = "offset + length data"
  define m where "m = max offset ?next"
  have m: "m < ?de" "?next \<le> m" "offset \<le> m" "m \<le> ?de" using new ne by (auto simp: m_def)
  obtain before taken left ms me where sp: "split_first m ?ps = (before, taken @ left)"
    "merge_scan m ?de (taken @ left) = (taken, left, ms, me)" "?ps = before @ taken @ left" "?next \<le> ms" "ms \<le> m" "?de \<le> me"
    "\<forall>(k, b) \<in> set before. k + length b < ms" "separated (Suc me) left"
    "\<forall>(k, b) \<in> set taken. ms \<le> k \<and> k + length b \<le> me" "separated ?next taken"
    "\<forall>i. ms \<le> i \<and> i < me \<longrightarrow> m \<le> i \<and> i < ?de \<or> pend taken i \<noteq> None"
    "me = ?de \<or> (\<exists>(k, b) \<in> set taken. me = k + length b)"
    using merge_split [OF sep m(2,4)] .
  define mg where "mg = write_bytes ms (write_ranges ms (replicate (me - ms) 0) taken) m (drop (m - offset) data)"
  note mg = merged_bytes [OF sp(5) m(3,4) sp(6,9,10,11), folded mg_def]
  have mg_ne: "mg \<noteq> []" and mg_end: "ms + length mg = me" using mg(1) sp(5,6) m(1) by auto
  have from_m: "max offset ms = m" using sp(4,5) by (auto simp: m_def)
  have left_start: "me < k" if "(k, b) \<in> set left" for k b
    using separated_member [OF sp(8) that] by simp
  have "pend (before @ (ms, mg) # left) i = (case seg offset data i of Some x \<Rightarrow> Some x | None \<Rightarrow> pend ?ps i)"
    if i: "?next \<le> i" for i
  proof -
    have b: "pend before i = None" if "ms \<le> i" using that sp(7) by (intro pend_above) fastforce
    have "seg offset data i = (if m \<le> i \<and> i < ?de then Some (data ! (i - offset)) else None)"
      using i by (auto simp: seg_def m_def)
    then show ?thesis
      using mg(2) [of i] b sp(5) by (auto simp: sp(3) pend_append split: option.split)
  qed
  moreover have "separated ?next (before @ (ms, mg) # left)"
    using sep sp(4,7,8) mg_ne mg_end by (cases before rule: rev_cases) (auto simp: sp(3) separated_append)
  moreover have "buffer_new_suffix s offset data = s\<lparr>recv_pending := before @ (ms, mg) # left\<rparr>"
  proof -
    have "emplace ms mg (before @ left) = before @ (ms, mg) # left"
      using sp(5,6,7) left_start m(1) by (intro emplace_between) fastforce+
    then show ?thesis
      using m(1) ne sp(1,2) from_m mg_ne
      by (simp add: buffer_new_suffix_def Let_def m_def [symmetric] mg_def [symmetric])
  qed
  moreover have "\<forall>(k, b) \<in> set (before @ (ms, mg) # left). k + length b \<le> B"
    if "?de \<le> B" "\<forall>(k, b) \<in> set ?ps. k + length b \<le> B" for B
    using that sp(12) mg_end by (fastforce simp: sp(3))
  ultimately show ?thesis using that by blast
qed

section \<open>The receive invariant\<close>

definition recv_inv :: "stream_receive_state \<Rightarrow> bool" where
  "recv_inv s \<longleftrightarrow> recv_next_offset s = length (recv_delivered s)
     \<and> separated (Suc (recv_next_offset s)) (recv_pending s)
     \<and> recv_next_offset s \<le> recv_max_data s \<and> recv_max_data s < 2 ^ 64
     \<and> (\<forall>(k, b) \<in> set (recv_pending s). k + length b \<le> recv_max_data s)"

text \<open>The bytes received so far, by stream offset.\<close>

definition content :: "stream_receive_state \<Rightarrow> u64 \<Rightarrow> byte option" where
  "content s i = (if i < length (recv_delivered s) then Some (recv_delivered s ! i) else pend (recv_pending s) i)"

lemma recv_inv_new: "max_data < 2 ^ 64 \<Longrightarrow> recv_inv (new_stream_receive_state max_data)"
  by (simp add: recv_inv_def new_stream_receive_state_def)

lemma byte_at_content:
  assumes "recv_inv s"
  shows "byte_at s i = content s i"
proof -
  have "separated (Suc (recv_next_offset s)) (recv_pending s)" using assms unfolding recv_inv_def by blast
  then show ?thesis by (simp only: byte_at_def content_def pend_lookup)
qed

lemma content_gap: "recv_inv s \<Longrightarrow> content s (recv_next_offset s) = None"
  by (auto simp: content_def recv_inv_def intro: pend_below)

lemma content_prefix: "recv_inv s \<Longrightarrow> i < recv_next_offset s \<Longrightarrow> content s i = Some (recv_delivered s ! i)"
  by (simp add: content_def recv_inv_def)

text \<open>Two partial maps that nowhere hold different bytes.\<close>

definition compatible :: "(u64 \<Rightarrow> byte option) \<Rightarrow> (u64 \<Rightarrow> byte option) \<Rightarrow> bool" where
  "compatible f g \<longleftrightarrow> (\<forall>i. f i = None \<or> g i = None \<or> f i = g i)"

lemma compatible_seg_Cons:
  "compatible (seg offset (d # data)) g \<longleftrightarrow>
     (g offset = None \<or> g offset = Some d) \<and> compatible (seg (Suc offset) data) g"
proof -
  have step: "seg offset (d # data) i = (if i = offset then Some d else seg (Suc offset) data i)" for i
    by (auto simp: seg_def nth_Cons')
  have "seg (Suc offset) data offset = None" by (simp add: seg_def)
  then have "(seg offset (d # data) i = None \<or> g i = None \<or> seg offset (d # data) i = g i) \<longleftrightarrow>
      (i = offset \<longrightarrow> g offset = None \<or> g offset = Some d)
      \<and> (seg (Suc offset) data i = None \<or> g i = None \<or> seg (Suc offset) data i = g i)" for i
    unfolding step by auto
  then show ?thesis unfolding compatible_def by blast
qed

lemma validate_overlap_content:
  "recv_inv s \<Longrightarrow> validate_overlap s offset data \<longleftrightarrow> compatible (seg offset data) (content s)"
proof (induction data arbitrary: offset)
  case Nil
  then show ?case by (auto simp: seg_def compatible_def)
next
  case (Cons d data)
  then show ?case by (simp add: compatible_seg_Cons byte_at_content split: option.split) blast
qed

section \<open>Draining\<close>

lemma map_of_below: "separated low ps \<Longrightarrow> k < low \<Longrightarrow> map_of ps k = None"
  by (induction low ps rule: separated.induct) auto

lemma filter_below: "separated low ps \<Longrightarrow> k < low \<Longrightarrow> filter (\<lambda>(start, _). start \<noteq> k) ps = ps"
  by (induction low ps rule: separated.induct) auto

lemma drain_stop:
  "separated (Suc (recv_next_offset s)) (recv_pending s) \<Longrightarrow> drain_loop s out = (s, out)"
  by (subst drain_loop.simps) (simp add: map_of_below)

text \<open>Because ranges are separated, draining delivers at most one of them: the one at the next offset.\<close>

lemma drain_contiguous_cases:
  assumes "separated (recv_next_offset s) (recv_pending s)"
  obtains (stop) "separated (Suc (recv_next_offset s)) (recv_pending s)" "drain_contiguous s = (s, [])"
  | (deliver) bytes rest where "recv_pending s = (recv_next_offset s, bytes) # rest"
      "separated (Suc (recv_next_offset s + length bytes)) rest"
      "drain_contiguous s = (s\<lparr>recv_delivered := recv_delivered s @ bytes,
         recv_next_offset := recv_next_offset s + length bytes, recv_pending := rest\<rparr>, bytes)"
proof (cases "recv_pending s")
  case Nil
  with that(1) show ?thesis by (simp add: drain_contiguous_def drain_stop)
next
  case (Cons r rest)
  obtain k bytes where r: "r = (k, bytes)" by (cases r)
  show ?thesis
  proof (cases "k = recv_next_offset s")
    case True
    with Cons r assms have sep: "separated (Suc (recv_next_offset s + length bytes)) rest" by simp
    then have "filter (\<lambda>(start, _). start \<noteq> recv_next_offset s) rest = rest" by (intro filter_below) auto
    then have "drain_contiguous s = drain_loop (s\<lparr>recv_delivered := recv_delivered s @ bytes,
         recv_next_offset := recv_next_offset s + length bytes, recv_pending := rest\<rparr>) bytes"
      unfolding drain_contiguous_def using Cons r True by (subst drain_loop.simps) simp
    with that(2) Cons r True sep show ?thesis by (simp add: drain_stop)
  next
    case False
    with Cons r assms have "separated (Suc (recv_next_offset s)) (recv_pending s)" by auto
    with that(1) show ?thesis by (simp add: drain_contiguous_def drain_stop)
  qed
qed

lemma drain_content:
  assumes "separated (recv_next_offset s) (recv_pending s)" and "recv_next_offset s = length (recv_delivered s)"
    and "recv_max_data s < 2 ^ 64" and "recv_next_offset s \<le> recv_max_data s"
    and "\<forall>(k, b) \<in> set (recv_pending s). k + length b \<le> recv_max_data s"
    and "drain_contiguous s = (s', out)"
  shows "recv_inv s' \<and> content s' = content s \<and> recv_delivered s' = recv_delivered s @ out
    \<and> recv_final_size s' = recv_final_size s \<and> recv_max_data s' = recv_max_data s
    \<and> recv_reset_received s' = recv_reset_received s"
  using assms(1)
proof (cases rule: drain_contiguous_cases)
  case stop
  with assms show ?thesis by (auto simp: recv_inv_def)
next
  case (deliver bytes rest)
  then have s': "s' = s\<lparr>recv_delivered := recv_delivered s @ bytes,
      recv_next_offset := recv_next_offset s + length bytes, recv_pending := rest\<rparr>" "out = bytes"
    using assms(6) by auto
  have "content s' i = content s i" for i
  proof -
    have "pend rest i = None" if "i < recv_next_offset s + length bytes"
      using that by (intro pend_below [OF deliver(2)]) simp
    then show ?thesis using assms(2) by (auto simp: content_def s' deliver(1) nth_append seg_def)
  qed
  then show ?thesis using assms deliver by (auto simp: recv_inv_def s')
qed

section \<open>Receiving\<close>

definition frame_offset :: "stream_frame \<Rightarrow> u64" where
  "frame_offset f = (if sf_offset_present f then sf_offset f else 0)"

definition frame_end :: "stream_frame \<Rightarrow> u64" where
  "frame_end f = frame_offset f + length (sf_data f)"

text \<open>When a frame is accepted: the conditions of the source over the received bytes.\<close>

definition acceptable :: "stream_receive_state \<Rightarrow> stream_frame \<Rightarrow> bool" where
  "acceptable s f \<longleftrightarrow> \<not> recv_reset_received s \<and> frame_end f \<le> recv_max_data s
     \<and> (sf_fin f \<longrightarrow> recv_final_size s = None \<or> recv_final_size s = Some (frame_end f))
     \<and> (\<forall>n. recv_final_size s = Some n \<longrightarrow> frame_end f \<le> n)
     \<and> compatible (seg (frame_offset f) (sf_data f)) (content s)"

lemma buffer_drain:
  assumes inv: "recv_inv s" and lim: "offset + length data \<le> recv_max_data s"
    and agree: "compatible (seg offset data) (content s)"
    and drain: "drain_contiguous (buffer_new_suffix s offset data) = (s', out)"
  shows "recv_inv s' \<and> content s' = (\<lambda>i. case seg offset data i of Some x \<Rightarrow> Some x | None \<Rightarrow> content s i)
    \<and> recv_delivered s' = recv_delivered s @ out
    \<and> recv_final_size s' = recv_final_size s \<and> recv_max_data s' = recv_max_data s
    \<and> recv_reset_received s' = recv_reset_received s"
proof (cases "data = [] \<or> offset + length data \<le> recv_next_offset s")
  case True
  then have s': "s' = s" "out = []"
    using drain inv drain_stop [of s "[]"]
    by (auto simp: buffer_new_suffix_def Let_def recv_inv_def drain_contiguous_def max_def split: if_splits)
  have "seg offset data i = Some x \<Longrightarrow> content s i = Some x" for i x
    using True agree [unfolded compatible_def, rule_format, of i] content_prefix [OF inv, of i]
    by (auto simp: seg_def split: if_splits)
  then have "(\<lambda>i. case seg offset data i of Some x \<Rightarrow> Some x | None \<Rightarrow> content s i) = content s"
    by (auto split: option.split)
  with s' inv show ?thesis by simp
next
  case False
  have sep: "separated (recv_next_offset s) (recv_pending s)"
    using inv by (auto simp: recv_inv_def intro: separated_mono)
  have new: "recv_next_offset s < offset + length data" "data \<noteq> []" using False by auto
  obtain pending where p: "buffer_new_suffix s offset data = s\<lparr>recv_pending := pending\<rparr>"
    "separated (recv_next_offset s) pending"
    "\<forall>i \<ge> recv_next_offset s. pend pending i =
      (case seg offset data i of Some x \<Rightarrow> Some x | None \<Rightarrow> pend (recv_pending s) i)"
    "\<forall>B. offset + length data \<le> B \<and> (\<forall>(k, b) \<in> set (recv_pending s). k + length b \<le> B) \<longrightarrow>
      (\<forall>(k, b) \<in> set pending. k + length b \<le> B)"
    using buffer_pending [OF sep new] .
  have bound: "\<forall>(k, b) \<in> set pending. k + length b \<le> recv_max_data s"
    using p(4) lim inv unfolding recv_inv_def by blast
  have "content (s\<lparr>recv_pending := pending\<rparr>) i =
      (case seg offset data i of Some x \<Rightarrow> Some x | None \<Rightarrow> content s i)" for i
  proof (cases "i < recv_next_offset s")
    case True
    then have "content s i = Some (recv_delivered s ! i)" using content_prefix [OF inv] by simp
    moreover have "content (s\<lparr>recv_pending := pending\<rparr>) i = content s i"
      using True inv by (simp add: content_def recv_inv_def)
    ultimately show ?thesis
      using agree [unfolded compatible_def, rule_format, of i] by (auto split: option.split)
  next
    case False
    then show ?thesis using p(3) inv by (simp add: content_def recv_inv_def split: option.split)
  qed
  moreover have "recv_inv s' \<and> content s' = content (s\<lparr>recv_pending := pending\<rparr>)
      \<and> recv_delivered s' = recv_delivered s @ out \<and> recv_final_size s' = recv_final_size s
      \<and> recv_max_data s' = recv_max_data s \<and> recv_reset_received s' = recv_reset_received s"
    using drain_content [of "s\<lparr>recv_pending := pending\<rparr>" s' out] drain p(1,2) bound inv
    unfolding recv_inv_def [of s] by simp
  ultimately show ?thesis by (simp add: fun_eq_iff)
qed

lemmas recv_receive_unfold = recv_receive_def Let_def frame_offset_def [symmetric] frame_end_def [symmetric]

lemma recv_receive_accept:
  assumes inv: "recv_inv s" and acc: "acceptable s f"
  obtains s' out where "recv_receive s f = (recv_result s' out no_error, s')" and "recv_inv s'"
    and "content s' = (\<lambda>i. case seg (frame_offset f) (sf_data f) i of Some x \<Rightarrow> Some x | None \<Rightarrow> content s i)"
    and "recv_delivered s' = recv_delivered s @ out"
    and "recv_final_size s' = (if sf_fin f then Some (frame_end f) else recv_final_size s)"
    and "recv_max_data s' = recv_max_data s" and "\<not> recv_reset_received s'"
proof -
  let ?s1 = "s\<lparr>recv_final_size := if sf_fin f then Some (frame_end f) else recv_final_size s\<rparr>"
  obtain s' out where d: "drain_contiguous (buffer_new_suffix ?s1 (frame_offset f) (sf_data f)) = (s', out)"
    by fastforce
  have inv1: "recv_inv ?s1" "content ?s1 = content s" using inv by (auto simp: recv_inv_def content_def)
  have lim: "frame_end f \<le> recv_max_data s" "recv_max_data s < 2 ^ 64" "\<not> recv_reset_received s"
    using acc inv by (auto simp: acceptable_def recv_inv_def)
  then have "\<not> frame_offset f > u64_max - length (sf_data f)" by (simp add: frame_end_def)
  moreover have "\<not> frame_end f > recv_max_data s" using lim by simp
  moreover have "\<not> (sf_fin f \<and> recv_final_size s \<noteq> None \<and> recv_final_size s \<noteq> Some (frame_end f))"
    "\<not> (case if sf_fin f then Some (frame_end f) else recv_final_size s of Some n \<Rightarrow> frame_end f > n | None \<Rightarrow> False)"
    using acc by (auto simp: acceptable_def split: option.splits)
  moreover have "\<not> \<not> validate_overlap s (frame_offset f) (sf_data f)"
    using acc validate_overlap_content [OF inv] by (simp add: acceptable_def)
  ultimately have "recv_receive s f = (recv_result s' out no_error, s')"
    using lim(3) d by (simp only: recv_receive_unfold if_False prod.case)
  moreover have "compatible (seg (frame_offset f) (sf_data f)) (content s)" using acc by (simp add: acceptable_def)
  with buffer_drain [OF inv1(1) _ _ d, unfolded inv1(2)] lim(1,3)
  have "recv_inv s' \<and> content s' = (\<lambda>i. case seg (frame_offset f) (sf_data f) i of Some x \<Rightarrow> Some x | None \<Rightarrow> content s i)
    \<and> recv_delivered s' = recv_delivered s @ out
    \<and> recv_final_size s' = (if sf_fin f then Some (frame_end f) else recv_final_size s)
    \<and> recv_max_data s' = recv_max_data s \<and> \<not> recv_reset_received s'"
    by (simp add: frame_end_def)
  ultimately show ?thesis using that by blast
qed

lemma recv_receive_reject:
  assumes inv: "recv_inv s" and acc: "\<not> acceptable s f"
  shows "\<exists>e. \<not> error_ok e \<and> recv_receive s f = (recv_result s [] e, s)"
proof -
  have fail: "\<exists>e. \<not> error_ok e \<and> (recv_result s [] (protocol_error m), s) = (recv_result s [] e, s)"
    "\<exists>e. \<not> error_ok e \<and> (recv_result s [] (flow_control_error m), s) = (recv_result s [] e, s)" for m
    using error_ok_protocol_error error_ok_flow_control_error by blast+
  consider "recv_reset_received s" | "\<not> recv_reset_received s" "frame_offset f > u64_max - length (sf_data f)"
    | "\<not> recv_reset_received s" "frame_offset f \<le> u64_max - length (sf_data f)" by linarith
  then show ?thesis
  proof cases
    case 1
    then show ?thesis by (simp only: recv_receive_unfold fail if_True)
  next
    case 2
    then show ?thesis by (simp only: recv_receive_unfold fail if_True if_False)
  next
    case 3
    then show ?thesis
      using acc validate_overlap_content [OF inv, of "frame_offset f" "sf_data f"] fail
      by (cases "recv_final_size s") (auto simp: recv_receive_unfold acceptable_def simp del: prod.inject)
  qed
qed

section \<open>Reassembly\<close>

text \<open>C4: From any state with ordered, separated pending ranges, \<open>receive\<close> accepts a frame exactly when the
  stream is not reset, the frame's end is within the flow-control credit and the final size, a FIN
  agrees with a known final size, and no byte contradicts a received one.  Accepting adds the frame's
  bytes to the received bytes and delivers the longest new contiguous run, so that the byte at the next
  offset is always missing; rejecting returns an error and no data and changes nothing.\<close>

theorem receive_correct:
  assumes "recv_inv s" and "recv_receive s f = (r, s')"
  shows "recv_inv s'
    \<and> (if acceptable s f
       then error_ok (srr_error r)
         \<and> content s' = (\<lambda>i. case seg (frame_offset f) (sf_data f) i of Some x \<Rightarrow> Some x | None \<Rightarrow> content s i)
         \<and> recv_delivered s' = recv_delivered s @ srr_data r \<and> content s' (recv_next_offset s') = None
         \<and> recv_final_size s' = (if sf_fin f then Some (frame_end f) else recv_final_size s)
         \<and> srr_closed r = (recv_final_size s' = Some (length (recv_delivered s')))
       else \<not> error_ok (srr_error r) \<and> srr_data r = [] \<and> s' = s)"
proof (cases "acceptable s f")
  case True
  obtain t out where t: "recv_receive s f = (recv_result t out no_error, t)" "recv_inv t"
    "content t = (\<lambda>i. case seg (frame_offset f) (sf_data f) i of Some x \<Rightarrow> Some x | None \<Rightarrow> content s i)"
    "recv_delivered t = recv_delivered s @ out"
    "recv_final_size t = (if sf_fin f then Some (frame_end f) else recv_final_size s)"
    "recv_max_data t = recv_max_data s" "\<not> recv_reset_received t"
    using recv_receive_accept [OF assms(1) True] .
  then have eq: "s' = t" "r = recv_result t out no_error" using assms(2) by auto
  moreover have "recv_next_offset t = length (recv_delivered t)" using t(2) by (simp add: recv_inv_def)
  ultimately show ?thesis
    using True t content_gap [OF t(2)] by (simp add: recv_result_def recv_closed_def)
next
  case False
  with recv_receive_reject [OF assms(1)] assms(2) obtain e where "\<not> error_ok e" "r = recv_result s [] e" "s' = s"
    by fastforce
  with False assms(1) show ?thesis by (simp add: recv_result_def)
qed

theorem receive_correct_witness:
  "recv_inv (snd (recv_receive (new_stream_receive_state 100)
     \<lparr>sf_stream_id = 0, sf_offset = 3, sf_offset_present = True, sf_length_present = True, sf_fin = False,
      sf_data = [1, 2]\<rparr>))"
proof -
  have inv: "recv_inv (new_stream_receive_state 100)" by (simp add: recv_inv_new)
  show ?thesis using receive_correct [OF inv surjective_pairing] by blast
qed

text \<open>Frames cut from one byte sequence, received in any order and number.\<close>

definition slice_of :: "buffer \<Rightarrow> stream_frame \<Rightarrow> bool" where
  "slice_of bytes f \<longleftrightarrow> frame_end f \<le> length bytes
     \<and> sf_data f = take (length (sf_data f)) (drop (frame_offset f) bytes)
     \<and> (sf_fin f \<longrightarrow> frame_end f = length bytes)"

fun receive_all :: "stream_receive_state \<Rightarrow> stream_frame list \<Rightarrow> stream_receive_result list \<times> stream_receive_state" where
  "receive_all s [] = ([], s)"
| "receive_all s (f # fs) =
     (let (r, s1) = recv_receive s f; (rs, s2) = receive_all s1 fs in (r # rs, s2))"

definition covered :: "stream_frame list \<Rightarrow> u64 \<Rightarrow> bool" where
  "covered fs i \<longleftrightarrow> (\<exists>f \<in> set fs. frame_offset f \<le> i \<and> i < frame_end f)"

definition partial_of :: "buffer \<Rightarrow> stream_receive_state \<Rightarrow> bool" where
  "partial_of bytes s \<longleftrightarrow> recv_inv s \<and> \<not> recv_reset_received s \<and> length bytes \<le> recv_max_data s
     \<and> (recv_final_size s = None \<or> recv_final_size s = Some (length bytes))
     \<and> (\<forall>i b. content s i = Some b \<longrightarrow> i < length bytes \<and> b = bytes ! i)"

lemma slice_seg:
  assumes "slice_of bytes f"
  shows "seg (frame_offset f) (sf_data f) i =
    (if frame_offset f \<le> i \<and> i < frame_end f then Some (bytes ! i) else None)"
proof -
  have eq: "sf_data f = take (length (sf_data f)) (drop (frame_offset f) bytes)" "frame_end f \<le> length bytes"
    using assms unfolding slice_of_def by blast+
  have "sf_data f ! (i - frame_offset f) = bytes ! i" if i: "frame_offset f \<le> i" "i < frame_end f"
  proof -
    have k: "i - frame_offset f < length (sf_data f)" using i by (simp add: frame_end_def)
    then have "take (length (sf_data f)) (drop (frame_offset f) bytes) ! (i - frame_offset f) = bytes ! i"
      using i eq(2) by (simp add: frame_end_def)
    then show ?thesis using eq(1) by simp
  qed
  then show ?thesis by (simp add: seg_def frame_end_def)
qed

lemma receive_slice:
  assumes "partial_of bytes s" and "slice_of bytes f"
  obtains s' out where "recv_receive s f = (recv_result s' out no_error, s')" and "partial_of bytes s'"
    and "\<forall>i. content s' i \<noteq> None \<longleftrightarrow> content s i \<noteq> None \<or> frame_offset f \<le> i \<and> i < frame_end f"
    and "recv_delivered s' = recv_delivered s @ out"
    and "recv_final_size s' = None \<longleftrightarrow> recv_final_size s = None \<and> \<not> sf_fin f"
proof -
  have inv: "recv_inv s" using assms(1) by (simp add: partial_of_def)
  note sl = slice_seg [OF assms(2)]
  have "compatible (seg (frame_offset f) (sf_data f)) (content s)"
    unfolding compatible_def sl using assms(1) by (metis partial_of_def option.exhaust)
  moreover have "frame_end f \<le> length bytes" "sf_fin f \<longrightarrow> frame_end f = length bytes"
    using assms(2) unfolding slice_of_def by blast+
  ultimately have "acceptable s f"
    using assms(1) unfolding acceptable_def partial_of_def by auto
  from recv_receive_accept [OF inv this] obtain s' out where r: "recv_receive s f = (recv_result s' out no_error, s')"
    "recv_inv s'" "content s' = (\<lambda>i. case seg (frame_offset f) (sf_data f) i of Some x \<Rightarrow> Some x | None \<Rightarrow> content s i)"
    "recv_delivered s' = recv_delivered s @ out"
    "recv_final_size s' = (if sf_fin f then Some (frame_end f) else recv_final_size s)"
    "recv_max_data s' = recv_max_data s" "\<not> recv_reset_received s'" .
  moreover have "i < length bytes \<and> b = bytes ! i" if "content s' i = Some b" for i b
    using that assms(1) \<open>frame_end f \<le> length bytes\<close>
    by (auto simp: r(3) sl partial_of_def split: if_splits)
  ultimately have "partial_of bytes s'"
    using assms(1) \<open>sf_fin f \<longrightarrow> frame_end f = length bytes\<close> unfolding partial_of_def by auto
  moreover have "\<forall>i. content s' i \<noteq> None \<longleftrightarrow> content s i \<noteq> None \<or> frame_offset f \<le> i \<and> i < frame_end f"
    by (auto simp: r(3) sl)
  moreover have "recv_final_size s' = None \<longleftrightarrow> recv_final_size s = None \<and> \<not> sf_fin f" by (simp add: r(5))
  ultimately show ?thesis by (rule that [OF r(1) _ _ r(4)])
qed

lemma receive_all_slices:
  assumes "partial_of bytes s" and "\<forall>f \<in> set fs. slice_of bytes f" and "receive_all s fs = (rs, s')"
  shows "partial_of bytes s' \<and> (\<forall>r \<in> set rs. error_ok (srr_error r))
    \<and> recv_delivered s' = recv_delivered s @ concat (map srr_data rs)
    \<and> (\<forall>i. content s' i \<noteq> None \<longleftrightarrow> content s i \<noteq> None \<or> covered fs i)
    \<and> (recv_final_size s' = None \<longleftrightarrow> recv_final_size s = None \<and> (\<forall>f \<in> set fs. \<not> sf_fin f))"
  using assms
proof (induction fs arbitrary: s rs)
  case Nil
  then show ?case by (simp add: covered_def)
next
  case (Cons f fs)
  obtain s1 out where r: "recv_receive s f = (recv_result s1 out no_error, s1)" "partial_of bytes s1"
    "\<forall>i. content s1 i \<noteq> None \<longleftrightarrow> content s i \<noteq> None \<or> frame_offset f \<le> i \<and> i < frame_end f"
    "recv_delivered s1 = recv_delivered s @ out"
    "recv_final_size s1 = None \<longleftrightarrow> recv_final_size s = None \<and> \<not> sf_fin f"
    using receive_slice [OF Cons.prems(1)] Cons.prems(2) by (metis list.set_intros(1))
  obtain rs1 where rs: "receive_all s1 fs = (rs1, s')" "rs = recv_result s1 out no_error # rs1"
    using Cons.prems(3) r(1) by (auto split: prod.splits)
  have "covered (f # fs) i \<longleftrightarrow> frame_offset f \<le> i \<and> i < frame_end f \<or> covered fs i" for i
    by (simp add: covered_def)
  with Cons.IH [OF r(2) _ rs(1)] Cons.prems(2) r rs(2) show ?case
    by (auto simp: recv_result_def)
qed

lemma partial_of_delivered:
  assumes "partial_of bytes s"
  shows "recv_delivered s = take (recv_next_offset s) bytes \<and> recv_next_offset s \<le> length bytes"
proof -
  have inv: "recv_inv s" and c: "\<And>i b. content s i = Some b \<Longrightarrow> i < length bytes \<and> b = bytes ! i"
    using assms by (auto simp: partial_of_def)
  have len: "length (recv_delivered s) = recv_next_offset s" using inv by (simp add: recv_inv_def)
  have p: "i < recv_next_offset s \<Longrightarrow> i < length bytes \<and> recv_delivered s ! i = bytes ! i" for i
    using c content_prefix [OF inv] by blast
  then have "recv_next_offset s \<le> length bytes" by (metis not_le less_irrefl)
  then show ?thesis using len p by (auto intro: nth_equalityI)
qed

lemma receive_slices:
  assumes "\<forall>f \<in> set fs. slice_of bytes f" and "length bytes \<le> max_data" and "max_data < 2 ^ 64"
    and "receive_all (new_stream_receive_state max_data) fs = (rs, s)"
  shows "(\<forall>r \<in> set rs. error_ok (srr_error r))
    \<and> concat (map srr_data rs) = take (recv_next_offset s) bytes
    \<and> (\<forall>i < recv_next_offset s. covered fs i) \<and> \<not> covered fs (recv_next_offset s)
    \<and> ((\<forall>i < length bytes. covered fs i) \<longrightarrow> concat (map srr_data rs) = bytes)
    \<and> (recv_closed s \<longleftrightarrow> (\<exists>f \<in> set fs. sf_fin f) \<and> (\<forall>i < length bytes. covered fs i))"
proof -
  let ?s0 = "new_stream_receive_state max_data"
  have s0: "content ?s0 i = None" "recv_delivered ?s0 = []" "recv_final_size ?s0 = None" for i
    by (simp_all add: content_def new_stream_receive_state_def)
  then have p0: "partial_of bytes ?s0"
    using assms(2,3) by (simp add: partial_of_def recv_inv_new) (simp add: new_stream_receive_state_def)
  note all = receive_all_slices [OF p0 assms(1,4), unfolded s0]
  have inv: "recv_inv s" and fin: "\<not> recv_reset_received s"
      "recv_final_size s = None \<or> recv_final_size s = Some (length bytes)"
    using all by (auto simp: partial_of_def)
  have d: "recv_delivered s = take (recv_next_offset s) bytes" "recv_next_offset s \<le> length bytes"
    using partial_of_delivered all by blast+
  have cov: "content s i \<noteq> None \<longleftrightarrow> covered fs i" for i using all by simp
  have gap: "\<not> covered fs (recv_next_offset s)" using cov content_gap [OF inv] by blast
  moreover have pre: "\<forall>i < recv_next_offset s. covered fs i" using cov content_prefix [OF inv] by blast
  ultimately have full: "(\<forall>i < length bytes. covered fs i) \<longleftrightarrow> recv_next_offset s = length bytes"
    using d(2) by (metis le_neq_implies_less)
  then show ?thesis
    using all d gap pre fin by (auto simp: recv_closed_def)
qed

text \<open>C5: Frames cut from one byte sequence and received in any order, with any overlaps and duplicates,
  are all accepted; what is delivered is, at every moment, exactly the longest prefix of the sequence
  whose bytes have all arrived; and once every byte and a FIN have arrived, the stream is closed and the
  delivered bytes are the whole sequence.\<close>

theorem reassembly_any_order:
  assumes "\<forall>f \<in> set fs. slice_of bytes f" and "length bytes \<le> max_data" and "max_data < 2 ^ 64"
    and "receive_all (new_stream_receive_state max_data) fs = (rs, s)"
  shows "(\<forall>r \<in> set rs. error_ok (srr_error r))
    \<and> concat (map srr_data rs) = take (recv_next_offset s) bytes
    \<and> (\<forall>i < recv_next_offset s. covered fs i) \<and> \<not> covered fs (recv_next_offset s)
    \<and> ((\<forall>i < length bytes. covered fs i) \<longrightarrow> concat (map srr_data rs) = bytes)
    \<and> (recv_closed s \<longleftrightarrow> (\<exists>f \<in> set fs. sf_fin f) \<and> (\<forall>i < length bytes. covered fs i))"
  using assms by (rule receive_slices)

theorem reassembly_any_order_witness:
  "concat (map srr_data (fst (receive_all (new_stream_receive_state 100)
     [\<lparr>sf_stream_id = 0, sf_offset = 2, sf_offset_present = True, sf_length_present = True, sf_fin = True, sf_data = [7, 8]\<rparr>,
      \<lparr>sf_stream_id = 0, sf_offset = 1, sf_offset_present = True, sf_length_present = True, sf_fin = False, sf_data = [6, 7]\<rparr>,
      \<lparr>sf_stream_id = 0, sf_offset = 0, sf_offset_present = False, sf_length_present = True, sf_fin = False, sf_data = [5, 6]\<rparr>])))
   = [5, 6, 7, 8]"
proof -
  let ?fs = "[\<lparr>sf_stream_id = 0, sf_offset = 2, sf_offset_present = True, sf_length_present = True, sf_fin = True, sf_data = [7, 8]\<rparr>,
      \<lparr>sf_stream_id = 0, sf_offset = 1, sf_offset_present = True, sf_length_present = True, sf_fin = False, sf_data = [6, 7]\<rparr>,
      \<lparr>sf_stream_id = 0, sf_offset = 0, sf_offset_present = False, sf_length_present = True, sf_fin = False, sf_data = [5, 6]\<rparr>]
      :: stream_frame list"
  have s: "\<forall>f \<in> set ?fs. slice_of [5, 6, 7, 8] f" by (simp add: slice_of_def frame_end_def frame_offset_def)
  have c: "\<forall>i < length [5, 6, 7, 8 :: byte]. covered ?fs i"
    by (auto simp: covered_def frame_end_def frame_offset_def less_Suc_eq)
  have "length [5, 6, 7, 8 :: byte] \<le> 100" "100 < (2 :: nat) ^ 64" by simp_all
  from reassembly_any_order [OF s this surjective_pairing] c show ?thesis by blast
qed

section \<open>Resetting a stream\<close>

lemma largest_loop_ge:
  "n \<le> largest_loop n ps \<and> (\<forall>(k, b) \<in> set ps. k + length b \<le> largest_loop n ps)"
  by (induction n ps rule: largest_loop.induct) auto

lemma largest_received_content:
  assumes "recv_inv s" and "content s i \<noteq> None"
  shows "i < largest_received_offset s"
proof -
  note le = largest_loop_ge [of "recv_next_offset s" "recv_pending s", folded largest_received_offset_def]
  show ?thesis
  proof (cases "i < recv_next_offset s")
    case True
    then show ?thesis using le by simp
  next
    case False
    have "\<exists>(k, b) \<in> set ps. i < k + length b" if "pend ps i \<noteq> None" for ps
      using that by (induction ps) (auto simp: seg_def split: option.splits if_splits)
    moreover have "pend (recv_pending s) i \<noteq> None"
      using False assms by (auto simp: content_def recv_inv_def split: if_splits)
    ultimately obtain k b where "(k, b) \<in> set (recv_pending s)" "i < k + length b" by blast
    then show ?thesis using le by fastforce
  qed
qed

text \<open>A successful RESET_STREAM closes the stream at its final size, which agrees with a known one and is
  not below any received byte; from then on every STREAM frame is refused.  A refused reset changes
  nothing.\<close>

theorem reset_closes:
  assumes "recv_inv s" and "recv_reset s rf = (r, s')"
  shows "recv_inv s' \<and>
    (if error_ok (srr_error r)
     then recv_closed s' \<and> recv_final_size s' = Some (rs_final_size rf)
       \<and> (recv_final_size s = None \<or> recv_final_size s = Some (rs_final_size rf))
       \<and> (\<forall>i. content s i \<noteq> None \<longrightarrow> i < rs_final_size rf)
       \<and> recv_reset_error_code s' = Some (rs_application_error_code rf)
       \<and> (\<forall>f. \<not> error_ok (srr_error (fst (recv_receive s' f))) \<and> snd (recv_receive s' f) = s')
     else s' = s)"
proof -
  have inv': "recv_inv (s\<lparr>recv_final_size := x, recv_reset_received := True, recv_reset_error_code := y\<rparr>)" for x y
    using assms(1) by (auto simp: recv_inv_def)
  show ?thesis
    using assms inv' largest_received_content [OF assms(1)]
    by (fastforce simp: recv_reset_def recv_result_def recv_closed_def recv_receive_def split: if_splits)
qed

theorem reset_closes_witness:
  "recv_closed (snd (recv_reset (new_stream_receive_state 100)
     \<lparr>rs_stream_id = 4, rs_application_error_code = 9, rs_final_size = 50\<rparr>))"
proof -
  have inv: "recv_inv (new_stream_receive_state 100)" by (simp add: recv_inv_new)
  have "error_ok (srr_error (fst (recv_reset (new_stream_receive_state 100)
     \<lparr>rs_stream_id = 4, rs_application_error_code = 9, rs_final_size = 50\<rparr>)))"
    by (simp add: recv_reset_def new_stream_receive_state_def largest_received_offset_def)
  then show ?thesis using reset_closes [OF inv surjective_pairing] by presburger
qed

text \<open>A FIN is checked only against a known final size, not against the bytes received: after two
  bytes have been delivered, a frame that ends the stream at one byte is accepted, and leaves a final
  size below the delivered offset, at which the stream is not closed.\<close>

theorem fin_below_delivered_accepted:
  "let (r1, s1) = recv_receive (new_stream_receive_state 100)
         \<lparr>sf_stream_id = 0, sf_offset = 0, sf_offset_present = False, sf_length_present = True, sf_fin = False, sf_data = [1, 2]\<rparr>;
       (r2, s2) = recv_receive s1
         \<lparr>sf_stream_id = 0, sf_offset = 0, sf_offset_present = False, sf_length_present = True, sf_fin = True, sf_data = [1]\<rparr>
   in error_ok (srr_error r1) \<and> error_ok (srr_error r2) \<and> recv_next_offset s2 = 2
      \<and> recv_final_size s2 = Some 1 \<and> \<not> recv_closed s2"
  by (simp add: recv_receive_def new_stream_receive_state_def buffer_new_suffix_def Let_def
      split_first_def drain_contiguous_def drain_loop.simps recv_result_def recv_closed_def byte_at_def)

section \<open>The set of streams\<close>

definition rset_inv :: "stream_receive_set \<Rightarrow> bool" where
  "rset_inv rs \<longleftrightarrow> rset_initial_max_data rs < 2 ^ 64 \<and> (\<forall>s \<in> ran (rset_streams rs). recv_inv s)"

text \<open>Streams the peer may open: ours, or within the limit of their direction.\<close>

definition stream_allowed :: "stream_receive_set \<Rightarrow> u64 \<Rightarrow> bool" where
  "stream_allowed rs n \<longleftrightarrow>
     n mod 2 = (if rset_local_initiator rs = Client then 0 else 1)
     \<or> n div 4 < (if n div 2 mod 2 = 0 then sl_bidirectional (rset_peer_limits rs) else sl_unidirectional (rset_peer_limits rs))"

lemma classify_bits:
  "sid_initiator (classify_stream_id n) = (if n mod 2 = 0 then Client else Server)"
  "sid_direction (classify_stream_id n) = (if n div 2 mod 2 = 0 then Bidirectional else Unidirectional)"
proof -
  show "sid_initiator (classify_stream_id n) = (if n mod 2 = 0 then Client else Server)"
    by (simp add: classify_stream_id_def and_one_eq)
  have "n AND 2 = 2 * (n div 2 AND 1)"
    using and_nat_rec [of n 2] by simp
  then show "sid_direction (classify_stream_id n) = (if n div 2 mod 2 = 0 then Bidirectional else Unidirectional)"
    by (simp add: classify_stream_id_def and_one_eq)
qed

lemma ensure_state:
  "recv_ensure_state_for rs n =
     (if n \<in> dom (rset_streams rs) \<or> stream_allowed rs n then Some (recv_state_for rs n) else None)"
  by (cases "rset_streams rs n"; cases "rset_local_initiator rs")
     (auto simp: recv_ensure_state_for_def recv_state_for_def classify_bits stream_allowed_def Let_def
        drop_bit_eq_div)

text \<open>A STREAM frame is handled by the state of its own stream and leaves every other stream alone; a frame
  that would open a peer stream beyond the advertised limit is refused and nothing changes.\<close>

theorem stream_limit_enforced:
  assumes "rset_inv rs" and "rset_receive rs f = ((n, r), rs')"
  shows "n = sf_stream_id f \<and> rset_inv rs' \<and> (\<forall>m. m \<noteq> n \<longrightarrow> rset_streams rs' m = rset_streams rs m)
    \<and> (if n \<in> dom (rset_streams rs) \<or> stream_allowed rs n
       then (\<exists>s'. recv_receive (recv_state_for rs n) f = (r, s') \<and> rset_streams rs' n = Some s')
       else \<not> error_ok (srr_error r) \<and> rs' = rs)"
proof -
  let ?n = "sf_stream_id f"
  have inv: "recv_inv (recv_state_for rs ?n)"
    using assms(1) by (auto simp: recv_state_for_def rset_inv_def recv_inv_new ran_def split: option.split)
  show ?thesis
  proof (cases "?n \<in> dom (rset_streams rs) \<or> stream_allowed rs ?n")
    case True
    obtain q s' where q: "recv_receive (recv_state_for rs ?n) f = (q, s')" by fastforce
    then have r: "recv_receive (recv_state_for rs ?n) f = (r, s')" "rs' = recv_store rs ?n s'" "n = ?n"
      using assms(2) True by (auto simp: rset_receive_def ensure_state)
    have "recv_inv s'"
      using inv r(1) recv_receive_accept [OF inv] recv_receive_reject [OF inv] by (metis prod.inject)
    then have "rset_inv rs'" using assms(1) r(2) by (auto simp: rset_inv_def recv_store_def ran_def)
    with True r show ?thesis by (simp add: recv_store_def)
  next
    case False
    then show ?thesis using assms by (auto simp: rset_receive_def ensure_state)
  qed
qed

theorem stream_limit_enforced_witness:
  "snd (rset_receive (new_stream_receive_set 100 Client \<lparr>sl_bidirectional = 1, sl_unidirectional = 1\<rparr>)
     \<lparr>sf_stream_id = 5, sf_offset = 0, sf_offset_present = False, sf_length_present = True, sf_fin = False, sf_data = []\<rparr>)
   = new_stream_receive_set 100 Client \<lparr>sl_bidirectional = 1, sl_unidirectional = 1\<rparr>"
proof -
  let ?rs = "new_stream_receive_set 100 Client \<lparr>sl_bidirectional = 1, sl_unidirectional = 1\<rparr>"
  let ?f = "\<lparr>sf_stream_id = 5, sf_offset = 0, sf_offset_present = False, sf_length_present = True, sf_fin = False,
     sf_data = []\<rparr> :: stream_frame"
  have "rset_inv ?rs" by (simp add: rset_inv_def new_stream_receive_set_def)
  moreover have "rset_receive ?rs ?f = ((5, snd (fst (rset_receive ?rs ?f))), snd (rset_receive ?rs ?f))"
    by (simp add: rset_receive_def split: option.split prod.split)
  ultimately show ?thesis
    using stream_limit_enforced [of ?rs ?f 5 "snd (fst (rset_receive ?rs ?f))" "snd (rset_receive ?rs ?f)"]
    by (simp add: new_stream_receive_set_def stream_allowed_def split: if_splits)
qed

text \<open>RESET_STREAM and the credit update do not check the limit: resetting an unknown peer stream far
  beyond the limit creates a state for it, after which STREAM frames on it are no longer refused for
  the limit.\<close>

lemma reset_bypasses_stream_limit:
  "let rs = new_stream_receive_set 100 Client \<lparr>sl_bidirectional = 1, sl_unidirectional = 1\<rparr>;
       (d, rs') = rset_reset rs \<lparr>rs_stream_id = 4001, rs_application_error_code = 0, rs_final_size = 0\<rparr>
   in \<not> stream_allowed rs 4001 \<and> error_ok (srr_error (snd d)) \<and> rset_streams rs' 4001 \<noteq> None
      \<and> rset_streams (rset_update_max_data rs 4001 7) 4001 \<noteq> None"
  by (simp add: new_stream_receive_set_def stream_allowed_def rset_reset_def recv_reset_def recv_state_for_def
      new_stream_receive_state_def largest_received_offset_def recv_store_def rset_update_max_data_def)

end
