(* ===== verification/StreamSend.thy ===== *)
theory StreamSend
  imports StreamRecv
begin

text \<open>
  Stream transmission, the sending half of \<open>src/include/flowq/quic/stream.hpp\<close>: \<open>stream_send_state\<close>,
  which cuts the application's bytes into STREAM frames and retransmits lost ranges, and
  \<open>stream_send_set\<close>.  A range reaches the state only after \<open>valid_sent_range\<close> has placed it inside the
  sent bytes, so the sums of offsets and lengths below are exact.
\<close>

section \<open>Send state\<close>

record stream_send_range =
  sr_offset :: u64
  sr_length :: u64
  sr_fin :: bool

record stream_send_result =
  ssr_frame :: stream_frame
  ssr_range :: stream_send_range
  ssr_has_frame :: bool
  ssr_error :: flowq_error
  ssr_retransmission :: bool

definition empty_send_result :: stream_send_result where
  "empty_send_result =
     \<lparr>ssr_frame = \<lparr>sf_stream_id = 0, sf_offset = 0, sf_offset_present = False, sf_length_present = False,
        sf_fin = False, sf_data = []\<rparr>,
      ssr_range = \<lparr>sr_offset = 0, sr_length = 0, sr_fin = False\<rparr>, ssr_has_frame = False,
      ssr_error = no_error, ssr_retransmission = False\<rparr>"

record stream_send_state =
  send_stream_id :: u64
  send_max_data :: u64
  send_bytes :: buffer
  send_next_unsent_offset :: u64
  send_finished :: bool
  send_fin_sent :: bool
  send_fin_acked :: bool
  send_stop_requested :: bool
  send_stop_error_code :: "u64 option"
  send_lost :: "stream_send_range list"
  send_acked :: "stream_send_range list"

definition new_stream_send_state :: "u64 \<Rightarrow> u64 \<Rightarrow> stream_send_state" where
  "new_stream_send_state stream_id max_data =
     \<lparr>send_stream_id = stream_id, send_max_data = max_data, send_bytes = [], send_next_unsent_offset = 0,
      send_finished = False, send_fin_sent = False, send_fin_acked = False, send_stop_requested = False,
      send_stop_error_code = None, send_lost = [], send_acked = []\<rparr>"

definition range_covers :: "stream_send_range \<Rightarrow> stream_send_range \<Rightarrow> bool" where
  "range_covers covering covered_range \<longleftrightarrow>
     sr_offset covering \<le> sr_offset covered_range
     \<and> sr_offset covering + sr_length covering \<ge> sr_offset covered_range + sr_length covered_range
     \<and> (\<not> sr_fin covered_range \<or> sr_fin covering)"

definition is_acked :: "stream_send_state \<Rightarrow> stream_send_range \<Rightarrow> bool" where
  "is_acked s rg \<longleftrightarrow> (\<exists>acked \<in> set (send_acked s). range_covers acked rg)"

definition covers_lost_fin :: "stream_send_state \<Rightarrow> stream_send_range \<Rightarrow> bool" where
  "covers_lost_fin s rg \<longleftrightarrow> (\<exists>lost \<in> set (send_lost s). sr_fin lost \<and> range_covers rg lost)"

definition valid_sent_range :: "stream_send_state \<Rightarrow> stream_send_range \<Rightarrow> bool" where
  "valid_sent_range s rg \<longleftrightarrow>
     (if sr_offset rg > length (send_bytes s) then False
      else if sr_length rg > length (send_bytes s) - sr_offset rg then False
      else if sr_offset rg + sr_length rg > send_next_unsent_offset s then False
      else if sr_fin rg \<and> (\<not> send_finished s \<or> sr_offset rg + sr_length rg \<noteq> length (send_bytes s)) then False
      else True)"

definition make_frame :: "stream_send_state \<Rightarrow> stream_send_range \<Rightarrow> stream_send_result" where
  "make_frame s rg =
     \<lparr>ssr_frame = \<lparr>sf_stream_id = send_stream_id s, sf_offset = sr_offset rg,
        sf_offset_present = (sr_offset rg \<noteq> 0), sf_length_present = True, sf_fin = sr_fin rg,
        sf_data = map (\<lambda>i. send_bytes s ! (sr_offset rg + i)) [0..<sr_length rg]\<rparr>,
      ssr_range = rg, ssr_has_frame = True, ssr_error = no_error, ssr_retransmission = False\<rparr>"

definition send_append :: "stream_send_state \<Rightarrow> buffer \<Rightarrow> flowq_error \<times> stream_send_state" where
  "send_append s data =
     (if send_stop_requested s then (protocol_error ''cannot append STREAM data after STOP_SENDING'', s)
      else if send_finished s then (protocol_error ''cannot append STREAM data after FIN'', s)
      else if length (send_bytes s) > u64_max - length data then (protocol_error ''STREAM send offset overflows'', s)
      else (no_error, s\<lparr>send_bytes := send_bytes s @ data\<rparr>))"

definition send_finish :: "stream_send_state \<Rightarrow> flowq_error \<times> stream_send_state" where
  "send_finish s =
     (if send_stop_requested s then (protocol_error ''cannot finish STREAM after STOP_SENDING'', s)
      else (no_error, s\<lparr>send_finished := True\<rparr>))"

text \<open>The two parts of \<open>pop_frame\<close> that send data for the first time, and a FIN alone.\<close>

definition pop_new_data :: "stream_send_state \<Rightarrow> nat \<Rightarrow> stream_send_result \<times> stream_send_state" where
  "pop_new_data s max_data_size =
     (if send_next_unsent_offset s \<ge> send_max_data s then (empty_send_result, s)
      else
        let available = length (send_bytes s) - send_next_unsent_offset s;
            credit = send_max_data s - send_next_unsent_offset s;
            len = min max_data_size (min available credit);
            rg = \<lparr>sr_offset = send_next_unsent_offset s, sr_length = len,
              sr_fin = (send_finished s \<and> send_next_unsent_offset s + len = length (send_bytes s)
                        \<and> length (send_bytes s) \<le> send_max_data s)\<rparr>;
            s1 = s\<lparr>send_next_unsent_offset := send_next_unsent_offset s + len\<rparr>;
            s2 = (if sr_fin rg then s1\<lparr>send_fin_sent := True\<rparr> else s1)
        in (make_frame s2 rg, s2))"

definition pop_fresh :: "stream_send_state \<Rightarrow> nat \<Rightarrow> stream_send_result \<times> stream_send_state" where
  "pop_fresh s max_data_size =
     (if send_next_unsent_offset s < length (send_bytes s) \<and> max_data_size > 0 then pop_new_data s max_data_size
      else if send_finished s \<and> \<not> send_fin_sent s \<and> \<not> send_fin_acked s
           \<and> send_next_unsent_offset s = length (send_bytes s) \<and> length (send_bytes s) \<le> send_max_data s
      then (let s1 = s\<lparr>send_fin_sent := True\<rparr>
            in (make_frame s1 \<lparr>sr_offset = length (send_bytes s), sr_length = 0, sr_fin = True\<rparr>, s1))
      else (empty_send_result, s))"

function pop_frame :: "stream_send_state \<Rightarrow> nat \<Rightarrow> stream_send_result \<times> stream_send_state" where
  "pop_frame s max_data_size =
     (if send_stop_requested s then (empty_send_result, s)
      else
        case send_lost s of
          rg # lost \<Rightarrow>
            let s1 = s\<lparr>send_lost := lost\<rparr> in
            if is_acked s1 rg then pop_frame s1 max_data_size
            else if sr_length rg > 0 \<and> max_data_size = 0 then (empty_send_result, s1\<lparr>send_lost := rg # lost\<rparr>)
            else
              let (rg, s2) =
                (if sr_length rg > max_data_size \<and> max_data_size > 0
                 then (rg\<lparr>sr_length := max_data_size, sr_fin := False\<rparr>,
                       s1\<lparr>send_lost := \<lparr>sr_offset = sr_offset rg + max_data_size,
                          sr_length = sr_length rg - max_data_size, sr_fin = sr_fin rg\<rparr> # lost\<rparr>)
                 else (rg, s1));
                  s3 = (if sr_fin rg then s2\<lparr>send_fin_sent := True\<rparr> else s2)
              in ((make_frame s3 rg)\<lparr>ssr_retransmission := True\<rparr>, s3)
        | [] \<Rightarrow> pop_fresh s max_data_size)"
  by pat_completeness auto
termination
  by (relation "measure (\<lambda>(s, _). length (send_lost s))") auto

declare pop_frame.simps [simp del]

definition on_acked :: "stream_send_state \<Rightarrow> stream_send_range \<Rightarrow> stream_send_state" where
  "on_acked s rg =
     (if \<not> valid_sent_range s rg then s
      else
        let rg = (if sr_fin rg \<and> \<not> send_fin_sent s \<and> \<not> covers_lost_fin s rg then rg\<lparr>sr_fin := False\<rparr> else rg);
            rg = (if sr_fin rg \<and> (\<not> send_finished s \<or> sr_offset rg + sr_length rg \<noteq> length (send_bytes s))
                     then rg\<lparr>sr_fin := False\<rparr> else rg);
            s1 = s\<lparr>send_acked := send_acked s @ [rg],
                   send_lost := filter (\<lambda>lost. \<not> range_covers rg lost) (send_lost s)\<rparr>
        in if sr_fin rg then s1\<lparr>send_fin_acked := True\<rparr> else s1)"

definition on_lost :: "stream_send_state \<Rightarrow> stream_send_range \<Rightarrow> stream_send_state" where
  "on_lost s rg =
     (if send_stop_requested s then s
      else if \<not> valid_sent_range s rg then s
      else if sr_fin rg \<and> \<not> send_fin_sent s then s
      else if is_acked s rg then s
      else
        let s1 = (if sr_fin rg then s\<lparr>send_fin_sent := False\<rparr> else s)
        in s1\<lparr>send_lost := send_lost s1 @ [rg]\<rparr>)"

definition send_update_max_data :: "stream_send_state \<Rightarrow> u64 \<Rightarrow> stream_send_state" where
  "send_update_max_data s max_data = s\<lparr>send_max_data := max (send_max_data s) max_data\<rparr>"

definition stop_sending :: "stream_send_state \<Rightarrow> stop_sending_frame \<Rightarrow> flowq_error \<times> stream_send_state" where
  "stop_sending s f =
     (if ss_stream_id f \<noteq> send_stream_id s
      then (protocol_error ''STOP_SENDING stream id does not match send state'', s)
      else (no_error, s\<lparr>send_stop_requested := True,
              send_stop_error_code := Some (ss_application_error_code f), send_lost := []\<rparr>))"

definition send_update_max_data_frame :: "stream_send_state \<Rightarrow> max_stream_data_frame \<Rightarrow> stream_send_state" where
  "send_update_max_data_frame s f =
     (if msd_stream_id f = send_stream_id s then send_update_max_data s (msd_maximum_stream_data f) else s)"

definition send_blocked :: "stream_send_state \<Rightarrow> bool" where
  "send_blocked s \<longleftrightarrow> \<not> send_stop_requested s \<and> send_next_unsent_offset s < length (send_bytes s)
     \<and> send_next_unsent_offset s \<ge> send_max_data s"

definition has_unsent_data :: "stream_send_state \<Rightarrow> bool" where
  "has_unsent_data s \<longleftrightarrow> \<not> send_stop_requested s \<and> send_next_unsent_offset s < length (send_bytes s)"

definition has_retransmittable_data :: "stream_send_state \<Rightarrow> bool" where
  "has_retransmittable_data s \<longleftrightarrow> (if send_stop_requested s then False else \<exists>rg \<in> set (send_lost s). \<not> is_acked s rg)"

definition send_blocked_frame :: "stream_send_state \<Rightarrow> stream_data_blocked_frame option" where
  "send_blocked_frame s =
     (if \<not> send_blocked s then None
      else Some \<lparr>sdb_stream_id = send_stream_id s, sdb_maximum_stream_data = send_max_data s\<rparr>)"

definition send_closed :: "stream_send_state \<Rightarrow> bool" where
  "send_closed s \<longleftrightarrow> send_finished s \<and> send_fin_acked s"

section \<open>The set of send states\<close>

record stream_send_set =
  sset_initial_max_data :: u64
  sset_limits :: stream_limits
  sset_streams :: "u64 \<rightharpoonup> stream_send_state"
  sset_bidi_streams_blocked :: bool
  sset_uni_streams_blocked :: bool

definition new_stream_send_set :: "u64 \<Rightarrow> stream_limits \<Rightarrow> stream_send_set" where
  "new_stream_send_set initial_max_data limits =
     \<lparr>sset_initial_max_data = initial_max_data, sset_limits = limits, sset_streams = Map.empty,
      sset_bidi_streams_blocked = False, sset_uni_streams_blocked = False\<rparr>"

definition limit_for :: "stream_send_set \<Rightarrow> stream_direction \<Rightarrow> u64" where
  "limit_for ss direction =
     (if direction = Bidirectional then sl_bidirectional (sset_limits ss) else sl_unidirectional (sset_limits ss))"

definition mark_streams_blocked :: "stream_send_set \<Rightarrow> stream_direction \<Rightarrow> stream_send_set" where
  "mark_streams_blocked ss direction =
     (if direction = Bidirectional then ss\<lparr>sset_bidi_streams_blocked := True\<rparr>
      else ss\<lparr>sset_uni_streams_blocked := True\<rparr>)"

definition send_state_for :: "stream_send_set \<Rightarrow> u64 \<Rightarrow> stream_send_state" where
  "send_state_for ss stream_id =
     (case sset_streams ss stream_id of Some s \<Rightarrow> s
      | None \<Rightarrow> new_stream_send_state stream_id (sset_initial_max_data ss))"

definition send_store :: "stream_send_set \<Rightarrow> u64 \<Rightarrow> stream_send_state \<Rightarrow> stream_send_set" where
  "send_store ss stream_id s = ss\<lparr>sset_streams := (sset_streams ss)(stream_id \<mapsto> s)\<rparr>"

definition send_ensure_state_for :: "stream_send_set \<Rightarrow> u64 \<Rightarrow> stream_send_state option \<times> stream_send_set" where
  "send_ensure_state_for ss stream_id =
     (case sset_streams ss stream_id of
        Some s \<Rightarrow> (Some s, ss)
      | None \<Rightarrow>
          let info = classify_stream_id stream_id; ordinal = drop_bit 2 stream_id in
          if ordinal \<ge> limit_for ss (sid_direction info) then (None, mark_streams_blocked ss (sid_direction info))
          else (Some (send_state_for ss stream_id), ss))"

definition sset_append :: "stream_send_set \<Rightarrow> u64 \<Rightarrow> buffer \<Rightarrow> flowq_error \<times> stream_send_set" where
  "sset_append ss stream_id data =
     (case send_ensure_state_for ss stream_id of
        (None, ss1) \<Rightarrow> (protocol_error ''peer stream count limit exceeded'', ss1)
      | (Some s, ss1) \<Rightarrow> let (e, s') = send_append s data in (e, send_store ss1 stream_id s'))"

definition sset_finish :: "stream_send_set \<Rightarrow> u64 \<Rightarrow> flowq_error \<times> stream_send_set" where
  "sset_finish ss stream_id =
     (case send_ensure_state_for ss stream_id of
        (None, ss1) \<Rightarrow> (protocol_error ''peer stream count limit exceeded'', ss1)
      | (Some s, ss1) \<Rightarrow> let (e, s') = send_finish s in (e, send_store ss1 stream_id s'))"

definition sset_pop_frame :: "stream_send_set \<Rightarrow> u64 \<Rightarrow> nat \<Rightarrow> stream_send_result \<times> stream_send_set" where
  "sset_pop_frame ss stream_id max_data_size =
     (case sset_streams ss stream_id of
        None \<Rightarrow> (empty_send_result, ss)
      | Some s \<Rightarrow> let (r, s') = pop_frame s max_data_size in (r, send_store ss stream_id s'))"

definition sset_blocked_frame :: "stream_send_set \<Rightarrow> u64 \<Rightarrow> stream_data_blocked_frame option" where
  "sset_blocked_frame ss stream_id =
     (case sset_streams ss stream_id of None \<Rightarrow> None | Some s \<Rightarrow> send_blocked_frame s)"

text \<open>The loop of \<open>pop_frames\<close> over the stream ids, with the frames collected so far.\<close>

fun pop_frames_loop :: "stream_send_set \<Rightarrow> u64 list \<Rightarrow> nat \<Rightarrow> nat \<Rightarrow> frame list \<Rightarrow> (frame list \<times> flowq_error) \<times> stream_send_set" where
  "pop_frames_loop ss [] max_frames max_stream_data_size frames = ((frames, no_error), ss)"
| "pop_frames_loop ss (stream_id # ids) max_frames max_stream_data_size frames =
     (if length frames = max_frames then ((frames, no_error), ss)
      else
        let (r, ss1) = sset_pop_frame ss stream_id max_stream_data_size in
        if \<not> error_ok (ssr_error r) then ((frames, ssr_error r), ss1)
        else if ssr_has_frame r
        then pop_frames_loop ss1 ids max_frames max_stream_data_size (frames @ [StreamFrame (ssr_frame r)])
        else
          case sset_blocked_frame ss1 stream_id of
            Some b \<Rightarrow> pop_frames_loop ss1 ids max_frames max_stream_data_size (frames @ [StreamDataBlockedFrame b])
          | None \<Rightarrow> pop_frames_loop ss1 ids max_frames max_stream_data_size frames)"

definition pop_frames :: "stream_send_set \<Rightarrow> u64 list \<Rightarrow> nat \<Rightarrow> nat \<Rightarrow> (frame list \<times> flowq_error) \<times> stream_send_set" where
  "pop_frames ss stream_ids max_frames max_stream_data_size =
     (if max_frames = 0 then (([], no_error), ss)
      else pop_frames_loop ss stream_ids max_frames max_stream_data_size [])"

definition sset_update_max_data :: "stream_send_set \<Rightarrow> u64 \<Rightarrow> u64 \<Rightarrow> stream_send_set" where
  "sset_update_max_data ss stream_id max_data =
     send_store ss stream_id (send_update_max_data (send_state_for ss stream_id) max_data)"

definition update_max_streams :: "stream_send_set \<Rightarrow> max_streams_frame \<Rightarrow> stream_send_set" where
  "update_max_streams ss f =
     (if ms_direction f = Bidirectional
      then ss\<lparr>sset_limits := (sset_limits ss)\<lparr>sl_bidirectional := max (sl_bidirectional (sset_limits ss)) (ms_maximum_streams f)\<rparr>\<rparr>
      else ss\<lparr>sset_limits := (sset_limits ss)\<lparr>sl_unidirectional := max (sl_unidirectional (sset_limits ss)) (ms_maximum_streams f)\<rparr>\<rparr>)"

definition sset_stop_sending :: "stream_send_set \<Rightarrow> stop_sending_frame \<Rightarrow> flowq_error \<times> stream_send_set" where
  "sset_stop_sending ss f =
     (case sset_streams ss (ss_stream_id f) of
        None \<Rightarrow> (no_error, ss)
      | Some s \<Rightarrow> let (e, s') = stop_sending s f in (e, send_store ss (ss_stream_id f) s'))"

definition sset_on_acked :: "stream_send_set \<Rightarrow> u64 \<Rightarrow> stream_send_range \<Rightarrow> stream_send_set" where
  "sset_on_acked ss stream_id rg =
     (case sset_streams ss stream_id of None \<Rightarrow> ss | Some s \<Rightarrow> send_store ss stream_id (on_acked s rg))"

definition sset_on_lost :: "stream_send_set \<Rightarrow> u64 \<Rightarrow> stream_send_range \<Rightarrow> stream_send_set" where
  "sset_on_lost ss stream_id rg =
     (case sset_streams ss stream_id of None \<Rightarrow> ss | Some s \<Rightarrow> send_store ss stream_id (on_lost s rg))"

definition get_streams_blocked_frame :: "stream_send_set \<Rightarrow> stream_direction \<Rightarrow> streams_blocked_frame option" where
  "get_streams_blocked_frame ss direction =
     (let blocked = (if direction = Bidirectional then sset_bidi_streams_blocked ss else sset_uni_streams_blocked ss)
      in if \<not> blocked then None else Some \<lparr>sb_direction = direction, sb_maximum_streams = limit_for ss direction\<rparr>)"

section \<open>What has been sent, and what becomes of it\<close>

definition in_sent :: "stream_send_state \<Rightarrow> stream_send_range \<Rightarrow> bool" where
  "in_sent s rg \<longleftrightarrow> sr_offset rg + sr_length rg \<le> send_next_unsent_offset s
     \<and> (sr_fin rg \<longrightarrow> send_finished s \<and> sr_offset rg + sr_length rg = length (send_bytes s))"

definition byte_in :: "u64 \<Rightarrow> stream_send_range \<Rightarrow> bool" where
  "byte_in i rg \<longleftrightarrow> sr_offset rg \<le> i \<and> i < sr_offset rg + sr_length rg"

definition fins :: "stream_send_range list \<Rightarrow> nat" where
  "fins rgs = length (filter sr_fin rgs)"

text \<open>The invariant of a send state together with the ranges in flight, that is, sent and neither
  acknowledged nor lost: every sent byte is acknowledged, lost or in flight, and there is at most one FIN
  in flight, waiting for retransmission, or acknowledged.\<close>

definition send_ok :: "stream_send_state \<Rightarrow> stream_send_range list \<Rightarrow> bool" where
  "send_ok s flight \<longleftrightarrow>
     send_next_unsent_offset s \<le> length (send_bytes s) \<and> send_next_unsent_offset s \<le> send_max_data s
     \<and> (\<forall>rg \<in> set (send_lost s @ send_acked s @ flight). in_sent s rg)
     \<and> (send_fin_sent s \<longrightarrow> send_finished s \<and> send_next_unsent_offset s = length (send_bytes s))
     \<and> (send_fin_acked s \<longrightarrow> send_finished s \<and> send_next_unsent_offset s = length (send_bytes s))
     \<and> fins flight + fins (send_lost s) + (if send_fin_acked s then 1 else 0) \<le> 1
     \<and> (\<forall>rg \<in> set (send_acked s). sr_fin rg \<longrightarrow> send_fin_acked s)
     \<and> (\<forall>rg \<in> set flight. sr_fin rg \<longrightarrow> send_fin_sent s)
     \<and> (\<forall>rg \<in> set (send_lost s). sr_fin rg \<longrightarrow> \<not> send_fin_sent s)
     \<and> (\<not> send_stop_requested s \<longrightarrow>
          (send_fin_sent s \<longrightarrow> send_fin_acked s \<or> (\<exists>rg \<in> set flight. sr_fin rg))
          \<and> (\<forall>i < send_next_unsent_offset s. \<exists>rg \<in> set (send_acked s @ send_lost s @ flight). byte_in i rg))"

lemma fins_simps [simp]: "fins [] = 0" "fins (rg # rgs) = (if sr_fin rg then 1 else 0) + fins rgs"
  "fins (xs @ ys) = fins xs + fins ys"
  by (auto simp: fins_def)

lemma fins_zero: "fins rgs = 0 \<longleftrightarrow> (\<forall>rg \<in> set rgs. \<not> sr_fin rg)"
  by (simp add: fins_def filter_empty_conv)

lemma fins_filter: "fins (filter P rgs) \<le> fins rgs"
  by (induction rgs) auto

lemma fins_remove: "rg \<in> set rgs \<Longrightarrow> fins rgs = fins (remove1 rg rgs) + (if sr_fin rg then 1 else 0)"
  by (induction rgs) auto

lemma valid_sent_range_iff:
  "send_next_unsent_offset s \<le> length (send_bytes s) \<Longrightarrow> valid_sent_range s rg \<longleftrightarrow> in_sent s rg"
  by (auto simp: valid_sent_range_def in_sent_def)

lemma send_ok_new: "send_ok (new_stream_send_state n m) []"
  by (simp add: send_ok_def new_stream_send_state_def)

lemma range_covers_byte: "range_covers a b \<Longrightarrow> byte_in i b \<Longrightarrow> byte_in i a"
  by (auto simp: range_covers_def byte_in_def)

lemma send_ok_sent:
  "send_ok s flight \<Longrightarrow> rg \<in> set (send_lost s) \<or> rg \<in> set (send_acked s) \<or> rg \<in> set flight \<Longrightarrow> in_sent s rg"
  by (auto simp: send_ok_def)

lemma send_ok_len: "send_ok s flight \<Longrightarrow> send_next_unsent_offset s \<le> length (send_bytes s)"
  by (simp add: send_ok_def)

lemma send_ok_cover:
  "send_ok s flight \<Longrightarrow> \<not> send_stop_requested s \<Longrightarrow> i < send_next_unsent_offset s \<Longrightarrow>
     \<exists>rg \<in> set (send_acked s @ send_lost s @ flight). byte_in i rg"
  by (simp add: send_ok_def)

section \<open>Popping keeps the invariant\<close>

lemma drop_acked_lost:
  assumes ok: "send_ok s flight" and l: "send_lost s = rg # lost" and "is_acked s rg"
  shows "send_ok (s\<lparr>send_lost := lost\<rparr>) flight"
proof -
  have "\<exists>a \<in> set (send_acked s @ lost @ flight). byte_in i a"
    if i: "i < send_next_unsent_offset s" "\<not> send_stop_requested s" for i
  proof -
    obtain a where "a \<in> set (send_acked s @ (rg # lost) @ flight)" "byte_in i a"
      using send_ok_cover [OF ok i(2,1)] l by auto
    then show ?thesis using assms(3) range_covers_byte by (auto simp: is_acked_def)
  qed
  with ok l show ?thesis by (auto simp: send_ok_def in_sent_def split: if_splits)
qed

lemma resend_whole:
  assumes ok: "send_ok s flight" and l: "send_lost s = rg # lost"
  defines "s' \<equiv> if sr_fin rg then s\<lparr>send_lost := lost, send_fin_sent := True\<rparr> else s\<lparr>send_lost := lost\<rparr>"
  shows "send_ok s' (flight @ [rg]) \<and> in_sent s' rg"
proof -
  have sent: "in_sent s rg" using ok l by (simp add: send_ok_def)
  have "sr_fin rg \<Longrightarrow> fins lost = 0" using ok l by (auto simp: send_ok_def)
  moreover have "sr_fin rg \<Longrightarrow> send_finished s \<and> send_next_unsent_offset s = length (send_bytes s)"
    using sent ok by (auto simp: in_sent_def send_ok_def)
  ultimately show ?thesis
    using ok l sent by (auto simp: send_ok_def in_sent_def s'_def fins_zero split: if_splits)
qed

lemma resend_part:
  assumes ok: "send_ok s flight" and l: "send_lost s = rg # lost" and n: "0 < n" "n < sr_length rg"
  defines "first \<equiv> rg\<lparr>sr_length := n, sr_fin := False\<rparr>"
  defines "s' \<equiv> s\<lparr>send_lost := \<lparr>sr_offset = sr_offset rg + n, sr_length = sr_length rg - n, sr_fin = sr_fin rg\<rparr> # lost\<rparr>"
  shows "send_ok s' (flight @ [first]) \<and> in_sent s' first"
proof -
  let ?rest = "\<lparr>sr_offset = sr_offset rg + n, sr_length = sr_length rg - n, sr_fin = sr_fin rg\<rparr>"
  have sent: "in_sent s rg" using ok l by (simp add: send_ok_def)
  have "byte_in i rg \<Longrightarrow> byte_in i first \<or> byte_in i ?rest" for i
    by (auto simp: byte_in_def first_def)
  then have "\<exists>a \<in> set (send_acked s @ (?rest # lost) @ flight @ [first]). byte_in i a"
    if i: "i < send_next_unsent_offset s" "\<not> send_stop_requested s" for i
    using send_ok_cover [OF ok i(2,1)] l by auto
  then show ?thesis
    using ok l sent n by (auto simp: send_ok_def in_sent_def s'_def first_def split: if_splits)
qed

text \<open>The outcome of a pop: a frame for a range inside the sent bytes, or none.\<close>

definition popped :: "stream_send_state \<Rightarrow> stream_send_range list \<Rightarrow> nat \<Rightarrow> stream_send_result \<Rightarrow> stream_send_state \<Rightarrow> bool" where
  "popped s flight n r s' \<longleftrightarrow>
     send_ok s' (if ssr_has_frame r then flight @ [ssr_range r] else flight)
     \<and> error_ok (ssr_error r)
     \<and> send_bytes s' = send_bytes s \<and> send_finished s' = send_finished s \<and> send_stream_id s' = send_stream_id s
     \<and> send_max_data s' = send_max_data s \<and> send_acked s' = send_acked s \<and> send_fin_acked s' = send_fin_acked s
     \<and> send_stop_requested s' = send_stop_requested s
     \<and> send_next_unsent_offset s \<le> send_next_unsent_offset s'
     \<and> (ssr_has_frame r \<longrightarrow> in_sent s' (ssr_range r) \<and> ssr_frame r = ssr_frame (make_frame s' (ssr_range r))
          \<and> sr_length (ssr_range r) \<le> n)"

lemma set_fin_sent:
  fixes s :: stream_send_state
  shows "(if b then s\<lparr>send_fin_sent := True\<rparr> else s) = s\<lparr>send_fin_sent := b \<or> send_fin_sent s\<rparr>"
  by (cases b; cases s) simp_all

text \<open>The two outcomes of \<open>pop_new_data\<close>.\<close>

lemma pop_new_data_cases:
  obtains (blocked) "send_max_data s \<le> send_next_unsent_offset s" "pop_new_data s n = (empty_send_result, s)"
  | (data) len fin s' where "send_next_unsent_offset s < send_max_data s"
      "len = min n (min (length (send_bytes s) - send_next_unsent_offset s) (send_max_data s - send_next_unsent_offset s))"
      "fin \<longleftrightarrow> send_finished s \<and> send_next_unsent_offset s + len = length (send_bytes s)
        \<and> length (send_bytes s) \<le> send_max_data s"
      "s' = s\<lparr>send_next_unsent_offset := send_next_unsent_offset s + len, send_fin_sent := fin \<or> send_fin_sent s\<rparr>"
      "pop_new_data s n = (make_frame s' \<lparr>sr_offset = send_next_unsent_offset s, sr_length = len, sr_fin = fin\<rparr>, s')"
proof (cases "send_next_unsent_offset s \<ge> send_max_data s")
  case True
  then show ?thesis using that(1) by (simp add: pop_new_data_def)
next
  case False
  let ?len = "min n (min (length (send_bytes s) - send_next_unsent_offset s) (send_max_data s - send_next_unsent_offset s))"
  let ?fin = "send_finished s \<and> send_next_unsent_offset s + ?len = length (send_bytes s)
        \<and> length (send_bytes s) \<le> send_max_data s"
  let ?s' = "s\<lparr>send_next_unsent_offset := send_next_unsent_offset s + ?len, send_fin_sent := ?fin \<or> send_fin_sent s\<rparr>"
  have "pop_new_data s n = (make_frame ?s' \<lparr>sr_offset = send_next_unsent_offset s, sr_length = ?len, sr_fin = ?fin\<rparr>, ?s')"
    using False by (simp add: pop_new_data_def Let_def set_fin_sent)
  moreover have "send_next_unsent_offset s < send_max_data s" using False by simp
  ultimately show ?thesis using that(2) [OF _ refl refl refl] by blast
qed

lemma make_frame_sel [simp]:
  "ssr_has_frame (make_frame s rg)" "ssr_range (make_frame s rg) = rg" "error_ok (ssr_error (make_frame s rg))"
  by (simp_all add: make_frame_def)

lemma empty_send_result_sel [simp]: "\<not> ssr_has_frame empty_send_result" "error_ok (ssr_error empty_send_result)"
  by (simp_all add: empty_send_result_def)

lemma pop_new_data_idle:
  assumes "pop_new_data s n = (r, s')" and "\<not> ssr_has_frame r"
  shows "s' = s \<and> r = empty_send_result \<and> send_max_data s \<le> send_next_unsent_offset s"
proof (cases rule: pop_new_data_cases [of s n])
  case (data len fin t)
  then have "ssr_has_frame r" using assms(1) make_frame_sel(1) by (metis prod.inject)
  with assms(2) show ?thesis by simp
qed (use assms(1) in simp)

lemma pop_new_data_ok:
  assumes ok: "send_ok s flight" and u: "send_next_unsent_offset s < length (send_bytes s)" and n: "0 < n"
    and stop: "\<not> send_stop_requested s" and pop: "pop_new_data s n = (r, s')" and has: "ssr_has_frame r"
  shows "popped s flight n r s' \<and> send_next_unsent_offset s < send_next_unsent_offset s'"
proof (cases rule: pop_new_data_cases [of s n])
  case blocked
  with pop has show ?thesis by simp
next
  case (data len fin t)
  note credit = data(1) and len_def = data(2) and fin_def = data(3)
  let ?rg = "\<lparr>sr_offset = send_next_unsent_offset s, sr_length = len, sr_fin = fin\<rparr>"
  have s': "s' = s\<lparr>send_next_unsent_offset := send_next_unsent_offset s + len, send_fin_sent := fin \<or> send_fin_sent s\<rparr>"
    and r: "r = make_frame s' ?rg"
    using pop [unfolded data(5)] data(4) by blast+
  have len: "0 < len" "len \<le> n" "send_next_unsent_offset s + len \<le> length (send_bytes s)"
      "send_next_unsent_offset s + len \<le> send_max_data s"
    using credit u n by (auto simp: len_def)
  have no_fin: "\<not> send_fin_sent s" "fins flight = 0" "fins (send_lost s) = 0" "\<not> send_fin_acked s"
    using ok u by (fastforce simp: send_ok_def in_sent_def fins_zero)+
  have "\<exists>a \<in> set (send_acked s @ send_lost s @ flight @ [?rg]). byte_in i a"
    if i: "i < send_next_unsent_offset s + len" for i
    using send_ok_cover [OF ok stop, of i] i by (cases "i < send_next_unsent_offset s") (auto simp: byte_in_def)
  then have "\<forall>i < send_next_unsent_offset s'. \<exists>a \<in> set (send_acked s' @ send_lost s' @ flight @ [?rg]). byte_in i a"
    by (simp add: s')
  moreover have "in_sent s' rg" if "in_sent s rg" for rg
    using that by (auto simp: in_sent_def s')
  then have "\<forall>rg \<in> set (send_lost s' @ send_acked s' @ flight). in_sent s' rg"
    using send_ok_sent [OF ok] by (auto simp: s')
  moreover have "in_sent s' ?rg" by (auto simp: in_sent_def s' fin_def)
  ultimately have "send_ok s' (flight @ [?rg])"
    using ok len no_fin no_fin(3) [unfolded fins_zero] by (simp add: send_ok_def) (auto simp: s' fin_def)
  then show ?thesis
    using has len(1,2) \<open>in_sent s' ?rg\<close> unfolding popped_def r by simp (simp add: s')
qed

lemma fin_alone_ok:
  assumes ok: "send_ok s flight" and "send_finished s" "\<not> send_fin_sent s" "\<not> send_fin_acked s"
    "send_next_unsent_offset s = length (send_bytes s)" and l: "send_lost s = []"
  shows "send_ok (s\<lparr>send_fin_sent := True\<rparr>)
    (flight @ [\<lparr>sr_offset = length (send_bytes s), sr_length = 0, sr_fin = True\<rparr>])"
proof -
  have "fins flight = 0" unfolding fins_zero using ok assms(3) by (auto simp: send_ok_def)
  with assms show ?thesis by (auto simp: send_ok_def in_sent_def)
qed

lemma pop_fresh_ok:
  assumes ok: "send_ok s flight" and "\<not> send_stop_requested s" and l: "send_lost s = []"
    and pop: "pop_fresh s n = (r, s')"
  shows "popped s flight n r s'"
proof (cases "send_next_unsent_offset s < length (send_bytes s) \<and> n > 0")
  case True
  then have new: "pop_new_data s n = (r, s')" using pop by (simp add: pop_fresh_def)
  show ?thesis
  proof (cases "ssr_has_frame r")
    case True
    then show ?thesis
      using pop_new_data_ok [OF ok _ _ assms(2) new True] \<open>send_next_unsent_offset s < _ \<and> _\<close> by blast
  next
    case False
    with new have "s' = s \<and> r = empty_send_result" using pop_new_data_idle by blast
    then show ?thesis using ok by (simp add: popped_def)
  qed
next
  case False
  then show ?thesis
    using pop ok fin_alone_ok [OF ok _ _ _ _ l]
    by (auto simp: pop_fresh_def popped_def make_frame_def in_sent_def empty_send_result_def split: if_splits)
qed

lemma popped_after_drop:
  assumes "popped (s\<lparr>send_lost := lost\<rparr>) flight n r s'"
  shows "popped s flight n r s'"
  using assms by (simp add: popped_def)

lemma pop_frame_ok:
  "send_ok s flight \<Longrightarrow> pop_frame s n = (r, s') \<Longrightarrow> popped s flight n r s'"
proof (induction s n rule: pop_frame.induct)
  case (1 s n)
  show ?case
  proof (cases "send_stop_requested s")
    case True
    with 1(3) have "r = empty_send_result" "s' = s" by (auto simp: pop_frame.simps [of s])
    with 1(2) show ?thesis by (simp add: popped_def empty_send_result_def)
  next
    case False
    note go = False
    show ?thesis
    proof (cases "send_lost s")
      case Nil
      with 1(3) go have "pop_fresh s n = (r, s')" by (simp add: pop_frame.simps [of s])
      with pop_fresh_ok [OF 1(2) go Nil] show ?thesis by blast
    next
      case (Cons rg lost)
      let ?s1 = "s\<lparr>send_lost := lost\<rparr>"
      show ?thesis
      proof (cases "is_acked ?s1 rg")
        case True
        then have "is_acked s rg" by (simp add: is_acked_def)
        from drop_acked_lost [OF 1(2) Cons this] have "send_ok ?s1 flight" .
        moreover have "pop_frame ?s1 n = (r, s')" using 1(3) go Cons True by (simp add: pop_frame.simps [of s])
        ultimately show ?thesis using 1(1) [OF go Cons refl True] popped_after_drop by blast
      next
        case False
        note step = 1(3) [unfolded pop_frame.simps [of s]] go Cons False
        consider (wait) "sr_length rg > 0" "n = 0" | (part) "sr_length rg > n" "n > 0" | (whole) "sr_length rg \<le> n"
          by linarith
        then show ?thesis
        proof cases
          case wait
          with step have "r = empty_send_result" "s' = s\<lparr>send_lost := send_lost s\<rparr>" by auto
          with 1(2) show ?thesis by (simp add: popped_def empty_send_result_def)
        next
          case part
          with resend_part [OF 1(2) Cons, of n] step show ?thesis
            by (auto simp: Let_def popped_def make_frame_def)
        next
          case whole
          with resend_whole [OF 1(2) Cons] step show ?thesis
            by (auto simp: Let_def popped_def make_frame_def split: if_splits)
        qed
      qed
    qed
  qed
qed

text \<open>A range leaves flight.\<close>

definition leaves :: "stream_send_range list \<Rightarrow> stream_send_range \<Rightarrow> stream_send_range list \<Rightarrow> bool" where
  "leaves flight rg rest \<longleftrightarrow> set flight = insert rg (set rest) \<and> fins flight = fins rest + (if sr_fin rg then 1 else 0)"

lemma leaves_remove: "rg \<in> set flight \<Longrightarrow> leaves flight rg (remove1 rg flight)"
  using fins_remove [of rg flight] set_remove1_subset [of rg flight]
  by (auto simp: leaves_def) (metis in_set_remove1)

lemma on_acked_ok:
  assumes ok: "send_ok s flight" and out: "leaves flight rg rest"
  shows "send_ok (on_acked s rg) rest"
proof -
  have set: "set flight = insert rg (set rest)" and f: "fins flight = fins rest + (if sr_fin rg then 1 else 0)"
    using out by (auto simp: leaves_def)
  have sent: "in_sent s rg" "send_next_unsent_offset s \<le> length (send_bytes s)" using ok set by (auto simp: send_ok_def)
  have fin: "sr_fin rg \<Longrightarrow> send_fin_sent s" using ok set by (auto simp: send_ok_def)
  let ?lost = "filter (\<lambda>l. \<not> range_covers rg l) (send_lost s)"
  let ?s = "s\<lparr>send_acked := send_acked s @ [rg], send_lost := ?lost,
     send_fin_acked := sr_fin rg \<or> send_fin_acked s\<rparr>"
  have eq: "on_acked s rg = ?s"
  proof (cases "sr_fin rg")
    case True
    then have "send_finished s" "sr_offset rg + sr_length rg = length (send_bytes s)" using sent by (auto simp: in_sent_def)
    then show ?thesis using True sent fin by (simp add: on_acked_def valid_sent_range_iff)
  next
    case False
    then show ?thesis using sent by (simp add: on_acked_def valid_sent_range_iff)
  qed
  have same: "in_sent ?s a = in_sent s a" for a by (simp add: in_sent_def)
  have "\<exists>a \<in> set (send_acked ?s @ send_lost ?s @ rest). byte_in i a"
    if go: "\<not> send_stop_requested s" "i < send_next_unsent_offset s" for i
    using send_ok_cover [OF ok go] range_covers_byte [of rg _ i] by (auto simp: set)
  moreover have "fins rest + fins ?lost + (if send_fin_acked ?s then 1 else 0) \<le> 1"
    using ok f fins_filter [of "\<lambda>l. \<not> range_covers rg l" "send_lost s"] by (auto simp: send_ok_def split: if_splits)
  moreover have "\<forall>a \<in> set (send_lost ?s @ send_acked ?s @ rest). in_sent ?s a"
    using send_ok_sent [OF ok] sent(1) by (auto simp: same set)
  moreover have "sr_fin rg \<Longrightarrow> send_finished s \<and> send_next_unsent_offset s = length (send_bytes s)"
    using ok fin by (simp add: send_ok_def)
  ultimately show ?thesis
    unfolding eq using ok by (simp add: send_ok_def set) blast
qed

lemma on_lost_ok:
  assumes ok: "send_ok s flight" and out: "leaves flight rg rest"
  shows "send_ok (on_lost s rg) rest"
proof -
  have set: "set flight = insert rg (set rest)" and f: "fins flight = fins rest + (if sr_fin rg then 1 else 0)"
    using out by (auto simp: leaves_def)
  have sent: "in_sent s rg" "send_next_unsent_offset s \<le> length (send_bytes s)" using ok set by (auto simp: send_ok_def)
  have fin: "sr_fin rg \<Longrightarrow> send_fin_sent s" using ok set by (auto simp: send_ok_def)
  consider (stop) "send_stop_requested s" | (acked) "\<not> send_stop_requested s" "is_acked s rg"
    | (lost) "\<not> send_stop_requested s" "\<not> is_acked s rg" by blast
  then show ?thesis
  proof cases
    case stop
    then have "on_lost s rg = s" by (simp add: on_lost_def)
    with ok f stop show ?thesis by (auto simp: send_ok_def set)
  next
    case acked
    then have eq: "on_lost s rg = s" by (simp add: on_lost_def)
    obtain a where a: "a \<in> set (send_acked s)" "range_covers a rg" using acked(2) by (auto simp: is_acked_def)
    have "\<not> sr_fin rg" using ok a f by (auto simp: send_ok_def range_covers_def)
    moreover have "\<exists>b \<in> set (send_acked s @ send_lost s @ rest). byte_in i b" if "i < send_next_unsent_offset s" for i
      using send_ok_cover [OF ok acked(1) that] a(1) range_covers_byte [OF a(2)] by (auto simp: set)
    ultimately show ?thesis unfolding eq using ok f by (auto simp: send_ok_def set)
  next
    case lost
    let ?s = "s\<lparr>send_lost := send_lost s @ [rg], send_fin_sent := send_fin_sent s \<and> \<not> sr_fin rg\<rparr>"
    have eq: "on_lost s rg = ?s"
      using lost fin sent by (auto simp: on_lost_def valid_sent_range_iff Let_def)
    have none: "sr_fin rg \<Longrightarrow> \<forall>a \<in> set rest. \<not> sr_fin a"
      using ok f by (auto simp: send_ok_def fins_zero [symmetric])
    moreover have "\<exists>b \<in> set (send_acked s @ (send_lost s @ [rg]) @ rest). byte_in i b" if "i < send_next_unsent_offset s" for i
      using send_ok_cover [OF ok lost(1) that] by (auto simp: set)
    moreover have "in_sent ?s a = in_sent s a" for a by (simp add: in_sent_def)
    then have "\<forall>a \<in> set (send_lost ?s @ send_acked ?s @ rest). in_sent ?s a"
      using send_ok_sent [OF ok] sent(1) by (auto simp: set)
    ultimately show ?thesis unfolding eq using ok f fin by (auto simp: send_ok_def set)
  qed
qed

section \<open>Runs of a send state\<close>

text \<open>The state, all frames it has produced, and the ranges in flight.  Ranges are acknowledged or lost only
  while in flight, as the connection does.\<close>

inductive send_history :: "stream_send_state \<Rightarrow> stream_frame list \<Rightarrow> stream_send_range list \<Rightarrow> bool" where
  start: "send_history (new_stream_send_state n m) [] []"
| append: "send_history s fs flight \<Longrightarrow> send_append s data = (e, s') \<Longrightarrow> send_history s' fs flight"
| finish: "send_history s fs flight \<Longrightarrow> send_finish s = (e, s') \<Longrightarrow> send_history s' fs flight"
| pop: "send_history s fs flight \<Longrightarrow> pop_frame s k = (r, s') \<Longrightarrow> ssr_has_frame r \<Longrightarrow>
    send_history s' (fs @ [ssr_frame r]) (flight @ [ssr_range r])"
| idle: "send_history s fs flight \<Longrightarrow> pop_frame s k = (r, s') \<Longrightarrow> \<not> ssr_has_frame r \<Longrightarrow> send_history s' fs flight"
| acked: "send_history s fs flight \<Longrightarrow> rg \<in> set flight \<Longrightarrow> send_history (on_acked s rg) fs (remove1 rg flight)"
| lost: "send_history s fs flight \<Longrightarrow> rg \<in> set flight \<Longrightarrow> send_history (on_lost s rg) fs (remove1 rg flight)"
| credit: "send_history s fs flight \<Longrightarrow> send_history (send_update_max_data s m) fs flight"
| stop: "send_history s fs flight \<Longrightarrow> stop_sending s f = (e, s') \<Longrightarrow> send_history s' fs flight"

inductive_cases send_historyE: "send_history s fs flight"

lemma send_append_ok: "send_ok s flight \<Longrightarrow> send_append s data = (e, s') \<Longrightarrow> send_ok s' flight"
proof -
  assume ok: "send_ok s flight" and a: "send_append s data = (e, s')"
  show ?thesis
  proof (cases "send_finished s")
    case True
    with ok a show ?thesis by (auto simp: send_append_def split: if_splits)
  next
    case False
    then have "in_sent s a \<Longrightarrow> in_sent (s\<lparr>send_bytes := send_bytes s @ data\<rparr>) a" for a by (simp add: in_sent_def)
    with ok False have "send_ok (s\<lparr>send_bytes := send_bytes s @ data\<rparr>) flight" by (simp add: send_ok_def) blast
    with ok a show ?thesis by (auto simp: send_append_def split: if_splits)
  qed
qed

lemma send_finish_ok: "send_ok s flight \<Longrightarrow> send_finish s = (e, s') \<Longrightarrow> send_ok s' flight"
proof -
  assume ok: "send_ok s flight" and f: "send_finish s = (e, s')"
  have "in_sent s a \<Longrightarrow> in_sent (s\<lparr>send_finished := True\<rparr>) a" for a by (simp add: in_sent_def)
  with ok have "send_ok (s\<lparr>send_finished := True\<rparr>) flight" by (simp add: send_ok_def)
  with ok f show ?thesis by (auto simp: send_finish_def split: if_splits)
qed

lemma send_credit_ok: "send_ok s flight \<Longrightarrow> send_ok (send_update_max_data s m) flight"
  by (auto simp: send_update_max_data_def send_ok_def in_sent_def)

lemma stop_sending_ok:
  assumes ok: "send_ok s flight" and "stop_sending s f = (e, s')"
  shows "send_ok s' flight"
proof -
  have "send_ok (s\<lparr>send_stop_requested := True, send_stop_error_code := c, send_lost := []\<rparr>) flight" for c
    using ok by (simp add: send_ok_def in_sent_def) blast
  with assms show ?thesis by (auto simp: stop_sending_def split: if_splits)
qed

lemma send_history_ok: "send_history s fs flight \<Longrightarrow> send_ok s flight"
proof (induction rule: send_history.induct)
  case (pop s fs flight k r s')
  then show ?case using pop_frame_ok [of s flight k r s'] by (simp add: popped_def)
next
  case (idle s fs flight k r s')
  then show ?case using pop_frame_ok [of s flight k r s'] by (simp add: popped_def)
qed (auto intro: send_ok_new send_append_ok send_finish_ok send_credit_ok stop_sending_ok
       on_acked_ok on_lost_ok leaves_remove)

text \<open>A frame that carries bytes of the stream within the sent part.\<close>

definition sent_slice :: "stream_send_state \<Rightarrow> stream_frame \<Rightarrow> bool" where
  "sent_slice s f \<longleftrightarrow> frame_end f \<le> send_next_unsent_offset s
     \<and> sf_data f = take (length (sf_data f)) (drop (frame_offset f) (send_bytes s))
     \<and> (sf_fin f \<longrightarrow> send_finished s \<and> frame_end f = length (send_bytes s))"

text \<open>Between two states of a run the bytes only grow, and not after the stream is finished.\<close>

definition extends :: "stream_send_state \<Rightarrow> stream_send_state \<Rightarrow> bool" where
  "extends s s' \<longleftrightarrow> send_next_unsent_offset s \<le> send_next_unsent_offset s'
     \<and> (\<exists>more. send_bytes s' = send_bytes s @ more \<and> (send_finished s \<longrightarrow> more = []))
     \<and> (send_finished s \<longrightarrow> send_finished s') \<and> send_max_data s \<le> send_max_data s'"

lemma extends_slice:
  assumes "extends s s'" and "sent_slice s f" and "send_next_unsent_offset s \<le> length (send_bytes s)"
  shows "sent_slice s' f"
proof -
  obtain more where m: "send_bytes s' = send_bytes s @ more" "send_finished s \<longrightarrow> more = []"
    using assms(1) by (auto simp: extends_def)
  have "frame_offset f + length (sf_data f) \<le> length (send_bytes s)"
    using assms(2,3) by (simp add: sent_slice_def frame_end_def)
  then have "take (length (sf_data f)) (drop (frame_offset f) (send_bytes s'))
      = take (length (sf_data f)) (drop (frame_offset f) (send_bytes s))" by (simp add: m(1))
  then show ?thesis
    using assms(1,2) m unfolding sent_slice_def extends_def by (auto intro: order_trans)
qed

lemma extends_ops:
  "send_append s data = (e, s') \<Longrightarrow> extends s s'" "send_finish s = (e, s') \<Longrightarrow> extends s s'"
  "stop_sending s sf = (e, s') \<Longrightarrow> extends s s'" "extends s (send_update_max_data s m)"
  "extends s (on_acked s rg)" "extends s (on_lost s rg)"
  by (auto simp: extends_def send_append_def send_finish_def stop_sending_def send_update_max_data_def
      on_acked_def on_lost_def Let_def split: if_splits)

lemma popped_extends: "popped s flight n r s' \<Longrightarrow> extends s s'"
  by (simp add: popped_def extends_def)

lemma make_frame_slice:
  assumes "in_sent s rg" and "send_next_unsent_offset s \<le> length (send_bytes s)"
  shows "sent_slice s (ssr_frame (make_frame s rg))
    \<and> frame_offset (ssr_frame (make_frame s rg)) = sr_offset rg
    \<and> frame_end (ssr_frame (make_frame s rg)) = sr_offset rg + sr_length rg"
proof -
  let ?f = "ssr_frame (make_frame s rg)"
  have off: "frame_offset ?f = sr_offset rg" "length (sf_data ?f) = sr_length rg"
    by (auto simp: frame_offset_def make_frame_def)
  have "sf_data ?f = take (sr_length rg) (drop (sr_offset rg) (send_bytes s))"
    using assms by (intro nth_equalityI) (auto simp: make_frame_def in_sent_def)
  then show ?thesis
    using assms off unfolding sent_slice_def in_sent_def by (auto simp: frame_end_def) (simp add: make_frame_def)+
qed

lemma slices_extend:
  "send_history s fs flight \<Longrightarrow> \<forall>f \<in> set fs. sent_slice s f \<Longrightarrow> extends s s' \<Longrightarrow> \<forall>f \<in> set fs. sent_slice s' f"
  using extends_slice send_ok_len [OF send_history_ok] by blast

lemma send_history_slices:
  "send_history s fs flight \<Longrightarrow> \<forall>f \<in> set fs. sent_slice s f"
proof (induction rule: send_history.induct)
  case (pop s fs flight k r s')
  have p: "popped s flight k r s'" using pop_frame_ok [OF send_history_ok [OF pop(1)] pop(2)] .
  then have "send_next_unsent_offset s' \<le> length (send_bytes s')" unfolding popped_def using send_ok_len by blast
  then have "sent_slice s' (ssr_frame r)" using p pop(3) make_frame_slice [of s' "ssr_range r"] by (auto simp: popped_def)
  then show ?case using slices_extend [OF pop(1,4) popped_extends [OF p]] by simp
next
  case (idle s fs flight k r s')
  show ?case
    using slices_extend [OF idle(1,4) popped_extends [OF pop_frame_ok [OF send_history_ok [OF idle(1)] idle(2)]]] .
qed (simp, (erule (1) slices_extend, erule extends_ops | erule (1) slices_extend, rule extends_ops)+)

section \<open>Properties of sending\<close>

text \<open>Over any run of a send state (appending, finishing, popping frames of any size, acknowledgements and
  losses of ranges in flight, credit updates, STOP_SENDING), every frame produced carries exactly the
  stream's bytes at its offset, ends within the flow-control credit, and carries FIN only if the stream is
  finished and the frame reaches its last byte.\<close>

theorem sent_frames_faithful:
  assumes "send_history s fs flight" and "f \<in> set fs"
  shows "slice_of (send_bytes s) f \<and> frame_end f \<le> send_max_data s \<and> (sf_fin f \<longrightarrow> send_finished s)"
proof -
  have "sent_slice s f" using send_history_slices [OF assms(1)] assms(2) by blast
  moreover have "send_ok s flight" using send_history_ok [OF assms(1)] .
  ultimately show ?thesis unfolding slice_of_def sent_slice_def send_ok_def by linarith
qed

text \<open>A pop that finds nothing with room to send has dropped every lost range as acknowledged.\<close>

lemma pop_fresh_idle:
  assumes "pop_fresh s n = (r, s')" and "\<not> ssr_has_frame r"
  shows "s' = s \<and> (send_next_unsent_offset s < length (send_bytes s) \<and> 0 < n \<longrightarrow> send_max_data s \<le> send_next_unsent_offset s)"
proof (cases "send_next_unsent_offset s < length (send_bytes s) \<and> 0 < n")
  case True
  then have "pop_new_data s n = (r, s')" using assms(1) by (simp add: pop_fresh_def)
  with assms(2) show ?thesis using pop_new_data_idle by blast
next
  case False
  with assms show ?thesis by (auto simp: pop_fresh_def Let_def split: if_splits)
qed

lemma pop_none:
  "pop_frame s n = (r, s') \<Longrightarrow> \<not> ssr_has_frame r \<Longrightarrow> 0 < n \<Longrightarrow> \<not> send_stop_requested s \<Longrightarrow>
     send_lost s' = [] \<and> pop_fresh s' n = (r, s')"
proof (induction s n rule: pop_frame.induct)
  case (1 s n)
  show ?case
  proof (cases "send_lost s")
    case Nil
    with 1 have pop: "pop_fresh s n = (r, s')" by (simp add: pop_frame.simps [of s])
    then have "s' = s" using 1(3) pop_fresh_idle by blast
    with pop Nil show ?thesis by simp
  next
    case (Cons rg lost)
    let ?s1 = "s\<lparr>send_lost := lost\<rparr>"
    have "is_acked ?s1 rg"
      using 1(2-5) Cons by (auto simp: pop_frame.simps [of s] Let_def make_frame_def split: if_splits)
    moreover from this have "pop_frame ?s1 n = (r, s')" using 1(2,5) Cons by (simp add: pop_frame.simps [of s])
    ultimately show ?thesis using 1(1) [OF 1(5) Cons refl] 1(3-5) by simp
  qed
qed

lemma pop_fresh_none:
  assumes "send_ok s flight" and "pop_fresh s n = (r, s)" and "\<not> ssr_has_frame r" and "0 < n"
    and "\<not> send_blocked s" and "\<not> send_stop_requested s"
  shows "send_next_unsent_offset s = length (send_bytes s)
    \<and> (send_finished s \<longrightarrow> send_fin_sent s \<or> send_fin_acked s)"
proof -
  have "\<not> send_next_unsent_offset s < length (send_bytes s)"
    using pop_fresh_idle [OF assms(2,3)] assms(4-6) by (auto simp: send_blocked_def)
  then have u: "send_next_unsent_offset s = length (send_bytes s)" using send_ok_len [OF assms(1)] by simp
  moreover have "length (send_bytes s) \<le> send_max_data s" using assms(1) u by (simp add: send_ok_def)
  ultimately show ?thesis
    using assms(2,3) by (auto simp: pop_fresh_def make_frame_def split: if_splits)
qed

text \<open>C9: Nothing is forgotten: when no range is in flight, the stream is neither stopped nor blocked by flow
  control, and a pop with room for data produces nothing, then every byte appended has been
  acknowledged, and so has the FIN of a finished stream.\<close>

theorem idle_sender_complete:
  assumes h: "send_history s fs []" and pop: "pop_frame s n = (r, s')" "\<not> ssr_has_frame r" and n: "0 < n"
    and "\<not> send_stop_requested s" and "\<not> send_blocked s'"
  shows "(\<forall>i < length (send_bytes s). \<exists>rg \<in> set (send_acked s'). byte_in i rg)
    \<and> (send_finished s \<longrightarrow> send_closed s')"
proof -
  have p: "popped s [] n r s'" using pop_frame_ok [OF send_history_ok [OF h] pop(1)] .
  then have ok: "send_ok s' []" and eq: "send_bytes s' = send_bytes s" "send_finished s' = send_finished s"
      "\<not> send_stop_requested s'"
    using pop(2) assms(5) by (auto simp: popped_def)
  have none: "send_lost s' = []" "pop_fresh s' n = (r, s')" using pop_none [OF pop n assms(5)] by auto
  have u: "send_next_unsent_offset s' = length (send_bytes s')"
      "send_finished s' \<longrightarrow> send_fin_sent s' \<or> send_fin_acked s'"
    using pop_fresh_none [OF ok none(2) pop(2) n assms(6) eq(3)] by auto
  moreover have "send_fin_sent s' \<longrightarrow> send_fin_acked s'" using ok eq(3) by (simp add: send_ok_def)
  ultimately show ?thesis
    using send_ok_cover [OF ok eq(3)] none(1) eq by (auto simp: send_closed_def)
qed

section \<open>Frames and ranges in flight\<close>

lemma send_history_flight:
  "send_history s fs flight \<Longrightarrow> rg \<in> set flight \<Longrightarrow>
     \<exists>f \<in> set fs. frame_offset f = sr_offset rg \<and> frame_end f = sr_offset rg + sr_length rg \<and> sf_fin f = sr_fin rg"
proof (induction arbitrary: rg rule: send_history.induct)
  case (pop s fs flight k r s')
  have p: "popped s flight k r s'" using pop_frame_ok [OF send_history_ok [OF pop(1)] pop(2)] .
  have len: "send_next_unsent_offset s' \<le> length (send_bytes s')"
    using p unfolding popped_def by (meson send_ok_len)
  have r: "in_sent s' (ssr_range r)" "ssr_frame r = ssr_frame (make_frame s' (ssr_range r))"
    using p pop(3) by (auto simp: popped_def)
  have "frame_offset (ssr_frame r) = sr_offset (ssr_range r) \<and> sf_fin (ssr_frame r) = sr_fin (ssr_range r)
      \<and> frame_end (ssr_frame r) = sr_offset (ssr_range r) + sr_length (ssr_range r)"
    using make_frame_slice [OF r(1) len] unfolding r(2) by (simp add: make_frame_def)
  with pop show ?case by auto
qed (auto dest: notin_set_remove1)

section \<open>Sending a whole stream\<close>

fun pop_many :: "nat \<Rightarrow> nat \<Rightarrow> stream_send_state \<Rightarrow> stream_frame list \<times> stream_send_state" where
  "pop_many 0 n s = ([], s)"
| "pop_many (Suc k) n s =
     (let (r, s1) = pop_frame s n; (fs, s2) = pop_many k n s1
      in (if ssr_has_frame r then ssr_frame r # fs else fs, s2))"

lemma pop_many_history:
  "send_history s fs flight \<Longrightarrow> pop_many k n s = (gs, s') \<Longrightarrow> \<exists>flight'. send_history s' (fs @ gs) flight'"
proof (induction k arbitrary: s fs flight gs)
  case (Suc k)
  obtain r s1 hs where r: "pop_frame s n = (r, s1)" "pop_many k n s1 = (hs, s')"
      "gs = (if ssr_has_frame r then ssr_frame r # hs else hs)"
    using Suc.prems(2) by (auto split: prod.splits)
  show ?case
  proof (cases "ssr_has_frame r")
    case True
    with Suc.IH [OF send_history.pop [OF Suc.prems(1) r(1) True] r(2)] r(3) show ?thesis by simp
  next
    case False
    with Suc.IH [OF send_history.idle [OF Suc.prems(1) r(1) False] r(2)] r(3) show ?thesis by simp
  qed
qed auto

text \<open>How much a loss-free sender still has to send.\<close>

definition left_to_send :: "stream_send_state \<Rightarrow> nat" where
  "left_to_send s = (length (send_bytes s) - send_next_unsent_offset s) + (if send_fin_sent s then 0 else 1)"

definition fresh_sender :: "stream_send_state \<Rightarrow> bool" where
  "fresh_sender s \<longleftrightarrow> send_lost s = [] \<and> send_acked s = [] \<and> \<not> send_fin_acked s \<and> \<not> send_stop_requested s
     \<and> send_finished s \<and> length (send_bytes s) \<le> send_max_data s \<and> send_next_unsent_offset s \<le> length (send_bytes s)"

lemma fresh_pop:
  assumes "fresh_sender s" and "pop_frame s n = (r, s1)" and "0 < n"
  shows "fresh_sender s1 \<and> send_bytes s1 = send_bytes s \<and> left_to_send s1 \<le> left_to_send s - 1"
proof -
  have pop: "pop_fresh s n = (r, s1)" using assms(1,2) by (simp add: fresh_sender_def pop_frame.simps [of s])
  show ?thesis
  proof (cases "send_next_unsent_offset s < length (send_bytes s)")
    case True
    then have new: "pop_new_data s n = (r, s1)" using pop assms(3) by (simp add: pop_fresh_def)
    show ?thesis
    proof (cases rule: pop_new_data_cases [of s n])
      case blocked
      with True assms(1) show ?thesis by (simp add: fresh_sender_def)
    next
      case (data len fin t)
      have s1: "s1 = s\<lparr>send_next_unsent_offset := send_next_unsent_offset s + len, send_fin_sent := fin \<or> send_fin_sent s\<rparr>"
        using new [unfolded data(5)] data(4) by blast
      have "0 < len" "send_next_unsent_offset s + len \<le> length (send_bytes s)" using data(1,2) True assms(3) by auto
      then show ?thesis using assms(1) by (simp add: s1 fresh_sender_def left_to_send_def) linarith
    qed
  next
    case False
    then show ?thesis
      using pop assms(1) by (auto simp: pop_fresh_def fresh_sender_def left_to_send_def Let_def split: if_splits)
  qed
qed

lemma fresh_pop_many:
  "fresh_sender s \<Longrightarrow> 0 < n \<Longrightarrow> pop_many k n s = (gs, s') \<Longrightarrow>
     fresh_sender s' \<and> send_bytes s' = send_bytes s \<and> left_to_send s' \<le> left_to_send s - k"
proof (induction k arbitrary: s gs)
  case (Suc k)
  obtain r s1 hs where r: "pop_frame s n = (r, s1)" "pop_many k n s1 = (hs, s')"
    using Suc.prems(3) by (auto split: prod.splits)
  show ?case
    using fresh_pop [OF Suc.prems(1) r(1) Suc.prems(2)] Suc.IH [OF _ Suc.prems(2) r(2)] by auto
qed simp

text \<open>The state after the application wrote its data and finished.\<close>

definition finished_sender :: "u64 \<Rightarrow> u64 \<Rightarrow> buffer \<Rightarrow> stream_send_state" where
  "finished_sender stream_id max_data data =
     snd (send_finish (snd (send_append (new_stream_send_state stream_id max_data) data)))"

lemma finished_sender_frames:
  assumes "length data \<le> max_data" and "max_data < 2 ^ 64" and "0 < n" and "length data < k"
    and "pop_many k n (finished_sender stream_id max_data data) = (fs, s)"
  shows "(\<forall>f \<in> set fs. slice_of data f) \<and> (\<forall>i < length data. covered fs i) \<and> (\<exists>f \<in> set fs. sf_fin f)"
proof -
  let ?s = "finished_sender stream_id max_data data"
  have s: "?s = (new_stream_send_state stream_id max_data)\<lparr>send_bytes := data, send_finished := True\<rparr>"
    using assms(1,2) by (simp add: finished_sender_def send_append_def send_finish_def new_stream_send_state_def)
  have "send_history ?s [] []"
    unfolding finished_sender_def
    by (intro send_history.finish [OF send_history.append [OF send_history.start]]) (rule surjective_pairing)+
  from pop_many_history [OF this assms(5)] obtain flight where h: "send_history s fs flight" by auto
  have "fresh_sender ?s" using assms(1) by (simp add: s fresh_sender_def new_stream_send_state_def)
  moreover have "left_to_send ?s = length data + 1" by (simp add: s left_to_send_def new_stream_send_state_def)
  ultimately have f: "fresh_sender s" "send_bytes s = data" "left_to_send s = 0"
    using fresh_pop_many [OF _ assms(3,5)] assms(4) by (auto simp: s new_stream_send_state_def)
  have ok: "send_ok s flight" using send_history_ok [OF h] .
  have all_sent: "send_next_unsent_offset s = length data" "send_fin_sent s"
    using f send_ok_len [OF ok] by (auto simp: left_to_send_def split: if_splits)
  have "covered fs i" if i: "i < length data" for i
  proof -
    from send_ok_cover [OF ok, of i] i all_sent(1) f(1) obtain rg where "rg \<in> set flight" "byte_in i rg"
      by (auto simp: fresh_sender_def)
    then show ?thesis using send_history_flight [OF h, of rg] unfolding covered_def byte_in_def by metis
  qed
  moreover have "\<exists>f \<in> set fs. sf_fin f"
  proof -
    have "\<exists>rg \<in> set flight. sr_fin rg" using ok f(1) all_sent(2) by (auto simp: send_ok_def fresh_sender_def)
    then show ?thesis using send_history_flight [OF h] by blast
  qed
  moreover have "slice_of data f" if "f \<in> set fs" for f
    using send_history_slices [OF h] that send_ok_len [OF ok] f(2)
    unfolding slice_of_def sent_slice_def by (metis order_trans)
  ultimately show ?thesis by blast
qed

text \<open>Witnesses of the two properties of sending: a stream of three bytes, popped two bytes at a time.\<close>

lemma short_history:
  "send_history (snd (pop_frame (finished_sender 4 100 [1, 2, 3]) 2))
     [ssr_frame (fst (pop_frame (finished_sender 4 100 [1, 2, 3]) 2))]
     [ssr_range (fst (pop_frame (finished_sender 4 100 [1, 2, 3]) 2))]"
proof -
  have "send_history (finished_sender 4 100 [1, 2, 3]) [] []"
    unfolding finished_sender_def
    by (intro send_history.finish [OF send_history.append [OF send_history.start]]) (rule surjective_pairing)+
  from send_history.pop [OF this surjective_pairing, of 2] show ?thesis
    by (simp add: finished_sender_def send_append_def send_finish_def new_stream_send_state_def
        pop_frame.simps pop_fresh_def pop_new_data_def make_frame_def)
qed

theorem sent_frames_faithful_witness:
  "slice_of (send_bytes (snd (pop_frame (finished_sender 4 100 [1, 2, 3]) 2)))
     (ssr_frame (fst (pop_frame (finished_sender 4 100 [1, 2, 3]) 2)))"
  using sent_frames_faithful [OF short_history] by simp

theorem idle_sender_complete_witness:
  "\<exists>s. send_bytes s = [1, 2, 3] \<and> send_closed s \<and> (\<exists>rg \<in> set (send_acked s). byte_in 2 rg)"
proof -
  let ?s0 = "finished_sender 4 100 [1, 2, 3]"
  let ?rg = "\<lparr>sr_offset = 0, sr_length = 3, sr_fin = True\<rparr>"
  let ?s1 = "?s0\<lparr>send_next_unsent_offset := 3, send_fin_sent := True\<rparr>"
  let ?s2 = "?s1\<lparr>send_acked := [?rg], send_fin_acked := True\<rparr>"
  have s0: "?s0 = (new_stream_send_state 4 100)\<lparr>send_bytes := [1, 2, 3], send_finished := True\<rparr>"
    by (simp add: finished_sender_def send_append_def send_finish_def new_stream_send_state_def)
  have pop: "pop_frame ?s0 5 = (make_frame ?s1 ?rg, ?s1)"
    by (simp add: s0 new_stream_send_state_def pop_frame.simps pop_fresh_def pop_new_data_def make_frame_def numeral_3_eq_3)
  have "send_history ?s0 [] []"
    unfolding finished_sender_def
    by (intro send_history.finish [OF send_history.append [OF send_history.start]]) (rule surjective_pairing)+
  from send_history.pop [OF this pop] have "send_history ?s1 [ssr_frame (make_frame ?s1 ?rg)] [?rg]"
    by (simp add: make_frame_def)
  from send_history.acked [OF this, of ?rg] have "send_history (on_acked ?s1 ?rg) [ssr_frame (make_frame ?s1 ?rg)] []" by simp
  moreover have "on_acked ?s1 ?rg = ?s2"
    by (simp add: s0 new_stream_send_state_def on_acked_def valid_sent_range_def)
  ultimately have h: "send_history ?s2 [ssr_frame (make_frame ?s1 ?rg)] []" by simp
  have p: "pop_frame ?s2 5 = (empty_send_result, ?s2)"
    by (simp add: s0 new_stream_send_state_def pop_frame.simps pop_fresh_def)
  have "\<not> ssr_has_frame empty_send_result" "\<not> send_stop_requested ?s2" "\<not> send_blocked ?s2"
    by (simp_all add: empty_send_result_def s0 new_stream_send_state_def send_blocked_def)
  moreover have "send_bytes ?s2 = [1, 2, 3]" "send_finished ?s2" by (simp_all add: s0 new_stream_send_state_def)
  ultimately show ?thesis
    using idle_sender_complete [OF h p] by (intro exI [of _ ?s2]) simp
qed

section \<open>The set of send states\<close>

lemma pop_frame_no_error: "error_ok (ssr_error (fst (pop_frame s n)))"
proof (induction s n rule: pop_frame.induct)
  case (1 s n)
  show ?case
  proof (cases "send_lost s")
    case Nil
    then show ?thesis
      by (auto simp: pop_frame.simps [of s] pop_fresh_def pop_new_data_def make_frame_def empty_send_result_def Let_def)
  next
    case (Cons rg lost)
    with 1 show ?thesis
      by (auto simp: pop_frame.simps [of s] make_frame_def empty_send_result_def Let_def split: if_splits)
  qed
qed

lemma sset_pop_no_error: "error_ok (ssr_error (fst (sset_pop_frame ss n k)))"
  using pop_frame_no_error by (auto simp: sset_pop_frame_def empty_send_result_def split: option.split prod.split) (metis fst_conv)

text \<open>\<open>pop_frames\<close> never fails and never returns more frames than asked for.\<close>

theorem pop_frames_bounded:
  "error_ok (snd (fst (pop_frames ss ids max_frames k))) \<and> length (fst (fst (pop_frames ss ids max_frames k))) \<le> max_frames"
proof -
  have "error_ok (snd (fst (pop_frames_loop ss ids max_frames k frames)))
      \<and> length (fst (fst (pop_frames_loop ss ids max_frames k frames))) \<le> max_frames"
    if "length frames \<le> max_frames" for frames
    using that
  proof (induction ss ids max_frames k frames rule: pop_frames_loop.induct)
    case (2 ss i ids max_frames k frames)
    obtain r ss1 where r: "sset_pop_frame ss i k = (r, ss1)" by fastforce
    then have "error_ok (ssr_error r)" using sset_pop_no_error [of ss i k] by simp
    with 2 r show ?case by (auto simp: Let_def split: option.split)
  qed simp
  then show ?thesis by (simp add: pop_frames_def)
qed

text \<open>The application may write to a stream it has already opened or whose number is below the peer's
  limit for its direction; otherwise the write is refused, the direction is marked blocked, and no stream
  is created.  Other streams are never touched.\<close>

theorem open_stream_limit:
  assumes "sset_append ss n data = (e, ss')"
  shows "(\<forall>m. m \<noteq> n \<longrightarrow> sset_streams ss' m = sset_streams ss m)
    \<and> (if n \<in> dom (sset_streams ss) \<or> n div 4 < limit_for ss (sid_direction (classify_stream_id n))
       then (\<exists>s'. send_append (send_state_for ss n) data = (e, s') \<and> sset_streams ss' n = Some s')
       else \<not> error_ok e \<and> sset_streams ss' = sset_streams ss
         \<and> get_streams_blocked_frame ss' (sid_direction (classify_stream_id n)) =
           Some \<lparr>sb_direction = sid_direction (classify_stream_id n),
                 sb_maximum_streams = limit_for ss (sid_direction (classify_stream_id n))\<rparr>)"
proof (cases "n \<in> dom (sset_streams ss) \<or> n div 4 < limit_for ss (sid_direction (classify_stream_id n))")
  case True
  then have "send_ensure_state_for ss n = (Some (send_state_for ss n), ss)"
    by (auto simp: send_ensure_state_for_def send_state_for_def drop_bit_eq_div Let_def split: option.split)
  with assms True show ?thesis by (auto simp: sset_append_def send_store_def split: prod.splits)
next
  case False
  then have "send_ensure_state_for ss n = (None, mark_streams_blocked ss (sid_direction (classify_stream_id n)))"
    by (auto simp: send_ensure_state_for_def drop_bit_eq_div Let_def split: option.split)
  with assms False show ?thesis
    by (auto simp: sset_append_def mark_streams_blocked_def get_streams_blocked_frame_def limit_for_def)
qed

theorem open_stream_limit_witness:
  "\<not> error_ok (fst (sset_append (new_stream_send_set 100 \<lparr>sl_bidirectional = 1, sl_unidirectional = 0\<rparr>) 4 [1]))"
  using open_stream_limit [of "new_stream_send_set 100 \<lparr>sl_bidirectional = 1, sl_unidirectional = 0\<rparr>" 4 "[1]",
      OF surjective_pairing]
  by (simp add: new_stream_send_set_def limit_for_def classify_stream_id_def split: if_splits)

text \<open>The blocked mark is never cleared: after a refused write, raising the limit with MAX_STREAMS so that
  the same write succeeds still leaves a STREAMS_BLOCKED frame to be sent, now with the raised limit.\<close>

lemma streams_blocked_sticky:
  "let ss0 = new_stream_send_set 100 \<lparr>sl_bidirectional = 1, sl_unidirectional = 0\<rparr>;
       (e1, ss1) = sset_append ss0 4 [1];
       ss2 = update_max_streams ss1 \<lparr>ms_direction = Bidirectional, ms_maximum_streams = 9\<rparr>;
       (e2, ss3) = sset_append ss2 4 [1]
   in \<not> error_ok e1 \<and> error_ok e2
      \<and> get_streams_blocked_frame ss3 Bidirectional = Some \<lparr>sb_direction = Bidirectional, sb_maximum_streams = 9\<rparr>"
  by (simp add: new_stream_send_set_def sset_append_def send_ensure_state_for_def classify_stream_id_def limit_for_def
      drop_bit_eq_div mark_streams_blocked_def update_max_streams_def send_state_for_def new_stream_send_state_def
      send_append_def send_store_def get_streams_blocked_frame_def)

end
