(* ===== verification/ZeroRtt.thy ===== *)
theory ZeroRtt
  imports Prelude
begin

text \<open>
  Early data, \<open>src/include/flowq/quic/zero_rtt.hpp\<close>: the 0-RTT state of a connection and the sliding window
  that rejects replayed 0-RTT packets.  The TLS adapter is outside the component; \<open>check_availability\<close> takes
  the one flag of its \<open>key_availability()\<close> that it reads.
\<close>

section \<open>Early data state\<close>

datatype zero_rtt_state = Unavailable | Capable | Accepted | Rejected | EarlyDataSent

record zero_rtt_config =
  zc_enabled :: bool
  zc_max_early_data_size :: u64
  zc_session_ticket :: buffer

record zero_rtt_result =
  zr_state :: zero_rtt_state
  zr_error :: flowq_error

definition zr_can_send :: "zero_rtt_result \<Rightarrow> bool" where
  "zr_can_send r \<longleftrightarrow> zr_state r = Capable \<and> error_ok (zr_error r)"

record zero_rtt_manager =
  zm_config :: zero_rtt_config
  zm_state :: zero_rtt_state

definition new_zero_rtt_manager :: "zero_rtt_config \<Rightarrow> zero_rtt_manager" where
  "new_zero_rtt_manager config = \<lparr>zm_config = config, zm_state = Unavailable\<rparr>"

definition check_availability :: "zero_rtt_manager \<Rightarrow> bool \<Rightarrow> zero_rtt_result" where
  "check_availability m initial_keys =
     (if \<not> zc_enabled (zm_config m)
      then \<lparr>zr_state = Unavailable, zr_error = \<lparr>err_code = EC_tls_error, err_message = ''0-RTT disabled''\<rparr>\<rparr>
      else if \<not> initial_keys then \<lparr>zr_state = Unavailable, zr_error = no_error\<rparr>
      else if zc_session_ticket (zm_config m) \<noteq> [] then \<lparr>zr_state = Capable, zr_error = no_error\<rparr>
      else \<lparr>zr_state = Unavailable, zr_error = no_error\<rparr>)"

definition record_early_data_sent :: "zero_rtt_manager \<Rightarrow> zero_rtt_manager" where
  "record_early_data_sent m = m\<lparr>zm_state := EarlyDataSent\<rparr>"

definition record_server_decision :: "zero_rtt_manager \<Rightarrow> bool \<Rightarrow> zero_rtt_manager" where
  "record_server_decision m accepted = m\<lparr>zm_state := (if accepted then Accepted else Rejected)\<rparr>"

definition should_retransmit :: "zero_rtt_manager \<Rightarrow> bool" where
  "should_retransmit m \<longleftrightarrow> zm_state m = Rejected"

section \<open>The replay window\<close>

record replay_window =
  rw_window_size :: u64
  rw_largest_seen :: u64
  rw_bitmap :: "bool list"

definition new_replay_window :: "u64 \<Rightarrow> replay_window" where
  "new_replay_window window_size = \<lparr>rw_window_size = window_size, rw_largest_seen = 0, rw_bitmap = []\<rparr>"

text \<open>The loop \<open>for (offset = 1; offset <= shift; ++offset)\<close>, counted by the steps left.\<close>

fun clear_loop :: "u64 \<Rightarrow> u64 \<Rightarrow> u64 \<Rightarrow> nat \<Rightarrow> bool list \<Rightarrow> bool list" where
  "clear_loop window_size previous_largest offset 0 bitmap = bitmap"
| "clear_loop window_size previous_largest offset (Suc n) bitmap =
     clear_loop window_size previous_largest (offset + 1) n
       (bitmap[(previous_largest + offset) mod window_size := False])"

definition check_and_record :: "replay_window \<Rightarrow> u64 \<Rightarrow> bool \<times> replay_window" where
  "check_and_record w packet_number =
     (if rw_window_size w = 0 then (False, w)
      else if rw_bitmap w = [] then
        (True, w\<lparr>rw_largest_seen := packet_number,
           rw_bitmap := (replicate (rw_window_size w) False)[packet_number mod rw_window_size w := True]\<rparr>)
      else if packet_number > rw_largest_seen w then
        let previous_largest = rw_largest_seen w;
            shift = packet_number - previous_largest;
            bitmap = (if shift < rw_window_size w
                      then clear_loop (rw_window_size w) previous_largest 1 shift (rw_bitmap w)
                      else map (\<lambda>_. False) (rw_bitmap w))
        in (True, w\<lparr>rw_largest_seen := packet_number,
              rw_bitmap := bitmap[packet_number mod rw_window_size w := True]\<rparr>)
      else if rw_largest_seen w - packet_number \<ge> rw_window_size w then (False, w)
      else
        let index = packet_number mod rw_window_size w in
        if rw_bitmap w ! index then (False, w)
        else (True, w\<lparr>rw_bitmap := (rw_bitmap w)[index := True]\<rparr>))"

section \<open>The window refines a set of accepted numbers\<close>

text \<open>The specification: accept a number that is new and less than a window behind the largest.\<close>

definition fresh :: "u64 \<Rightarrow> u64 set \<Rightarrow> u64 \<Rightarrow> bool" where
  "fresh size_w seen n \<longleftrightarrow> 0 < size_w \<and> n \<notin> seen \<and> (seen = {} \<or> Max seen < n + size_w)"

definition window_abs :: "replay_window \<Rightarrow> u64 set \<Rightarrow> bool" where
  "window_abs w seen \<longleftrightarrow> finite seen \<and>
     (if seen = {} then rw_bitmap w = []
      else 0 < rw_window_size w \<and> length (rw_bitmap w) = rw_window_size w \<and> rw_largest_seen w = Max seen
        \<and> (\<forall>q \<le> Max seen. Max seen < q + rw_window_size w \<longrightarrow> (rw_bitmap w ! (q mod rw_window_size w) \<longleftrightarrow> q \<in> seen)))"

lemma length_clear_loop [simp]: "length (clear_loop w l i n bs) = length bs"
  by (induction w l i n bs rule: clear_loop.induct) auto

lemma clear_loop_nth:
  "0 < w \<Longrightarrow> length bs = w \<Longrightarrow> k < w \<Longrightarrow>
     clear_loop w l i n bs ! k \<longleftrightarrow> bs ! k \<and> k \<notin> (\<lambda>j. (l + j) mod w) ` {i..<i + n}"
proof (induction w l i n bs rule: clear_loop.induct)
  case (2 w l i n bs)
  have "{i..<i + Suc n} = insert i {i + 1..<i + 1 + n}" by auto
  with 2 show ?case by (auto simp: nth_list_update)
qed auto

text \<open>Two numbers less than a window apart use the same slot only if they are equal.\<close>

lemma slot_unique:
  assumes "p mod w = q mod w" and "p < q + w" and "q < p + (w :: nat)"
  shows "p = q"
proof (rule ccontr)
  assume "p \<noteq> q"
  have "w dvd nat \<bar>int p - int q\<bar>"
    using assms(1) by (metis int_dvd_int_iff dvd_abs_iff int_nat_eq abs_ge_zero mod_eq_dvd_iff zmod_int)
  moreover have "0 < nat \<bar>int p - int q\<bar>" using \<open>p \<noteq> q\<close> by simp
  ultimately have "w \<le> nat \<bar>int p - int q\<bar>" by (rule dvd_imp_le)
  then show False using assms(2,3) by linarith
qed

lemma window_first:
  assumes "0 < size_w"
  shows "window_abs \<lparr>rw_window_size = size_w, rw_largest_seen = n, rw_bitmap = (replicate size_w False)[n mod size_w := True]\<rparr> {n}"
  using assms slot_unique [of _ size_w n] by (auto simp: window_abs_def nth_list_update)

lemma window_older:
  assumes abs: "window_abs w seen" and ne: "seen \<noteq> {}" and n: "n \<le> Max seen" "Max seen < n + rw_window_size w"
  shows "window_abs (w\<lparr>rw_bitmap := (rw_bitmap w)[n mod rw_window_size w := True]\<rparr>) (insert n seen)"
proof -
  have fin: "finite seen" using abs by (simp add: window_abs_def)
  have max: "Max (insert n seen) = Max seen" using fin ne n(1) by (simp add: max_def)
  have "n mod rw_window_size w = q mod rw_window_size w \<longleftrightarrow> q = n" if "q \<le> Max seen" "Max seen < q + rw_window_size w" for q
    using slot_unique [of n "rw_window_size w" q] that n by auto
  then show ?thesis
    using abs ne by (auto simp: window_abs_def max nth_list_update)
qed

lemma window_slide:
  assumes abs: "window_abs w seen" and ne: "seen \<noteq> {}" and n: "Max seen < n"
  defines "bitmap \<equiv> if n - Max seen < rw_window_size w
      then clear_loop (rw_window_size w) (Max seen) 1 (n - Max seen) (rw_bitmap w) else map (\<lambda>_. False) (rw_bitmap w)"
  shows "window_abs (w\<lparr>rw_largest_seen := n, rw_bitmap := bitmap[n mod rw_window_size w := True]\<rparr>) (insert n seen)"
proof -
  let ?s = "rw_window_size w" and ?m = "Max seen"
  have fin: "finite seen" and s: "0 < ?s" "length (rw_bitmap w) = ?s"
      and old: "\<And>q. q \<le> ?m \<Longrightarrow> ?m < q + ?s \<Longrightarrow> (rw_bitmap w ! (q mod ?s) \<longleftrightarrow> q \<in> seen)"
    using abs ne by (auto simp: window_abs_def)
  have max: "Max (insert n seen) = n" using fin ne n by (simp add: max_absorb1 less_imp_le del: Max_less_iff)
  have len: "length bitmap = ?s" using s by (simp add: bitmap_def)
  have "bitmap[n mod ?s := True] ! (q mod ?s) \<longleftrightarrow> q \<in> insert n seen" if q: "q \<le> n" "n < q + ?s" for q
  proof (cases "q = n")
    case True
    then show ?thesis using len s by simp
  next
    case False
    then have slot: "n mod ?s \<noteq> q mod ?s" using slot_unique [of n ?s q] q by auto
    have "bitmap ! (q mod ?s) \<longleftrightarrow> q \<in> seen"
    proof (cases "n - ?m < ?s")
      case near: True
      have "bitmap ! (q mod ?s) \<longleftrightarrow> rw_bitmap w ! (q mod ?s) \<and> q mod ?s \<notin> (\<lambda>j. (?m + j) mod ?s) ` {1..<1 + (n - ?m)}"
        using near s by (simp add: bitmap_def clear_loop_nth)
      also have "q mod ?s \<in> (\<lambda>j. (?m + j) mod ?s) ` {1..<1 + (n - ?m)} \<longleftrightarrow> ?m < q"
      proof
        assume "q mod ?s \<in> (\<lambda>j. (?m + j) mod ?s) ` {1..<1 + (n - ?m)}"
        then obtain j where j: "1 \<le> j" "j < 1 + (n - ?m)" "q mod ?s = (?m + j) mod ?s" by auto
        then have "q = ?m + j" using q n near by (intro slot_unique [of q ?s]) auto
        then show "?m < q" using j by simp
      next
        assume "?m < q"
        then have "q - ?m \<in> {1..<1 + (n - ?m)}" "q mod ?s = (?m + (q - ?m)) mod ?s" using q by auto
        then show "q mod ?s \<in> (\<lambda>j. (?m + j) mod ?s) ` {1..<1 + (n - ?m)}" by blast
      qed
      finally have bit: "bitmap ! (q mod ?s) \<longleftrightarrow> rw_bitmap w ! (q mod ?s) \<and> \<not> ?m < q" .
      show ?thesis
      proof (cases "?m < q")
        case True
        then have "q \<notin> seen" using fin Max_ge leD by blast
        with True bit show ?thesis by blast
      next
        case False
        then have "rw_bitmap w ! (q mod ?s) \<longleftrightarrow> q \<in> seen" using q n by (intro old) linarith+
        with False bit show ?thesis by blast
      qed
    next
      case False
      then have "?m < q" using q by simp
      then have "q \<notin> seen" using fin Max_ge leD by blast
      then show ?thesis using False s by (simp add: bitmap_def)
    qed
    with slot False show ?thesis by simp
  qed
  then show ?thesis using fin s len by (simp add: window_abs_def max)
qed

lemma check_and_record_refines:
  assumes abs: "window_abs w seen" and r: "check_and_record w n = (accepted, w')"
  shows "(accepted \<longleftrightarrow> fresh (rw_window_size w) seen n)
    \<and> window_abs w' (if accepted then insert n seen else seen) \<and> rw_window_size w' = rw_window_size w"
proof (cases "rw_window_size w = 0 \<or> seen = {}")
  case True
  then show ?thesis
    using abs r window_first [of "rw_window_size w" n]
    by (auto simp: check_and_record_def fresh_def window_abs_def split: if_splits)
next
  case False
  define m where "m = Max seen"
  let ?s = "rw_window_size w"
  have w: "rw_bitmap w \<noteq> []" "rw_largest_seen w = m" "finite seen" "0 < ?s" "seen \<noteq> {}"
    using abs False by (auto simp: window_abs_def m_def)
  have fresh: "fresh ?s seen n \<longleftrightarrow> n \<notin> seen \<and> m < n + ?s" using w unfolding fresh_def m_def by blast
  consider (new) "m < n" | (old) "n \<le> m" "n + ?s \<le> m" | (inside) "n \<le> m" "m < n + ?s" by linarith
  then show ?thesis
  proof cases
    case new
    then have "n \<notin> seen" using w(3) Max_ge leD unfolding m_def by blast
    with new show ?thesis
      using r w window_slide [OF abs w(5) new [unfolded m_def], folded m_def]
      by (auto simp: check_and_record_def fresh Let_def)
  next
    case old
    then have "?s \<le> m - n" "\<not> m < n" "\<not> fresh ?s seen n" using fresh by simp_all
    then show ?thesis using r w abs by (auto simp: check_and_record_def)
  next
    case inside
    then have "rw_bitmap w ! (n mod ?s) \<longleftrightarrow> n \<in> seen" using abs w unfolding window_abs_def m_def by auto
    moreover have "\<not> ?s \<le> m - n" "\<not> m < n" using inside w(4) by linarith+
    ultimately have "check_and_record w n = (if n \<in> seen then (False, w)
        else (True, w\<lparr>rw_bitmap := (rw_bitmap w)[n mod ?s := True]\<rparr>))"
      using w by (simp add: check_and_record_def Let_def)
    then show ?thesis
      using r abs inside window_older [OF abs w(5) inside [unfolded m_def]] fresh by (auto split: if_splits)
  qed
qed

text \<open>Checking a sequence of packet numbers: those accepted, in order.\<close>

fun replay_run :: "replay_window \<Rightarrow> u64 list \<Rightarrow> u64 list \<times> replay_window" where
  "replay_run w [] = ([], w)"
| "replay_run w (n # ns) =
     (let (accepted, w1) = check_and_record w n; (ns', w2) = replay_run w1 ns
      in (if accepted then n # ns' else ns', w2))"

lemma replay_run_refines:
  "window_abs w seen \<Longrightarrow> replay_run w ns = (acc, w') \<Longrightarrow>
     distinct acc \<and> set acc \<inter> seen = {} \<and> set acc \<subseteq> set ns \<and> window_abs w' (seen \<union> set acc)"
proof (induction ns arbitrary: w seen acc)
  case (Cons n ns)
  obtain a w1 where r: "check_and_record w n = (a, w1)" by fastforce
  obtain acc1 where rest: "replay_run w1 ns = (acc1, w')" "acc = (if a then n # acc1 else acc1)"
    using Cons.prems(2) r by (auto split: prod.splits)
  note ref = check_and_record_refines [OF Cons.prems(1) r]
  show ?case
  proof (cases a)
    case True
    then have "window_abs w1 (insert n seen)" "n \<notin> seen" using ref by (auto simp: fresh_def)
    with Cons.IH [OF _ rest(1)] rest(2) True show ?thesis by fastforce
  next
    case False
    with Cons.IH [OF _ rest(1)] rest(2) ref show ?thesis by auto
  qed
qed simp

text \<open>C10: The sliding window refines the set of packet numbers accepted so far: after any sequence of
  packets, a number is accepted if and only if it was not accepted before and lies less than a window
  behind the largest accepted one.\<close>

theorem replay_window_refines_set:
  assumes "replay_run (new_replay_window size_w) ns = (acc, w)"
  shows "fst (check_and_record w n) \<longleftrightarrow> 0 < size_w \<and> n \<notin> set acc \<and> (acc = [] \<or> Max (set acc) < n + size_w)"
proof -
  have "rw_window_size w = size_w"
    using assms
  proof (induction ns arbitrary: acc w rule: rev_induct)
    case Nil
    then show ?case by (auto simp: new_replay_window_def)
  next
    case (snoc n ns)
    have app: "replay_run v (xs @ [n]) = (let (a, v1) = replay_run v xs; (b, v2) = check_and_record v1 n
        in (if b then a @ [n] else a, v2))" for v xs
      by (induction xs arbitrary: v) (auto split: prod.splits)
    obtain a v1 where v1: "replay_run (new_replay_window size_w) ns = (a, v1)" by fastforce
    have size_v: "rw_window_size v1 = size_w" using snoc.IH [OF v1] .
    have "w = snd (check_and_record v1 n)" using snoc.prems app v1 by (auto split: prod.splits)
    then show ?case using size_v by (auto simp: check_and_record_def Let_def)
  qed
  moreover have "window_abs (new_replay_window size_w) {}" by (simp add: window_abs_def new_replay_window_def)
  from replay_run_refines [OF this assms] have "window_abs w (set acc)" by simp
  ultimately show ?thesis
    using check_and_record_refines [of w "set acc" n "fst (check_and_record w n)" "snd (check_and_record w n)"]
    by (simp add: fresh_def)
qed

theorem replay_window_refines_set_witness:
  "fst (check_and_record (snd (replay_run (new_replay_window 4) [7, 5])) 6)"
proof -
  have run: "replay_run (new_replay_window 4) [7, 5] = ([7, 5], snd (replay_run (new_replay_window 4) [7, 5]))"
    by (simp add: new_replay_window_def check_and_record_def)
  show ?thesis unfolding replay_window_refines_set [OF run] by simp
qed

text \<open>No 0-RTT packet number is ever accepted twice, whatever arrives in whatever order.\<close>

theorem no_replay: "distinct (fst (replay_run (new_replay_window size_w) ns))"
proof -
  have "window_abs (new_replay_window size_w) {}" by (simp add: window_abs_def new_replay_window_def)
  then show ?thesis using replay_run_refines [OF _ surjective_pairing] by blast
qed

end
