(* ===== verification/TransportParameters.thy ===== *)
theory TransportParameters
  imports Varint
begin

text \<open>
  Transport parameters, \<open>src/include/flowq/quic/transport_parameters.hpp\<close>: the struct of optional parameters, the
  encoder that refuses values outside RFC 9000 section 18.2, and the decoder.  An encoding is a sequence of entries (identifier, length, value);
  \<open>parameter_entries\<close> is the sequence the encoder emits, and the decoder is the fold of \<open>assign_parameter\<close> over the
  entries of its input.
\<close>

section \<open>The codec of the source\<close>

definition transport_parameter_max_idle_timeout :: u64 where
  "transport_parameter_max_idle_timeout = 0x01"

definition transport_parameter_original_destination_connection_id :: u64 where
  "transport_parameter_original_destination_connection_id = 0x00"

definition transport_parameter_max_udp_payload_size :: u64 where
  "transport_parameter_max_udp_payload_size = 0x03"

definition transport_parameter_initial_max_data :: u64 where
  "transport_parameter_initial_max_data = 0x04"

definition transport_parameter_initial_max_stream_data_bidi_local :: u64 where
  "transport_parameter_initial_max_stream_data_bidi_local = 0x05"

definition transport_parameter_initial_max_stream_data_bidi_remote :: u64 where
  "transport_parameter_initial_max_stream_data_bidi_remote = 0x06"

definition transport_parameter_initial_max_stream_data_uni :: u64 where
  "transport_parameter_initial_max_stream_data_uni = 0x07"

definition transport_parameter_initial_max_streams_bidi :: u64 where
  "transport_parameter_initial_max_streams_bidi = 0x08"

definition transport_parameter_initial_max_streams_uni :: u64 where
  "transport_parameter_initial_max_streams_uni = 0x09"

definition transport_parameter_ack_delay_exponent :: u64 where
  "transport_parameter_ack_delay_exponent = 0x0a"

definition transport_parameter_max_ack_delay :: u64 where
  "transport_parameter_max_ack_delay = 0x0b"

definition transport_parameter_disable_active_migration :: u64 where
  "transport_parameter_disable_active_migration = 0x0c"

definition transport_parameter_active_connection_id_limit :: u64 where
  "transport_parameter_active_connection_id_limit = 0x0e"

definition transport_parameter_initial_source_connection_id :: u64 where
  "transport_parameter_initial_source_connection_id = 0x0f"

definition transport_parameter_retry_source_connection_id :: u64 where
  "transport_parameter_retry_source_connection_id = 0x10"


lemmas parameter_id_defs =
  transport_parameter_max_idle_timeout_def transport_parameter_original_destination_connection_id_def
  transport_parameter_max_udp_payload_size_def transport_parameter_initial_max_data_def
  transport_parameter_initial_max_stream_data_bidi_local_def transport_parameter_initial_max_stream_data_bidi_remote_def
  transport_parameter_initial_max_stream_data_uni_def transport_parameter_initial_max_streams_bidi_def
  transport_parameter_initial_max_streams_uni_def transport_parameter_ack_delay_exponent_def
  transport_parameter_max_ack_delay_def transport_parameter_disable_active_migration_def
  transport_parameter_active_connection_id_limit_def transport_parameter_initial_source_connection_id_def
  transport_parameter_retry_source_connection_id_def

record unknown_transport_parameter =
  utp_id :: u64
  utp_value :: buffer

record transport_parameters =
  tp_original_destination_connection_id :: "buffer option"
  tp_max_idle_timeout :: "u64 option"
  tp_max_udp_payload_size :: "u64 option"
  tp_initial_max_data :: "u64 option"
  tp_initial_max_stream_data_bidi_local :: "u64 option"
  tp_initial_max_stream_data_bidi_remote :: "u64 option"
  tp_initial_max_stream_data_uni :: "u64 option"
  tp_initial_max_streams_bidi :: "u64 option"
  tp_initial_max_streams_uni :: "u64 option"
  tp_ack_delay_exponent :: "u64 option"
  tp_max_ack_delay :: "u64 option"
  tp_disable_active_migration :: bool
  tp_active_connection_id_limit :: "u64 option"
  tp_initial_source_connection_id :: "buffer option"
  tp_retry_source_connection_id :: "buffer option"
  tp_unknown :: "unknown_transport_parameter list"

definition empty_transport_parameters :: transport_parameters where
  "empty_transport_parameters = \<lparr>tp_original_destination_connection_id = None, tp_max_idle_timeout = None,
     tp_max_udp_payload_size = None, tp_initial_max_data = None, tp_initial_max_stream_data_bidi_local = None,
     tp_initial_max_stream_data_bidi_remote = None, tp_initial_max_stream_data_uni = None,
     tp_initial_max_streams_bidi = None, tp_initial_max_streams_uni = None, tp_ack_delay_exponent = None,
     tp_max_ack_delay = None, tp_disable_active_migration = False, tp_active_connection_id_limit = None,
     tp_initial_source_connection_id = None, tp_retry_source_connection_id = None, tp_unknown = []\<rparr>"

text \<open>\<open>auto error = f(...); if (!error.ok()) return error;\<close> followed by the rest.\<close>

definition and_then :: "'a result \<Rightarrow> ('a \<Rightarrow> 'b result) \<Rightarrow> 'b result" where
  "and_then r f = (case r of Inl e \<Rightarrow> Inl e | Inr x \<Rightarrow> f x)"

definition append_transport_varint :: "buffer \<Rightarrow> u64 \<Rightarrow> buffer result" where
  "append_transport_varint output value =
     and_then (encoded_size value) (\<lambda>size.
     and_then (encode_varint value (replicate size 0)) (\<lambda>(n, encoded). Inr (output @ encoded)))"

definition encode_transport_varint_value :: "u64 \<Rightarrow> buffer result" where
  "encode_transport_varint_value value = append_transport_varint [] value"

definition append_transport_parameter :: "buffer \<Rightarrow> u64 \<Rightarrow> buffer \<Rightarrow> buffer result" where
  "append_transport_parameter output i value =
     and_then (append_transport_varint output i) (\<lambda>output.
     and_then (append_transport_varint output (length value)) (\<lambda>output. Inr (output @ value)))"

definition append_numeric_transport_parameter :: "buffer \<Rightarrow> u64 \<Rightarrow> u64 option \<Rightarrow> buffer result" where
  "append_numeric_transport_parameter output i value =
     (case value of
        Some v \<Rightarrow> and_then (encode_transport_varint_value v) (append_transport_parameter output i)
      | None \<Rightarrow> Inr output)"

definition known_transport_parameter_id :: "u64 \<Rightarrow> bool" where
  "known_transport_parameter_id i \<longleftrightarrow>
     i \<in> {transport_parameter_original_destination_connection_id, transport_parameter_max_idle_timeout,
          transport_parameter_max_udp_payload_size, transport_parameter_initial_max_data,
          transport_parameter_initial_max_stream_data_bidi_local, transport_parameter_initial_max_stream_data_bidi_remote,
          transport_parameter_initial_max_stream_data_uni, transport_parameter_initial_max_streams_bidi,
          transport_parameter_initial_max_streams_uni, transport_parameter_ack_delay_exponent,
          transport_parameter_max_ack_delay, transport_parameter_disable_active_migration,
          transport_parameter_active_connection_id_limit, transport_parameter_initial_source_connection_id,
          transport_parameter_retry_source_connection_id}"

definition already_seen :: "u64 list \<Rightarrow> u64 \<Rightarrow> bool" where
  "already_seen seen i \<longleftrightarrow> i \<in> set seen"

definition remember_transport_parameter :: "u64 list \<Rightarrow> u64 \<Rightarrow> u64 list result" where
  "remember_transport_parameter emitted i =
     (if i > max_varint then Inl (codec_error ''QUIC transport parameter identifier exceeds varint maximum'')
      else if already_seen emitted i then Inl (codec_error ''duplicate QUIC transport parameter'')
      else Inr (emitted @ [i]))"

definition validate_transport_parameter_for_encode :: "u64 \<Rightarrow> u64 \<Rightarrow> unit result" where
  "validate_transport_parameter_for_encode i value =
     (if value > max_varint then Inl (codec_error ''QUIC transport parameter value exceeds varint maximum'')
      else if i = transport_parameter_max_udp_payload_size \<and> value < 1200
      then Inl (codec_error ''max_udp_payload_size transport parameter must be at least 1200'')
      else if i = transport_parameter_active_connection_id_limit \<and> value < 2
      then Inl (codec_error ''active_connection_id_limit transport parameter must be at least 2'')
      else if i = transport_parameter_ack_delay_exponent \<and> value > 20
      then Inl (codec_error ''ack_delay_exponent transport parameter must be at most 20'')
      else if i = transport_parameter_max_ack_delay \<and> value \<ge> 16384
      then Inl (codec_error ''max_ack_delay transport parameter must be less than 16384'')
      else Inr ())"

definition validate_connection_id_transport_parameter :: "buffer \<Rightarrow> string \<Rightarrow> unit result" where
  "validate_connection_id_transport_parameter value message =
     (if length value > 20 then Inl (codec_error message) else Inr ())"

text \<open>The two vectors that the appending functions take by reference are the pair \<open>(output, emitted)\<close>.\<close>

type_synonym encode_state = "buffer \<times> u64 list"

fun append_connection_id_transport_parameter :: "u64 \<Rightarrow> buffer option \<Rightarrow> string \<Rightarrow> encode_state \<Rightarrow> encode_state result" where
  "append_connection_id_transport_parameter i None message st = Inr st"
| "append_connection_id_transport_parameter i (Some value) message (output, emitted) =
     and_then (remember_transport_parameter emitted i) (\<lambda>emitted.
     and_then (validate_connection_id_transport_parameter value message) (\<lambda>_.
     and_then (append_transport_parameter output i value) (\<lambda>output. Inr (output, emitted))))"

fun append_checked_numeric_transport_parameter :: "u64 \<Rightarrow> u64 option \<Rightarrow> encode_state \<Rightarrow> encode_state result" where
  "append_checked_numeric_transport_parameter i None st = Inr st"
| "append_checked_numeric_transport_parameter i (Some value) (output, emitted) =
     and_then (remember_transport_parameter emitted i) (\<lambda>emitted.
     and_then (validate_transport_parameter_for_encode i value) (\<lambda>_.
     and_then (append_numeric_transport_parameter output i (Some value)) (\<lambda>output. Inr (output, emitted))))"

fun append_disable_active_migration :: "bool \<Rightarrow> encode_state \<Rightarrow> encode_state result" where
  "append_disable_active_migration False st = Inr st"
| "append_disable_active_migration True (output, emitted) =
     and_then (remember_transport_parameter emitted transport_parameter_disable_active_migration) (\<lambda>emitted.
     and_then (append_transport_parameter output transport_parameter_disable_active_migration []) (\<lambda>output.
     Inr (output, emitted)))"

fun append_unknown_parameters :: "unknown_transport_parameter list \<Rightarrow> encode_state \<Rightarrow> encode_state result" where
  "append_unknown_parameters [] st = Inr st"
| "append_unknown_parameters (u # us) (output, emitted) =
     (if known_transport_parameter_id (utp_id u)
      then Inl (codec_error ''unknown transport parameter entry uses a known identifier'')
      else and_then (remember_transport_parameter emitted (utp_id u)) (\<lambda>emitted.
           and_then (append_transport_parameter output (utp_id u) (utp_value u)) (\<lambda>output.
           append_unknown_parameters us (output, emitted))))"

definition encode_transport_parameters :: "transport_parameters \<Rightarrow> buffer result" where
  "encode_transport_parameters p =
     and_then (append_connection_id_transport_parameter transport_parameter_original_destination_connection_id
       (tp_original_destination_connection_id p)
       ''original_destination_connection_id transport parameter must be at most 20 bytes'' ([], [])) (\<lambda>st.
     and_then (append_checked_numeric_transport_parameter transport_parameter_max_idle_timeout (tp_max_idle_timeout p) st) (\<lambda>st.
     and_then (append_checked_numeric_transport_parameter transport_parameter_max_udp_payload_size (tp_max_udp_payload_size p) st) (\<lambda>st.
     and_then (append_checked_numeric_transport_parameter transport_parameter_initial_max_data (tp_initial_max_data p) st) (\<lambda>st.
     and_then (append_checked_numeric_transport_parameter transport_parameter_initial_max_stream_data_bidi_local
       (tp_initial_max_stream_data_bidi_local p) st) (\<lambda>st.
     and_then (append_checked_numeric_transport_parameter transport_parameter_initial_max_stream_data_bidi_remote
       (tp_initial_max_stream_data_bidi_remote p) st) (\<lambda>st.
     and_then (append_checked_numeric_transport_parameter transport_parameter_initial_max_stream_data_uni
       (tp_initial_max_stream_data_uni p) st) (\<lambda>st.
     and_then (append_checked_numeric_transport_parameter transport_parameter_initial_max_streams_bidi
       (tp_initial_max_streams_bidi p) st) (\<lambda>st.
     and_then (append_checked_numeric_transport_parameter transport_parameter_initial_max_streams_uni
       (tp_initial_max_streams_uni p) st) (\<lambda>st.
     and_then (append_checked_numeric_transport_parameter transport_parameter_ack_delay_exponent (tp_ack_delay_exponent p) st) (\<lambda>st.
     and_then (append_checked_numeric_transport_parameter transport_parameter_max_ack_delay (tp_max_ack_delay p) st) (\<lambda>st.
     and_then (append_disable_active_migration (tp_disable_active_migration p) st) (\<lambda>st.
     and_then (append_checked_numeric_transport_parameter transport_parameter_active_connection_id_limit
       (tp_active_connection_id_limit p) st) (\<lambda>st.
     and_then (append_connection_id_transport_parameter transport_parameter_initial_source_connection_id
       (tp_initial_source_connection_id p)
       ''initial_source_connection_id transport parameter must be at most 20 bytes'' st) (\<lambda>st.
     and_then (append_connection_id_transport_parameter transport_parameter_retry_source_connection_id
       (tp_retry_source_connection_id p)
       ''retry_source_connection_id transport parameter must be at most 20 bytes'' st) (\<lambda>st.
     and_then (append_unknown_parameters (tp_unknown p) st) (\<lambda>(output, emitted). Inr output))))))))))))))))"

definition decode_parameter_varint :: "buffer \<Rightarrow> u64 option" where
  "decode_parameter_varint value =
     (case decode_varint value of
        Inl _ \<Rightarrow> None
      | Inr (v, bytes_read) \<Rightarrow> if bytes_read \<noteq> length value then None else Some v)"

text \<open>\<open>assign_numeric_parameter\<close> hands the decoded value to the assignment of the target.\<close>

definition assign_numeric_parameter ::
    "(u64 option \<Rightarrow> transport_parameters) \<Rightarrow> buffer \<Rightarrow> string \<Rightarrow> transport_parameters result" where
  "assign_numeric_parameter target value message =
     (case decode_parameter_varint value of
        None \<Rightarrow> Inl (codec_error message)
      | Some v \<Rightarrow> Inr (target (Some v)))"

definition assign_parameter :: "u64 \<Rightarrow> buffer \<Rightarrow> transport_parameters \<Rightarrow> transport_parameters result" where
  "assign_parameter i value r =
     (if i = transport_parameter_original_destination_connection_id then
        and_then (validate_connection_id_transport_parameter value
            ''original_destination_connection_id transport parameter must be at most 20 bytes'')
          (\<lambda>_. Inr (r\<lparr>tp_original_destination_connection_id := Some value\<rparr>))
      else if i = transport_parameter_max_idle_timeout then
        assign_numeric_parameter (\<lambda>v. r\<lparr>tp_max_idle_timeout := v\<rparr>) value
          ''malformed max_idle_timeout transport parameter''
      else if i = transport_parameter_max_udp_payload_size then
        and_then (assign_numeric_parameter (\<lambda>v. r\<lparr>tp_max_udp_payload_size := v\<rparr>) value
            ''malformed max_udp_payload_size transport parameter'')
          (\<lambda>r. if the (tp_max_udp_payload_size r) < 1200
               then Inl (codec_error ''max_udp_payload_size transport parameter must be at least 1200'') else Inr r)
      else if i = transport_parameter_initial_max_data then
        assign_numeric_parameter (\<lambda>v. r\<lparr>tp_initial_max_data := v\<rparr>) value
          ''malformed initial_max_data transport parameter''
      else if i = transport_parameter_initial_max_stream_data_bidi_local then
        assign_numeric_parameter (\<lambda>v. r\<lparr>tp_initial_max_stream_data_bidi_local := v\<rparr>) value
          ''malformed initial_max_stream_data_bidi_local transport parameter''
      else if i = transport_parameter_initial_max_stream_data_bidi_remote then
        assign_numeric_parameter (\<lambda>v. r\<lparr>tp_initial_max_stream_data_bidi_remote := v\<rparr>) value
          ''malformed initial_max_stream_data_bidi_remote transport parameter''
      else if i = transport_parameter_initial_max_stream_data_uni then
        assign_numeric_parameter (\<lambda>v. r\<lparr>tp_initial_max_stream_data_uni := v\<rparr>) value
          ''malformed initial_max_stream_data_uni transport parameter''
      else if i = transport_parameter_initial_max_streams_bidi then
        assign_numeric_parameter (\<lambda>v. r\<lparr>tp_initial_max_streams_bidi := v\<rparr>) value
          ''malformed initial_max_streams_bidi transport parameter''
      else if i = transport_parameter_initial_max_streams_uni then
        assign_numeric_parameter (\<lambda>v. r\<lparr>tp_initial_max_streams_uni := v\<rparr>) value
          ''malformed initial_max_streams_uni transport parameter''
      else if i = transport_parameter_ack_delay_exponent then
        and_then (assign_numeric_parameter (\<lambda>v. r\<lparr>tp_ack_delay_exponent := v\<rparr>) value
            ''malformed ack_delay_exponent transport parameter'')
          (\<lambda>r. if the (tp_ack_delay_exponent r) > 20
               then Inl (codec_error ''ack_delay_exponent transport parameter must be at most 20'') else Inr r)
      else if i = transport_parameter_max_ack_delay then
        and_then (assign_numeric_parameter (\<lambda>v. r\<lparr>tp_max_ack_delay := v\<rparr>) value
            ''malformed max_ack_delay transport parameter'')
          (\<lambda>r. if the (tp_max_ack_delay r) \<ge> 16384
               then Inl (codec_error ''max_ack_delay transport parameter must be less than 16384'') else Inr r)
      else if i = transport_parameter_disable_active_migration then
        (if value \<noteq> [] then Inl (codec_error ''disable_active_migration transport parameter must be empty'')
         else Inr (r\<lparr>tp_disable_active_migration := True\<rparr>))
      else if i = transport_parameter_active_connection_id_limit then
        and_then (assign_numeric_parameter (\<lambda>v. r\<lparr>tp_active_connection_id_limit := v\<rparr>) value
            ''malformed active_connection_id_limit transport parameter'')
          (\<lambda>r. if the (tp_active_connection_id_limit r) < 2
               then Inl (codec_error ''active_connection_id_limit transport parameter must be at least 2'') else Inr r)
      else if i = transport_parameter_initial_source_connection_id then
        and_then (validate_connection_id_transport_parameter value
            ''initial_source_connection_id transport parameter must be at most 20 bytes'')
          (\<lambda>_. Inr (r\<lparr>tp_initial_source_connection_id := Some value\<rparr>))
      else if i = transport_parameter_retry_source_connection_id then
        and_then (validate_connection_id_transport_parameter value
            ''retry_source_connection_id transport parameter must be at most 20 bytes'')
          (\<lambda>_. Inr (r\<lparr>tp_retry_source_connection_id := Some value\<rparr>))
      else Inr (r\<lparr>tp_unknown := tp_unknown r @ [\<lparr>utp_id = i, utp_value = value\<rparr>]\<rparr>))"

text \<open>One round of the loop reads an entry: identifier, length and value, with the offset after it.\<close>

definition read_entry :: "buffer \<Rightarrow> nat \<Rightarrow> (u64 \<times> buffer \<times> nat) result" where
  "read_entry input offset =
     and_then (decode_varint (drop offset input)) (\<lambda>(i, n).
     and_then (decode_varint (drop (offset + n) input)) (\<lambda>(len, m).
       if len > length input - (offset + n + m)
       then Inl (codec_error ''truncated QUIC transport parameter value'')
       else Inr (i, take len (drop (offset + n + m) input), offset + n + m + len)))"

lemma and_then_Inr_iff: "and_then r f = Inr y \<longleftrightarrow> (\<exists>x. r = Inr x \<and> f x = Inr y)"
  by (auto simp: and_then_def split: sum.splits)

lemma and_then_Inr [simp]: "and_then (Inr x) f = f x"
  by (simp add: and_then_def)

lemma and_then_Inl [simp]: "and_then (Inl e) f = Inl e"
  by (simp add: and_then_def)

lemma read_entry_progress:
  assumes "read_entry input offset = Inr (i, value, offset')"
  shows "offset < offset' \<and> offset' \<le> length input"
proof -
  obtain n len m where d: "decode_varint (drop offset input) = Inr (i, n)"
    "decode_varint (drop (offset + n) input) = Inr (len, m)"
    "len \<le> length input - (offset + n + m)" "offset' = offset + n + m + len"
    using assms by (auto simp: read_entry_def and_then_Inr_iff split: if_splits)
  from decode_varint_bounds [OF d(1)] decode_varint_bounds [OF d(2)] d(3,4) show ?thesis by auto
qed

function decode_parameters_loop ::
    "buffer \<Rightarrow> nat \<Rightarrow> u64 list \<Rightarrow> transport_parameters \<Rightarrow> transport_parameters result" where
  "decode_parameters_loop input offset seen result =
     (if offset < length input then
        (case read_entry input offset of
           Inl e \<Rightarrow> Inl e
         | Inr (i, value, offset') \<Rightarrow>
             if already_seen seen i then Inl (codec_error ''duplicate QUIC transport parameter'')
             else (case assign_parameter i value result of
                 Inl e \<Rightarrow> Inl e
               | Inr result' \<Rightarrow> decode_parameters_loop input offset' (seen @ [i]) result'))
      else Inr result)"
  by pat_completeness auto
termination
  by (relation "measure (\<lambda>(input, offset, _). length input - offset)") (auto dest!: read_entry_progress)

declare decode_parameters_loop.simps [simp del]

definition decode_transport_parameters :: "buffer \<Rightarrow> transport_parameters result" where
  "decode_transport_parameters input = decode_parameters_loop input 0 [] empty_transport_parameters"

section \<open>Encoding as a sequence of entries\<close>

definition entry_bytes :: "u64 \<times> buffer \<Rightarrow> buffer" where
  "entry_bytes e = varint_bytes (fst e) @ varint_bytes (length (snd e)) @ snd e"

definition numeric_entry :: "u64 \<Rightarrow> u64 option \<Rightarrow> (u64 \<times> buffer) list" where
  "numeric_entry i v = (case v of None \<Rightarrow> [] | Some x \<Rightarrow> [(i, varint_bytes x)])"

definition buffer_entry :: "u64 \<Rightarrow> buffer option \<Rightarrow> (u64 \<times> buffer) list" where
  "buffer_entry i v = (case v of None \<Rightarrow> [] | Some x \<Rightarrow> [(i, x)])"

definition flag_entry :: "u64 \<Rightarrow> bool \<Rightarrow> (u64 \<times> buffer) list" where
  "flag_entry i b = (if b then [(i, [])] else [])"

definition unknown_entries :: "unknown_transport_parameter list \<Rightarrow> (u64 \<times> buffer) list" where
  "unknown_entries us = map (\<lambda>u. (utp_id u, utp_value u)) us"

definition known_entries :: "transport_parameters \<Rightarrow> (u64 \<times> buffer) list" where
  "known_entries p =
     buffer_entry 0x00 (tp_original_destination_connection_id p) @ numeric_entry 0x01 (tp_max_idle_timeout p) @
     numeric_entry 0x03 (tp_max_udp_payload_size p) @ numeric_entry 0x04 (tp_initial_max_data p) @
     numeric_entry 0x05 (tp_initial_max_stream_data_bidi_local p) @
     numeric_entry 0x06 (tp_initial_max_stream_data_bidi_remote p) @
     numeric_entry 0x07 (tp_initial_max_stream_data_uni p) @ numeric_entry 0x08 (tp_initial_max_streams_bidi p) @
     numeric_entry 0x09 (tp_initial_max_streams_uni p) @ numeric_entry 0x0a (tp_ack_delay_exponent p) @
     numeric_entry 0x0b (tp_max_ack_delay p) @ flag_entry 0x0c (tp_disable_active_migration p) @
     numeric_entry 0x0e (tp_active_connection_id_limit p) @ buffer_entry 0x0f (tp_initial_source_connection_id p) @
     buffer_entry 0x10 (tp_retry_source_connection_id p)"

definition parameter_entries :: "transport_parameters \<Rightarrow> (u64 \<times> buffer) list" where
  "parameter_entries p = known_entries p @ unknown_entries (tp_unknown p)"

text \<open>The values that RFC 9000 section 18.2 allows.\<close>

definition opt_all :: "('a \<Rightarrow> bool) \<Rightarrow> 'a option \<Rightarrow> bool" where
  "opt_all P v = (case v of None \<Rightarrow> True | Some x \<Rightarrow> P x)"

definition known_values_ok :: "transport_parameters \<Rightarrow> bool" where
  "known_values_ok p \<longleftrightarrow>
     opt_all (\<lambda>c. length c \<le> 20) (tp_original_destination_connection_id p) \<and>
     opt_all (\<lambda>v. v \<le> max_varint) (tp_max_idle_timeout p) \<and>
     opt_all (\<lambda>v. 1200 \<le> v \<and> v \<le> max_varint) (tp_max_udp_payload_size p) \<and>
     opt_all (\<lambda>v. v \<le> max_varint) (tp_initial_max_data p) \<and>
     opt_all (\<lambda>v. v \<le> max_varint) (tp_initial_max_stream_data_bidi_local p) \<and>
     opt_all (\<lambda>v. v \<le> max_varint) (tp_initial_max_stream_data_bidi_remote p) \<and>
     opt_all (\<lambda>v. v \<le> max_varint) (tp_initial_max_stream_data_uni p) \<and>
     opt_all (\<lambda>v. v \<le> max_varint) (tp_initial_max_streams_bidi p) \<and>
     opt_all (\<lambda>v. v \<le> max_varint) (tp_initial_max_streams_uni p) \<and>
     opt_all (\<lambda>v. v \<le> 20) (tp_ack_delay_exponent p) \<and>
     opt_all (\<lambda>v. v < 16384) (tp_max_ack_delay p) \<and>
     opt_all (\<lambda>v. 2 \<le> v \<and> v \<le> max_varint) (tp_active_connection_id_limit p) \<and>
     opt_all (\<lambda>c. length c \<le> 20) (tp_initial_source_connection_id p) \<and>
     opt_all (\<lambda>c. length c \<le> 20) (tp_retry_source_connection_id p)"

definition unknown_ok :: "unknown_transport_parameter list \<Rightarrow> bool" where
  "unknown_ok us \<longleftrightarrow> distinct (map utp_id us) \<and>
     list_all (\<lambda>u. \<not> known_transport_parameter_id (utp_id u) \<and> utp_id u \<le> max_varint \<and> length (utp_value u) \<le> max_varint) us"

definition parameters_ok :: "transport_parameters \<Rightarrow> bool" where
  "parameters_ok p \<longleftrightarrow> known_values_ok p \<and> unknown_ok (tp_unknown p)"

lemma opt_all_simps [simp]: "opt_all P None" "opt_all P (Some x) = P x"
  by (simp_all add: opt_all_def)

lemma append_transport_varint_eq:
  "append_transport_varint output v =
     (if v \<le> max_varint then Inr (output @ varint_bytes v) else Inl (codec_error ''QUIC varint value exceeds 2^62 - 1''))"
  by (auto simp: append_transport_varint_def encoded_size_eq encode_varint_ok) (simp add: encoded_size_def)

text \<open>What the state is after entries \<open>es\<close> have been emitted.\<close>

definition emit :: "(u64 \<times> buffer) list \<Rightarrow> encode_state \<Rightarrow> encode_state" where
  "emit es st = (fst st @ concat (map entry_bytes es), snd st @ map fst es)"

lemma emit_append [simp]: "emit es (emit ds st) = emit (ds @ es) st"
  by (simp add: emit_def)

lemma emit_Nil [simp]: "emit [] st = st"
  by (simp add: emit_def)

lemma append_transport_parameter_Inr_iff:
  "append_transport_parameter output i value = Inr r \<longleftrightarrow>
     i \<le> max_varint \<and> length value \<le> max_varint \<and> r = output @ entry_bytes (i, value)"
  by (auto simp: append_transport_parameter_def append_transport_varint_eq entry_bytes_def)

lemma remember_Inr_iff:
  "remember_transport_parameter emitted i = Inr r \<longleftrightarrow> i \<le> max_varint \<and> i \<notin> set emitted \<and> r = emitted @ [i]"
  by (auto simp: remember_transport_parameter_def already_seen_def)

lemma varint_len_le [simp]: "varint_len v \<le> max_varint"
  by (simp add: varint_len_def max_varint_def)

lemma append_connection_id_Inr_iff:
  "append_connection_id_transport_parameter i v message st = Inr st' \<longleftrightarrow>
     opt_all (\<lambda>c. length c \<le> 20) v \<and> (v \<noteq> None \<longrightarrow> i \<le> max_varint \<and> i \<notin> set (snd st)) \<and> st' = emit (buffer_entry i v) st"
  by (cases v; cases st)
    (auto simp: and_then_Inr_iff remember_Inr_iff append_transport_parameter_Inr_iff buffer_entry_def emit_def
      validate_connection_id_transport_parameter_def max_varint_def)

definition numeric_ok :: "u64 \<Rightarrow> u64 \<Rightarrow> bool" where
  "numeric_ok i v \<longleftrightarrow> v \<le> max_varint \<and> (i = 0x03 \<longrightarrow> 1200 \<le> v) \<and> (i = 0x0e \<longrightarrow> 2 \<le> v) \<and>
     (i = 0x0a \<longrightarrow> v \<le> 20) \<and> (i = 0x0b \<longrightarrow> v < 16384)"

lemma validate_encode_Inr_iff: "validate_transport_parameter_for_encode i v = Inr u \<longleftrightarrow> numeric_ok i v"
  by (auto simp: validate_transport_parameter_for_encode_def numeric_ok_def parameter_id_defs)

lemma append_checked_numeric_Inr_iff:
  "append_checked_numeric_transport_parameter i v st = Inr st' \<longleftrightarrow>
     opt_all (numeric_ok i) v \<and> (v \<noteq> None \<longrightarrow> i \<le> max_varint \<and> i \<notin> set (snd st)) \<and> st' = emit (numeric_entry i v) st"
  by (cases v; cases st)
    (auto simp: and_then_Inr_iff remember_Inr_iff append_transport_parameter_Inr_iff numeric_entry_def emit_def
      append_numeric_transport_parameter_def encode_transport_varint_value_def append_transport_varint_eq
      validate_encode_Inr_iff numeric_ok_def split: if_splits)

lemma append_disable_Inr_iff:
  "append_disable_active_migration b st = Inr st' \<longleftrightarrow> (b \<longrightarrow> 0x0c \<notin> set (snd st)) \<and> st' = emit (flag_entry 0x0c b) st"
  by (cases b; cases st)
    (auto simp: and_then_Inr_iff remember_Inr_iff append_transport_parameter_Inr_iff flag_entry_def emit_def
      transport_parameter_disable_active_migration_def max_varint_def)

lemma append_unknown_Inr_iff:
  "append_unknown_parameters us st = Inr st' \<longleftrightarrow>
     unknown_ok us \<and> set (map utp_id us) \<inter> set (snd st) = {} \<and> st' = emit (unknown_entries us) st"
proof (induction us arbitrary: st)
  case Nil
  then show ?case by (auto simp: unknown_ok_def unknown_entries_def)
next
  case (Cons u us)
  obtain out emitted where st: "st = (out, emitted)" by (cases st)
  show ?case
    by (auto simp: st Cons.IH and_then_Inr_iff remember_Inr_iff append_transport_parameter_Inr_iff unknown_ok_def
        unknown_entries_def emit_def)
qed

lemma entry_ids [simp]:
  "i \<in> fst ` set (numeric_entry k v) \<longleftrightarrow> i = k \<and> v \<noteq> None"
  "i \<in> fst ` set (buffer_entry k w) \<longleftrightarrow> i = k \<and> w \<noteq> None"
  "i \<in> fst ` set (flag_entry k b) \<longleftrightarrow> i = k \<and> b"
  by (auto simp: numeric_entry_def buffer_entry_def flag_entry_def split: option.splits)

lemma numeric_ok_unfold: "opt_all (numeric_ok i) v \<longleftrightarrow>
    (if i = 0x03 then opt_all (\<lambda>v. 1200 \<le> v \<and> v \<le> max_varint) v
     else if i = 0x0e then opt_all (\<lambda>v. 2 \<le> v \<and> v \<le> max_varint) v
     else if i = 0x0a then opt_all (\<lambda>v. v \<le> 20) v
     else if i = 0x0b then opt_all (\<lambda>v. v < 16384) v
     else opt_all (\<lambda>v. v \<le> max_varint) v)"
  by (cases v) (auto simp: numeric_ok_def max_varint_def)

lemma snd_emit_start [simp]: "set (snd (emit es ([], []))) = fst ` set es"
  by (simp add: emit_def)

lemma unknown_ok_fresh: "unknown_ok us \<Longrightarrow> known_transport_parameter_id i \<Longrightarrow> i \<notin> utp_id ` set us"
  by (auto simp: unknown_ok_def list_all_iff)

lemma known_ids: "known_transport_parameter_id i \<longleftrightarrow>
    i \<in> {0x00, 0x01, 0x03, 0x04, 0x05, 0x06, 0x07, 0x08, 0x09, 0x0a, 0x0b, 0x0c, 0x0e, 0x0f, 0x10}"
  by (simp add: known_transport_parameter_id_def parameter_id_defs)

lemma known_entries_known: "i \<in> fst ` set (known_entries p) \<Longrightarrow> known_transport_parameter_id i"
  by (auto simp: known_entries_def known_ids image_Un)

lemma encode_transport_parameters_Inr_iff:
  "encode_transport_parameters p = Inr bytes \<longleftrightarrow>
     parameters_ok p \<and> bytes = concat (map entry_bytes (parameter_entries p))"
proof -
  have fresh: "utp_id ` set (tp_unknown p) \<inter> fst ` set (known_entries p) = {}" if "unknown_ok (tp_unknown p)"
    using unknown_ok_fresh [OF that] known_entries_known [of _ p] by blast
  have "encode_transport_parameters p = Inr bytes \<longleftrightarrow>
      known_values_ok p \<and> unknown_ok (tp_unknown p) \<and> utp_id ` set (tp_unknown p) \<inter> fst ` set (known_entries p) = {} \<and>
      emit (parameter_entries p) ([], []) = (bytes, map fst (parameter_entries p))"
    by (simp add: encode_transport_parameters_def and_then_Inr_iff append_connection_id_Inr_iff
          append_checked_numeric_Inr_iff append_disable_Inr_iff append_unknown_Inr_iff image_Un parameter_id_defs,
        simp add: numeric_ok_unfold known_values_ok_def known_entries_def parameter_entries_def image_Un emit_def conj_ac,
        simp add: max_varint_def)
  with fresh show ?thesis by (auto simp: parameters_ok_def emit_def)
qed

section \<open>Decoding as a fold over entries\<close>

fun assign_all :: "(u64 \<times> buffer) list \<Rightarrow> transport_parameters \<Rightarrow> transport_parameters result" where
  "assign_all [] r = Inr r"
| "assign_all ((i, value) # es) r = and_then (assign_parameter i value r) (assign_all es)"

lemma assign_all_append: "assign_all (ds @ es) r = and_then (assign_all ds r) (assign_all es)"
  by (induction ds r rule: assign_all.induct) (auto simp: and_then_def split: sum.splits)

lemma read_entry_at:
  assumes "i \<le> max_varint" and "length value \<le> max_varint" and at: "at_bytes input off (entry_bytes (i, value) @ rest)"
  shows "read_entry input off = Inr (i, value, off + length (entry_bytes (i, value)))"
proof -
  have a0: "at_bytes input off (varint_bytes i @ varint_bytes (length value) @ value @ rest)"
    using at by (simp add: entry_bytes_def)
  have a1: "at_bytes input (off + varint_len i) (varint_bytes (length value) @ value @ rest)"
    using at_bytes_advance [OF a0] by simp
  have a2: "at_bytes input (off + varint_len i + varint_len (length value)) (value @ rest)"
    using at_bytes_advance [OF a1] by simp
  show ?thesis
    using assms(1,2) at_bytes_length [OF a2] at_bytes_take [OF a2]
    by (simp add: read_entry_def at_bytes_drop [OF a0] at_bytes_drop [OF a1] decode_varint_bytes entry_bytes_def)
qed

definition entry_fits :: "u64 \<times> buffer \<Rightarrow> bool" where
  "entry_fits e \<longleftrightarrow> fst e \<le> max_varint \<and> length (snd e) \<le> max_varint"

lemma entry_bytes_nonempty [simp]: "entry_bytes e \<noteq> []"
proof -
  have "0 < length (entry_bytes e)" by (simp add: entry_bytes_def varint_len_def)
  then show ?thesis by auto
qed

lemma decode_loop_entries:
  assumes "at_bytes input off (concat (map entry_bytes es))" and "list_all entry_fits es"
    and "distinct (map fst es)" and "set (map fst es) \<inter> set seen = {}"
  shows "decode_parameters_loop input off seen r = assign_all es r"
  using assms
proof (induction es arbitrary: off seen r)
  case Nil
  then have "off = length input" by (simp add: at_bytes_def)
  then show ?case by (simp add: decode_parameters_loop.simps [of input "length input"])
next
  case (Cons e es)
  obtain i bs where e: "e = (i, bs)" by (cases e)
  have at: "at_bytes input off (entry_bytes (i, bs) @ concat (map entry_bytes es))" using Cons.prems(1) e by simp
  have "0 < length (entry_bytes (i, bs))" by simp
  then have lt: "off < length input" using at_bytes_length [OF at] by (simp del: length_greater_0_conv)
  have rd: "read_entry input off = Inr (i, bs, off + length (entry_bytes (i, bs)))"
    using Cons.prems(2) e by (intro read_entry_at [OF _ _ at]) (simp_all add: entry_fits_def)
  have new: "\<not> already_seen seen i" using Cons.prems(4) e by (simp add: already_seen_def)
  have "decode_parameters_loop input (off + length (entry_bytes (i, bs))) (seen @ [i]) r' = assign_all es r'" for r'
    using Cons.prems(2-4) e by (intro Cons.IH at_bytes_advance [OF at]) auto
  then show ?case
    by (simp add: decode_parameters_loop.simps [of input off] lt rd new e and_then_def split: sum.splits)
qed

lemma assign_numeric_ok:
  "x \<le> max_varint \<Longrightarrow> assign_numeric_parameter target (varint_bytes x) message = Inr (target (Some x))"
  using decode_varint_bytes [of x "[]"]
  by (simp add: assign_numeric_parameter_def decode_parameter_varint_def)

lemma assign_numeric_entry:
  assumes "opt_all (numeric_ok i) v" and "upd None = r"
    and "\<And>x. numeric_ok i x \<Longrightarrow> assign_parameter i (varint_bytes x) r = Inr (upd (Some x))"
  shows "assign_all (numeric_entry i v) r = Inr (upd v)"
  using assms by (cases v) (simp_all add: numeric_entry_def)

lemma assign_numeric_entries:
  "opt_all (numeric_ok 1) v \<Longrightarrow> tp_max_idle_timeout r = None \<Longrightarrow>
     assign_all (numeric_entry 1 v) r = Inr (r\<lparr>tp_max_idle_timeout := v\<rparr>)"
  "opt_all (numeric_ok 3) v \<Longrightarrow> tp_max_udp_payload_size r = None \<Longrightarrow>
     assign_all (numeric_entry 3 v) r = Inr (r\<lparr>tp_max_udp_payload_size := v\<rparr>)"
  "opt_all (numeric_ok 4) v \<Longrightarrow> tp_initial_max_data r = None \<Longrightarrow>
     assign_all (numeric_entry 4 v) r = Inr (r\<lparr>tp_initial_max_data := v\<rparr>)"
  "opt_all (numeric_ok 5) v \<Longrightarrow> tp_initial_max_stream_data_bidi_local r = None \<Longrightarrow>
     assign_all (numeric_entry 5 v) r = Inr (r\<lparr>tp_initial_max_stream_data_bidi_local := v\<rparr>)"
  "opt_all (numeric_ok 6) v \<Longrightarrow> tp_initial_max_stream_data_bidi_remote r = None \<Longrightarrow>
     assign_all (numeric_entry 6 v) r = Inr (r\<lparr>tp_initial_max_stream_data_bidi_remote := v\<rparr>)"
  "opt_all (numeric_ok 7) v \<Longrightarrow> tp_initial_max_stream_data_uni r = None \<Longrightarrow>
     assign_all (numeric_entry 7 v) r = Inr (r\<lparr>tp_initial_max_stream_data_uni := v\<rparr>)"
  "opt_all (numeric_ok 8) v \<Longrightarrow> tp_initial_max_streams_bidi r = None \<Longrightarrow>
     assign_all (numeric_entry 8 v) r = Inr (r\<lparr>tp_initial_max_streams_bidi := v\<rparr>)"
  "opt_all (numeric_ok 9) v \<Longrightarrow> tp_initial_max_streams_uni r = None \<Longrightarrow>
     assign_all (numeric_entry 9 v) r = Inr (r\<lparr>tp_initial_max_streams_uni := v\<rparr>)"
  "opt_all (numeric_ok 10) v \<Longrightarrow> tp_ack_delay_exponent r = None \<Longrightarrow>
     assign_all (numeric_entry 10 v) r = Inr (r\<lparr>tp_ack_delay_exponent := v\<rparr>)"
  "opt_all (numeric_ok 11) v \<Longrightarrow> tp_max_ack_delay r = None \<Longrightarrow>
     assign_all (numeric_entry 11 v) r = Inr (r\<lparr>tp_max_ack_delay := v\<rparr>)"
  "opt_all (numeric_ok 14) v \<Longrightarrow> tp_active_connection_id_limit r = None \<Longrightarrow>
     assign_all (numeric_entry 14 v) r = Inr (r\<lparr>tp_active_connection_id_limit := v\<rparr>)"
  by (rule assign_numeric_entry, assumption, cases r, simp,
      simp add: assign_parameter_def parameter_id_defs assign_numeric_ok numeric_ok_def)+

lemma assign_buffer_entries:
  "opt_all (\<lambda>c. length c \<le> 20) v \<Longrightarrow> tp_original_destination_connection_id r = None \<Longrightarrow>
     assign_all (buffer_entry 0 v) r = Inr (r\<lparr>tp_original_destination_connection_id := v\<rparr>)"
  "opt_all (\<lambda>c. length c \<le> 20) v \<Longrightarrow> tp_initial_source_connection_id r = None \<Longrightarrow>
     assign_all (buffer_entry 15 v) r = Inr (r\<lparr>tp_initial_source_connection_id := v\<rparr>)"
  "opt_all (\<lambda>c. length c \<le> 20) v \<Longrightarrow> tp_retry_source_connection_id r = None \<Longrightarrow>
     assign_all (buffer_entry 16 v) r = Inr (r\<lparr>tp_retry_source_connection_id := v\<rparr>)"
  "tp_disable_active_migration r = False \<Longrightarrow>
     assign_all (flag_entry 12 b) r = Inr (r\<lparr>tp_disable_active_migration := b\<rparr>)"
  by (cases v; cases b; cases r; simp add: buffer_entry_def flag_entry_def assign_parameter_def parameter_id_defs
      validate_connection_id_transport_parameter_def)+

lemma assign_unknown_entries:
  "list_all (\<lambda>u. \<not> known_transport_parameter_id (utp_id u)) us \<Longrightarrow>
     assign_all (unknown_entries us) r = Inr (r\<lparr>tp_unknown := tp_unknown r @ us\<rparr>)"
proof (induction us arbitrary: r)
  case Nil
  then show ?case by (simp add: unknown_entries_def)
next
  case (Cons u us)
  have "assign_parameter (utp_id u) (utp_value u) r = Inr (r\<lparr>tp_unknown := tp_unknown r @ [u]\<rparr>)"
    using Cons.prems by (simp add: assign_parameter_def known_transport_parameter_id_def)
  with Cons show ?case by (simp add: unknown_entries_def)
qed

lemma known_values_numeric:
  assumes "known_values_ok p"
  shows "opt_all (numeric_ok 1) (tp_max_idle_timeout p)" "opt_all (numeric_ok 3) (tp_max_udp_payload_size p)"
    "opt_all (numeric_ok 4) (tp_initial_max_data p)" "opt_all (numeric_ok 5) (tp_initial_max_stream_data_bidi_local p)"
    "opt_all (numeric_ok 6) (tp_initial_max_stream_data_bidi_remote p)"
    "opt_all (numeric_ok 7) (tp_initial_max_stream_data_uni p)" "opt_all (numeric_ok 8) (tp_initial_max_streams_bidi p)"
    "opt_all (numeric_ok 9) (tp_initial_max_streams_uni p)" "opt_all (numeric_ok 10) (tp_ack_delay_exponent p)"
    "opt_all (numeric_ok 11) (tp_max_ack_delay p)" "opt_all (numeric_ok 14) (tp_active_connection_id_limit p)"
    "opt_all (\<lambda>c. length c \<le> 20) (tp_original_destination_connection_id p)"
    "opt_all (\<lambda>c. length c \<le> 20) (tp_initial_source_connection_id p)"
    "opt_all (\<lambda>c. length c \<le> 20) (tp_retry_source_connection_id p)"
  using assms by (simp_all add: known_values_ok_def numeric_ok_unfold)

lemma assign_known_entries:
  assumes "known_values_ok p"
  shows "assign_all (known_entries p) empty_transport_parameters = Inr (p\<lparr>tp_unknown := []\<rparr>)"
  using known_values_numeric [OF assms]
  by (simp add: known_entries_def assign_all_append assign_numeric_entries [simplified] assign_buffer_entries
      empty_transport_parameters_def)

lemma numeric_entry_fits [simp]: "i \<le> max_varint \<Longrightarrow> list_all entry_fits (numeric_entry i v)"
  by (cases v) (simp_all add: entry_fits_def numeric_entry_def)

lemma buffer_entry_fits [simp]:
  "i \<le> max_varint \<Longrightarrow> opt_all (\<lambda>c. length c \<le> 20) w \<Longrightarrow> list_all entry_fits (buffer_entry i w)"
  by (cases w) (simp_all add: entry_fits_def buffer_entry_def max_varint_def)

lemma flag_entry_fits [simp]: "i \<le> max_varint \<Longrightarrow> list_all entry_fits (flag_entry i b)"
  by (simp add: entry_fits_def flag_entry_def)

lemma entries_distinct [simp]:
  "distinct (map fst (numeric_entry i v))" "distinct (map fst (buffer_entry i w))" "distinct (map fst (flag_entry i b))"
  by (simp_all add: numeric_entry_def buffer_entry_def flag_entry_def split: option.split)

lemma known_entries_fit: "known_values_ok p \<Longrightarrow> list_all entry_fits (known_entries p)"
  using known_values_numeric(12-14) [of p] by (simp add: known_entries_def) (simp add: max_varint_def)

lemma known_entries_distinct: "distinct (map fst (known_entries p))"
  unfolding known_entries_def map_append distinct_append set_append set_map
  by (intro conjI entries_distinct) (simp_all add: disjoint_iff)

lemma parameter_entries_fit: "parameters_ok p \<Longrightarrow> list_all entry_fits (parameter_entries p)"
  using known_entries_fit [of p]
  by (auto simp: parameters_ok_def parameter_entries_def unknown_ok_def unknown_entries_def list_all_iff entry_fits_def)

lemma parameter_entries_distinct:
  assumes "parameters_ok p"
  shows "distinct (map fst (parameter_entries p))"
proof -
  have "distinct (map fst (unknown_entries (tp_unknown p)))"
    using assms by (simp add: parameters_ok_def unknown_ok_def unknown_entries_def comp_def)
  moreover have "fst ` set (unknown_entries (tp_unknown p)) = utp_id ` set (tp_unknown p)"
    by (simp add: unknown_entries_def image_comp comp_def)
  ultimately show ?thesis
    using known_entries_distinct [of p] known_entries_known [of _ p] unknown_ok_fresh [of "tp_unknown p"] assms
    by (auto simp: parameters_ok_def parameter_entries_def)
qed

lemma assign_parameter_entries:
  assumes "parameters_ok p"
  shows "assign_all (parameter_entries p) empty_transport_parameters = Inr p"
  using assms assign_known_entries [of p] assign_unknown_entries [of "tp_unknown p"]
  by (simp add: parameters_ok_def parameter_entries_def assign_all_append unknown_ok_def list_all_iff)

lemma decode_canonical:
  assumes "parameters_ok p"
  shows "decode_transport_parameters (concat (map entry_bytes (parameter_entries p))) = Inr p"
  unfolding decode_transport_parameters_def
  using decode_loop_entries [OF at_bytes_start parameter_entries_fit [OF assms] parameter_entries_distinct [OF assms], of "[]"]
    assign_parameter_entries [OF assms] by simp

section \<open>What the decoder accepts\<close>

definition decode_inv :: "u64 list \<Rightarrow> transport_parameters \<Rightarrow> bool" where
  "decode_inv seen r \<longleftrightarrow> parameters_ok r \<and> utp_id ` set (tp_unknown r) \<subseteq> set seen"

lemma assign_numeric_Inr_iff:
  "assign_numeric_parameter target value message = Inr r \<longleftrightarrow>
     (\<exists>v. decode_parameter_varint value = Some v \<and> v \<le> max_varint \<and> r = target (Some v))"
  by (auto simp: assign_numeric_parameter_def decode_parameter_varint_def split: option.splits sum.splits if_splits
      dest: decode_varint_bounds)

lemma known_values_unknown [simp]: "known_values_ok (r\<lparr>tp_unknown := us\<rparr>) = known_values_ok r"
  by (simp add: known_values_ok_def)

lemma assign_known_ok:
  assumes "assign_parameter i bs r = Inr r'" and "known_transport_parameter_id i" and "known_values_ok r"
  shows "known_values_ok r' \<and> tp_unknown r' = tp_unknown r"
proof -
  have upd: "known_values_ok (r\<lparr>tp_max_idle_timeout := Some v\<rparr>)" "known_values_ok (r\<lparr>tp_initial_max_data := Some v\<rparr>)"
    "known_values_ok (r\<lparr>tp_initial_max_stream_data_bidi_local := Some v\<rparr>)"
    "known_values_ok (r\<lparr>tp_initial_max_stream_data_bidi_remote := Some v\<rparr>)"
    "known_values_ok (r\<lparr>tp_initial_max_stream_data_uni := Some v\<rparr>)"
    "known_values_ok (r\<lparr>tp_initial_max_streams_bidi := Some v\<rparr>)" "known_values_ok (r\<lparr>tp_initial_max_streams_uni := Some v\<rparr>)"
    "1200 \<le> v \<Longrightarrow> known_values_ok (r\<lparr>tp_max_udp_payload_size := Some v\<rparr>)"
    "v \<le> 20 \<Longrightarrow> known_values_ok (r\<lparr>tp_ack_delay_exponent := Some v\<rparr>)"
    "v < 16384 \<Longrightarrow> known_values_ok (r\<lparr>tp_max_ack_delay := Some v\<rparr>)"
    "2 \<le> v \<Longrightarrow> known_values_ok (r\<lparr>tp_active_connection_id_limit := Some v\<rparr>)" if "v \<le> max_varint" for v
    using assms(3) that by (simp_all add: known_values_ok_def)
  have upd': "known_values_ok (r\<lparr>tp_original_destination_connection_id := Some c\<rparr>)"
    "known_values_ok (r\<lparr>tp_initial_source_connection_id := Some c\<rparr>)"
    "known_values_ok (r\<lparr>tp_retry_source_connection_id := Some c\<rparr>)" if "length c \<le> 20" for c
    using assms(3) that by (simp_all add: known_values_ok_def)
  have flag: "known_values_ok (r\<lparr>tp_disable_active_migration := b\<rparr>)" for b
    using assms(3) by (simp add: known_values_ok_def)
  show ?thesis
    using assms(2,1) upd upd' flag
    by (auto simp: known_ids assign_parameter_def parameter_id_defs and_then_Inr_iff assign_numeric_Inr_iff
        validate_connection_id_transport_parameter_def split: if_splits)
qed

lemma assign_parameter_inv:
  assumes "assign_parameter i bs r = Inr r'" and "decode_inv seen r" and "i \<notin> set seen" and "entry_fits (i, bs)"
  shows "decode_inv (seen @ [i]) r'"
proof (cases "known_transport_parameter_id i")
  case True
  with assign_known_ok [OF assms(1)] assms(2) show ?thesis
    by (auto simp: decode_inv_def parameters_ok_def)
next
  case False
  then have "r' = r\<lparr>tp_unknown := tp_unknown r @ [\<lparr>utp_id = i, utp_value = bs\<rparr>]\<rparr>"
    using assms(1) by (simp add: assign_parameter_def known_transport_parameter_id_def)
  with False assms(2-4) show ?thesis
    by (auto simp: decode_inv_def parameters_ok_def unknown_ok_def entry_fits_def)
qed

lemma read_entry_fits:
  assumes "read_entry input offset = Inr (i, bs, offset')"
  shows "entry_fits (i, bs)"
proof -
  obtain n len m where "decode_varint (drop offset input) = Inr (i, n)"
    "decode_varint (drop (offset + n) input) = Inr (len, m)" "length bs \<le> len"
    using assms by (auto simp: read_entry_def and_then_Inr_iff split: if_splits)
  from decode_varint_bounds [OF this(1)] decode_varint_bounds [OF this(2)] this(3) show ?thesis
    by (simp add: entry_fits_def)
qed

lemma decode_loop_inv:
  "decode_parameters_loop input offset seen r = Inr p \<Longrightarrow> decode_inv seen r \<Longrightarrow> parameters_ok p"
proof (induction input offset seen r rule: decode_parameters_loop.induct)
  case (1 input offset seen r)
  show ?case
  proof (cases "offset < length input")
    case True
    with 1(2) obtain i bs offset' r' where rd: "read_entry input offset = Inr (i, bs, offset')"
      and new: "\<not> already_seen seen i" and asg: "assign_parameter i bs r = Inr r'"
      and rest: "decode_parameters_loop input offset' (seen @ [i]) r' = Inr p"
      by (auto simp: decode_parameters_loop.simps [of input offset] split: sum.splits if_splits)
    have "decode_inv (seen @ [i]) r'"
      using assign_parameter_inv [OF asg 1(3)] read_entry_fits [OF rd] new by (simp add: already_seen_def)
    then show ?thesis using 1(1) [OF True rd _ _ new asg rest] by simp
  next
    case False
    with 1(2,3) show ?thesis by (simp add: decode_parameters_loop.simps [of input offset] decode_inv_def)
  qed
qed

section \<open>Properties\<close>

text \<open>C22: the encoder succeeds exactly on parameters within the bounds of RFC 9000 section 18.2 whose extra parameters
  have distinct unknown identifiers, and what it writes decodes to the parameters that were encoded.\<close>

theorem transport_parameters_roundtrip:
  "(case encode_transport_parameters p of
      Inl e \<Rightarrow> \<not> parameters_ok p
    | Inr bytes \<Rightarrow> parameters_ok p \<and> decode_transport_parameters bytes = Inr p)"
proof (cases "encode_transport_parameters p")
  case (Inl e)
  then show ?thesis
    using encode_transport_parameters_Inr_iff [of p "concat (map entry_bytes (parameter_entries p))"] by simp
next
  case (Inr bytes)
  then show ?thesis using encode_transport_parameters_Inr_iff [of p bytes] decode_canonical [of p] by simp
qed

text \<open>C23: whatever bytes the peer sent, parameters that the decoder accepts are within the bounds (a UDP payload of at
  least 1200 bytes, an exponent of at most 20, a delay below 16384, a limit of at least 2, connection identifiers of at
  most 20 bytes, no identifier twice), and encoding them again succeeds and is read back unchanged.\<close>

theorem decoded_parameters_ok:
  assumes "decode_transport_parameters input = Inr p"
  shows "parameters_ok p \<and> (\<exists>bytes. encode_transport_parameters p = Inr bytes \<and> decode_transport_parameters bytes = Inr p)"
proof -
  have "decode_inv [] empty_transport_parameters"
    by (simp add: decode_inv_def parameters_ok_def known_values_ok_def unknown_ok_def empty_transport_parameters_def)
  then have ok: "parameters_ok p"
    using assms decode_loop_inv unfolding decode_transport_parameters_def by blast
  then show ?thesis using decode_canonical [OF ok] encode_transport_parameters_Inr_iff [of p] by blast
qed

theorem decoded_parameters_ok_witness:
  "\<exists>p. decode_transport_parameters [0x03, 0x02, 0x45, 0xc0, 0x2a, 0x01, 0xff] = Inr p \<and>
     tp_max_udp_payload_size p = Some 1472 \<and> parameters_ok p"
proof -
  let ?input = "[0x03, 0x02, 0x45, 0xc0, 0x2a, 0x01, 0xff] :: buffer"
  let ?p = "empty_transport_parameters\<lparr>tp_max_udp_payload_size := Some 1472\<rparr>"
  let ?q = "?p\<lparr>tp_unknown := [\<lparr>utp_id = 42, utp_value = [0xff]\<rparr>]\<rparr>"
  have r: "read_entry ?input 0 = Inr (3, [0x45, 0xc0], 4)" "read_entry ?input 4 = Inr (42, [0xff], 7)"
    by (simp_all add: read_entry_def decode_varint_def)
  have a: "assign_parameter 3 [0x45, 0xc0] empty_transport_parameters = Inr ?p"
    by (simp add: assign_parameter_def parameter_id_defs assign_numeric_parameter_def decode_parameter_varint_def
        decode_varint_def)
  have b: "assign_parameter 42 [0xff] ?p = Inr ?q"
    by (simp add: assign_parameter_def parameter_id_defs empty_transport_parameters_def)
  have d: "decode_transport_parameters ?input = Inr ?q"
    by (simp add: decode_transport_parameters_def decode_parameters_loop.simps [of ?input 0]
        decode_parameters_loop.simps [of ?input 4] decode_parameters_loop.simps [of ?input 7] r a b already_seen_def)
  show ?thesis using decoded_parameters_ok [OF d] d by simp
qed

end
