(* ===== verification/PacketPipeline.thy ===== *)
theory PacketPipeline
  imports AckLoss
begin

text \<open>
  Packet assembly and parsing, \<open>src/include/flowq/quic/packet_pipeline.hpp\<close> with the provider status of
  \<open>crypto_provider.hpp\<close>: frames are encoded, padded, sealed and put behind a header whose low bits and packet number
  are masked; parsing undoes it.  The cipher is outside the program: a \<open>packet_protector\<close> is the record of the virtual
  functions of the C++ class, and \<open>paired\<close> states what a receiver's protector promises about a sender's.
  The padding loop of client Initial packets is a \<open>partial_function\<close>; \<open>None\<close> means that it does not end.
\<close>

section \<open>Protectors\<close>

datatype cipher_suite = SuiteUnknown | Aes128GcmSha256 | Aes256GcmSha384 | Chacha20Poly1305Sha256

record crypto_capabilities =
  cap_hkdf :: bool
  cap_aead_seal :: bool
  cap_aead_open :: bool
  cap_header_protection :: bool
  cap_tls_owns_key_schedule :: bool

record crypto_provider_status =
  cps_available_from_external_provider :: bool
  cps_suite :: cipher_suite
  cps_capabilities :: crypto_capabilities

definition packet_protection_ready :: "crypto_provider_status \<Rightarrow> bool" where
  "packet_protection_ready s \<longleftrightarrow>
     cps_available_from_external_provider s \<and> cps_suite s \<noteq> SuiteUnknown \<and> cap_hkdf (cps_capabilities s) \<and>
     cap_aead_seal (cps_capabilities s) \<and> cap_aead_open (cps_capabilities s) \<and>
     cap_header_protection (cps_capabilities s)"

datatype protection_level = NoProtection | InitialProtection | HandshakeProtection | ApplicationProtection

datatype packet_security_level = AuthenticatedEncrypted

datatype long_packet_type = LongInitial | LongHandshake

record packet_number =
  pn_space :: packet_number_space
  pn_value :: u64

record packet_protection_context =
  ctx_number :: packet_number
  ctx_associated_data :: buffer

text \<open>The mask of \<open>header_protection_mask\<close>, a \<open>std::array<std::byte, 5>\<close>, is a byte list.\<close>

record packet_protector =
  pp_level :: protection_level
  pp_security_level :: packet_security_level
  pp_provider_status :: crypto_provider_status
  pp_protection_overhead :: nat
  pp_header_protection_enabled :: bool
  pp_header_protection_mask :: "buffer \<Rightarrow> buffer result"
  pp_protect :: "packet_protection_context \<Rightarrow> buffer \<Rightarrow> buffer result"
  pp_unprotect :: "packet_protection_context \<Rightarrow> buffer \<Rightarrow> buffer result"

record packet_build_request =
  br_type :: long_packet_type
  br_version :: u32
  br_destination_connection_id :: connection_id
  br_source_connection_id :: connection_id
  br_token :: buffer
  br_number :: packet_number
  br_frames :: "frame list"
  br_protector :: "packet_protector option"
  br_max_datagram_size :: nat
  br_enforce_initial_datagram_minimum :: bool

record application_packet_build_request =
  abr_destination_connection_id :: connection_id
  abr_number :: packet_number
  abr_frames :: "frame list"
  abr_protector :: "packet_protector option"
  abr_max_datagram_size :: nat

record assembled_packet =
  ap_datagram :: buffer
  ap_number :: packet_number
  ap_protection :: protection_level
  ap_error :: flowq_error

record parsed_packet =
  ppk_header :: packet_header
  ppk_number :: packet_number
  ppk_space :: packet_number_space
  ppk_protection :: protection_level
  ppk_frames :: "frame list"

record frame_payload_budget_selection =
  fbs_frames :: "frame list"
  fbs_encoded_size :: nat
  fbs_next_index :: nat
  fbs_error :: flowq_error

section \<open>Helpers\<close>

definition minimum_client_initial_datagram_size :: nat where
  "minimum_client_initial_datagram_size = 1200"

definition pipeline_error :: "string \<Rightarrow> flowq_error" where
  "pipeline_error m = protocol_error m"

definition fixed_packet_number_length :: nat where
  "fixed_packet_number_length = 4"

definition minimum_packet_number_length :: nat where
  "minimum_packet_number_length = 1"

definition append_packet_number :: "buffer \<Rightarrow> u64 \<Rightarrow> buffer" where
  "append_packet_number output value = output @
     [to_byte (drop_bit 24 value AND 0xff), to_byte (drop_bit 16 value AND 0xff),
      to_byte (drop_bit 8 value AND 0xff), to_byte (value AND 0xff)]"

definition read_packet_number :: "buffer \<Rightarrow> u64" where
  "read_packet_number input = foldl (\<lambda>value b. u64_shl value 8 OR unat b) 0 input"

fun long_header_first_byte :: "long_packet_type \<Rightarrow> byte" where
  "long_header_first_byte LongInitial = 0xc3"
| "long_header_first_byte LongHandshake = 0xe3"

definition space_for :: "long_packet_type \<Rightarrow> packet_number_space" where
  "space_for t = (if t = LongInitial then InitialSpace else HandshakeSpace)"

definition expected_protection_for :: "long_packet_type \<Rightarrow> protection_level" where
  "expected_protection_for t = (if t = LongInitial then InitialProtection else HandshakeProtection)"

definition protection_level_matches :: "long_packet_type \<Rightarrow> protection_level \<Rightarrow> bool" where
  "protection_level_matches t level \<longleftrightarrow> level = expected_protection_for t"

definition application_protection_level_matches :: "protection_level \<Rightarrow> bool" where
  "application_protection_level_matches level \<longleftrightarrow> level = ApplicationProtection"

definition production_protection_satisfied :: "packet_protector \<Rightarrow> bool" where
  "production_protection_satisfied p \<longleftrightarrow>
     pp_security_level p = AuthenticatedEncrypted \<and> packet_protection_ready (pp_provider_status p)"

definition validate_protection_policy :: "packet_protector \<Rightarrow> unit result" where
  "validate_protection_policy p =
     (if \<not> production_protection_satisfied p
      then Inl (pipeline_error ''production packet protection requires authenticated encrypted external crypto provider'')
      else Inr ())"

fun is_initial_header :: "packet_header \<Rightarrow> bool" where
  "is_initial_header (Initial _) \<longleftrightarrow> True"
| "is_initial_header _ \<longleftrightarrow> False"

fun is_handshake_header :: "packet_header \<Rightarrow> bool" where
  "is_handshake_header (Handshake _) \<longleftrightarrow> True"
| "is_handshake_header _ \<longleftrightarrow> False"

definition space_for_header :: "packet_header \<Rightarrow> packet_number_space" where
  "space_for_header h = (if is_initial_header h then InitialSpace else HandshakeSpace)"

definition expected_protection_for_header :: "packet_header \<Rightarrow> protection_level" where
  "expected_protection_for_header h = (if is_initial_header h then InitialProtection else HandshakeProtection)"

definition protection_level_matches_header :: "packet_header \<Rightarrow> protection_level \<Rightarrow> bool" where
  "protection_level_matches_header h level \<longleftrightarrow> level = expected_protection_for_header h"

fun protected_payload_for :: "packet_header \<Rightarrow> buffer option" where
  "protected_payload_for (Initial h) = Some (ih_protected_payload h)"
| "protected_payload_for (Handshake h) = Some (hh_protected_payload h)"
| "protected_payload_for _ = None"

text \<open>The size of the first packet of a coalesced datagram.\<close>

definition long_packet_length_at :: "buffer \<Rightarrow> nat \<Rightarrow> nat result" where
  "long_packet_length_at datagram offset =
     (case read_packet_varint_at datagram offset of
        None \<Rightarrow> Inl (pipeline_error ''truncated long-header packet length'')
      | Some (payload_length, offset) \<Rightarrow>
          if payload_length > length datagram - offset
          then Inl (pipeline_error ''truncated long-header protected payload'')
          else Inr (offset + payload_length))"

definition long_packet_wire_size :: "buffer \<Rightarrow> nat result" where
  "long_packet_wire_size datagram =
     (if datagram = [] then Inl (pipeline_error ''empty long-header datagram'')
      else
        let first = datagram ! 0 in
        if first AND 0x80 = 0 then Inl (pipeline_error ''datagram does not start with a long-header packet'')
        else if first AND 0x40 = 0 then Inl (pipeline_error ''long header fixed bit is not set'')
        else (case do { (dcid, o1) \<leftarrow> read_connection_id datagram (1 + 4);
                        (scid, o2) \<leftarrow> read_connection_id datagram o1;
                        Some o2 } of
            None \<Rightarrow> Inl (pipeline_error ''truncated long-header connection ID'')
          | Some offset \<Rightarrow>
              if first AND 0x30 = 0x00 then
                (case read_packet_varint_at datagram offset of
                   None \<Rightarrow> Inl (pipeline_error ''truncated Initial token length'')
                 | Some (token_length, offset) \<Rightarrow>
                     if token_length > length datagram - offset
                     then Inl (pipeline_error ''truncated Initial token'')
                     else long_packet_length_at datagram (offset + token_length))
              else if first AND 0x30 \<noteq> 0x20
              then Inl (pipeline_error ''unsupported coalesced long-header packet type'')
              else long_packet_length_at datagram offset))"

section \<open>Header protection\<close>

text \<open>The loop that masks the packet number bytes.\<close>

definition mask_packet_number :: "nat \<Rightarrow> nat \<Rightarrow> buffer \<Rightarrow> buffer \<Rightarrow> buffer" where
  "mask_packet_number off n hp_mask datagram =
     foldl (\<lambda>d i. d[off + i := d ! (off + i) XOR hp_mask ! (i + 1)]) datagram [0..<n]"

definition apply_long_header_protection :: "buffer \<Rightarrow> nat \<Rightarrow> packet_protector \<Rightarrow> buffer result" where
  "apply_long_header_protection datagram protected_payload_size p =
     (if protected_payload_size < fixed_packet_number_length + 16 \<or> length datagram < protected_payload_size
      then Inl (pipeline_error ''packet payload too short for header protection sample'')
      else
        let packet_number_offset = length datagram - protected_payload_size;
            sample_offset = packet_number_offset + fixed_packet_number_length in
        if length datagram - sample_offset < 16
        then Inl (pipeline_error ''packet payload too short for header protection sample'')
        else
          let packet_number_length = unat (datagram ! 0 AND 0x03) + 1 in
          if packet_number_length \<noteq> fixed_packet_number_length
          then Inl (pipeline_error ''FlowQ packet pipeline requires fixed 4-byte packet numbers'')
          else (case pp_header_protection_mask p (take 16 (drop sample_offset datagram)) of
              Inl e \<Rightarrow> Inl e
            | Inr hp_mask \<Rightarrow>
                Inr (mask_packet_number packet_number_offset packet_number_length hp_mask
                  (datagram[0 := datagram ! 0 XOR (hp_mask ! 0 AND 0x0f)]))))"

definition remove_long_header_protection :: "buffer \<Rightarrow> nat \<Rightarrow> packet_protector \<Rightarrow> buffer result" where
  "remove_long_header_protection datagram protected_payload_size p =
     (if protected_payload_size < minimum_packet_number_length + 16 \<or> length datagram < protected_payload_size
      then Inl (pipeline_error ''packet payload too short for header protection sample'')
      else
        let packet_number_offset = length datagram - protected_payload_size;
            sample_offset = packet_number_offset + fixed_packet_number_length in
        if length datagram - sample_offset < 16
        then Inl (pipeline_error ''packet payload too short for header protection sample'')
        else (case pp_header_protection_mask p (take 16 (drop sample_offset datagram)) of
            Inl e \<Rightarrow> Inl e
          | Inr hp_mask \<Rightarrow>
              let datagram = datagram[0 := datagram ! 0 XOR (hp_mask ! 0 AND 0x0f)];
                  packet_number_length = unat (datagram ! 0 AND 0x03) + 1 in
              if protected_payload_size < packet_number_length + 16
              then Inl (pipeline_error ''packet payload too short for header protection sample'')
              else Inr (mask_packet_number packet_number_offset packet_number_length hp_mask datagram)))"

definition apply_short_header_protection :: "buffer \<Rightarrow> nat \<Rightarrow> packet_protector \<Rightarrow> buffer result" where
  "apply_short_header_protection datagram destination_connection_id_length p =
     (let packet_number_offset = 1 + destination_connection_id_length in
      if length datagram < packet_number_offset + fixed_packet_number_length + 16
      then Inl (pipeline_error ''short packet payload too short for header protection sample'')
      else
        let packet_number_length = unat (datagram ! 0 AND 0x03) + 1 in
        if packet_number_length \<noteq> fixed_packet_number_length
        then Inl (pipeline_error ''FlowQ packet pipeline requires fixed 4-byte packet numbers'')
        else
          let sample_offset = packet_number_offset + fixed_packet_number_length in
          (case pp_header_protection_mask p (take 16 (drop sample_offset datagram)) of
             Inl e \<Rightarrow> Inl e
           | Inr hp_mask \<Rightarrow>
               Inr (mask_packet_number packet_number_offset packet_number_length hp_mask
                 (datagram[0 := datagram ! 0 XOR (hp_mask ! 0 AND 0x1f)]))))"

definition remove_short_header_protection :: "buffer \<Rightarrow> nat \<Rightarrow> packet_protector \<Rightarrow> buffer result" where
  "remove_short_header_protection datagram destination_connection_id_length p =
     (let packet_number_offset = 1 + destination_connection_id_length in
      if length datagram < packet_number_offset + minimum_packet_number_length + 16
      then Inl (pipeline_error ''short packet payload too short for header protection sample'')
      else
        let sample_offset = packet_number_offset + fixed_packet_number_length in
        if length datagram < sample_offset + 16
        then Inl (pipeline_error ''short packet payload too short for header protection sample'')
        else (case pp_header_protection_mask p (take 16 (drop sample_offset datagram)) of
            Inl e \<Rightarrow> Inl e
          | Inr hp_mask \<Rightarrow>
              let datagram = datagram[0 := datagram ! 0 XOR (hp_mask ! 0 AND 0x1f)];
                  packet_number_length = unat (datagram ! 0 AND 0x03) + 1 in
              if length datagram < packet_number_offset + packet_number_length + 16
              then Inl (pipeline_error ''short packet payload too short for header protection sample'')
              else Inr (mask_packet_number packet_number_offset packet_number_length hp_mask datagram)))"

section \<open>Assembly\<close>

text \<open>The header of a long packet with the given payload; both places that build it, the sizing header and the packet,
  differ only in the payload.\<close>

definition long_header_for ::
    "long_packet_type \<Rightarrow> u32 \<Rightarrow> connection_id \<Rightarrow> connection_id \<Rightarrow> buffer \<Rightarrow> nat \<Rightarrow> buffer \<Rightarrow> packet_header" where
  "long_header_for t version dcid scid token len payload =
     (if t = LongInitial
      then Initial \<lparr>ih_first_byte = long_header_first_byte t, ih_version = version, ih_destination_connection_id = dcid,
             ih_source_connection_id = scid, ih_token = token, ih_length = len, ih_protected_payload = payload\<rparr>
      else Handshake \<lparr>hh_first_byte = long_header_first_byte t, hh_version = version, hh_destination_connection_id = dcid,
             hh_source_connection_id = scid, hh_length = len, hh_protected_payload = payload\<rparr>)"

definition encode_long_packet_sizing_header ::
    "long_packet_type \<Rightarrow> u32 \<Rightarrow> connection_id \<Rightarrow> connection_id \<Rightarrow> buffer \<Rightarrow> nat \<Rightarrow> buffer result" where
  "encode_long_packet_sizing_header t version dcid scid token len =
     encode_packet_header (long_header_for t version dcid scid token len (replicate len 0))"

fun select_frames_loop ::
    "frame list \<Rightarrow> nat \<Rightarrow> nat \<Rightarrow> frame_payload_budget_selection \<Rightarrow> frame_payload_budget_selection" where
  "select_frames_loop [] budget index result = result"
| "select_frames_loop (f # fs) budget index result =
     (case encode_frame f of
        Inl e \<Rightarrow> result\<lparr>fbs_error := e, fbs_next_index := index\<rparr>
      | Inr payload \<Rightarrow>
          if length payload > u64_sub budget (fbs_encoded_size result)
          then result\<lparr>fbs_next_index := index\<rparr>
          else select_frames_loop fs budget (index + 1)
            (result\<lparr>fbs_encoded_size := u64_add (fbs_encoded_size result) (length payload),
                    fbs_frames := fbs_frames result @ [f], fbs_next_index := index + 1\<rparr>))"

definition select_frames_for_payload_budget :: "frame list \<Rightarrow> nat \<Rightarrow> frame_payload_budget_selection" where
  "select_frames_for_payload_budget candidates budget =
     select_frames_loop candidates budget 0
       \<lparr>fbs_frames = [], fbs_encoded_size = 0, fbs_next_index = 0, fbs_error = no_error\<rparr>"

fun encode_frame_list :: "frame list \<Rightarrow> buffer \<Rightarrow> buffer result" where
  "encode_frame_list [] frame_bytes = Inr frame_bytes"
| "encode_frame_list (f # fs) frame_bytes =
     (case encode_frame f of
        Inl e \<Rightarrow> Inl e
      | Inr payload \<Rightarrow> encode_frame_list fs (frame_bytes @ payload))"

text \<open>The loop that pads a client Initial; \<open>sizing n\<close> is the encoded header with a payload of \<open>n\<close> bytes.\<close>

partial_function (option) pad_initial_loop ::
    "(nat \<Rightarrow> buffer result) \<Rightarrow> nat \<Rightarrow> buffer \<Rightarrow> nat \<Rightarrow> buffer result option" where
  "pad_initial_loop sizing overhead frame_bytes padding_added =
     (case sizing (fixed_packet_number_length + length frame_bytes + overhead) of
        Inl e \<Rightarrow> Some (Inl e)
      | Inr sizing_header \<Rightarrow>
          if length sizing_header = minimum_client_initial_datagram_size then Some (Inr frame_bytes)
          else if length sizing_header > minimum_client_initial_datagram_size then
            (let excess = length sizing_header - minimum_client_initial_datagram_size in
             if excess > padding_added
             then Some (Inl (pipeline_error ''client Initial datagram exceeds minimum before padding''))
             else pad_initial_loop sizing overhead (take (length frame_bytes - excess) frame_bytes) (padding_added - excess))
          else
            (let padding_bytes = minimum_client_initial_datagram_size - length sizing_header in
             pad_initial_loop sizing overhead (frame_bytes @ replicate padding_bytes 0) (padding_added + padding_bytes)))"

definition pad_initial :: "packet_build_request \<Rightarrow> packet_protector \<Rightarrow> buffer \<Rightarrow> buffer result option" where
  "pad_initial r p frame_bytes =
     (if br_enforce_initial_datagram_minimum r then
        (if br_type r \<noteq> LongInitial
         then Some (Inl (pipeline_error ''Initial datagram minimum can only be enforced on Initial packets''))
         else if br_max_datagram_size r < minimum_client_initial_datagram_size
         then Some (Inl (pipeline_error ''client Initial datagram minimum exceeds configured maximum size''))
         else pad_initial_loop
           (encode_long_packet_sizing_header (br_type r) (br_version r) (br_destination_connection_id r)
              (br_source_connection_id r) (br_token r))
           (pp_protection_overhead p) frame_bytes 0)
      else Some (Inr frame_bytes))"

definition seal_long_packet :: "packet_build_request \<Rightarrow> packet_protector \<Rightarrow> buffer \<Rightarrow> buffer result" where
  "seal_long_packet r p frame_bytes =
     (let protected_payload_length = fixed_packet_number_length + length frame_bytes + pp_protection_overhead p;
          header = long_header_for (br_type r) (br_version r) (br_destination_connection_id r)
            (br_source_connection_id r) (br_token r) protected_payload_length;
          packet_number_bytes = append_packet_number [] (pn_value (br_number r)) in
      case encode_packet_header (header (replicate protected_payload_length 0)) of
        Inl e \<Rightarrow> Inl e
      | Inr aad_prefix \<Rightarrow>
          if length aad_prefix < protected_payload_length
          then Inl (pipeline_error ''encoded long header is shorter than protected payload'')
          else
            let header_prefix_size = length aad_prefix - protected_payload_length;
                associated_data = take header_prefix_size aad_prefix @ packet_number_bytes in
            (case pp_protect p \<lparr>ctx_number = br_number r, ctx_associated_data = associated_data\<rparr> frame_bytes of
               Inl e \<Rightarrow> Inl e
             | Inr protected_frames \<Rightarrow>
                 let protected_payload = packet_number_bytes @ protected_frames in
                 (case encode_packet_header (header protected_payload) of
                    Inl e \<Rightarrow> Inl e
                  | Inr encoded \<Rightarrow>
                      (case (if pp_header_protection_enabled p
                             then apply_long_header_protection encoded (length protected_payload) p
                             else Inr encoded) of
                         Inl e \<Rightarrow> Inl e
                       | Inr datagram \<Rightarrow>
                           if length datagram > br_max_datagram_size r
                           then Inl (pipeline_error ''QUIC datagram exceeds maximum size'')
                           else Inr datagram))))"

definition check_long_request :: "packet_build_request \<Rightarrow> packet_protector \<Rightarrow> unit result" where
  "check_long_request r p =
     (if pn_value (br_number r) > 0xffffffff
      then Inl (pipeline_error ''packet number exceeds supported long-header encoding'')
      else if pn_space (br_number r) \<noteq> space_for (br_type r)
      then Inl (pipeline_error ''packet number space does not match packet type'')
      else if \<not> protection_level_matches (br_type r) (pp_level p)
      then Inl (pipeline_error ''packet protector level does not match packet type'')
      else validate_protection_policy p)"

definition assemble_long_datagram :: "packet_build_request \<Rightarrow> packet_protector \<Rightarrow> buffer result option" where
  "assemble_long_datagram r p =
     (case check_long_request r p of
        Inl e \<Rightarrow> Some (Inl e)
      | Inr _ \<Rightarrow>
          (case encode_frame_list (br_frames r) [] of
             Inl e \<Rightarrow> Some (Inl e)
           | Inr frame_bytes \<Rightarrow>
               do { padded \<leftarrow> pad_initial r p frame_bytes;
                    Some (case padded of Inl e \<Rightarrow> Inl e | Inr frame_bytes \<Rightarrow> seal_long_packet r p frame_bytes) }))"

definition assembled :: "packet_number \<Rightarrow> protection_level \<Rightarrow> buffer result \<Rightarrow> assembled_packet" where
  "assembled number level r =
     (case r of
        Inl e \<Rightarrow> \<lparr>ap_datagram = [], ap_number = number, ap_protection = level, ap_error = e\<rparr>
      | Inr datagram \<Rightarrow> \<lparr>ap_datagram = datagram, ap_number = number, ap_protection = level, ap_error = no_error\<rparr>)"

definition assemble_long_packet :: "packet_build_request \<Rightarrow> assembled_packet option" where
  "assemble_long_packet r =
     (case br_protector r of
        None \<Rightarrow> Some (assembled (br_number r) NoProtection (Inl (pipeline_error ''packet protector is required'')))
      | Some p \<Rightarrow> map_option (assembled (br_number r) (pp_level p)) (assemble_long_datagram r p))"

definition check_application_request :: "application_packet_build_request \<Rightarrow> packet_protector \<Rightarrow> unit result" where
  "check_application_request r p =
     (if pn_value (abr_number r) > 0xffffffff
      then Inl (pipeline_error ''packet number exceeds supported application-header encoding'')
      else if pn_space (abr_number r) \<noteq> ApplicationSpace
      then Inl (pipeline_error ''packet number space does not match short-header packet'')
      else if \<not> application_protection_level_matches (pp_level p)
      then Inl (pipeline_error ''packet protector level does not match short-header packet'')
      else validate_protection_policy p)"

definition application_header :: "connection_id \<Rightarrow> u64 \<Rightarrow> buffer \<Rightarrow> short_header" where
  "application_header dcid number payload =
     \<lparr>sh_first_byte = 0x43, sh_destination_connection_id = dcid, sh_fixed_bit = True, sh_spin_bit = False,
      sh_key_phase = False, sh_packet_number_length = fixed_packet_number_length, sh_truncated_packet_number = number,
      sh_protected_payload = payload\<rparr>"

definition seal_application_packet ::
    "application_packet_build_request \<Rightarrow> packet_protector \<Rightarrow> buffer \<Rightarrow> buffer result" where
  "seal_application_packet r p frame_bytes =
     (let protected_payload_length = length frame_bytes + pp_protection_overhead p;
          header = application_header (abr_destination_connection_id r) (pn_value (abr_number r)) in
      case encode_packet_header (Short (header (replicate protected_payload_length 0))) of
        Inl e \<Rightarrow> Inl e
      | Inr aad_prefix \<Rightarrow>
          if length aad_prefix < protected_payload_length
          then Inl (pipeline_error ''encoded short header is shorter than protected payload'')
          else
            let header_prefix_size = length aad_prefix - protected_payload_length;
                associated_data = take header_prefix_size aad_prefix in
            (case pp_protect p \<lparr>ctx_number = abr_number r, ctx_associated_data = associated_data\<rparr> frame_bytes of
               Inl e \<Rightarrow> Inl e
             | Inr protected_frames \<Rightarrow>
                 (case encode_packet_header (Short (header protected_frames)) of
                    Inl e \<Rightarrow> Inl e
                  | Inr encoded \<Rightarrow>
                      (case (if pp_header_protection_enabled p
                             then apply_short_header_protection encoded
                               (length (cid_bytes (abr_destination_connection_id r))) p
                             else Inr encoded) of
                         Inl e \<Rightarrow> Inl e
                       | Inr datagram \<Rightarrow>
                           if length datagram > abr_max_datagram_size r
                           then Inl (pipeline_error ''QUIC datagram exceeds maximum size'')
                           else Inr datagram))))"

definition assemble_application_packet :: "application_packet_build_request \<Rightarrow> assembled_packet" where
  "assemble_application_packet r =
     (case abr_protector r of
        None \<Rightarrow> assembled (abr_number r) NoProtection (Inl (pipeline_error ''packet protector is required''))
      | Some p \<Rightarrow> assembled (abr_number r) (pp_level p)
          (case check_application_request r p of
             Inl e \<Rightarrow> Inl e
           | Inr _ \<Rightarrow>
               (case encode_frame_list (abr_frames r) [] of
                  Inl e \<Rightarrow> Inl e
                | Inr frame_bytes \<Rightarrow> seal_application_packet r p frame_bytes)))"

section \<open>Parsing\<close>

text \<open>A failed parse is represented by its error; the callers read nothing else of it.  In \<open>parse_short_packet\<close>,
  \<open>std::get<short_header>\<close> cannot fail: \<open>decode_short_header\<close> returns no other header.\<close>

definition open_frames ::
    "packet_protector \<Rightarrow> packet_header \<Rightarrow> packet_number \<Rightarrow> buffer \<Rightarrow> buffer \<Rightarrow> parsed_packet result" where
  "open_frames p header number associated_data payload =
     (case pp_unprotect p \<lparr>ctx_number = number, ctx_associated_data = associated_data\<rparr> payload of
        Inl e \<Rightarrow> Inl e
      | Inr plaintext \<Rightarrow>
          (case decode_frames plaintext of
             Inl e \<Rightarrow> Inl e
           | Inr frames \<Rightarrow> Inr \<lparr>ppk_header = header, ppk_number = number, ppk_space = pn_space number,
               ppk_protection = pp_level p, ppk_frames = frames\<rparr>))"

text \<open>Decode the header, with header protection removed from a copy of the datagram first.\<close>

definition unmask_long_datagram :: "buffer \<Rightarrow> packet_protector \<Rightarrow> (buffer \<times> packet_header) result" where
  "unmask_long_datagram datagram p =
     (case decode_packet_header datagram of
        Inl e \<Rightarrow> Inl e
      | Inr header \<Rightarrow>
          if pp_header_protection_enabled p then
            (case protected_payload_for header of
               None \<Rightarrow> Inl (pipeline_error ''unsupported packet type for header protection removal'')
             | Some masked_payload \<Rightarrow>
                 (case remove_long_header_protection datagram (length masked_payload) p of
                    Inl e \<Rightarrow> Inl e
                  | Inr unmasked \<Rightarrow>
                      (case decode_packet_header unmasked of
                         Inl e \<Rightarrow> Inl e
                       | Inr header \<Rightarrow> Inr (unmasked, header))))
          else Inr (datagram, header))"

definition parse_long_packet :: "buffer \<Rightarrow> packet_protector option \<Rightarrow> parsed_packet result" where
  "parse_long_packet datagram protector =
     (case protector of
        None \<Rightarrow> Inl (pipeline_error ''packet protector is required'')
      | Some p \<Rightarrow>
          (case validate_protection_policy p of
             Inl e \<Rightarrow> Inl e
           | Inr _ \<Rightarrow>
               (case unmask_long_datagram datagram p of
                  Inl e \<Rightarrow> Inl e
                | Inr (decoded_datagram, header) \<Rightarrow>
                    if \<not> is_initial_header header \<and> \<not> is_handshake_header header
                    then Inl (pipeline_error ''unsupported packet type for frame parsing'')
                    else if \<not> protection_level_matches_header header (pp_level p)
                    then Inl (pipeline_error ''packet protector level does not match decoded long-header packet type'')
                    else
                      (case protected_payload_for header of
                         None \<Rightarrow> Inl (pipeline_error ''packet payload is missing fixed packet number'')
                       | Some payload \<Rightarrow>
                           if length payload < minimum_packet_number_length
                           then Inl (pipeline_error ''packet payload is missing fixed packet number'')
                           else
                             let packet_number_length = unat (decoded_datagram ! 0 AND 0x03) + 1 in
                             if length payload < packet_number_length
                             then Inl (pipeline_error ''packet payload is missing packet number'')
                             else
                               let number = \<lparr>pn_space = space_for_header header,
                                     pn_value = read_packet_number (take packet_number_length payload)\<rparr>;
                                   associated_data =
                                     take (length decoded_datagram - length payload + packet_number_length)
                                       decoded_datagram
                               in open_frames p header number associated_data (drop packet_number_length payload)))))"

definition parse_short_packet :: "buffer \<Rightarrow> nat \<Rightarrow> packet_protector option \<Rightarrow> parsed_packet result" where
  "parse_short_packet datagram destination_connection_id_length protector =
     (case protector of
        None \<Rightarrow> Inl (pipeline_error ''packet protector is required'')
      | Some p \<Rightarrow>
          if \<not> application_protection_level_matches (pp_level p)
          then Inl (pipeline_error ''packet protector level does not match short-header packet'')
          else (case validate_protection_policy p of
              Inl e \<Rightarrow> Inl e
            | Inr _ \<Rightarrow>
                (case (if pp_header_protection_enabled p
                       then remove_short_header_protection datagram destination_connection_id_length p
                       else Inr datagram) of
                   Inl e \<Rightarrow> Inl e
                 | Inr decoded_datagram \<Rightarrow>
                     (case decode_short_header decoded_datagram destination_connection_id_length of
                        Inr (Short header) \<Rightarrow>
                          let number = \<lparr>pn_space = ApplicationSpace, pn_value = sh_truncated_packet_number header\<rparr>;
                              packet_number_offset = 1 + destination_connection_id_length;
                              associated_data =
                                take (packet_number_offset + sh_packet_number_length header) decoded_datagram
                          in open_frames p (Short header) number associated_data (sh_protected_payload header)
                      | Inr _ \<Rightarrow> Inl (packet_error ''short header expected'')
                      | Inl e \<Rightarrow> Inl e))))"

section \<open>Masking is its own inverse\<close>

lemma length_mask_packet_number [simp]: "length (mask_packet_number off n m d) = length d"
  by (induction n) (simp_all add: mask_packet_number_def)

lemma mask_packet_number_Nil [simp]: "mask_packet_number off n m d = [] \<longleftrightarrow> d = []"
  by (simp flip: length_0_conv)

lemma nth_mask_packet_number:
  "off + n \<le> length d \<Longrightarrow> j < length d \<Longrightarrow>
     mask_packet_number off n m d ! j = (if off \<le> j \<and> j < off + n then d ! j XOR m ! (j - off + 1) else d ! j)"
proof (induction n arbitrary: j)
  case 0
  then show ?case by (auto simp: mask_packet_number_def)
next
  case (Suc n)
  have step: "mask_packet_number off (Suc n) m d =
      (mask_packet_number off n m d)[off + n := mask_packet_number off n m d ! (off + n) XOR m ! (n + 1)]"
    by (simp add: mask_packet_number_def)
  show ?case
    using Suc.IH [of j] Suc.IH [of "off + n"] Suc.prems by (auto simp: step nth_list_update)
qed

definition mask_header :: "byte \<Rightarrow> nat \<Rightarrow> buffer \<Rightarrow> buffer \<Rightarrow> buffer" where
  "mask_header k off m d = mask_packet_number off fixed_packet_number_length m (d[0 := d ! 0 XOR (m ! 0 AND k)])"

lemma length_mask_header [simp]: "length (mask_header k off m d) = length d"
  by (simp add: mask_header_def)

lemma nth_mask_header:
  assumes "0 < off" and "off + 4 \<le> length d" and "j < length d"
  shows "mask_header k off m d ! j =
    (if j = 0 then d ! 0 XOR (m ! 0 AND k) else if off \<le> j \<and> j < off + 4 then d ! j XOR m ! (j - off + 1) else d ! j)"
  using assms by (cases d) (auto simp: mask_header_def nth_mask_packet_number fixed_packet_number_length_def nth_list_update)

lemma mask_header_twice:
  assumes "0 < off" and "off + 4 \<le> length d"
  shows "mask_header k off m (mask_header k off m d) = d"
  using assms by (intro nth_equalityI) (auto simp: nth_mask_header xor.assoc)

lemma drop_mask_header:
  assumes "0 < off" and "off + 4 \<le> length d"
  shows "drop (off + 4) (mask_header k off m d) = drop (off + 4) d"
  using assms by (intro nth_equalityI) (simp_all add: nth_mask_header)

lemma mask_header_split:
  assumes "0 < off" and "off + 4 \<le> length d"
  shows "mask_header k off m d = (d ! 0 XOR (m ! 0 AND k)) # drop 1 (take off d) @ drop off (mask_header k off m d)"
proof -
  have "take off (mask_header k off m d) = (d ! 0 XOR (m ! 0 AND k)) # drop 1 (take off d)"
    using assms by (intro nth_equalityI) (auto simp: nth_mask_header nth_Cons split: nat.splits)
  then show ?thesis using append_take_drop_id [of off "mask_header k off m d"] by simp
qed

lemma masked_bits:
  fixes b m :: byte
  shows "(b XOR (m AND 0x0f)) AND 0x80 = b AND 0x80" "(b XOR (m AND 0x0f)) AND 0x40 = b AND 0x40"
    "(b XOR (m AND 0x0f)) AND 0x30 = b AND 0x30"
  by (simp_all add: bit.conj_xor_distrib2 and.assoc)

lemma long_first_byte_masked [simp]: "long_first_byte (b XOR (m AND 0x0f)) ty = long_first_byte b ty"
  by (simp add: long_first_byte_def masked_bits)

lemma unat_low_bits_3: "unat (b AND 0x03) = 3 \<longleftrightarrow> (b :: byte) AND 0x03 = 0x03"
  by (auto simp: word_unat_eq_iff)

lemma pn_length_4: "unat (b AND 0x03) + 1 = fixed_packet_number_length \<longleftrightarrow> (b :: byte) AND 0x03 = 0x03"
  by (auto simp: fixed_packet_number_length_def unat_low_bits_3)

lemma apply_long_Inr:
  assumes "apply_long_header_protection d n p = Inr d'"
  obtains m where "n \<ge> 20" "n \<le> length d" "d ! 0 AND 0x03 = 0x03"
    "pp_header_protection_mask p (take 16 (drop (length d - n + 4) d)) = Inr m" "d' = mask_header 0x0f (length d - n) m d"
  using assms unfolding apply_long_header_protection_def Let_def
  by (auto simp: unat_low_bits_3 mask_header_def fixed_packet_number_length_def split: if_splits sum.splits)

lemma masked_low_bits:
  assumes "length d > 0" and "off > 0" and "off + 4 \<le> length d"
  shows "(mask_header k off m d) ! 0 XOR (m ! 0 AND k) = d ! 0"
  using assms by (simp add: nth_mask_header xor.assoc)

lemma remove_apply_long:
  assumes "apply_long_header_protection d n p = Inr d'" and "n < length d"
    and "pp_header_protection_mask q = pp_header_protection_mask p"
  shows "remove_long_header_protection d' n q = Inr d"
proof -
  obtain m where a: "n \<ge> 20" "n \<le> length d" "d ! 0 AND 0x03 = 0x03"
    "pp_header_protection_mask p (take 16 (drop (length d - n + 4) d)) = Inr m" and d': "d' = mask_header 0x0f (length d - n) m d"
    using apply_long_Inr [OF assms(1)] by blast
  let ?off = "length d - n"
  have off: "0 < ?off" "?off + 4 \<le> length d" using a(1,2) assms(2) by linarith+
  have sample: "drop (?off + 4) d' = drop (?off + 4) d" unfolding d' by (rule drop_mask_header [OF off])
  have first: "d' ! 0 XOR (m ! 0 AND 0x0f) = d ! 0" unfolding d' using off by (intro masked_low_bits) auto
  have ln: "length d' = length d" by (simp add: d')
  have undo: "mask_packet_number ?off 4 m (d'[0 := d' ! 0 XOR (m ! 0 AND 0x0f)]) = d"
    using mask_header_twice [OF off] unfolding d' by (simp add: mask_header_def fixed_packet_number_length_def)
  have first': "d'[0 := d' ! 0 XOR (m ! 0 AND 0x0f)] ! 0 = d ! 0" using first ln off by (cases d') auto
  have four: "unat (d ! 0 AND 0x03) = 3" using a(3) unat_low_bits_3 by blast
  show ?thesis
    using a(1,2,4) sample undo four assms(3)
    unfolding remove_long_header_protection_def Let_def
    by (simp add: ln first' minimum_packet_number_length_def fixed_packet_number_length_def)
qed

lemma apply_short_Inr:
  assumes "apply_short_header_protection d n p = Inr d'"
  obtains m where "21 + n \<le> length d" "d ! 0 AND 0x03 = 0x03"
    "pp_header_protection_mask p (take 16 (drop (5 + n) d)) = Inr m" "d' = mask_header 0x1f (Suc n) m d"
  using assms unfolding apply_short_header_protection_def Let_def
  by (auto simp: unat_low_bits_3 mask_header_def fixed_packet_number_length_def split: if_splits sum.splits)

lemma remove_apply_short:
  assumes "apply_short_header_protection d n p = Inr d'"
    and "pp_header_protection_mask q = pp_header_protection_mask p"
  shows "remove_short_header_protection d' n q = Inr d"
proof -
  obtain m where a: "21 + n \<le> length d" "d ! 0 AND 0x03 = 0x03"
    "pp_header_protection_mask p (take 16 (drop (5 + n) d)) = Inr m" and d': "d' = mask_header 0x1f (Suc n) m d"
    using apply_short_Inr [OF assms(1)] by blast
  have off: "0 < Suc n" "Suc n + 4 \<le> length d" using a(1) by linarith+
  have sample: "drop (5 + n) d' = drop (5 + n) d" using drop_mask_header [OF off] unfolding d' by simp
  have first: "d' ! 0 XOR (m ! 0 AND 0x1f) = d ! 0" unfolding d' using off by (intro masked_low_bits) auto
  have ln: "length d' = length d" by (simp add: d')
  have undo: "mask_packet_number (Suc n) 4 m (d'[0 := d' ! 0 XOR (m ! 0 AND 0x1f)]) = d"
    using mask_header_twice [OF off] unfolding d' by (simp add: mask_header_def fixed_packet_number_length_def)
  have first': "d'[0 := d' ! 0 XOR (m ! 0 AND 0x1f)] ! 0 = d ! 0" using first ln off by (cases d') auto
  have four: "unat (d ! 0 AND 0x03) = 3" using a(2) unat_low_bits_3 by blast
  show ?thesis
    using a(1,3) sample undo four assms(2)
    unfolding remove_short_header_protection_def Let_def
    by (simp add: ln first' minimum_packet_number_length_def fixed_packet_number_length_def)
qed

section \<open>Long headers with a free first byte and payload\<close>

definition long_header_with ::
    "long_packet_type \<Rightarrow> byte \<Rightarrow> u32 \<Rightarrow> connection_id \<Rightarrow> connection_id \<Rightarrow> buffer \<Rightarrow> buffer \<Rightarrow> packet_header" where
  "long_header_with t b version dcid scid token payload =
     (if t = LongInitial
      then Initial \<lparr>ih_first_byte = b, ih_version = version, ih_destination_connection_id = dcid,
             ih_source_connection_id = scid, ih_token = token, ih_length = length payload, ih_protected_payload = payload\<rparr>
      else Handshake \<lparr>hh_first_byte = b, hh_version = version, hh_destination_connection_id = dcid,
             hh_source_connection_id = scid, hh_length = length payload, hh_protected_payload = payload\<rparr>)"

text \<open>The bytes between the first byte and the payload.\<close>

definition long_prefix :: "long_packet_type \<Rightarrow> u32 \<Rightarrow> connection_id \<Rightarrow> connection_id \<Rightarrow> buffer \<Rightarrow> nat \<Rightarrow> buffer" where
  "long_prefix t version dcid scid token len =
     u32_bytes version @ cid_encoding dcid @ cid_encoding scid @
     (if t = LongInitial then varint_bytes (length token) @ token else []) @ varint_bytes len"

definition long_encodable :: "long_packet_type \<Rightarrow> connection_id \<Rightarrow> connection_id \<Rightarrow> buffer \<Rightarrow> nat \<Rightarrow> bool" where
  "long_encodable t dcid scid token len \<longleftrightarrow>
     length (cid_bytes dcid) \<le> 255 \<and> length (cid_bytes scid) \<le> 255 \<and> len \<le> max_varint \<and>
     (t = LongInitial \<longrightarrow> length token \<le> max_varint)"

lemma append_connection_id_eq:
  "append_connection_id output cid = (if length (cid_bytes cid) \<le> 255 then Some (output @ cid_encoding cid) else None)"
  by (simp add: append_connection_id_def cid_encoding_def)

lemma append_varint_to_packet_eq:
  "append_varint_to_packet buf v = (if v \<le> max_varint then Some (buf @ varint_bytes v) else None)"
proof (cases "append_varint_to_packet buf v")
  case None
  then show ?thesis using append_varint_to_packet_Some [of buf v "buf @ varint_bytes v"] by (auto split: if_splits)
next
  case (Some out)
  then show ?thesis by (simp only: append_varint_to_packet_Some) simp
qed

lemma encode_long_header_with:
  "encode_packet_header (long_header_with t b v d s token payload) = Inr bs \<longleftrightarrow>
     long_encodable t d s token (length payload) \<and> bs = b # long_prefix t v d s token (length payload) @ payload"
  by (cases t)
    (auto simp: long_header_with_def encode_initial_def encode_handshake_def append_u32_eq Let_def long_encodable_def
      long_prefix_def append_connection_id_eq append_varint_to_packet_eq)

lemma encode_long_header_for:
  "encode_packet_header (long_header_for t v d s token len payload) = Inr bs \<longleftrightarrow>
     len = length payload \<and> long_encodable t d s token len \<and>
     bs = long_header_first_byte t # long_prefix t v d s token len @ payload"
proof (cases "len = length payload")
  case True
  then have "long_header_for t v d s token len payload = long_header_with t (long_header_first_byte t) v d s token payload"
    by (simp add: long_header_for_def long_header_with_def)
  with True show ?thesis by (simp add: encode_long_header_with)
next
  case False
  then show ?thesis by (cases t) (simp_all add: long_header_for_def encode_initial_def encode_handshake_def)
qed

definition long_type_bits :: "long_packet_type \<Rightarrow> byte" where
  "long_type_bits t = (if t = LongInitial then 0x00 else 0x20)"

lemma long_first_byte_type [simp]: "long_first_byte (long_header_first_byte t) (long_type_bits t)"
  by (cases t) (simp_all add: long_first_byte_def long_type_bits_def)

lemma decode_long_header_with:
  assumes "long_encodable t d s token (length payload)" and "long_first_byte b (long_type_bits t)" and "v \<noteq> 0"
  shows "decode_packet_header (b # long_prefix t v d s token (length payload) @ payload) =
    Inr (long_header_with t b v d s token payload)"
proof -
  have "encode_packet_header (long_header_with t b v d s token payload) =
      Inr (b # long_prefix t v d s token (length payload) @ payload)"
    using assms(1) by (simp add: encode_long_header_with)
  then show ?thesis using assms(2,3) initial_roundtrip handshake_roundtrip
    by (cases t) (simp_all add: long_header_with_def long_type_bits_def)
qed

section \<open>What is assembled is parsed back\<close>

text \<open>What the receiver's protector promises about the sender's: the same level and header mask, and that it opens what
  the sender sealed under the same packet number and associated data.\<close>

definition paired :: "packet_protector \<Rightarrow> packet_protector \<Rightarrow> bool" where
  "paired tx rx \<longleftrightarrow> pp_level rx = pp_level tx \<and> production_protection_satisfied rx \<and>
     pp_header_protection_enabled rx = pp_header_protection_enabled tx \<and>
     pp_header_protection_mask rx = pp_header_protection_mask tx \<and>
     (\<forall>c plain sealed. plain \<noteq> [] \<longrightarrow> pp_protect tx c plain = Inr sealed \<longrightarrow> pp_unprotect rx c sealed = Inr plain)"

lemma append_packet_number_be: "append_packet_number [] v = be_bytes 4 v"
  using packet_number_bytes_be [of v 4] by (simp add: packet_number_bytes_def append_packet_number_def upt_rec)

lemma read_packet_number_be: "v \<le> 0xffffffff \<Longrightarrow> read_packet_number (be_bytes 4 v) = v"
  using foldl_shl_be [of "be_bytes 4 v"] by (simp add: read_packet_number_def be_val_be_bytes)

lemma low_bits_first_byte [simp]: "long_header_first_byte t AND 0x03 = 0x03"
  by (cases t) simp_all

lemma long_header_with_simps [simp]:
  "protected_payload_for (long_header_with t b v d s token payload) = Some payload"
  "is_initial_header (long_header_with t b v d s token payload) \<longleftrightarrow> t = LongInitial"
  "is_handshake_header (long_header_with t b v d s token payload) \<longleftrightarrow> t = LongHandshake"
  by (cases t; simp add: long_header_with_def)+

lemma unmask_long_plain:
  assumes "long_encodable t d s token (length payload)" and "v \<noteq> 0" and "\<not> pp_header_protection_enabled rx"
    and e_def: "e = long_header_first_byte t # long_prefix t v d s token (length payload) @ payload"
  shows "unmask_long_datagram e rx = Inr (e, long_header_with t (long_header_first_byte t) v d s token payload)"
  using decode_long_header_with [OF assms(1) long_first_byte_type assms(2)] assms(3)
  by (simp add: unmask_long_datagram_def e_def)

lemma unmask_long_masked:
  assumes ok: "long_encodable t d s token (length payload)" and v: "v \<noteq> 0" and en: "pp_header_protection_enabled rx"
    and msk: "pp_header_protection_mask rx = pp_header_protection_mask tx"
    and app: "apply_long_header_protection e (length payload) tx = Inr d'"
    and e_def: "e = long_header_first_byte t # long_prefix t v d s token (length payload) @ payload"
  shows "unmask_long_datagram d' rx = Inr (e, long_header_with t (long_header_first_byte t) v d s token payload)"
proof -
  let ?pre = "long_prefix t v d s token (length payload)"
  obtain m where n: "20 \<le> length payload" and d': "d' = mask_header 0x0f (length e - length payload) m e"
    using apply_long_Inr [OF app] by blast
  have off: "length e - length payload = Suc (length ?pre)" by (simp add: e_def)
  let ?b = "long_header_first_byte t XOR (m ! 0 AND 0x0f)" and ?payload = "drop (Suc (length ?pre)) d'"
  have lp: "length ?payload = length payload" by (simp add: d') (simp add: e_def)
  have "Suc (length ?pre) + 4 \<le> length e" using n by (simp add: e_def)
  then have split: "d' = ?b # ?pre @ ?payload"
    using mask_header_split [of "Suc (length ?pre)" e "0x0f" m] by (simp add: d' off) (simp add: e_def)
  have dec: "decode_packet_header d' = Inr (long_header_with t ?b v d s token ?payload)"
    using decode_long_header_with [of t d s token ?payload ?b v] ok v split lp by simp
  have rem: "remove_long_header_protection d' (length payload) rx = Inr e"
    using remove_apply_long [OF app _ msk] by (simp add: e_def)
  have dec': "decode_packet_header e = Inr (long_header_with t (long_header_first_byte t) v d s token payload)"
    using decode_long_header_with [OF ok long_first_byte_type v] by (simp add: e_def)
  show ?thesis using dec rem dec' en lp by (simp add: unmask_long_datagram_def)
qed

lemma seal_long_Inr:
  assumes "seal_long_packet r tx fb = Inr dg"
  obtains sealed payload where
    "payload = be_bytes 4 (pn_value (br_number r)) @ sealed"
    "length payload = fixed_packet_number_length + length fb + pp_protection_overhead tx"
    "long_encodable (br_type r) (br_destination_connection_id r) (br_source_connection_id r) (br_token r) (length payload)"
    "pp_protect tx \<lparr>ctx_number = br_number r, ctx_associated_data = long_header_first_byte (br_type r) #
       long_prefix (br_type r) (br_version r) (br_destination_connection_id r) (br_source_connection_id r) (br_token r)
         (length payload) @ be_bytes 4 (pn_value (br_number r))\<rparr> fb = Inr sealed"
    "(if pp_header_protection_enabled tx
      then apply_long_header_protection (long_header_first_byte (br_type r) #
       long_prefix (br_type r) (br_version r) (br_destination_connection_id r) (br_source_connection_id r) (br_token r)
         (length payload) @ payload) (length payload) tx
      else Inr (long_header_first_byte (br_type r) #
       long_prefix (br_type r) (br_version r) (br_destination_connection_id r) (br_source_connection_id r) (br_token r)
         (length payload) @ payload)) = Inr dg"
    "length dg \<le> br_max_datagram_size r"
  using assms unfolding seal_long_packet_def Let_def append_packet_number_be
  by (auto simp: encode_long_header_for split: sum.splits if_splits)

lemma take_prefix: "e = a @ b \<Longrightarrow> n = length a \<Longrightarrow> take n e = a"
  by simp

lemma decoded_nonempty: "decode_frames fb = Inr fs \<Longrightarrow> fb \<noteq> []"
  by (auto simp: decode_frames_def)

lemma parse_sealed_long:
  assumes seal: "seal_long_packet r tx fb = Inr dg" and chk: "check_long_request r tx = Inr ()" and pair: "paired tx rx"
    and v: "br_version r \<noteq> 0" and fr: "decode_frames fb = Inr fs"
  shows "\<exists>payload. parse_long_packet dg (Some rx) =
    Inr \<lparr>ppk_header = long_header_with (br_type r) (long_header_first_byte (br_type r)) (br_version r)
           (br_destination_connection_id r) (br_source_connection_id r) (br_token r) payload,
         ppk_number = br_number r, ppk_space = pn_space (br_number r), ppk_protection = pp_level tx, ppk_frames = fs\<rparr>"
proof -
  let ?t = "br_type r" and ?d = "br_destination_connection_id r" and ?s = "br_source_connection_id r"
  let ?pn = "be_bytes 4 (pn_value (br_number r))"
  obtain sealed payload where pl: "payload = ?pn @ sealed"
    and enc: "long_encodable ?t ?d ?s (br_token r) (length payload)"
    and sealed: "pp_protect tx \<lparr>ctx_number = br_number r, ctx_associated_data = long_header_first_byte ?t #
       long_prefix ?t (br_version r) ?d ?s (br_token r) (length payload) @ ?pn\<rparr> fb = Inr sealed"
    and dg: "(if pp_header_protection_enabled tx
      then apply_long_header_protection (long_header_first_byte ?t #
       long_prefix ?t (br_version r) ?d ?s (br_token r) (length payload) @ payload) (length payload) tx
      else Inr (long_header_first_byte ?t #
       long_prefix ?t (br_version r) ?d ?s (br_token r) (length payload) @ payload)) = Inr dg"
    using seal_long_Inr [OF seal] by metis
  define e where "e = long_header_first_byte ?t # long_prefix ?t (br_version r) ?d ?s (br_token r) (length payload) @ payload"
  let ?h = "long_header_with ?t (long_header_first_byte ?t) (br_version r) ?d ?s (br_token r) payload"
  have un: "unmask_long_datagram dg rx = Inr (e, ?h)"
  proof (cases "pp_header_protection_enabled tx")
    case True
    then show ?thesis using unmask_long_masked [OF enc v _ _ _ e_def, of rx tx dg] dg pair
      by (simp add: paired_def e_def)
  next
    case False
    then show ?thesis using unmask_long_plain [OF enc v _ e_def, of rx] dg pair by (simp add: paired_def e_def)
  qed
  have lvl: "protection_level_matches_header ?h (pp_level rx)" and sp: "space_for_header ?h = pn_space (br_number r)"
    and val: "pn_value (br_number r) \<le> 0xffffffff"
    using chk pair by (auto simp: check_long_request_def paired_def protection_level_matches_header_def
        protection_level_matches_def expected_protection_for_def expected_protection_for_header_def space_for_def
        space_for_header_def split: if_splits)
  have pol: "validate_protection_policy rx = Inr ()" using pair by (simp add: paired_def validate_protection_policy_def)
  have four: "unat (e ! 0 AND 0x03) = 3" by (simp add: e_def)
  have num: "\<lparr>pn_space = pn_space (br_number r), pn_value = read_packet_number (take 4 payload)\<rparr> = br_number r"
    using read_packet_number_be [OF val] by (simp add: pl)
  let ?a = "long_header_first_byte ?t # long_prefix ?t (br_version r) ?d ?s (br_token r) (length payload) @ ?pn"
  have "e = ?a @ sealed" "length e - length payload + 4 = length ?a" by (simp_all add: e_def pl)
  then have aad: "take (length e - length payload + 4) e = ?a" by (rule take_prefix)
  have opn: "open_frames rx ?h (br_number r) (long_header_first_byte ?t #
       long_prefix ?t (br_version r) ?d ?s (br_token r) (length payload) @ ?pn) sealed =
    Inr \<lparr>ppk_header = ?h, ppk_number = br_number r, ppk_space = pn_space (br_number r), ppk_protection = pp_level tx, ppk_frames = fs\<rparr>"
    using sealed pair fr decoded_nonempty [OF fr] by (simp add: open_frames_def paired_def)
  have ty: "?t = LongInitial \<or> ?t = LongHandshake" by (cases ?t) auto
  have "parse_long_packet dg (Some rx) =
    Inr \<lparr>ppk_header = ?h, ppk_number = br_number r, ppk_space = pn_space (br_number r), ppk_protection = pp_level tx, ppk_frames = fs\<rparr>"
    using un lvl sp pol four num aad opn ty
    by (auto simp: parse_long_packet_def Let_def minimum_packet_number_length_def pl)
  then show ?thesis by blast
qed

lemma encode_frame_list_Inr:
  "encode_frame_list fs acc = Inr bs \<Longrightarrow> \<exists>bss. list_all2 (\<lambda>f bs. encode_frame f = Inr bs) fs bss \<and> bs = acc @ concat bss"
proof (induction fs arbitrary: acc)
  case Nil
  then show ?case by simp
next
  case (Cons f fs)
  then obtain b where b: "encode_frame f = Inr b" and r: "encode_frame_list fs (acc @ b) = Inr bs"
    by (auto split: sum.splits)
  from Cons.IH [OF r] obtain bss where "list_all2 (\<lambda>f bs. encode_frame f = Inr bs) fs bss" "bs = acc @ b @ concat bss" by auto
  with b show ?case by (intro exI [of _ "b # bss"]) simp
qed

definition padding :: "nat \<Rightarrow> frame list" where
  "padding k = (if k = 0 then [] else [PaddingFrame k])"

lemma frames_ok_padding:
  "frames_ok (fs @ [PaddingFrame k]) \<Longrightarrow> frames_ok (fs @ padding n)"
proof (induction fs rule: frames_ok.induct)
  case 1
  then show ?case by (simp add: padding_def)
next
  case (2 f)
  then show ?case by (auto simp: padding_def)
next
  case (3 f g fs)
  then show ?case by auto
qed

lemma decode_padded:
  assumes "encode_frame_list fs [] = Inr bs" and "fs \<noteq> []" and "frames_ok (fs @ padding k)"
  shows "decode_frames (bs @ replicate k 0) = Inr (fs @ padding k)"
proof -
  obtain bss where b: "list_all2 (\<lambda>f bs. encode_frame f = Inr bs) fs bss" "bs = concat bss"
    using encode_frame_list_Inr [OF assms(1)] by auto
  let ?tail = "if k = 0 then [] else [replicate k 0]"
  have "list_all2 (\<lambda>f bs. encode_frame f = Inr bs) (fs @ padding k) (bss @ ?tail)"
    using b(1) by (auto simp: padding_def intro!: list_all2_appendI)
  moreover have "concat (bss @ ?tail) = bs @ replicate k 0" by (simp add: b(2))
  moreover have "concat (bss @ ?tail) \<noteq> []"
  proof -
    obtain f fs' b0 bss' where f: "fs = f # fs'" "bss = b0 # bss'" "encode_frame f = Inr b0"
      using assms(2) b(1) by (cases fs) (auto simp: list_all2_Cons1)
    then have "frame_wf f" using frames_ok_ConsD [of f "fs' @ padding k"] assms(3) by simp
    from encode_frame_first_byte(1) [OF f(3) this] f show ?thesis by simp
  qed
  ultimately show ?thesis
    using decode_frames_loop_encode [OF _ assms(3) at_bytes_start, of "bss @ ?tail" "[]"]
    by (simp add: decode_frames_def)
qed

section \<open>The padding loop\<close>

text \<open>\<open>sizes_as sizing a\<close>: the sizing header of a payload of \<open>n\<close> bytes has \<open>a + varint_len n + n\<close> bytes.\<close>

definition sizes_as :: "(nat \<Rightarrow> buffer result) \<Rightarrow> nat \<Rightarrow> bool" where
  "sizes_as sizing a \<longleftrightarrow> (\<forall>n \<le> max_varint. \<exists>h. sizing n = Inr h \<and> length h = a + varint_len n + n)"

lemma sizes_asD: "sizes_as sizing a \<Longrightarrow> n \<le> max_varint \<Longrightarrow> \<exists>h. sizing n = Inr h \<and> length h = a + varint_len n + n"
  by (simp add: sizes_as_def)

lemma pad_step:
  assumes "sizes_as sizing a" and "4 + length fb + ov \<le> max_varint"
  defines "L \<equiv> 4 + length fb + ov"
  shows "pad_initial_loop sizing ov fb k =
    (if a + varint_len L + L = 1200 then Some (Inr fb)
     else if a + varint_len L + L > 1200 then
       (if a + varint_len L + L - 1200 > k
        then Some (Inl (pipeline_error ''client Initial datagram exceeds minimum before padding''))
        else pad_initial_loop sizing ov (take (length fb - (a + varint_len L + L - 1200)) fb) (k - (a + varint_len L + L - 1200)))
     else pad_initial_loop sizing ov (fb @ replicate (1200 - (a + varint_len L + L)) 0) (k + (1200 - (a + varint_len L + L))))"
proof -
  obtain h where h: "sizing L = Inr h" "length h = a + varint_len L + L"
    using assms(1,2) by (auto simp: sizes_as_def L_def)
  show ?thesis
    by (subst pad_initial_loop.simps)
      (simp add: fixed_packet_number_length_def minimum_client_initial_datagram_size_def L_def [symmetric] h Let_def)
qed

lemma pad_done:
  assumes "sizes_as sizing a" and "4 + length fb + ov \<le> max_varint"
    and "a + varint_len (4 + length fb + ov) + (4 + length fb + ov) = 1200"
  shows "pad_initial_loop sizing ov fb k = Some (Inr fb)"
  using pad_step [OF assms(1,2), of k] assms(3) by simp

text \<open>The length field of the header grows from one to two bytes at 64 bytes of payload.  A client Initial whose other
  header fields take 1135 bytes is one byte short with 63 bytes of payload and one byte long with 64: the loop adds and
  removes that byte for ever.\<close>

definition padding_stuck :: "nat \<Rightarrow> nat \<Rightarrow> bool" where
  "padding_stuck a len \<longleftrightarrow> a = 1135 \<and> len \<le> 63"

lemma varint_len_small: "n \<le> 63 \<Longrightarrow> varint_len n = 1" "63 < n \<Longrightarrow> n \<le> 16383 \<Longrightarrow> varint_len n = 2"
  by (simp_all add: varint_len_def)

lemma pad_terminates:
  assumes sz: "sizes_as sizing a" and lt: "a + varint_len (4 + length fb + ov) + (4 + length fb + ov) < 1200"
    and ns: "\<not> padding_stuck a (4 + length fb + ov)"
  shows "\<exists>n. pad_initial_loop sizing ov fb 0 = Some (Inr (fb @ replicate n 0)) \<and>
    a + varint_len (4 + length fb + n + ov) + (4 + length fb + n + ov) = 1200"
proof -
  define L where "L = 4 + length fb + ov"
  define n where "n = 1200 - (a + varint_len L + L)"
  have bnd: "L \<le> max_varint" "L + n \<le> max_varint" "L + n \<le> 16383" "0 < n"
    using lt by (simp_all add: L_def n_def max_varint_def)
  have one: "pad_initial_loop sizing ov fb 0 = pad_initial_loop sizing ov (fb @ replicate n 0) n"
    using pad_step [OF sz, of fb ov 0] lt bnd(1) by (simp add: L_def n_def)
  have L1: "4 + length (fb @ replicate n 0) + ov = L + n" by (simp add: L_def)
  have total0: "a + varint_len L + (L + n) = 1200" using lt by (simp add: n_def L_def)
  show ?thesis
  proof (cases "varint_len (L + n) = varint_len L")
    case True
    then have "pad_initial_loop sizing ov (fb @ replicate n 0) n = Some (Inr (fb @ replicate n 0))"
      using total0 by (intro pad_done [OF sz]) (simp_all only: L1 True bnd)
    then show ?thesis using one True lt by (intro exI [of _ n]) (simp add: L_def n_def ac_simps)
  next
    case False
    then have small: "L \<le> 63" "63 < L + n" "varint_len L = 1" "varint_len (L + n) = 2"
      using bnd(3) by (auto simp: varint_len_def split: if_splits)
    then have size: "a + varint_len (L + n) + (L + n) = 1201" using lt by (simp add: n_def L_def)
    have trim: "take (length (fb @ replicate n 0) - 1) (fb @ replicate n (0::byte)) = fb @ replicate (n - 1) 0"
      using bnd(4) by (simp add: min_def)
    have two: "pad_initial_loop sizing ov (fb @ replicate n 0) n = pad_initial_loop sizing ov (fb @ replicate (n - 1) 0) (n - 1)"
      using pad_step [OF sz, of "fb @ replicate n 0" ov n] bnd size trim by (simp add: L1 del: length_append)
    have "L + n \<noteq> 64" using ns small(1) size small(4) by (simp add: padding_stuck_def L_def [symmetric])
    then have len: "varint_len (L + (n - 1)) = 2" "L + (n - 1) = L + n - 1"
      using small(2) bnd(3,4) by (auto simp: varint_len_def)
    have L2: "4 + length (fb @ replicate (n - 1) 0) + ov = L + (n - 1)" by (simp add: L_def)
    have "pad_initial_loop sizing ov (fb @ replicate (n - 1) 0) (n - 1) = Some (Inr (fb @ replicate (n - 1) 0))"
      using bnd size len small(4) by (intro pad_done [OF sz]; simp only: L2)
    then show ?thesis using one two size len small(4) bnd(4) by (intro exI [of _ "n - 1"]) (simp add: L_def ac_simps)
  qed
qed

lemma pad_exceeds:
  assumes "sizes_as sizing a" and "4 + length fb + ov \<le> max_varint"
    and "1200 < a + varint_len (4 + length fb + ov) + (4 + length fb + ov)"
  shows "pad_initial_loop sizing ov fb 0 = Some (Inl (pipeline_error ''client Initial datagram exceeds minimum before padding''))"
  using pad_step [OF assms(1,2), of 0] assms(3) by simp

lemma pad_stuck:
  assumes sz: "sizes_as sizing 1135"
  shows "(4 + length fb + ov \<le> 63 \<or> 4 + length fb + ov = 64 \<and> 0 < k) \<and> k \<le> length fb \<Longrightarrow> pad_initial_loop sizing ov fb k = None"
proof -
  define bad where "bad = (\<lambda>s v b j (y :: buffer result). s = sizing \<longrightarrow>
      \<not> ((4 + length (b :: buffer) + v \<le> 63 \<or> 4 + length b + v = 64 \<and> 0 < (j :: nat)) \<and> j \<le> length b))"
  have "bad sizing ov fb k y" if "pad_initial_loop sizing ov fb k = Some y" for y
    using _ that
  proof (rule pad_initial_loop.raw_induct [where P = bad])
    fix f sz' ov fb k y
    assume ih: "\<And>s v b j y. f s v b j = Some y \<Longrightarrow> bad s v b j y"
      and body: "(case sz' (fixed_packet_number_length + length fb + ov) of
        Inl e \<Rightarrow> Some (Inl e)
      | Inr sizing_header \<Rightarrow>
          if length sizing_header = minimum_client_initial_datagram_size then Some (Inr fb)
          else if length sizing_header > minimum_client_initial_datagram_size then
            (let excess = length sizing_header - minimum_client_initial_datagram_size in
             if excess > k
             then Some (Inl (pipeline_error ''client Initial datagram exceeds minimum before padding''))
             else f sz' ov (take (length fb - excess) fb) (k - excess))
          else
            (let padding_bytes = minimum_client_initial_datagram_size - length sizing_header in
             f sz' ov (fb @ replicate padding_bytes 0) (k + padding_bytes))) = Some y"
    show "bad sz' ov fb k y"
      unfolding bad_def
    proof (intro impI notI)
      assume sz': "sz' = sizing"
      assume st: "(4 + length fb + ov \<le> 63 \<or> 4 + length fb + ov = 64 \<and> 0 < k) \<and> k \<le> length fb"
      let ?L = "4 + length fb + ov"
      have "?L \<le> max_varint" using st by (auto simp: max_varint_def)
      then obtain h where h: "sizing ?L = Inr h" "length h = 1135 + varint_len ?L + ?L"
        using sizes_asD [OF sz] by blast
      from st consider "?L \<le> 63" | "?L = 64" "0 < k" by blast
      then show False
      proof cases
        case 1
        define n where "n = 1200 - length h"
        have "length h < 1200" "?L + n = 64" "0 < n" using 1 h(2) by (simp_all add: varint_len_small(1) n_def)
        moreover have "f sizing ov (fb @ replicate n 0) (k + n) = Some y"
          using body sz' h(1) \<open>length h < 1200\<close>
          by (simp add: fixed_packet_number_length_def minimum_client_initial_datagram_size_def n_def)
        from ih [OF this] have "\<not> (4 + length (fb @ replicate n (0::byte)) + ov = 64 \<and> 0 < k + n \<and> k + n \<le> length (fb @ replicate n (0::byte)))"
          unfolding bad_def by blast
        ultimately show ?thesis using st by simp
      next
        case 2
        then have "length h = 1201" using h(2) varint_len_small(2) [of ?L] by simp
        then have "f sizing ov (take (length fb - 1) fb) (k - 1) = Some y"
          using body sz' h(1) 2(2)
          by (simp add: fixed_packet_number_length_def minimum_client_initial_datagram_size_def)
        from ih [OF this] have "\<not> (4 + length (take (length fb - 1) fb) + ov \<le> 63 \<and> k - 1 \<le> length (take (length fb - 1) fb))"
          unfolding bad_def by blast
        then show ?thesis using 2 st by (auto simp: min_def split: if_splits)
      qed
    qed
  qed
  then show "(4 + length fb + ov \<le> 63 \<or> 4 + length fb + ov = 64 \<and> 0 < k) \<and> k \<le> length fb \<Longrightarrow> pad_initial_loop sizing ov fb k = None"
    by (cases "pad_initial_loop sizing ov fb k") (auto simp: bad_def)
qed

text \<open>The bytes of an Initial header without its length field.\<close>

definition initial_fields_size :: "packet_build_request \<Rightarrow> nat" where
  "initial_fields_size r =
     5 + (1 + length (cid_bytes (br_destination_connection_id r))) + (1 + length (cid_bytes (br_source_connection_id r))) +
     varint_len (length (br_token r)) + length (br_token r)"

definition initial_ids_ok :: "packet_build_request \<Rightarrow> bool" where
  "initial_ids_ok r \<longleftrightarrow> length (cid_bytes (br_destination_connection_id r)) \<le> 255 \<and>
     length (cid_bytes (br_source_connection_id r)) \<le> 255 \<and> length (br_token r) \<le> max_varint"

lemma length_cid_encoding [simp]: "length (cid_encoding c) = Suc (length (cid_bytes c))"
  by (simp add: cid_encoding_def)

lemma sizing_header:
  "encode_long_packet_sizing_header LongInitial v d s token n = Inr h \<longleftrightarrow>
     long_encodable LongInitial d s token n \<and>
     h = long_header_first_byte LongInitial # long_prefix LongInitial v d s token n @ replicate n 0"
  by (simp add: encode_long_packet_sizing_header_def encode_long_header_for)

abbreviation request_sizing :: "packet_build_request \<Rightarrow> nat \<Rightarrow> buffer result" where
  "request_sizing r \<equiv> encode_long_packet_sizing_header LongInitial (br_version r) (br_destination_connection_id r)
     (br_source_connection_id r) (br_token r)"

lemma sizing_sizes_as: "initial_ids_ok r \<Longrightarrow> sizes_as (request_sizing r) (initial_fields_size r)"
  unfolding sizes_as_def
proof (intro allI impI exI conjI)
  fix n
  assume "initial_ids_ok r" and "n \<le> max_varint"
  then show "request_sizing r n = Inr (long_header_first_byte LongInitial # long_prefix LongInitial (br_version r)
      (br_destination_connection_id r) (br_source_connection_id r) (br_token r) n @ replicate n 0)"
    by (intro sizing_header [THEN iffD2]) (simp add: long_encodable_def initial_ids_ok_def)
  show "length (long_header_first_byte LongInitial # long_prefix LongInitial (br_version r)
      (br_destination_connection_id r) (br_source_connection_id r) (br_token r) n @ replicate n 0) =
    initial_fields_size r + varint_len n + n"
    by (simp add: initial_fields_size_def long_prefix_def)
qed

lemma sizing_fails:
  assumes "\<not> initial_ids_ok r \<or> max_varint < n"
  shows "\<exists>e. request_sizing r n = Inl e"
proof (cases "request_sizing r n")
  case (Inr h)
  with assms sizing_header [THEN iffD1, OF Inr] show ?thesis by (auto simp: long_encodable_def initial_ids_ok_def)
qed simp

text \<open>What the padding loop returns for a request.\<close>

lemma pad_loop_request:
  assumes "br_type r = LongInitial"
  defines "run \<equiv> \<lambda>ov fb. pad_initial_loop (request_sizing r) ov fb 0"
  shows "run ov fb = None \<longleftrightarrow> initial_ids_ok r \<and> padding_stuck (initial_fields_size r) (4 + length fb + ov)"
    and "run ov fb = Some (Inr fb') \<Longrightarrow> initial_ids_ok r \<and> (\<exists>n. fb' = fb @ replicate n 0) \<and>
      initial_fields_size r + varint_len (4 + length fb' + ov) + (4 + length fb' + ov) = 1200"
proof -
  let ?L = "4 + length fb + ov" and ?a = "initial_fields_size r"
  consider (bad) "\<not> initial_ids_ok r \<or> max_varint < ?L"
    | (fits) "initial_ids_ok r" "?a + varint_len ?L + ?L = 1200"
    | (big) "initial_ids_ok r" "?L \<le> max_varint" "1200 < ?a + varint_len ?L + ?L"
    | (stuck) "initial_ids_ok r" "padding_stuck ?a ?L"
    | (pad) "initial_ids_ok r" "\<not> padding_stuck ?a ?L" "?a + varint_len ?L + ?L < 1200"
    by linarith
  then have "(run ov fb = None \<longleftrightarrow> initial_ids_ok r \<and> padding_stuck ?a ?L) \<and>
     (\<forall>fb'. run ov fb = Some (Inr fb') \<longrightarrow> initial_ids_ok r \<and> (\<exists>n. fb' = fb @ replicate n 0) \<and>
      ?a + varint_len (4 + length fb' + ov) + (4 + length fb' + ov) = 1200)"
  proof cases
    case bad
    then obtain e where "request_sizing r ?L = Inl e" using sizing_fails by blast
    then have "run ov fb = Some (Inl e)"
      unfolding run_def by (subst pad_initial_loop.simps) (simp add: fixed_packet_number_length_def)
    then show ?thesis using bad by (auto simp: padding_stuck_def max_varint_def)
  next
    case fits
    then have "?L \<le> max_varint" by (simp add: max_varint_def)
    from pad_done [OF sizing_sizes_as [OF fits(1)] this fits(2)] have "run ov fb = Some (Inr fb)" by (simp add: run_def)
    moreover have "fb = fb @ replicate 0 0" by simp
    ultimately show ?thesis using fits varint_len_small(1) [of ?L] by (auto simp: padding_stuck_def simp del: replicate_0)
  next
    case big
    have "\<not> padding_stuck ?a ?L" using big(3) varint_len_small(1) [of ?L] by (auto simp: padding_stuck_def)
    then show ?thesis using pad_exceeds [OF sizing_sizes_as [OF big(1)] big(2,3)] by (simp add: run_def)
  next
    case stuck
    then have "sizes_as (request_sizing r) 1135" using sizing_sizes_as [OF stuck(1)] by (simp add: padding_stuck_def)
    from pad_stuck [OF this, of fb ov 0] stuck show ?thesis by (simp add: run_def padding_stuck_def)
  next
    case pad
    from pad_terminates [OF sizing_sizes_as [OF pad(1)] pad(3,2)] obtain n where
      "run ov fb = Some (Inr (fb @ replicate n 0))" "?a + varint_len (4 + length fb + n + ov) + (4 + length fb + n + ov) = 1200"
      unfolding run_def by blast
    then show ?thesis using pad(1,2) by (auto simp: ac_simps)
  qed
  then show "run ov fb = None \<longleftrightarrow> initial_ids_ok r \<and> padding_stuck (initial_fields_size r) (4 + length fb + ov)"
    and "run ov fb = Some (Inr fb') \<Longrightarrow> initial_ids_ok r \<and> (\<exists>n. fb' = fb @ replicate n 0) \<and>
      initial_fields_size r + varint_len (4 + length fb' + ov) + (4 + length fb' + ov) = 1200"
    by blast+
qed

section \<open>From requests to datagrams\<close>

lemma assemble_long_produced:
  assumes "assemble_long_packet r = Some a" and "ap_datagram a \<noteq> []" and "br_protector r = Some p"
  obtains fb fb' where "check_long_request r p = Inr ()" "encode_frame_list (br_frames r) [] = Inr fb"
    "pad_initial r p fb = Some (Inr fb')" "seal_long_packet r p fb' = Inr (ap_datagram a)"
proof -
  obtain z where z: "assemble_long_datagram r p = Some z" "a = assembled (br_number r) (pp_level p) z"
    using assms(1,3) by (auto simp: assemble_long_packet_def)
  have z': "z = Inr (ap_datagram a)" using z(2) assms(2) by (cases z) (simp_all add: assembled_def)
  obtain fb where fb: "check_long_request r p = Inr ()" "encode_frame_list (br_frames r) [] = Inr fb"
    using z(1) z' by (auto simp: assemble_long_datagram_def split: sum.splits)
  then obtain q where q: "pad_initial r p fb = Some q"
    "(case q of Inl e \<Rightarrow> Inl e | Inr frame_bytes \<Rightarrow> seal_long_packet r p frame_bytes) = Inr (ap_datagram a)"
    using z(1) z' by (auto simp: assemble_long_datagram_def bind_eq_Some_conv)
  then show ?thesis using that [OF fb] by (cases q) auto
qed

lemma pad_initial_request:
  assumes "pad_initial r p fb = Some (Inr fb')"
  shows "\<exists>n. fb' = fb @ replicate n 0 \<and> (br_enforce_initial_datagram_minimum r \<or> n = 0)"
proof (cases "br_enforce_initial_datagram_minimum r")
  case True
  with assms have "br_type r = LongInitial" "pad_initial_loop (request_sizing r) (pp_protection_overhead p) fb 0 = Some (Inr fb')"
    by (auto simp: pad_initial_def split: if_splits)
  from pad_loop_request(2) [OF this] True show ?thesis by blast
next
  case False
  with assms show ?thesis by (intro exI [of _ 0]) (simp add: pad_initial_def)
qed

lemma length_sealed:
  assumes "seal_long_packet r p fb = Inr dg"
  shows "length dg = 1 + length (long_prefix (br_type r) (br_version r) (br_destination_connection_id r)
    (br_source_connection_id r) (br_token r) (4 + length fb + pp_protection_overhead p)) +
    (4 + length fb + pp_protection_overhead p)"
proof -
  obtain sealed payload where pl: "length payload = fixed_packet_number_length + length fb + pp_protection_overhead p"
    and dg: "(if pp_header_protection_enabled p
      then apply_long_header_protection (long_header_first_byte (br_type r) #
       long_prefix (br_type r) (br_version r) (br_destination_connection_id r) (br_source_connection_id r) (br_token r)
         (length payload) @ payload) (length payload) p
      else Inr (long_header_first_byte (br_type r) #
       long_prefix (br_type r) (br_version r) (br_destination_connection_id r) (br_source_connection_id r) (br_token r)
         (length payload) @ payload)) = Inr dg"
    using seal_long_Inr [OF assms] by metis
  have "length dg = length (long_header_first_byte (br_type r) #
       long_prefix (br_type r) (br_version r) (br_destination_connection_id r) (br_source_connection_id r) (br_token r)
         (length payload) @ payload)"
    using dg by (auto split: if_splits elim!: apply_long_Inr)
  then show ?thesis by (simp add: pl fixed_packet_number_length_def)
qed

lemma sealed_shape:
  assumes "seal_long_packet r p fb = Inr dg"
  obtains b payload where "dg = b # long_prefix (br_type r) (br_version r) (br_destination_connection_id r)
      (br_source_connection_id r) (br_token r) (length payload) @ payload"
    "long_first_byte b (long_type_bits (br_type r))"
    "long_encodable (br_type r) (br_destination_connection_id r) (br_source_connection_id r) (br_token r) (length payload)"
proof -
  let ?pre = "\<lambda>n. long_prefix (br_type r) (br_version r) (br_destination_connection_id r) (br_source_connection_id r) (br_token r) n"
  obtain payload where enc: "long_encodable (br_type r) (br_destination_connection_id r) (br_source_connection_id r)
      (br_token r) (length payload)"
    and dg: "(if pp_header_protection_enabled p
      then apply_long_header_protection (long_header_first_byte (br_type r) # ?pre (length payload) @ payload) (length payload) p
      else Inr (long_header_first_byte (br_type r) # ?pre (length payload) @ payload)) = Inr dg"
    using seal_long_Inr [OF assms] by metis
  show ?thesis
  proof (cases "pp_header_protection_enabled p")
    case False
    then show ?thesis using dg enc that [of "long_header_first_byte (br_type r)" payload] by simp
  next
    case True
    let ?e = "long_header_first_byte (br_type r) # ?pre (length payload) @ payload"
    obtain m where n: "20 \<le> length payload" and d: "dg = mask_header 0x0f (Suc (length (?pre (length payload)))) m ?e"
      using apply_long_Inr [of ?e "length payload" p dg] dg True by (auto simp: Suc_diff_le)
    let ?payload = "drop (Suc (length (?pre (length payload)))) dg"
    have lp: "length ?payload = length payload" by (simp add: d)
    have "dg = (long_header_first_byte (br_type r) XOR (m ! 0 AND 0x0f)) # ?pre (length payload) @ ?payload"
      using mask_header_split [of "Suc (length (?pre (length payload)))" ?e "0x0f" m] n by (simp add: d)
    then show ?thesis
      using that [of "long_header_first_byte (br_type r) XOR (m ! 0 AND 0x0f)" ?payload] enc lp by simp
  qed
qed

lemma wire_size_prefix:
  assumes "long_first_byte b (long_type_bits t)" and "long_encodable t d s token (length payload)"
  shows "long_packet_wire_size (b # long_prefix t v d s token (length payload) @ payload @ rest) =
    Inr (length (b # long_prefix t v d s token (length payload) @ payload))"
proof -
  let ?tok = "if t = LongInitial then varint_bytes (length token) @ token else []"
  let ?rest = "?tok @ varint_bytes (length payload) @ payload @ rest"
  define input where "input = b # u32_bytes v @ cid_encoding d @ cid_encoding s @ ?rest"
  have input: "b # long_prefix t v d s token (length payload) @ payload @ rest = input"
    by (simp add: input_def long_prefix_def)
  have ids: "length (cid_bytes d) \<le> 255" "length (cid_bytes s) \<le> 255" and pl: "length payload \<le> max_varint"
    using assms(2) by (simp_all add: long_encodable_def)
  note p = decode_long_prefix [OF ids input_def]
  define o2 where "o2 = 5 + length (cid_encoding d) + length (cid_encoding s)"
  have cids: "do { (dcid, o1) \<leftarrow> read_connection_id input (1 + 4); (scid, o2) \<leftarrow> read_connection_id input o1; Some o2 } = Some o2"
    using p(2) by (auto simp: bind_eq_Some_conv o2_def)
  have at: "at_bytes input o2 ?rest" using p(3) by (simp add: o2_def)
  have at2: "at_bytes input (o2 + length ?tok) (varint_bytes (length payload) @ payload @ rest)"
    using at_bytes_advance [OF at] .
  have at3: "at_bytes input (o2 + length ?tok + varint_len (length payload)) (payload @ rest)"
    using at_bytes_advance [OF at2] by simp
  have len: "long_packet_length_at input (o2 + length ?tok) = Inr (o2 + length ?tok + varint_len (length payload) + length payload)"
    using read_packet_varint_at_bytes [OF at2 pl] at_bytes_length [OF at3] by (simp add: long_packet_length_at_def)
  have tot: "o2 + length ?tok + varint_len (length payload) + length payload =
      length (b # long_prefix t v d s token (length payload) @ payload)"
    by (simp add: o2_def long_prefix_def)
  have first: "input ! 0 AND 0x80 \<noteq> 0" "input ! 0 AND 0x40 \<noteq> 0" "input ! 0 AND 0x30 = long_type_bits t" "input \<noteq> []"
    using assms(1) by (simp_all add: input_def long_first_byte_def)
  show ?thesis
  proof (cases t)
    case LongInitial
    have "length token \<le> max_varint" using assms(2) LongInitial by (simp add: long_encodable_def)
    moreover have at': "at_bytes input o2 (varint_bytes (length token) @ token @ varint_bytes (length payload) @ payload @ rest)"
      using at LongInitial by simp
    ultimately have tk: "read_packet_varint_at input o2 = Some (length token, o2 + varint_len (length token))"
      using read_packet_varint_at_bytes by blast
    have "length token \<le> length input - (o2 + varint_len (length token))"
      using at_bytes_length [OF at'] by simp
    then show ?thesis
      unfolding input using first cids tk len tot LongInitial
      by (simp add: long_packet_wire_size_def long_type_bits_def add.assoc)
  next
    case LongHandshake
    then show ?thesis
      unfolding input using first cids len tot by (simp add: long_packet_wire_size_def long_type_bits_def)
  qed
qed

lemma encode_application_header:
  "v \<le> 0xffffffff \<Longrightarrow> encode_packet_header (Short (application_header dcid v payload)) =
     Inr (0x43 # cid_bytes dcid @ be_bytes 4 v @ payload)"
  by (simp add: application_header_def encode_short_def valid_packet_number_length_def fixed_packet_number_length_def
      encode_packet_number_def packet_number_bytes_be short_header_first_byte_def u64_sub_exact to_byte_def)

lemma application_header_wf: "v \<le> 0xffffffff \<Longrightarrow> header_wf (Short (application_header dcid v payload))"
  by (simp add: application_header_def fixed_packet_number_length_def short_header_first_byte_def u64_sub_exact to_byte_def)

lemma decode_application_header:
  assumes "v \<le> 0xffffffff"
  shows "decode_short_header (0x43 # cid_bytes dcid @ be_bytes 4 v @ payload) (length (cid_bytes dcid)) =
    Inr (Short (application_header dcid v payload))"
  using short_roundtrip [OF _ application_header_wf [OF assms]] encode_application_header [OF assms, of dcid payload]
  by (simp add: application_header_def)

text \<open>What \<open>seal_application_packet\<close> computes once the headers are encoded.\<close>

lemma seal_application_eq:
  assumes "pn_value (abr_number r) \<le> 0xffffffff"
  defines "h \<equiv> \<lambda>payload. 0x43 # cid_bytes (abr_destination_connection_id r) @ be_bytes 4 (pn_value (abr_number r)) @ payload"
  shows "seal_application_packet r p fb =
    (case pp_protect p \<lparr>ctx_number = abr_number r, ctx_associated_data = h []\<rparr> fb of
        Inl e \<Rightarrow> Inl e
      | Inr sealed \<Rightarrow>
          (case (if pp_header_protection_enabled p
                 then apply_short_header_protection (h sealed) (length (cid_bytes (abr_destination_connection_id r))) p
                 else Inr (h sealed)) of
             Inl e \<Rightarrow> Inl e
           | Inr datagram \<Rightarrow>
               if length datagram > abr_max_datagram_size r
               then Inl (pipeline_error ''QUIC datagram exceeds maximum size'') else Inr datagram))"
proof -
  have pre: "take (length (0x43 # cid_bytes d @ be_bytes 4 v @ replicate n 0) - n) (0x43 # cid_bytes d @ be_bytes 4 v @ replicate n 0) =
      0x43 # cid_bytes d @ be_bytes 4 v" for d v n
    by (rule take_prefix [of _ _ "replicate n 0"]) simp_all
  show ?thesis
    unfolding h_def seal_application_packet_def Let_def encode_application_header [OF assms(1)] sum.case pre
    by simp
qed

lemma seal_application_Inr:
  assumes "seal_application_packet r p fb = Inr dg" and "pn_value (abr_number r) \<le> 0xffffffff"
  obtains sealed where
    "pp_protect p \<lparr>ctx_number = abr_number r, ctx_associated_data = 0x43 # cid_bytes (abr_destination_connection_id r) @
       be_bytes 4 (pn_value (abr_number r))\<rparr> fb = Inr sealed"
    "(if pp_header_protection_enabled p
      then apply_short_header_protection (0x43 # cid_bytes (abr_destination_connection_id r) @
        be_bytes 4 (pn_value (abr_number r)) @ sealed) (length (cid_bytes (abr_destination_connection_id r))) p
      else Inr (0x43 # cid_bytes (abr_destination_connection_id r) @ be_bytes 4 (pn_value (abr_number r)) @ sealed)) = Inr dg"
    "length dg \<le> abr_max_datagram_size r"
  using assms(1) that unfolding seal_application_eq [OF assms(2)]
  by (auto simp: not_less split: sum.splits if_splits)

lemma parse_sealed_application:
  assumes seal: "seal_application_packet r tx fb = Inr dg" and chk: "check_application_request r tx = Inr ()"
    and pair: "paired tx rx" and fr: "decode_frames fb = Inr fs"
  shows "\<exists>payload. parse_short_packet dg (length (cid_bytes (abr_destination_connection_id r))) (Some rx) =
    Inr \<lparr>ppk_header = Short (application_header (abr_destination_connection_id r) (pn_value (abr_number r)) payload),
         ppk_number = abr_number r, ppk_space = ApplicationSpace, ppk_protection = pp_level tx, ppk_frames = fs\<rparr>"
proof -
  let ?d = "abr_destination_connection_id r" and ?v = "pn_value (abr_number r)"
  have val: "?v \<le> 0xffffffff" and sp: "pn_space (abr_number r) = ApplicationSpace" and lvl: "pp_level rx = ApplicationProtection"
    using chk pair by (auto simp: check_application_request_def application_protection_level_matches_def paired_def split: if_splits)
  obtain sealed where sealed: "pp_protect tx \<lparr>ctx_number = abr_number r, ctx_associated_data = 0x43 # cid_bytes ?d @ be_bytes 4 ?v\<rparr> fb = Inr sealed"
    and dg: "(if pp_header_protection_enabled tx
      then apply_short_header_protection (0x43 # cid_bytes ?d @ be_bytes 4 ?v @ sealed) (length (cid_bytes ?d)) tx
      else Inr (0x43 # cid_bytes ?d @ be_bytes 4 ?v @ sealed)) = Inr dg"
    using seal_application_Inr [OF seal val] by metis
  let ?e = "0x43 # cid_bytes ?d @ be_bytes 4 ?v @ sealed"
  have un: "(if pp_header_protection_enabled rx then remove_short_header_protection dg (length (cid_bytes ?d)) rx
      else Inr dg) = Inr ?e"
    using dg pair remove_apply_short [of ?e "length (cid_bytes ?d)" tx dg rx] by (auto simp: paired_def split: if_splits)
  have aad: "take (1 + length (cid_bytes ?d) + 4) ?e = 0x43 # cid_bytes ?d @ be_bytes 4 ?v"
    by (rule take_prefix [of _ _ sealed]) simp_all
  have num: "\<lparr>pn_space = ApplicationSpace, pn_value = ?v\<rparr> = abr_number r" using sp by simp
  have pol: "validate_protection_policy rx = Inr ()" using pair by (simp add: paired_def validate_protection_policy_def)
  have opn: "open_frames rx (Short (application_header ?d ?v sealed)) (abr_number r) (0x43 # cid_bytes ?d @ be_bytes 4 ?v) sealed =
    Inr \<lparr>ppk_header = Short (application_header ?d ?v sealed), ppk_number = abr_number r, ppk_space = ApplicationSpace,
         ppk_protection = pp_level tx, ppk_frames = fs\<rparr>"
    using sealed pair fr sp decoded_nonempty [OF fr] by (simp add: open_frames_def paired_def)
  have flds: "sh_truncated_packet_number (application_header ?d ?v sealed) = ?v"
    "sh_packet_number_length (application_header ?d ?v sealed) = 4" "sh_protected_payload (application_header ?d ?v sealed) = sealed"
    by (simp_all add: application_header_def fixed_packet_number_length_def)
  have "parse_short_packet dg (length (cid_bytes ?d)) (Some rx) =
    open_frames rx (Short (application_header ?d ?v sealed)) (abr_number r) (0x43 # cid_bytes ?d @ be_bytes 4 ?v) sealed"
    using lvl pol un aad num decode_application_header [OF val, of ?d sealed]
    by (simp add: parse_short_packet_def application_protection_level_matches_def flds Let_def)
  then show ?thesis using opn by auto
qed

section \<open>Assembly succeeds\<close>

text \<open>A protector that seals every payload of a packet with its overhead and yields a mask for every sample.\<close>

definition working :: "packet_protector \<Rightarrow> packet_number \<Rightarrow> bool" where
  "working p number \<longleftrightarrow>
     (\<forall>aad plain. aad \<noteq> [] \<and> plain \<noteq> [] \<longrightarrow>
        (\<exists>sealed. pp_protect p \<lparr>ctx_number = number, ctx_associated_data = aad\<rparr> plain = Inr sealed \<and>
           length sealed = length plain + pp_protection_overhead p)) \<and>
     (\<forall>sample. length sample = 16 \<longrightarrow> (\<exists>m. pp_header_protection_mask p sample = Inr m))"

lemma apply_long_ok:
  assumes "working p number" and "20 \<le> n" and "n \<le> length d" and "d ! 0 AND 0x03 = 0x03"
  shows "\<exists>d'. apply_long_header_protection d n p = Inr d' \<and> length d' = length d"
proof -
  have "length (take 16 (drop (length d - n + 4) d)) = 16" using assms(2,3) by simp
  then obtain m where "pp_header_protection_mask p (take 16 (drop (length d - n + 4) d)) = Inr m"
    using assms(1) unfolding working_def by blast
  then show ?thesis
    using assms(2-4) unat_low_bits_3 [of "d ! 0"]
    by (simp add: apply_long_header_protection_def Let_def fixed_packet_number_length_def)
qed

lemma seal_long_ok:
  assumes work: "working p (br_number r)" and len: "L = 4 + length fb + pp_protection_overhead p" and "20 \<le> L"
    and enc: "long_encodable (br_type r) (br_destination_connection_id r) (br_source_connection_id r) (br_token r) L"
    and fits: "1 + length (long_prefix (br_type r) (br_version r) (br_destination_connection_id r)
      (br_source_connection_id r) (br_token r) L) + L \<le> br_max_datagram_size r"
    and "fb \<noteq> []"
  shows "\<exists>dg. seal_long_packet r p fb = Inr dg \<and> dg \<noteq> []"
proof -
  let ?h = "\<lambda>payload. long_header_first_byte (br_type r) # long_prefix (br_type r) (br_version r)
    (br_destination_connection_id r) (br_source_connection_id r) (br_token r) L @ payload"
  have e: "encode_packet_header (long_header_for (br_type r) (br_version r) (br_destination_connection_id r)
      (br_source_connection_id r) (br_token r) L payload) = Inr (?h payload)" if "length payload = L" for payload
    using encode_long_header_for that enc by blast
  let ?pn = "be_bytes 4 (pn_value (br_number r))"
  have "length ?pn = 4" by simp
  then have "take (length (?h (replicate L 0)) - L) (?h (replicate L 0)) @ ?pn \<noteq> []" by force
  then obtain sealed where sealed: "pp_protect p \<lparr>ctx_number = br_number r, ctx_associated_data =
      take (length (?h (replicate L 0)) - L) (?h (replicate L 0)) @ ?pn\<rparr> fb = Inr sealed"
    "length sealed = length fb + pp_protection_overhead p"
    using work \<open>fb \<noteq> []\<close> unfolding working_def by blast
  have pl: "length (?pn @ sealed) = L" using sealed(2) len by simp
  obtain dg where dg: "(if pp_header_protection_enabled p then apply_long_header_protection (?h (?pn @ sealed)) L p
      else Inr (?h (?pn @ sealed))) = Inr dg" "length dg = length (?h (?pn @ sealed))"
    using apply_long_ok [OF work assms(3), of "?h (?pn @ sealed)"] pl by (cases "pp_header_protection_enabled p") auto
  have "\<not> br_max_datagram_size r < length dg" using dg(2) fits pl by simp
  moreover have "\<not> length (?h (replicate L 0)) < L" by simp
  moreover have "fixed_packet_number_length + length fb + pp_protection_overhead p = L"
    by (simp add: len fixed_packet_number_length_def)
  moreover have "length (replicate L (0::byte)) = L" by simp
  ultimately have "seal_long_packet r p fb = Inr dg"
    by (simp only: seal_long_packet_def Let_def append_packet_number_be e [OF pl] e sum.case if_False sealed(1) pl dg(1))
  moreover have "dg \<noteq> []" using dg(2) by auto
  ultimately show ?thesis by blast
qed

section \<open>Choosing frames for a packet\<close>

definition encoded_prefix :: "frame list \<Rightarrow> nat \<Rightarrow> nat \<Rightarrow> bool" where
  "encoded_prefix fs n len \<longleftrightarrow> n \<le> length fs \<and> (\<exists>bs. encode_frame_list (take n fs) [] = Inr bs \<and> length bs = len)"

lemma encode_frame_list_acc: "encode_frame_list fs acc = (case encode_frame_list fs [] of Inl e \<Rightarrow> Inl e | Inr bs \<Rightarrow> Inr (acc @ bs))"
proof (induction fs arbitrary: acc)
  case (Cons f fs)
  show ?case
  proof (cases "encode_frame f")
    case (Inr b)
    then show ?thesis using Cons [of "acc @ b"] Cons [of b] by (simp split: sum.splits)
  qed simp
qed simp

lemma encode_frame_list_snoc:
  "encode_frame_list (fs @ [f]) [] =
     (case encode_frame_list fs [] of Inl e \<Rightarrow> Inl e
      | Inr bs \<Rightarrow> (case encode_frame f of Inl e \<Rightarrow> Inl e | Inr b \<Rightarrow> Inr (bs @ b)))"
proof (induction fs)
  case (Cons g fs)
  show ?case
  proof (cases "encode_frame g")
    case (Inr b)
    then show ?thesis
      using encode_frame_list_acc [of "fs @ [f]" b] encode_frame_list_acc [of fs b] Cons by (simp split: sum.splits)
  qed simp
qed (simp split: sum.splits)

lemma select_frames_loop_spec:
  assumes "fs = pre @ rest" and "is_u64 budget" and "fbs_frames st = pre" and "fbs_next_index st = length pre"
    and "fbs_error st = no_error" and "encoded_prefix fs (length pre) (fbs_encoded_size st)" and "fbs_encoded_size st \<le> budget"
  shows "let s = select_frames_loop rest budget (length pre) st in
    fbs_frames s = take (fbs_next_index s) fs \<and> encoded_prefix fs (fbs_next_index s) (fbs_encoded_size s) \<and>
    fbs_encoded_size s \<le> budget \<and>
    (fbs_next_index s = length fs \<and> fbs_error s = no_error \<or>
     fbs_next_index s < length fs \<and>
       (case encode_frame (fs ! fbs_next_index s) of
          Inl e \<Rightarrow> fbs_error s = e
        | Inr b \<Rightarrow> fbs_error s = no_error \<and> budget < fbs_encoded_size s + length b))"
  using assms
proof (induction rest arbitrary: pre st)
  case Nil
  then show ?case by (simp add: Let_def)
next
  case (Cons f rest)
  have nth: "fs ! length pre = f" "length pre < length fs" using Cons.prems(1) by simp_all
  have sub: "u64_sub budget (fbs_encoded_size st) = budget - fbs_encoded_size st"
    using Cons.prems(2,7) by (simp add: u64_sub_le)
  show ?case
  proof (cases "encode_frame f")
    case (Inl e)
    then show ?thesis using Cons.prems nth by (simp add: Let_def)
  next
    case (Inr b)
    show ?thesis
    proof (cases "length b > budget - fbs_encoded_size st")
      case True
      then show ?thesis using Cons.prems nth Inr sub by (auto simp: Let_def)
    next
      case False
      then have fit: "fbs_encoded_size st + length b \<le> budget" using Cons.prems(7) by linarith
      then have add: "u64_add (fbs_encoded_size st) (length b) = fbs_encoded_size st + length b"
        using Cons.prems(2) by (intro u64_add_exact) (simp add: is_u64_def)
      obtain bs where bs: "encode_frame_list pre [] = Inr bs" "length bs = fbs_encoded_size st"
        using Cons.prems(1,6) by (auto simp: encoded_prefix_def)
      have pre': "encoded_prefix fs (length (pre @ [f])) (fbs_encoded_size st + length b)"
        using bs Inr Cons.prems(1) encode_frame_list_snoc [of pre f] by (simp add: encoded_prefix_def)
      let ?st = "st\<lparr>fbs_encoded_size := fbs_encoded_size st + length b, fbs_frames := fbs_frames st @ [f],
        fbs_next_index := length pre + 1\<rparr>"
      have "select_frames_loop (f # rest) budget (length pre) st = select_frames_loop rest budget (length (pre @ [f])) ?st"
        using False sub add Inr by simp
      then show ?thesis using Cons.IH [of "pre @ [f]" ?st] Cons.prems pre' fit by simp
    qed
  qed
qed

section \<open>Properties\<close>

lemma long_roundtrip:
  assumes "assemble_long_packet r = Some a" and "ap_datagram a \<noteq> []"
    and "br_protector r = Some tx" and "paired tx rx" and "br_version r \<noteq> 0"
    and "br_frames r \<noteq> []"
    and "frames_ok (br_frames r @ (if br_enforce_initial_datagram_minimum r then [PaddingFrame 1] else []))"
  shows "\<exists>payload n. parse_long_packet (ap_datagram a) (Some rx) =
    Inr \<lparr>ppk_header = long_header_with (br_type r) (long_header_first_byte (br_type r)) (br_version r)
           (br_destination_connection_id r) (br_source_connection_id r) (br_token r) payload,
         ppk_number = br_number r, ppk_space = pn_space (br_number r), ppk_protection = pp_level tx,
         ppk_frames = br_frames r @ padding n\<rparr> \<and> (br_enforce_initial_datagram_minimum r \<or> n = 0)"
proof -
  obtain fb fb' where chk: "check_long_request r tx = Inr ()" and enc: "encode_frame_list (br_frames r) [] = Inr fb"
    and pad: "pad_initial r tx fb = Some (Inr fb')" and seal: "seal_long_packet r tx fb' = Inr (ap_datagram a)"
    using assemble_long_produced [OF assms(1-3)] by blast
  obtain n where n: "fb' = fb @ replicate n 0" "br_enforce_initial_datagram_minimum r \<or> n = 0"
    using pad_initial_request [OF pad] by blast
  have "frames_ok (br_frames r @ padding n)"
    using assms(7) n(2) frames_ok_padding [of "br_frames r" 1 n] by (auto simp: padding_def split: if_splits)
  from decode_padded [OF enc assms(6) this] n(1) have "decode_frames fb' = Inr (br_frames r @ padding n)" by simp
  from parse_sealed_long [OF seal chk assms(4,5) this] n(2) show ?thesis by blast
qed

text \<open>C3: a long-header packet that was assembled, with header protection or without, is parsed by the paired
  receiver to the same packet number, connection identifiers and token, and to the frames of the request followed only
  by the padding of a client Initial.\<close>

theorem long_packet_roundtrip:
  assumes "assemble_long_packet r = Some a" and "ap_datagram a \<noteq> []"
    and "br_protector r = Some tx" and "paired tx rx" and "br_version r \<noteq> 0"
    and "br_frames r \<noteq> []"
    and "frames_ok (br_frames r @ (if br_enforce_initial_datagram_minimum r then [PaddingFrame 1] else []))"
  shows "\<exists>payload n. parse_long_packet (ap_datagram a) (Some rx) =
    Inr \<lparr>ppk_header = long_header_with (br_type r) (long_header_first_byte (br_type r)) (br_version r)
           (br_destination_connection_id r) (br_source_connection_id r) (br_token r) payload,
         ppk_number = br_number r, ppk_space = pn_space (br_number r), ppk_protection = pp_level tx,
         ppk_frames = br_frames r @ padding n\<rparr> \<and> (br_enforce_initial_datagram_minimum r \<or> n = 0)"
  using assms by (rule long_roundtrip)

lemma pad_initial_stuck:
  "pad_initial r p fb = None \<longleftrightarrow> br_enforce_initial_datagram_minimum r \<and> br_type r = LongInitial \<and>
     1200 \<le> br_max_datagram_size r \<and> initial_ids_ok r \<and> initial_fields_size r = 1135 \<and>
     4 + length fb + pp_protection_overhead p \<le> 63"
  using pad_loop_request(1) [of r "pp_protection_overhead p" fb]
  by (auto simp: pad_initial_def padding_stuck_def minimum_client_initial_datagram_size_def)

text \<open>C21: assembly of a long-header packet ends, with one exception, and the theorem says exactly which: a client Initial
  whose header fields other than the length take 1135 bytes (a token of about 1110 bytes) and whose protected payload
  would be at most 63 bytes, for which the padding loop adds and removes one byte for ever.\<close>

theorem assemble_long_packet_diverges_iff:
  "assemble_long_packet r = None \<longleftrightarrow>
     (\<exists>p fb. br_protector r = Some p \<and> check_long_request r p = Inr () \<and> encode_frame_list (br_frames r) [] = Inr fb \<and>
        br_enforce_initial_datagram_minimum r \<and> br_type r = LongInitial \<and> 1200 \<le> br_max_datagram_size r \<and>
        initial_ids_ok r \<and> initial_fields_size r = 1135 \<and> 4 + length fb + pp_protection_overhead p \<le> 63)"
proof (cases "br_protector r")
  case None
  then show ?thesis by (simp add: assemble_long_packet_def)
next
  case (Some p)
  then show ?thesis
    by (auto simp: assemble_long_packet_def assemble_long_datagram_def bind_eq_None_conv pad_initial_stuck split: sum.splits)
qed

text \<open>a client Initial assembled with the minimum enforced is a datagram of exactly 1200 bytes.\<close>

theorem client_initial_size:
  assumes "assemble_long_packet r = Some a" and "ap_datagram a \<noteq> []" and "br_enforce_initial_datagram_minimum r"
  shows "length (ap_datagram a) = 1200"
proof -
  obtain p where p: "br_protector r = Some p"
    using assms(1,2) by (cases "br_protector r") (auto simp: assemble_long_packet_def assembled_def)
  obtain fb fb' where pad: "pad_initial r p fb = Some (Inr fb')" and seal: "seal_long_packet r p fb' = Inr (ap_datagram a)"
    using assemble_long_produced [OF assms(1,2) p] by blast
  from pad assms(3) have t: "br_type r = LongInitial"
    and loop: "pad_initial_loop (request_sizing r) (pp_protection_overhead p) fb 0 = Some (Inr fb')"
    by (auto simp: pad_initial_def split: if_splits)
  from pad_loop_request(2) [OF t loop] length_sealed [OF seal] t show ?thesis
    by (simp add: initial_fields_size_def long_prefix_def)
qed

text \<open>in a datagram of coalesced packets, the size computed for the first packet is the size of the packet that was
  assembled, whatever follows it.\<close>

theorem coalesced_packet_size:
  assumes "assemble_long_packet r = Some a" and "ap_datagram a \<noteq> []"
  shows "long_packet_wire_size (ap_datagram a @ rest) = Inr (length (ap_datagram a))"
proof -
  obtain p where p: "br_protector r = Some p"
    using assms by (cases "br_protector r") (auto simp: assemble_long_packet_def assembled_def)
  obtain fb' where "seal_long_packet r p fb' = Inr (ap_datagram a)"
    using assemble_long_produced [OF assms p] by blast
  from sealed_shape [OF this] obtain b payload where
    d: "ap_datagram a = b # long_prefix (br_type r) (br_version r) (br_destination_connection_id r)
      (br_source_connection_id r) (br_token r) (length payload) @ payload"
    and b: "long_first_byte b (long_type_bits (br_type r))"
      "long_encodable (br_type r) (br_destination_connection_id r) (br_source_connection_id r) (br_token r) (length payload)"
    by blast
  show ?thesis unfolding d using wire_size_prefix [OF b, of "br_version r" rest] by simp
qed

lemma application_roundtrip:
  assumes "ap_datagram (assemble_application_packet r) \<noteq> []"
    and "abr_protector r = Some tx" and "paired tx rx" and "abr_frames r \<noteq> []" and "frames_ok (abr_frames r)"
  shows "\<exists>payload. parse_short_packet (ap_datagram (assemble_application_packet r))
      (length (cid_bytes (abr_destination_connection_id r))) (Some rx) =
    Inr \<lparr>ppk_header = Short (application_header (abr_destination_connection_id r) (pn_value (abr_number r)) payload),
         ppk_number = abr_number r, ppk_space = ApplicationSpace, ppk_protection = pp_level tx, ppk_frames = abr_frames r\<rparr>"
proof -
  obtain fb where chk: "check_application_request r tx = Inr ()" and enc: "encode_frame_list (abr_frames r) [] = Inr fb"
    and seal: "seal_application_packet r tx fb = Inr (ap_datagram (assemble_application_packet r))"
    using assms(1,2) by (auto simp: assemble_application_packet_def assembled_def split: sum.splits)
  have "decode_frames fb = Inr (abr_frames r)"
    using decode_padded [OF enc assms(4), of 0] assms(5) by (simp add: padding_def)
  from parse_sealed_application [OF seal chk assms(3) this] show ?thesis .
qed

text \<open>a short-header packet that was assembled, with header protection or without, is parsed by the paired receiver
  to the same packet number and exactly the frames of the request.\<close>

theorem application_packet_roundtrip:
  assumes "ap_datagram (assemble_application_packet r) \<noteq> []"
    and "abr_protector r = Some tx" and "paired tx rx" and "abr_frames r \<noteq> []" and "frames_ok (abr_frames r)"
  shows "\<exists>payload. parse_short_packet (ap_datagram (assemble_application_packet r))
      (length (cid_bytes (abr_destination_connection_id r))) (Some rx) =
    Inr \<lparr>ppk_header = Short (application_header (abr_destination_connection_id r) (pn_value (abr_number r)) payload),
         ppk_number = abr_number r, ppk_space = ApplicationSpace, ppk_protection = pp_level tx, ppk_frames = abr_frames r\<rparr>"
  using assms by (rule application_roundtrip)

text \<open>the frames chosen for a packet are the longest prefix of the candidates that encodes within the budget; the
  selection stops early exactly at a frame that does not fit or cannot be encoded, and reports the encoded size.\<close>

theorem select_frames_maximal:
  assumes "is_u64 budget"
  shows "let s = select_frames_for_payload_budget fs budget in
    fbs_frames s = take (fbs_next_index s) fs \<and> encoded_prefix fs (fbs_next_index s) (fbs_encoded_size s) \<and>
    fbs_encoded_size s \<le> budget \<and>
    (fbs_next_index s = length fs \<and> fbs_error s = no_error \<or>
     fbs_next_index s < length fs \<and>
       (case encode_frame (fs ! fbs_next_index s) of
          Inl e \<Rightarrow> fbs_error s = e
        | Inr b \<Rightarrow> fbs_error s = no_error \<and> budget < fbs_encoded_size s + length b))"
  unfolding select_frames_for_payload_budget_def
  using select_frames_loop_spec [of fs "[]" fs budget "\<lparr>fbs_frames = [], fbs_encoded_size = 0, fbs_next_index = 0, fbs_error = no_error\<rparr>"] assms
  by (simp add: encoded_prefix_def)

section \<open>Witnesses\<close>

text \<open>A concrete protector that appends a tag of sixteen zero bytes and a request that uses it.\<close>

definition tag_protector :: "protection_level \<Rightarrow> packet_protector" where
  "tag_protector level = \<lparr>pp_level = level, pp_security_level = AuthenticatedEncrypted,
     pp_provider_status = \<lparr>cps_available_from_external_provider = True, cps_suite = Aes128GcmSha256,
       cps_capabilities = \<lparr>cap_hkdf = True, cap_aead_seal = True, cap_aead_open = True, cap_header_protection = True,
         cap_tls_owns_key_schedule = True\<rparr>\<rparr>,
     pp_protection_overhead = 16, pp_header_protection_enabled = True,
     pp_header_protection_mask = (\<lambda>sample. Inr [0xff, 0x01, 0x02, 0x03, 0x04]),
     pp_protect = (\<lambda>c plain. Inr (plain @ replicate 16 0)),
     pp_unprotect = (\<lambda>c sealed. if drop (length sealed - 16) sealed = replicate 16 0
        then Inr (take (length sealed - 16) sealed) else Inl (pipeline_error ''tag mismatch''))\<rparr>"

definition handshake_request :: packet_build_request where
  "handshake_request = \<lparr>br_type = LongHandshake, br_version = 1, br_destination_connection_id = \<lparr>cid_bytes = [1]\<rparr>,
     br_source_connection_id = \<lparr>cid_bytes = [2]\<rparr>, br_token = [], br_number = \<lparr>pn_space = HandshakeSpace, pn_value = 7\<rparr>,
     br_frames = [PingFrame], br_protector = Some (tag_protector HandshakeProtection), br_max_datagram_size = 1200,
     br_enforce_initial_datagram_minimum = False\<rparr>"

lemma paired_tag: "paired (tag_protector level) (tag_protector level)"
  by (simp add: paired_def tag_protector_def production_protection_satisfied_def packet_protection_ready_def)

lemma working_tag: "working (tag_protector level) number"
  by (simp add: working_def tag_protector_def)

lemma handshake_assembled:
  "\<exists>a. assemble_long_packet handshake_request = Some a \<and> ap_datagram a \<noteq> []"
proof -
  have "\<exists>dg. seal_long_packet handshake_request (tag_protector HandshakeProtection) [0x01] = Inr dg \<and> dg \<noteq> []"
    by (rule seal_long_ok [OF working_tag, of 21])
      (simp_all add: handshake_request_def tag_protector_def long_encodable_def long_prefix_def max_varint_def varint_len_def)
  moreover have "check_long_request handshake_request (tag_protector HandshakeProtection) = Inr ()"
    by (simp add: check_long_request_def handshake_request_def space_for_def protection_level_matches_def
        expected_protection_for_def validate_protection_policy_def tag_protector_def production_protection_satisfied_def
        packet_protection_ready_def)
  ultimately show ?thesis
    by (auto simp: assemble_long_packet_def assemble_long_datagram_def handshake_request_def pad_initial_def assembled_def)
qed

definition initial_request :: packet_build_request where
  "initial_request = \<lparr>br_type = LongInitial, br_version = 1, br_destination_connection_id = \<lparr>cid_bytes = [1]\<rparr>,
     br_source_connection_id = \<lparr>cid_bytes = [2]\<rparr>, br_token = [], br_number = \<lparr>pn_space = InitialSpace, pn_value = 0\<rparr>,
     br_frames = [PingFrame], br_protector = Some (tag_protector InitialProtection), br_max_datagram_size = 1200,
     br_enforce_initial_datagram_minimum = True\<rparr>"

lemma initial_assembled:
  "\<exists>a. assemble_long_packet initial_request = Some a \<and> ap_datagram a \<noteq> []"
proof -
  let ?p = "tag_protector InitialProtection"
  have ids: "initial_ids_ok initial_request" and a: "initial_fields_size initial_request = 10"
    by (simp_all add: initial_ids_ok_def initial_fields_size_def initial_request_def max_varint_def varint_len_def)
  have "\<exists>n. pad_initial_loop (request_sizing initial_request) 16 [0x01] 0 = Some (Inr ([0x01] @ replicate n 0)) \<and>
      10 + varint_len (4 + length [0x01::byte] + n + 16) + (4 + length [0x01::byte] + n + 16) = 1200"
    using sizing_sizes_as [OF ids] unfolding a
    by (intro pad_terminates) (simp_all add: varint_len_def padding_stuck_def)
  then obtain n where n: "pad_initial_loop (request_sizing initial_request) 16 [0x01] 0 = Some (Inr ([0x01] @ replicate n 0))"
    "10 + varint_len (21 + n) + (21 + n) = 1200" by auto
  have "\<exists>dg. seal_long_packet initial_request ?p ([0x01] @ replicate n 0) = Inr dg \<and> dg \<noteq> []"
    using n(2) by (intro seal_long_ok [OF working_tag, of "21 + n"])
      (simp_all add: initial_request_def tag_protector_def long_encodable_def long_prefix_def max_varint_def
        varint_len_def [of 0])
  moreover have "check_long_request initial_request ?p = Inr ()"
    by (simp add: check_long_request_def initial_request_def space_for_def protection_level_matches_def
        expected_protection_for_def validate_protection_policy_def tag_protector_def production_protection_satisfied_def
        packet_protection_ready_def)
  moreover have "pad_initial initial_request ?p [0x01] = Some (Inr ([0x01] @ replicate n 0))"
    using n(1) by (simp add: pad_initial_def initial_request_def tag_protector_def minimum_client_initial_datagram_size_def)
  ultimately show ?thesis
    by (auto simp: assemble_long_packet_def assemble_long_datagram_def assembled_def initial_request_def)
qed

lemma request_fields:
  "br_protector handshake_request = Some (tag_protector HandshakeProtection)" "br_version handshake_request = 1"
  "br_frames handshake_request = [PingFrame]" "\<not> br_enforce_initial_datagram_minimum handshake_request"
  "br_number handshake_request = \<lparr>pn_space = HandshakeSpace, pn_value = 7\<rparr>" "br_enforce_initial_datagram_minimum initial_request"
  by (simp_all add: handshake_request_def initial_request_def)

theorem long_packet_roundtrip_witness:
  "\<exists>a pk. assemble_long_packet handshake_request = Some a \<and> ap_datagram a \<noteq> [] \<and>
     parse_long_packet (ap_datagram a) (Some (tag_protector HandshakeProtection)) = Inr pk \<and>
     ppk_frames pk = [PingFrame] \<and> ppk_number pk = \<lparr>pn_space = HandshakeSpace, pn_value = 7\<rparr>"
proof -
  obtain a where a: "assemble_long_packet handshake_request = Some a" "ap_datagram a \<noteq> []"
    using handshake_assembled by blast
  from long_packet_roundtrip [OF a request_fields(1) paired_tag] a show ?thesis
    by (auto simp: request_fields padding_def)
qed

theorem client_initial_size_witness:
  "\<exists>a. assemble_long_packet initial_request = Some a \<and> length (ap_datagram a) = 1200"
proof -
  obtain a where a: "assemble_long_packet initial_request = Some a" "ap_datagram a \<noteq> []"
    using initial_assembled by blast
  from client_initial_size [OF a request_fields(6)] a show ?thesis by blast
qed

theorem coalesced_packet_size_witness:
  "\<exists>a. assemble_long_packet handshake_request = Some a \<and>
     long_packet_wire_size (ap_datagram a @ [0xe3, 0x00]) = Inr (length (ap_datagram a))"
proof -
  obtain a where a: "assemble_long_packet handshake_request = Some a" "ap_datagram a \<noteq> []"
    using handshake_assembled by blast
  from coalesced_packet_size [OF a] a show ?thesis by blast
qed

theorem select_frames_maximal_witness:
  "fbs_next_index (select_frames_for_payload_budget [PingFrame, PaddingFrame 5] 3) = 1 \<and>
   fbs_frames (select_frames_for_payload_budget [PingFrame, PaddingFrame 5] 3) = [PingFrame]"
proof -
  have "is_u64 3" by (simp add: is_u64_def)
  have i: "fbs_next_index (select_frames_for_payload_budget [PingFrame, PaddingFrame 5] 3) = 1"
    by (simp add: select_frames_for_payload_budget_def u64_sub_exact u64_add_def)
  with select_frames_maximal [OF \<open>is_u64 3\<close>, of "[PingFrame, PaddingFrame 5]"] show ?thesis by (simp add: Let_def)
qed

definition application_request :: application_packet_build_request where
  "application_request = \<lparr>abr_destination_connection_id = \<lparr>cid_bytes = [1, 2]\<rparr>,
     abr_number = \<lparr>pn_space = ApplicationSpace, pn_value = 9\<rparr>, abr_frames = [PingFrame],
     abr_protector = Some (tag_protector ApplicationProtection), abr_max_datagram_size = 1200\<rparr>"

lemma application_assembled: "ap_datagram (assemble_application_packet application_request) \<noteq> []"
proof -
  have "check_application_request application_request (tag_protector ApplicationProtection) = Inr ()"
    by (simp add: check_application_request_def application_request_def application_protection_level_matches_def
        validate_protection_policy_def tag_protector_def production_protection_satisfied_def packet_protection_ready_def)
  moreover have "\<exists>dg. seal_application_packet application_request (tag_protector ApplicationProtection) [0x01] = Inr dg \<and> dg \<noteq> []"
    by (simp add: seal_application_packet_def application_request_def encode_application_header tag_protector_def
        apply_short_header_protection_def fixed_packet_number_length_def Let_def del: encode_packet_header.simps)
  ultimately show ?thesis
    by (auto simp: assemble_application_packet_def assembled_def application_request_def)
qed

theorem application_packet_roundtrip_witness:
  "\<exists>pk. parse_short_packet (ap_datagram (assemble_application_packet application_request)) 2
      (Some (tag_protector ApplicationProtection)) = Inr pk \<and> ppk_frames pk = [PingFrame] \<and> pn_value (ppk_number pk) = 9"
  using application_packet_roundtrip [OF application_assembled _ paired_tag, of ApplicationProtection]
  by (auto simp: application_request_def numeral_2_eq_2)

end
