(* ===== verification/ConnectionTypes.thy ===== *)
theory ConnectionTypes
  imports PacketPipeline TransportParameters StreamSend Congestion
begin

text \<open>
  The vocabulary of a connection: the action queue of \<open>core.hpp\<close>, the key lifecycle of \<open>key_lifecycle.hpp\<close>, the packet
  number spaces of \<open>connection_packet_spaces.hpp\<close>, the TLS boundary types of \<open>tls_handshake.hpp\<close>, and the configuration, timers
  and helper functions of \<open>connection_types.hpp\<close> (all under \<open>src/include/flowq/quic\<close>).  Durations count
  nanoseconds, as \<open>std::chrono::steady_clock\<close> does on the supported platforms.
\<close>

section \<open>Endpoints and actions\<close>

record endpoint =
  ep_host :: string
  ep_port :: "16 word"
  ep_alpn :: string

datatype timer_id = IdleTimeout | LossDetection | PacingTimer

datatype action =
    OutboundDatagram buffer endpoint
  | ReceivedDatagram buffer endpoint
  | ArmTimer timer_id duration
  | TimerExpired timer_id
  | CloseAction flowq_error

record core =
  core_actions :: "action list"

definition core_on_datagram :: "core \<Rightarrow> buffer \<Rightarrow> endpoint \<Rightarrow> core" where
  "core_on_datagram c payload peer = c\<lparr>core_actions := core_actions c @ [ReceivedDatagram payload peer]\<rparr>"

definition core_on_timer :: "core \<Rightarrow> timer_id \<Rightarrow> core" where
  "core_on_timer c i = c\<lparr>core_actions := core_actions c @ [TimerExpired i]\<rparr>"

definition core_request_timer :: "core \<Rightarrow> timer_id \<Rightarrow> duration \<Rightarrow> core" where
  "core_request_timer c i delay = c\<lparr>core_actions := core_actions c @ [ArmTimer i delay]\<rparr>"

definition core_close :: "core \<Rightarrow> flowq_error \<Rightarrow> core" where
  "core_close c e = c\<lparr>core_actions := core_actions c @ [CloseAction e]\<rparr>"

definition core_has_actions :: "core \<Rightarrow> bool" where
  "core_has_actions c \<longleftrightarrow> core_actions c \<noteq> []"

definition core_drain_actions :: "core \<Rightarrow> action list \<times> core" where
  "core_drain_actions c = (core_actions c, c\<lparr>core_actions := []\<rparr>)"

section \<open>The TLS boundary and the key lifecycle\<close>

datatype tls_encryption_level = TlsInitial | TlsHandshake | TlsApplication

datatype handshake_state = HandshakeIdle | Handshaking | HandshakeConfirmed | HandshakeFailed

record tls_key_availability =
  ka_initial :: bool
  ka_handshake :: bool
  ka_application :: bool

record crypto_bytes =
  cb_level :: tls_encryption_level
  cb_offset :: u64
  cb_data :: buffer

definition key_schedule_ready :: "crypto_provider_status \<Rightarrow> bool" where
  "key_schedule_ready s \<longleftrightarrow>
     cps_available_from_external_provider s \<and> cps_suite s \<noteq> SuiteUnknown \<and> cap_tls_owns_key_schedule (cps_capabilities s)"

definition application_data_ready :: "handshake_state \<Rightarrow> tls_key_availability \<Rightarrow> crypto_provider_status \<Rightarrow> bool" where
  "application_data_ready state keys status \<longleftrightarrow>
     state = HandshakeConfirmed \<and> ka_application keys \<and> key_schedule_ready status"

datatype encryption_level = LevelInitial | LevelHandshake | LevelZeroRtt | LevelOneRtt

datatype key_direction = KeySend | KeyReceive

record key_availability_event =
  kae_level :: encryption_level
  kae_direction :: key_direction

record directional_key_availability =
  dka_send :: bool
  dka_receive :: bool

record key_lifecycle_state =
  kl_initial :: directional_key_availability
  kl_handshake :: directional_key_availability
  kl_zero_rtt :: directional_key_availability
  kl_one_rtt :: directional_key_availability
  kl_initial_discarded :: bool
  kl_handshake_discarded :: bool
  kl_application_discarded :: bool

definition new_key_lifecycle :: key_lifecycle_state where
  "new_key_lifecycle =
     (let none = \<lparr>dka_send = False, dka_receive = False\<rparr> in
      \<lparr>kl_initial = none, kl_handshake = none, kl_zero_rtt = none, kl_one_rtt = none,
       kl_initial_discarded = False, kl_handshake_discarded = False, kl_application_discarded = False\<rparr>)"

fun availability_for :: "key_lifecycle_state \<Rightarrow> encryption_level \<Rightarrow> directional_key_availability" where
  "availability_for k LevelInitial = kl_initial k"
| "availability_for k LevelHandshake = kl_handshake k"
| "availability_for k LevelZeroRtt = kl_zero_rtt k"
| "availability_for k LevelOneRtt = kl_one_rtt k"

fun set_availability :: "key_lifecycle_state \<Rightarrow> encryption_level \<Rightarrow> directional_key_availability \<Rightarrow> key_lifecycle_state" where
  "set_availability k LevelInitial a = k\<lparr>kl_initial := a\<rparr>"
| "set_availability k LevelHandshake a = k\<lparr>kl_handshake := a\<rparr>"
| "set_availability k LevelZeroRtt a = k\<lparr>kl_zero_rtt := a\<rparr>"
| "set_availability k LevelOneRtt a = k\<lparr>kl_one_rtt := a\<rparr>"

definition install :: "key_lifecycle_state \<Rightarrow> key_availability_event \<Rightarrow> key_lifecycle_state" where
  "install k event =
     (let a = availability_for k (kae_level event) in
      set_availability k (kae_level event)
        (if kae_direction event = KeySend then a\<lparr>dka_send := True\<rparr> else a\<lparr>dka_receive := True\<rparr>))"

definition available :: "key_lifecycle_state \<Rightarrow> encryption_level \<Rightarrow> key_direction \<Rightarrow> bool" where
  "available k level direction =
     (let a = availability_for k level in if direction = KeySend then dka_send a else dka_receive a)"

definition install_both :: "key_lifecycle_state \<Rightarrow> encryption_level \<Rightarrow> key_lifecycle_state" where
  "install_both k level =
     install (install k \<lparr>kae_level = level, kae_direction = KeySend\<rparr>) \<lparr>kae_level = level, kae_direction = KeyReceive\<rparr>"

definition discarded :: "key_lifecycle_state \<Rightarrow> packet_number_space \<Rightarrow> bool" where
  "discarded k space =
     (if space = ApplicationSpace then kl_application_discarded k
      else if space = HandshakeSpace then kl_handshake_discarded k else kl_initial_discarded k)"

definition discard :: "key_lifecycle_state \<Rightarrow> packet_number_space \<Rightarrow> key_lifecycle_state" where
  "discard k space =
     (if space = ApplicationSpace then k\<lparr>kl_application_discarded := True\<rparr>
      else if space = HandshakeSpace then k\<lparr>kl_handshake_discarded := True\<rparr> else k\<lparr>kl_initial_discarded := True\<rparr>)"

definition observe_tls :: "key_lifecycle_state \<Rightarrow> handshake_state \<Rightarrow> tls_key_availability \<Rightarrow> key_lifecycle_state" where
  "observe_tls k state keys =
     (let k1 = (if ka_initial keys then install_both k LevelInitial else k);
          k2 = (if ka_handshake keys then discard (install_both k1 LevelHandshake) InitialSpace else k1)
      in if ka_application keys then install_both k2 LevelOneRtt else k2)"

section \<open>Packet number spaces\<close>

record connection_packet_space_state =
  ps_queue :: "frame list"
  ps_next_packet_number :: u64
  ps_received :: received_packet_tracker
  ps_sent :: sent_packet_tracker
  ps_largest_acknowledged :: "u64 option"

definition new_packet_space :: "packet_number_space \<Rightarrow> connection_packet_space_state" where
  "new_packet_space space = \<lparr>ps_queue = [], ps_next_packet_number = 0, ps_received = empty_received_tracker,
     ps_sent = \<lparr>spt_space = space, spt_packets = []\<rparr>, ps_largest_acknowledged = None\<rparr>"

record connection_packet_spaces =
  cps_initial :: connection_packet_space_state
  cps_handshake :: connection_packet_space_state
  cps_application :: connection_packet_space_state

definition new_packet_spaces :: connection_packet_spaces where
  "new_packet_spaces = \<lparr>cps_initial = new_packet_space InitialSpace, cps_handshake = new_packet_space HandshakeSpace,
     cps_application = new_packet_space ApplicationSpace\<rparr>"

text \<open>The two overloads of \<open>get\<close>: reading, and writing through the reference.\<close>

definition get_space :: "connection_packet_spaces \<Rightarrow> packet_number_space \<Rightarrow> connection_packet_space_state" where
  "get_space c space =
     (if space = ApplicationSpace then cps_application c
      else if space = HandshakeSpace then cps_handshake c else cps_initial c)"

definition update_space ::
    "packet_number_space \<Rightarrow> (connection_packet_space_state \<Rightarrow> connection_packet_space_state) \<Rightarrow> connection_packet_spaces
     \<Rightarrow> connection_packet_spaces" where
  "update_space space f c =
     (if space = ApplicationSpace then c\<lparr>cps_application := f (cps_application c)\<rparr>
      else if space = HandshakeSpace then c\<lparr>cps_handshake := f (cps_handshake c)\<rparr>
      else c\<lparr>cps_initial := f (cps_initial c)\<rparr>)"

definition clear_space_state :: "connection_packet_space_state \<Rightarrow> connection_packet_space_state" where
  "clear_space_state st = st\<lparr>ps_queue := [], ps_received := received_clear (ps_received st),
     ps_sent := sent_clear (ps_sent st), ps_largest_acknowledged := None\<rparr>"

definition clear_space :: "connection_packet_spaces \<Rightarrow> packet_number_space \<Rightarrow> connection_packet_spaces" where
  "clear_space c space = update_space space clear_space_state c"

section \<open>Configuration, timers and events\<close>

datatype connection_role = ClientRole | ServerRole

datatype connection_loop_state = Active | Closing | Draining | Closed

datatype connection_lifecycle_timer_kind = IdleKind | ClosingKind | DrainingKind

record packet_protector_update =
  ppu_error :: flowq_error
  ppu_handshake_tx :: "packet_protector option"
  ppu_handshake_rx :: "packet_protector option"
  ppu_application_tx :: "packet_protector option"
  ppu_application_rx :: "packet_protector option"

record connection_loop_config =
  cfg_role :: connection_role
  cfg_version :: u32
  cfg_local_connection_id :: connection_id
  cfg_remote_connection_id :: connection_id
  cfg_peer :: endpoint
  cfg_max_datagram_size :: nat
  cfg_initial_stream_send_max_data :: u64
  cfg_initial_connection_send_max_data :: u64
  cfg_max_packet_payload_size :: nat
  cfg_initial_max_stream_data_bidi_local :: u64
  cfg_initial_max_stream_data_bidi_remote :: u64
  cfg_initial_max_stream_data_uni :: u64
  cfg_initial_max_streams_bidi :: u64
  cfg_initial_max_streams_uni :: u64
  cfg_max_idle_timeout :: duration
  cfg_max_udp_payload_size :: u64
  cfg_active_connection_id_limit :: u64
  cfg_ack_delay_exponent :: u64
  cfg_max_ack_delay :: duration
  cfg_disable_active_migration :: bool
  cfg_key_lifecycle :: key_lifecycle_state
  cfg_closing_draining_timeout :: duration
  cfg_peer_address_validated :: bool
  cfg_initial_tx_protector :: "packet_protector option"
  cfg_initial_rx_protector :: "packet_protector option"
  cfg_handshake_tx_protector :: "packet_protector option"
  cfg_handshake_rx_protector :: "packet_protector option"
  cfg_application_tx_protector :: "packet_protector option"
  cfg_application_rx_protector :: "packet_protector option"
  cfg_enable_pacing :: bool
  cfg_enable_zero_copy :: bool

definition milliseconds :: "u64 \<Rightarrow> duration" where
  "milliseconds n = int n * 1000000"

definition apply_transport_parameters :: "connection_loop_config \<Rightarrow> transport_parameters \<Rightarrow> connection_loop_config" where
  "apply_transport_parameters config p =
     (let c = config;
          c = (case tp_max_idle_timeout p of Some v \<Rightarrow> c\<lparr>cfg_max_idle_timeout := milliseconds v\<rparr> | None \<Rightarrow> c);
          c = (case tp_max_udp_payload_size p of
                 Some v \<Rightarrow> (let c = c\<lparr>cfg_max_udp_payload_size := v\<rparr>
                            in if v \<le> u64_max then c\<lparr>cfg_max_packet_payload_size := v\<rparr> else c)
               | None \<Rightarrow> c);
          c = (case tp_initial_max_data p of Some v \<Rightarrow> c\<lparr>cfg_initial_connection_send_max_data := v\<rparr> | None \<Rightarrow> c);
          c = (case tp_initial_max_stream_data_bidi_local p of
                 Some v \<Rightarrow> c\<lparr>cfg_initial_max_stream_data_bidi_local := v\<rparr> | None \<Rightarrow> c);
          c = (case tp_initial_max_stream_data_bidi_remote p of
                 Some v \<Rightarrow> c\<lparr>cfg_initial_max_stream_data_bidi_remote := v\<rparr> | None \<Rightarrow> c);
          c = (case tp_initial_max_stream_data_uni p of
                 Some v \<Rightarrow> c\<lparr>cfg_initial_max_stream_data_uni := v, cfg_initial_stream_send_max_data := v\<rparr> | None \<Rightarrow> c);
          c = (case tp_initial_max_streams_bidi p of Some v \<Rightarrow> c\<lparr>cfg_initial_max_streams_bidi := v\<rparr> | None \<Rightarrow> c);
          c = (case tp_initial_max_streams_uni p of Some v \<Rightarrow> c\<lparr>cfg_initial_max_streams_uni := v\<rparr> | None \<Rightarrow> c);
          c = (case tp_active_connection_id_limit p of Some v \<Rightarrow> c\<lparr>cfg_active_connection_id_limit := v\<rparr> | None \<Rightarrow> c);
          c = (case tp_ack_delay_exponent p of Some v \<Rightarrow> c\<lparr>cfg_ack_delay_exponent := v\<rparr> | None \<Rightarrow> c);
          c = (case tp_max_ack_delay p of Some v \<Rightarrow> c\<lparr>cfg_max_ack_delay := milliseconds v\<rparr> | None \<Rightarrow> c)
      in c\<lparr>cfg_disable_active_migration := tp_disable_active_migration p\<rparr>)"

record received_packet_event =
  rpe_number :: packet_number
  rpe_frames :: "frame list"
  rpe_peer :: endpoint
  rpe_stream_deliveries :: "(u64 \<times> stream_receive_result) list"

record connection_recovery_timer =
  crt_space :: packet_number_space
  crt_mode :: loss_timer_mode
  crt_deadline :: time_point

record connection_lifecycle_timer =
  clt_kind :: connection_lifecycle_timer_kind
  clt_deadline :: time_point

record connection_recovery_result =
  crr_space :: packet_number_space
  crr_newly_lost :: "u64 list"
  crr_next_deadline :: "time_point option"

record sent_stream_range =
  ssrg_stream_id :: u64
  ssrg_range :: stream_send_range

record sent_packet_stream_ranges =
  spsr_space :: packet_number_space
  spsr_packet_number :: u64
  spsr_ranges :: "sent_stream_range list"

datatype connection_loop_action =
    SendDatagram buffer endpoint
  | PacketReceived received_packet_event
  | ConnectionClose flowq_error

section \<open>Helpers\<close>

fun neither_padding_nor_ack :: "frame \<Rightarrow> bool" where
  "neither_padding_nor_ack (PaddingFrame _) \<longleftrightarrow> False"
| "neither_padding_nor_ack (AckFrame _) \<longleftrightarrow> False"
| "neither_padding_nor_ack _ \<longleftrightarrow> True"

definition is_ack_eliciting :: "frame list \<Rightarrow> bool" where
  "is_ack_eliciting frames \<longleftrightarrow> list_ex neither_padding_nor_ack frames"

definition is_connection_loop_space :: "packet_number_space \<Rightarrow> bool" where
  "is_connection_loop_space space \<longleftrightarrow> space = InitialSpace \<or> space = HandshakeSpace \<or> space = ApplicationSpace"

definition long_type_for :: "packet_number_space \<Rightarrow> long_packet_type" where
  "long_type_for space = (if space = HandshakeSpace then LongHandshake else LongInitial)"

definition tx_protector_for :: "packet_number_space \<Rightarrow> connection_loop_config \<Rightarrow> packet_protector option" where
  "tx_protector_for space c =
     (if space = ApplicationSpace then cfg_application_tx_protector c
      else if space = HandshakeSpace then cfg_handshake_tx_protector c else cfg_initial_tx_protector c)"

definition rx_protector_for :: "packet_number_space \<Rightarrow> connection_loop_config \<Rightarrow> packet_protector option" where
  "rx_protector_for space c =
     (if space = ApplicationSpace then cfg_application_rx_protector c
      else if space = HandshakeSpace then cfg_handshake_rx_protector c else cfg_initial_rx_protector c)"

definition tls_level_for :: "packet_number_space \<Rightarrow> tls_encryption_level" where
  "tls_level_for space =
     (if space = ApplicationSpace then TlsApplication else if space = HandshakeSpace then TlsHandshake else TlsInitial)"

definition packet_space_for_level :: "tls_encryption_level \<Rightarrow> packet_number_space" where
  "packet_space_for_level level =
     (if level = TlsApplication then ApplicationSpace else if level = TlsHandshake then HandshakeSpace else InitialSpace)"

section \<open>Laws of the spaces and of the key lifecycle\<close>

lemma get_update_space [simp]:
  "get_space (update_space space f c) other = (if other = space then f (get_space c space) else get_space c other)"
  by (cases space; cases other) (simp_all add: get_space_def update_space_def)

lemma update_space_id [simp]: "update_space space (\<lambda>st. st) c = c"
  by (cases space) (simp_all add: update_space_def)

lemma get_clear_space [simp]:
  "get_space (clear_space c space) other = (if other = space then clear_space_state (get_space c space) else get_space c other)"
  by (simp add: clear_space_def)

lemma packet_space_level_inverse [simp]: "packet_space_for_level (tls_level_for space) = space"
  by (cases space) (simp_all add: packet_space_for_level_def tls_level_for_def)

lemma available_install:
  "available (install k e) level direction \<longleftrightarrow>
     (kae_level e = level \<and> kae_direction e = direction) \<or> available k level direction"
  by (cases "kae_level e"; cases level; cases direction; cases "kae_direction e")
    (simp_all add: install_def available_def Let_def)

lemma discarded_install [simp]: "discarded (install k e) space = discarded k space"
  by (cases "kae_level e") (simp_all add: install_def discarded_def Let_def)

lemma available_discard [simp]: "available (discard k space) level direction = available k level direction"
  by (cases level) (simp_all add: discard_def available_def Let_def)

lemma discarded_discard [simp]: "discarded (discard k space) other \<longleftrightarrow> other = space \<or> discarded k other"
  by (cases space; cases other) (simp_all add: discard_def discarded_def)

lemma observe_tls_available:
  "available (observe_tls k st keys) level direction \<longleftrightarrow> available k level direction \<or>
     (case level of LevelInitial \<Rightarrow> ka_initial keys | LevelHandshake \<Rightarrow> ka_handshake keys
      | LevelZeroRtt \<Rightarrow> False | LevelOneRtt \<Rightarrow> ka_application keys)"
  by (cases level; cases direction) (auto simp: observe_tls_def install_both_def available_install Let_def)

lemma observe_tls_discarded:
  "discarded (observe_tls k st keys) space \<longleftrightarrow> discarded k space \<or> space = InitialSpace \<and> ka_handshake keys"
  by (auto simp: observe_tls_def install_both_def Let_def)

end
