(* ===== verification/ConnectionState.thy ===== *)
theory ConnectionState
  imports ConnectionTypes
begin

text \<open>
  The connection loop, \<open>src/include/flowq/quic/connection.hpp\<close>: class \<open>connection_loop\<close> with every member function that
  changes its state.  What lies behind a virtual or callback boundary is the record \<open>connection_env\<close> of functions on an
  abstract world \<open>'w\<close> (the TLS adapter, the protector refresh and path-challenge callbacks, the pacing controller with its
  clock, the zero-copy builder) and on an abstract congestion controller state \<open>'c\<close>.  A clock reading that
  the code takes itself is an argument \<open>now\<close>.  Members that nothing reads (\<open>largest_initial_acknowledged_\<close> and its siblings,
  \<open>buffer_pool_\<close>, the key update manager, which is only inspected) are left out.
\<close>

section \<open>State\<close>

text \<open>A path challenge is eight bytes; the generator throws a \<open>std::exception\<close> with a message, or something else.\<close>

record ('w, 'c) connection_env =
  env_has_tls :: bool
  env_tls_state :: "'w \<Rightarrow> handshake_state"
  env_key_availability :: "'w \<Rightarrow> tls_key_availability"
  env_tls_provider_status :: "'w \<Rightarrow> crypto_provider_status"
  env_receive_crypto :: "crypto_bytes \<Rightarrow> 'w \<Rightarrow> flowq_error \<times> 'w"
  env_drain_crypto :: "'w \<Rightarrow> crypto_bytes list \<times> 'w"
  env_advance :: "'w \<Rightarrow> flowq_error \<times> 'w"
  env_protector_refresh :: "('w \<Rightarrow> packet_protector_update \<times> 'w) option"
  env_path_challenge :: "'w \<Rightarrow> (string option + buffer) \<times> 'w"
  env_zero_copy_build :: "application_packet_build_request \<Rightarrow> assembled_packet"
  env_pacing_can_send :: "u64 \<Rightarrow> u64 \<Rightarrow> 'w \<Rightarrow> bool \<times> 'w"
  env_pacing_on_packet_sent :: "u64 \<Rightarrow> 'w \<Rightarrow> 'w"
  env_pacing_set_congestion_window :: "u64 \<Rightarrow> 'w \<Rightarrow> 'w"
  env_pacing_set_smoothed_rtt :: "duration \<Rightarrow> 'w \<Rightarrow> 'w"
  env_cc_on_packet_sent :: "u64 \<Rightarrow> bool \<Rightarrow> 'c \<Rightarrow> 'c"
  env_cc_on_packet_acknowledged :: "u64 \<Rightarrow> 'c \<Rightarrow> 'c"
  env_cc_on_packet_lost :: "u64 \<Rightarrow> 'c \<Rightarrow> 'c"
  env_cc_on_congestion_event :: "'c \<Rightarrow> 'c"
  env_cc_congestion_window :: "'c \<Rightarrow> u64"
  env_cc_bytes_in_flight :: "'c \<Rightarrow> u64"
  env_cc_can_send :: "'c \<Rightarrow> bool"

record remote_connection_id_entry =
  rce_sequence_number :: u64
  rce_id :: connection_id
  rce_stateless_reset_token :: buffer
  rce_retired :: bool

record ('w, 'c) connection_loop =
  cl_config :: connection_loop_config
  cl_state :: connection_loop_state
  cl_packet_spaces :: connection_packet_spaces
  cl_actions :: "connection_loop_action list"
  cl_receive_streams :: stream_receive_set
  cl_send_streams :: stream_send_set
  cl_connection_send_max_data :: u64
  cl_connection_data_sent :: u64
  cl_peer_address_validated :: bool
  cl_peer_bytes_received :: u64
  cl_peer_bytes_sent :: u64
  cl_recovery_rtt :: rtt_estimator
  cl_recovery_pto_config :: pto_config
  cl_congestion :: 'c
  cl_recovery_packets :: "recovery_packet list"
  cl_lifecycle_dirty :: bool
  cl_last_activity_at :: "time_point option"
  cl_close_state_entered_at :: "time_point option"
  cl_pending_path_challenge :: "buffer option"
  cl_pending_path_challenge_queued :: bool
  cl_peer_path_migrated :: bool
  cl_sent_stream_ranges :: "sent_packet_stream_ranges list"
  cl_pacing_enabled :: bool
  cl_remote_connection_ids :: "remote_connection_id_entry list"
  cl_remote_connection_ids_initialized :: bool
  cl_active_remote_connection_id_sequence :: u64
  cl_world :: 'w

definition local_stream_initiator :: "connection_role \<Rightarrow> stream_initiator" where
  "local_stream_initiator role = (if role = ClientRole then Client else Server)"

text \<open>The constructor; \<open>congestion\<close> is what \<open>create_congestion_controller\<close> returns, \<open>w\<close> the world with an
  initialised pacing controller.\<close>

definition new_connection_loop :: "connection_loop_config \<Rightarrow> 'c \<Rightarrow> 'w \<Rightarrow> ('w, 'c) connection_loop" where
  "new_connection_loop config congestion w =
     \<lparr>cl_config = config, cl_state = Active, cl_packet_spaces = new_packet_spaces, cl_actions = [],
      cl_receive_streams = new_stream_receive_set (cfg_initial_max_stream_data_bidi_local config)
        (local_stream_initiator (cfg_role config))
        \<lparr>sl_bidirectional = cfg_initial_max_streams_bidi config, sl_unidirectional = cfg_initial_max_streams_uni config\<rparr>,
      cl_send_streams = new_stream_send_set (cfg_initial_stream_send_max_data config)
        \<lparr>sl_bidirectional = cfg_initial_max_streams_bidi config, sl_unidirectional = cfg_initial_max_streams_uni config\<rparr>,
      cl_connection_send_max_data = cfg_initial_connection_send_max_data config, cl_connection_data_sent = 0,
      cl_peer_address_validated = cfg_peer_address_validated config, cl_peer_bytes_received = 0, cl_peer_bytes_sent = 0,
      cl_recovery_rtt = new_rtt_estimator,
      cl_recovery_pto_config = \<lparr>pto_max_ack_delay = cfg_max_ack_delay config, pto_initial_rtt = 333000000, pto_count = 0,
        pto_handshake_confirmed = False\<rparr>,
      cl_congestion = congestion, cl_recovery_packets = [], cl_lifecycle_dirty = True, cl_last_activity_at = None,
      cl_close_state_entered_at = None, cl_pending_path_challenge = None, cl_pending_path_challenge_queued = False,
      cl_peer_path_migrated = False, cl_sent_stream_ranges = [], cl_pacing_enabled = cfg_enable_pacing config,
      cl_remote_connection_ids = [], cl_remote_connection_ids_initialized = False,
      cl_active_remote_connection_id_sequence = 0, cl_world = w\<rparr>"

definition loop_active :: "('w, 'c) connection_loop \<Rightarrow> bool" where
  "loop_active s \<longleftrightarrow> cl_state s = Active"

definition mark_activity :: "time_point \<Rightarrow> ('w, 'c) connection_loop \<Rightarrow> ('w, 'c) connection_loop" where
  "mark_activity at s = s\<lparr>cl_last_activity_at := Some at\<rparr>"

definition saturating_add :: "u64 \<Rightarrow> nat \<Rightarrow> u64" where
  "saturating_add target increment =
     (let remaining = u64_max - target in if increment > remaining then u64_max else target + increment)"

text \<open>Reading and writing one packet number space.\<close>

abbreviation space_of :: "('w, 'c) connection_loop \<Rightarrow> packet_number_space \<Rightarrow> connection_packet_space_state" where
  "space_of s space \<equiv> get_space (cl_packet_spaces s) space"

definition on_space ::
    "packet_number_space \<Rightarrow> (connection_packet_space_state \<Rightarrow> connection_packet_space_state)
     \<Rightarrow> ('w, 'c) connection_loop \<Rightarrow> ('w, 'c) connection_loop" where
  "on_space space f s = s\<lparr>cl_packet_spaces := update_space space f (cl_packet_spaces s)\<rparr>"

definition push_queue :: "packet_number_space \<Rightarrow> frame \<Rightarrow> ('w, 'c) connection_loop \<Rightarrow> ('w, 'c) connection_loop" where
  "push_queue space f = on_space space (\<lambda>st. st\<lparr>ps_queue := ps_queue st @ [f]\<rparr>)"

definition emit_action :: "connection_loop_action \<Rightarrow> ('w, 'c) connection_loop \<Rightarrow> ('w, 'c) connection_loop" where
  "emit_action a s = s\<lparr>cl_actions := cl_actions s @ [a]\<rparr>"

section \<open>Closing\<close>

definition clear_packet_space :: "packet_number_space \<Rightarrow> ('w, 'c) connection_loop \<Rightarrow> ('w, 'c) connection_loop" where
  "clear_packet_space space s =
     s\<lparr>cl_packet_spaces := clear_space (cl_packet_spaces s) space,
       cl_recovery_packets := filter (\<lambda>p. rp_space p \<noteq> space) (cl_recovery_packets s),
       cl_sent_stream_ranges := filter (\<lambda>p. spsr_space p \<noteq> space) (cl_sent_stream_ranges s)\<rparr>"

definition clear_all_packet_spaces :: "('w, 'c) connection_loop \<Rightarrow> ('w, 'c) connection_loop" where
  "clear_all_packet_spaces s =
     clear_packet_space ApplicationSpace (clear_packet_space HandshakeSpace (clear_packet_space InitialSpace s))"

definition packet_space_discarded :: "('w, 'c) connection_loop \<Rightarrow> packet_number_space \<Rightarrow> bool" where
  "packet_space_discarded s space \<longleftrightarrow> discarded (cfg_key_lifecycle (cl_config s)) space"

definition clear_if_discarded :: "packet_number_space \<Rightarrow> ('w, 'c) connection_loop \<Rightarrow> ('w, 'c) connection_loop" where
  "clear_if_discarded space s = (if packet_space_discarded s space then clear_packet_space space s else s)"

definition clear_discarded_packet_spaces :: "('w, 'c) connection_loop \<Rightarrow> ('w, 'c) connection_loop" where
  "clear_discarded_packet_spaces s =
     clear_if_discarded ApplicationSpace (clear_if_discarded HandshakeSpace (clear_if_discarded InitialSpace s))"

definition enter_closing :: "flowq_error \<Rightarrow> time_point \<Rightarrow> ('w, 'c) connection_loop \<Rightarrow> ('w, 'c) connection_loop" where
  "enter_closing e at s =
     (if \<not> loop_active s then s
      else emit_action (ConnectionClose e)
        (clear_all_packet_spaces (s\<lparr>cl_state := Closing, cl_close_state_entered_at := Some at\<rparr>)))"

definition enter_draining :: "flowq_error \<Rightarrow> time_point \<Rightarrow> ('w, 'c) connection_loop \<Rightarrow> ('w, 'c) connection_loop" where
  "enter_draining e at s =
     (if cl_state s = Draining \<or> cl_state s = Closed then s
      else emit_action (ConnectionClose e)
        (clear_all_packet_spaces (s\<lparr>cl_state := Draining, cl_close_state_entered_at := Some at\<rparr>)))"

definition enter_closed :: "('w, 'c) connection_loop \<Rightarrow> ('w, 'c) connection_loop" where
  "enter_closed s =
     (clear_all_packet_spaces (s\<lparr>cl_state := Closed, cl_close_state_entered_at := None\<rparr>))\<lparr>cl_actions := []\<rparr>"

section \<open>Path validation and the anti-amplification limit\<close>

definition application_send_allowed :: "('w, 'c) connection_env \<Rightarrow> ('w, 'c) connection_loop \<Rightarrow> bool" where
  "application_send_allowed E s \<longleftrightarrow>
     env_has_tls E
     \<and> application_data_ready (env_tls_state E (cl_world s)) (env_key_availability E (cl_world s))
         (env_tls_provider_status E (cl_world s))
     \<and> available (cfg_key_lifecycle (cl_config s)) LevelOneRtt KeySend"

definition anti_amplification_limited :: "('w, 'c) connection_loop \<Rightarrow> bool" where
  "anti_amplification_limited s \<longleftrightarrow> cfg_role (cl_config s) = ServerRole \<and> \<not> cl_peer_address_validated s"

definition anti_amplification_allows :: "('w, 'c) connection_loop \<Rightarrow> nat \<Rightarrow> bool" where
  "anti_amplification_allows s outbound_size \<longleftrightarrow>
     (if \<not> anti_amplification_limited s then True
      else if cl_peer_bytes_received s > u64_max div 3 then True
      else
        let allowance = u64_mul (cl_peer_bytes_received s) 3
        in allowance \<ge> cl_peer_bytes_sent s \<and> outbound_size \<le> u64_sub allowance (cl_peer_bytes_sent s))"

definition record_peer_bytes_received :: "nat \<Rightarrow> ('w, 'c) connection_loop \<Rightarrow> ('w, 'c) connection_loop" where
  "record_peer_bytes_received n s =
     (if anti_amplification_limited s then s\<lparr>cl_peer_bytes_received := saturating_add (cl_peer_bytes_received s) n\<rparr> else s)"

definition record_peer_bytes_sent :: "nat \<Rightarrow> ('w, 'c) connection_loop \<Rightarrow> ('w, 'c) connection_loop" where
  "record_peer_bytes_sent n s =
     (if anti_amplification_limited s then s\<lparr>cl_peer_bytes_sent := saturating_add (cl_peer_bytes_sent s) n\<rparr> else s)"

definition refresh_peer_address_validation ::
    "('w, 'c) connection_env \<Rightarrow> ('w, 'c) connection_loop \<Rightarrow> ('w, 'c) connection_loop" where
  "refresh_peer_address_validation E s =
     (if \<not> anti_amplification_limited s \<or> \<not> env_has_tls E then s
      else if cl_peer_path_migrated s \<or> cl_pending_path_challenge s \<noteq> None then s
      else if env_tls_state E (cl_world s) = HandshakeConfirmed then s\<lparr>cl_peer_address_validated := True\<rparr>
      else s)"

definition remove_queued_path_challenge :: "('w, 'c) connection_loop \<Rightarrow> ('w, 'c) connection_loop" where
  "remove_queued_path_challenge s =
     (case cl_pending_path_challenge s of
        None \<Rightarrow> s
      | Some token \<Rightarrow>
          if \<not> cl_pending_path_challenge_queued s then s
          else (on_space ApplicationSpace
                 (\<lambda>st. st\<lparr>ps_queue := filter (\<lambda>f. f \<noteq> PathChallengeFrame token) (ps_queue st)\<rparr>) s)
               \<lparr>cl_pending_path_challenge_queued := False\<rparr>)"

definition queue_pending_path_challenge_if_ready ::
    "('w, 'c) connection_env \<Rightarrow> ('w, 'c) connection_loop \<Rightarrow> ('w, 'c) connection_loop" where
  "queue_pending_path_challenge_if_ready E s =
     (case cl_pending_path_challenge s of
        None \<Rightarrow> s
      | Some token \<Rightarrow>
          if cl_pending_path_challenge_queued s \<or> \<not> application_send_allowed E s then s
          else (push_queue ApplicationSpace (PathChallengeFrame token) s)\<lparr>cl_pending_path_challenge_queued := True\<rparr>)"

definition start_peer_path_validation ::
    "('w, 'c) connection_env \<Rightarrow> time_point \<Rightarrow> ('w, 'c) connection_loop \<Rightarrow> bool \<times> ('w, 'c) connection_loop" where
  "start_peer_path_validation E received_at s =
     (let s1 = remove_queued_path_challenge s;
          (outcome, w) = env_path_challenge E (cl_world s1);
          s2 = s1\<lparr>cl_world := w\<rparr> in
      case outcome of
        Inl (Some what) \<Rightarrow>
          (False, enter_closing \<lparr>err_code = EC_internal_error, err_message = ''path challenge generation failed: '' @ what\<rparr>
             received_at s2)
      | Inl None \<Rightarrow>
          (False, enter_closing \<lparr>err_code = EC_internal_error, err_message = ''path challenge generation failed''\<rparr>
             received_at s2)
      | Inr token \<Rightarrow>
          (True, queue_pending_path_challenge_if_ready E
             (s2\<lparr>cl_pending_path_challenge := Some token, cl_pending_path_challenge_queued := False\<rparr>)))"

definition reset_peer_path_validation ::
    "('w, 'c) connection_env \<Rightarrow> time_point \<Rightarrow> ('w, 'c) connection_loop \<Rightarrow> bool \<times> ('w, 'c) connection_loop" where
  "reset_peer_path_validation E received_at s =
     (if cfg_role (cl_config s) \<noteq> ServerRole then (True, s)
      else start_peer_path_validation E received_at
        (s\<lparr>cl_peer_address_validated := False, cl_peer_bytes_received := 0, cl_peer_bytes_sent := 0,
           cl_peer_path_migrated := True\<rparr>))"

definition validate_migrated_peer_path :: "('w, 'c) connection_loop \<Rightarrow> ('w, 'c) connection_loop" where
  "validate_migrated_peer_path s =
     s\<lparr>cl_peer_address_validated := True, cl_peer_path_migrated := False, cl_pending_path_challenge := None,
       cl_pending_path_challenge_queued := False, cl_peer_bytes_received := 0, cl_peer_bytes_sent := 0\<rparr>"

definition same_endpoint :: "endpoint \<Rightarrow> endpoint \<Rightarrow> bool" where
  "same_endpoint a b \<longleftrightarrow> ep_host a = ep_host b \<and> ep_port a = ep_port b \<and> ep_alpn a = ep_alpn b"

definition accept_peer ::
    "('w, 'c) connection_env \<Rightarrow> endpoint \<Rightarrow> time_point \<Rightarrow> ('w, 'c) connection_loop \<Rightarrow> bool \<times> ('w, 'c) connection_loop" where
  "accept_peer E peer received_at s =
     (if same_endpoint peer (cfg_peer (cl_config s)) then (True, s)
      else if cfg_disable_active_migration (cl_config s) then
        (False, enter_closing (protocol_error ''peer address changed while active migration is disabled'') received_at s)
      else reset_peer_path_validation E received_at (s\<lparr>cl_config := (cl_config s)\<lparr>cfg_peer := peer\<rparr>\<rparr>))"

section \<open>Keys and protectors\<close>

definition refresh_key_lifecycle ::
    "('w, 'c) connection_env \<Rightarrow> ('w, 'c) connection_loop \<Rightarrow> ('w, 'c) connection_loop" where
  "refresh_key_lifecycle E s =
     (let s1 =
        (if cl_lifecycle_dirty s then
           (let s1 =
              (if env_has_tls E then
                 s\<lparr>cl_config := (cl_config s)\<lparr>cfg_key_lifecycle :=
                     observe_tls (cfg_key_lifecycle (cl_config s)) (env_tls_state E (cl_world s))
                       (env_key_availability E (cl_world s))\<rparr>,
                   cl_recovery_pto_config := (cl_recovery_pto_config s)\<lparr>pto_handshake_confirmed :=
                     env_tls_state E (cl_world s) = HandshakeConfirmed\<rparr>\<rparr>
               else s)
            in (clear_discarded_packet_spaces s1)\<lparr>cl_lifecycle_dirty := False\<rparr>)
         else s)
      in queue_pending_path_challenge_if_ready E (refresh_peer_address_validation E s1))"

definition mark_lifecycle_dirty :: "('w, 'c) connection_loop \<Rightarrow> ('w, 'c) connection_loop" where
  "mark_lifecycle_dirty s = s\<lparr>cl_lifecycle_dirty := True\<rparr>"

definition keep_or :: "'a option \<Rightarrow> 'a option \<Rightarrow> 'a option" where
  "keep_or old new = (if new \<noteq> None then new else old)"

definition set_packet_protectors ::
    "packet_protector option \<Rightarrow> packet_protector option \<Rightarrow> packet_protector option \<Rightarrow> packet_protector option
     \<Rightarrow> ('w, 'c) connection_loop \<Rightarrow> ('w, 'c) connection_loop" where
  "set_packet_protectors handshake_tx handshake_rx application_tx application_rx s =
     s\<lparr>cl_config := (cl_config s)
         \<lparr>cfg_handshake_tx_protector := keep_or (cfg_handshake_tx_protector (cl_config s)) handshake_tx,
          cfg_handshake_rx_protector := keep_or (cfg_handshake_rx_protector (cl_config s)) handshake_rx,
          cfg_application_tx_protector := keep_or (cfg_application_tx_protector (cl_config s)) application_tx,
          cfg_application_rx_protector := keep_or (cfg_application_rx_protector (cl_config s)) application_rx\<rparr>\<rparr>"

definition refresh_packet_protectors ::
    "('w, 'c) connection_env \<Rightarrow> time_point \<Rightarrow> ('w, 'c) connection_loop \<Rightarrow> bool \<times> ('w, 'c) connection_loop" where
  "refresh_packet_protectors E at s =
     (case env_protector_refresh E of
        None \<Rightarrow> (True, s)
      | Some refresh \<Rightarrow>
          let (update, w) = refresh (cl_world s); s1 = s\<lparr>cl_world := w\<rparr> in
          if \<not> error_ok (ppu_error update) then (False, enter_closing (ppu_error update) at s1)
          else (True, set_packet_protectors (ppu_handshake_tx update) (ppu_handshake_rx update)
                        (ppu_application_tx update) (ppu_application_rx update) s1))"

section \<open>Checks on inbound frames\<close>

fun peer_close_error :: "frame list \<Rightarrow> flowq_error option" where
  "peer_close_error [] = None"
| "peer_close_error (f # fs) =
     (case f of
        ConnectionCloseFrame c \<Rightarrow> Some \<lparr>err_code = EC_connection_closed,
          err_message = (if cc_reason c = [] then ''peer closed connection'' else cc_reason c)\<rparr>
      | ApplicationCloseFrame c \<Rightarrow> Some \<lparr>err_code = EC_connection_closed,
          err_message = (if ac_reason c = [] then ''peer closed application'' else ac_reason c)\<rparr>
      | _ \<Rightarrow> peer_close_error fs)"

fun application_packet_space_only_frame_name :: "frame \<Rightarrow> string option" where
  "application_packet_space_only_frame_name (ApplicationCloseFrame _) = Some ''APPLICATION_CLOSE''"
| "application_packet_space_only_frame_name (ResetStreamFrame _) = Some ''RESET_STREAM''"
| "application_packet_space_only_frame_name (StopSendingFrame _) = Some ''STOP_SENDING''"
| "application_packet_space_only_frame_name (NewTokenFrame _) = Some ''NEW_TOKEN''"
| "application_packet_space_only_frame_name (StreamFrame _) = Some ''STREAM''"
| "application_packet_space_only_frame_name (MaxDataFrame _) = Some ''MAX_DATA''"
| "application_packet_space_only_frame_name (MaxStreamDataFrame _) = Some ''MAX_STREAM_DATA''"
| "application_packet_space_only_frame_name (DataBlockedFrame _) = Some ''DATA_BLOCKED''"
| "application_packet_space_only_frame_name (StreamDataBlockedFrame _) = Some ''STREAM_DATA_BLOCKED''"
| "application_packet_space_only_frame_name (MaxStreamsFrame _) = Some ''MAX_STREAMS''"
| "application_packet_space_only_frame_name (StreamsBlockedFrame _) = Some ''STREAMS_BLOCKED''"
| "application_packet_space_only_frame_name (NewConnectionIdFrame _) = Some ''NEW_CONNECTION_ID''"
| "application_packet_space_only_frame_name (RetireConnectionIdFrame _) = Some ''RETIRE_CONNECTION_ID''"
| "application_packet_space_only_frame_name HandshakeDoneFrame = Some ''HANDSHAKE_DONE''"
| "application_packet_space_only_frame_name (PathChallengeFrame _) = Some ''PATH_CHALLENGE''"
| "application_packet_space_only_frame_name (PathResponseFrame _) = Some ''PATH_RESPONSE''"
| "application_packet_space_only_frame_name _ = None"

fun space_frames_loop :: "frame list \<Rightarrow> flowq_error" where
  "space_frames_loop [] = no_error"
| "space_frames_loop (f # fs) =
     (case application_packet_space_only_frame_name f of
        Some name \<Rightarrow> protocol_error (name @ '' is only valid in Application packet space'')
      | None \<Rightarrow> space_frames_loop fs)"

definition validate_inbound_frame_packet_space :: "packet_number_space \<Rightarrow> frame list \<Rightarrow> flowq_error" where
  "validate_inbound_frame_packet_space space frames =
     (if space = ApplicationSpace then no_error else space_frames_loop frames)"

fun role_frames_loop :: "frame list \<Rightarrow> flowq_error" where
  "role_frames_loop [] = no_error"
| "role_frames_loop (f # fs) =
     (case f of
        HandshakeDoneFrame \<Rightarrow> protocol_error ''HANDSHAKE_DONE frames are only sent by servers''
      | NewTokenFrame _ \<Rightarrow> protocol_error ''NEW_TOKEN frames are only sent by servers''
      | _ \<Rightarrow> role_frames_loop fs)"

definition validate_inbound_frame_role :: "connection_role \<Rightarrow> frame list \<Rightarrow> flowq_error" where
  "validate_inbound_frame_role local_role frames =
     (if local_role \<noteq> ServerRole then no_error else role_frames_loop frames)"

fun ack_ranges_valid_loop :: "u64 \<Rightarrow> ack_range list \<Rightarrow> bool" where
  "ack_ranges_valid_loop range_low [] \<longleftrightarrow> True"
| "ack_ranges_valid_loop range_low (r # rs) \<longleftrightarrow>
     (if ar_gap r > u64_max - 2 then False
      else
        let skipped_packets = ar_gap r + 2 in
        if range_low < skipped_packets then False
        else
          let range_high = range_low - skipped_packets in
          if ar_length r > range_high then False
          else ack_ranges_valid_loop (range_high - ar_length r) rs)"

definition loop_ack_ranges_valid :: "ack_frame \<Rightarrow> bool" where
  "loop_ack_ranges_valid f \<longleftrightarrow>
     (if af_first_ack_range f > af_largest_acknowledged f then False
      else ack_ranges_valid_loop (af_largest_acknowledged f - af_first_ack_range f) (af_ranges f))"

fun validate_inbound_ack_ranges :: "frame list \<Rightarrow> flowq_error" where
  "validate_inbound_ack_ranges [] = no_error"
| "validate_inbound_ack_ranges (f # fs) =
     (case f of
        AckFrame a \<Rightarrow> if \<not> loop_ack_ranges_valid a
          then protocol_error ''ACK frame contains invalid packet number ranges'' else validate_inbound_ack_ranges fs
      | _ \<Rightarrow> validate_inbound_ack_ranges fs)"

section \<open>Remote connection identifiers\<close>

definition stateless_reset_token_size :: nat where
  "stateless_reset_token_size = 16"

definition minimum_stateless_reset_datagram_size :: nat where
  "minimum_stateless_reset_datagram_size = 21"

definition all_zero_padding :: "buffer \<Rightarrow> bool" where
  "all_zero_padding bytes \<longleftrightarrow> list_all (\<lambda>b. b = 0x00) bytes"

definition ends_with_token :: "buffer \<Rightarrow> buffer \<Rightarrow> bool" where
  "ends_with_token datagram token \<longleftrightarrow>
     (if length token \<noteq> stateless_reset_token_size \<or> length datagram < length token then False
      else drop (length datagram - length token) datagram = token)"

definition matches_peer_stateless_reset :: "buffer \<Rightarrow> ('w, 'c) connection_loop \<Rightarrow> bool" where
  "matches_peer_stateless_reset datagram s \<longleftrightarrow>
     (if length datagram < minimum_stateless_reset_datagram_size then False
      else list_ex (\<lambda>item. \<not> rce_retired item \<and> ends_with_token datagram (rce_stateless_reset_token item))
             (cl_remote_connection_ids s))"

definition handle_short_packet_parse_error ::
    "buffer \<Rightarrow> flowq_error \<Rightarrow> time_point \<Rightarrow> ('w, 'c) connection_loop \<Rightarrow> ('w, 'c) connection_loop" where
  "handle_short_packet_parse_error datagram e received_at s =
     (if matches_peer_stateless_reset datagram s
      then enter_draining \<lparr>err_code = EC_connection_closed, err_message = ''stateless reset received''\<rparr> received_at s
      else enter_closing e received_at s)"

definition reset_remote_connection_id_state :: "('w, 'c) connection_loop \<Rightarrow> ('w, 'c) connection_loop" where
  "reset_remote_connection_id_state s =
     s\<lparr>cl_remote_connection_ids := [], cl_remote_connection_ids_initialized := False,
       cl_active_remote_connection_id_sequence := 0\<rparr>"

definition ensure_remote_connection_id_state :: "('w, 'c) connection_loop \<Rightarrow> ('w, 'c) connection_loop" where
  "ensure_remote_connection_id_state s =
     (if cl_remote_connection_ids_initialized s then s
      else s\<lparr>cl_remote_connection_ids := cl_remote_connection_ids s @
               [\<lparr>rce_sequence_number = 0, rce_id = cfg_remote_connection_id (cl_config s),
                 rce_stateless_reset_token = [], rce_retired = False\<rparr>],
             cl_remote_connection_ids_initialized := True, cl_active_remote_connection_id_sequence := 0\<rparr>)"

definition find_remote_connection_id :: "u64 \<Rightarrow> ('w, 'c) connection_loop \<Rightarrow> remote_connection_id_entry option" where
  "find_remote_connection_id sequence_number s =
     find (\<lambda>item. rce_sequence_number item = sequence_number) (cl_remote_connection_ids s)"

definition active_remote_connection_id_count :: "('w, 'c) connection_loop \<Rightarrow> nat" where
  "active_remote_connection_id_count s = length (filter (\<lambda>item. \<not> rce_retired item) (cl_remote_connection_ids s))"

fun lowest_active_loop :: "remote_connection_id_entry option \<Rightarrow> remote_connection_id_entry list \<Rightarrow> remote_connection_id_entry option" where
  "lowest_active_loop selected [] = selected"
| "lowest_active_loop selected (item # items) =
     (if rce_retired item then lowest_active_loop selected items
      else (case selected of
          None \<Rightarrow> lowest_active_loop (Some item) items
        | Some sel \<Rightarrow> if rce_sequence_number item < rce_sequence_number sel then lowest_active_loop (Some item) items
                      else lowest_active_loop selected items))"

definition lowest_active_remote_connection_id :: "('w, 'c) connection_loop \<Rightarrow> remote_connection_id_entry option" where
  "lowest_active_remote_connection_id s = lowest_active_loop None (cl_remote_connection_ids s)"

text \<open>The loop that retires: the entries after it, the sequence numbers retired, in order.\<close>

fun retire_loop :: "u64 \<Rightarrow> remote_connection_id_entry list \<Rightarrow> remote_connection_id_entry list \<times> u64 list" where
  "retire_loop retire_prior_to [] = ([], [])"
| "retire_loop retire_prior_to (item # items) =
     (let (items', retired) = retire_loop retire_prior_to items in
      if rce_retired item \<or> rce_sequence_number item \<ge> retire_prior_to then (item # items', retired)
      else (item\<lparr>rce_retired := True\<rparr> # items', rce_sequence_number item # retired))"

definition retire_remote_connection_ids_before ::
    "u64 \<Rightarrow> ('w, 'c) connection_loop \<Rightarrow> flowq_error \<times> ('w, 'c) connection_loop" where
  "retire_remote_connection_ids_before retire_prior_to s =
     (let (items, retired) = retire_loop retire_prior_to (cl_remote_connection_ids s);
          s1 = foldl (\<lambda>s n. push_queue ApplicationSpace (RetireConnectionIdFrame n) s)
                 (s\<lparr>cl_remote_connection_ids := items\<rparr>) retired in
      if cl_active_remote_connection_id_sequence s \<notin> set retired then (no_error, s1)
      else (case lowest_active_remote_connection_id s1 of
          None \<Rightarrow> (protocol_error ''NEW_CONNECTION_ID retired every usable peer connection ID'', s1)
        | Some replacement \<Rightarrow>
            (no_error, s1\<lparr>cl_active_remote_connection_id_sequence := rce_sequence_number replacement,
               cl_config := (cl_config s1)\<lparr>cfg_remote_connection_id := rce_id replacement\<rparr>\<rparr>)))"

definition apply_new_connection_id_frame ::
    "new_connection_id_frame \<Rightarrow> ('w, 'c) connection_loop \<Rightarrow> flowq_error \<times> ('w, 'c) connection_loop" where
  "apply_new_connection_id_frame item s0 =
     (let s = ensure_remote_connection_id_state s0 in
      if nci_retire_prior_to item > nci_sequence_number item
      then (protocol_error ''NEW_CONNECTION_ID retire_prior_to exceeds sequence number'', s)
      else (case find_remote_connection_id (nci_sequence_number item) s of
          Some existing \<Rightarrow>
            if rce_id existing \<noteq> nci_conn_id item \<or> rce_stateless_reset_token existing \<noteq> nci_stateless_reset_token item
            then (protocol_error ''NEW_CONNECTION_ID reused a sequence number with different connection ID state'', s)
            else retire_remote_connection_ids_before (nci_retire_prior_to item) s
        | None \<Rightarrow>
            let s1 = s\<lparr>cl_remote_connection_ids := cl_remote_connection_ids s @
                  [\<lparr>rce_sequence_number = nci_sequence_number item, rce_id = nci_conn_id item,
                    rce_stateless_reset_token = nci_stateless_reset_token item, rce_retired = False\<rparr>]\<rparr>;
                (e, s2) = retire_remote_connection_ids_before (nci_retire_prior_to item) s1 in
            if \<not> error_ok e then (e, s2)
            else if active_remote_connection_id_count s2 > cfg_active_connection_id_limit (cl_config s2)
            then (protocol_error ''peer exceeded active_connection_id_limit'', s2)
            else (no_error, s2)))"

fun apply_connection_id_frames :: "frame list \<Rightarrow> ('w, 'c) connection_loop \<Rightarrow> flowq_error \<times> ('w, 'c) connection_loop" where
  "apply_connection_id_frames [] s = (no_error, s)"
| "apply_connection_id_frames (f # fs) s =
     (case f of
        NewConnectionIdFrame item \<Rightarrow>
          let (e, s1) = apply_new_connection_id_frame item s in
          if \<not> error_ok e then (e, s1) else apply_connection_id_frames fs s1
      | _ \<Rightarrow> apply_connection_id_frames fs s)"

fun header_source_id :: "packet_header \<Rightarrow> connection_id option" where
  "header_source_id (Initial h) = Some (ih_source_connection_id h)"
| "header_source_id (Handshake h) = Some (hh_source_connection_id h)"
| "header_source_id (Retry h) = Some (rh_source_connection_id h)"
| "header_source_id _ = None"

definition set_remote_connection_id :: "connection_id \<Rightarrow> ('w, 'c) connection_loop \<Rightarrow> ('w, 'c) connection_loop" where
  "set_remote_connection_id cid s =
     reset_remote_connection_id_state (s\<lparr>cl_config := (cl_config s)\<lparr>cfg_remote_connection_id := cid\<rparr>\<rparr>)"

definition update_remote_connection_id_from_header ::
    "packet_header \<Rightarrow> ('w, 'c) connection_loop \<Rightarrow> ('w, 'c) connection_loop" where
  "update_remote_connection_id_from_header header s =
     (case header_source_id header of
        None \<Rightarrow> s
      | Some source \<Rightarrow> if cid_bytes source = [] then s else set_remote_connection_id source s)"

fun packet_space_for_header :: "packet_header \<Rightarrow> packet_number_space" where
  "packet_space_for_header (Short _) = ApplicationSpace"
| "packet_space_for_header (Handshake _) = HandshakeSpace"
| "packet_space_for_header _ = InitialSpace"

section \<open>Recovery\<close>

definition cl_update_rtt ::
    "('w, 'c) connection_env \<Rightarrow> rtt_sample \<Rightarrow> ('w, 'c) connection_loop \<Rightarrow> ('w, 'c) connection_loop" where
  "cl_update_rtt E sample s =
     (let s1 = s\<lparr>cl_recovery_rtt := rtt_update (cl_recovery_rtt s) sample\<rparr> in
      if cl_pacing_enabled s1
      then s1\<lparr>cl_world := env_pacing_set_smoothed_rtt E (rtt_smoothed (cl_recovery_rtt s1)) (cl_world s1)\<rparr> else s1)"

definition pace_window :: "('w, 'c) connection_env \<Rightarrow> ('w, 'c) connection_loop \<Rightarrow> ('w, 'c) connection_loop" where
  "pace_window E s =
     (if cl_pacing_enabled s
      then s\<lparr>cl_world := env_pacing_set_congestion_window E (env_cc_congestion_window E (cl_congestion s)) (cl_world s)\<rparr>
      else s)"

definition record_largest_acknowledged ::
    "packet_number_space \<Rightarrow> u64 \<Rightarrow> ('w, 'c) connection_loop \<Rightarrow> ('w, 'c) connection_loop" where
  "record_largest_acknowledged space n =
     on_space space (\<lambda>st. case ps_largest_acknowledged st of
        None \<Rightarrow> st\<lparr>ps_largest_acknowledged := Some n\<rparr>
      | Some m \<Rightarrow> if n > m then st\<lparr>ps_largest_acknowledged := Some n\<rparr> else st)"

definition mark_recovery_packets ::
    "packet_number_space \<Rightarrow> u64 list \<Rightarrow> sent_packet_state \<Rightarrow> ('w, 'c) connection_loop \<Rightarrow> ('w, 'c) connection_loop" where
  "mark_recovery_packets space numbers state s =
     s\<lparr>cl_recovery_packets :=
        map (\<lambda>p. if rp_space p = space \<and> rp_packet_number p \<in> set numbers then p\<lparr>rp_state := state\<rparr> else p)
          (cl_recovery_packets s)\<rparr>"

fun find_ranges_loop :: "packet_number_space \<Rightarrow> u64 \<Rightarrow> sent_packet_stream_ranges list \<Rightarrow> sent_stream_range list" where
  "find_ranges_loop space n [] = []"
| "find_ranges_loop space n (p # ps) =
     (if spsr_space p = space \<and> spsr_packet_number p = n then spsr_ranges p else find_ranges_loop space n ps)"

definition find_sent_stream_ranges ::
    "packet_number_space \<Rightarrow> u64 \<Rightarrow> ('w, 'c) connection_loop \<Rightarrow> sent_stream_range list" where
  "find_sent_stream_ranges space n s = find_ranges_loop space n (cl_sent_stream_ranges s)"

fun stream_ranges_of :: "frame list \<Rightarrow> sent_stream_range list" where
  "stream_ranges_of [] = []"
| "stream_ranges_of (f # fs) =
     (case f of
        StreamFrame sf \<Rightarrow> \<lparr>ssrg_stream_id = sf_stream_id sf,
          ssrg_range = \<lparr>sr_offset = (if sf_offset_present sf then sf_offset sf else 0), sr_length = length (sf_data sf),
            sr_fin = sf_fin sf\<rparr>\<rparr> # stream_ranges_of fs
      | _ \<Rightarrow> stream_ranges_of fs)"

definition record_sent_stream_ranges ::
    "packet_number_space \<Rightarrow> u64 \<Rightarrow> frame list \<Rightarrow> ('w, 'c) connection_loop \<Rightarrow> ('w, 'c) connection_loop" where
  "record_sent_stream_ranges space n frames s =
     (let rs = stream_ranges_of frames in
      if rs \<noteq> []
      then s\<lparr>cl_sent_stream_ranges := cl_sent_stream_ranges s @
             [\<lparr>spsr_space = space, spsr_packet_number = n, spsr_ranges = rs\<rparr>]\<rparr>
      else s)"

definition apply_stream_ack_mapping ::
    "packet_number_space \<Rightarrow> u64 list \<Rightarrow> ('w, 'c) connection_loop \<Rightarrow> ('w, 'c) connection_loop" where
  "apply_stream_ack_mapping space numbers s =
     s\<lparr>cl_send_streams :=
        foldl (\<lambda>ss n. foldl (\<lambda>ss r. sset_on_acked ss (ssrg_stream_id r) (ssrg_range r)) ss
                        (find_sent_stream_ranges space n s)) (cl_send_streams s) numbers\<rparr>"

definition apply_stream_loss_mapping ::
    "packet_number_space \<Rightarrow> u64 list \<Rightarrow> ('w, 'c) connection_loop \<Rightarrow> ('w, 'c) connection_loop" where
  "apply_stream_loss_mapping space numbers s =
     s\<lparr>cl_send_streams :=
        foldl (\<lambda>ss n. foldl (\<lambda>ss r. sset_on_lost ss (ssrg_stream_id r) (ssrg_range r)) ss
                        (find_sent_stream_ranges space n s)) (cl_send_streams s) numbers\<rparr>"

fun mark_oldest_loop ::
    "packet_number_space \<Rightarrow> recovery_packet list \<Rightarrow> recovery_packet list \<times> u64 option" where
  "mark_oldest_loop space [] = ([], None)"
| "mark_oldest_loop space (p # ps) =
     (if rp_space p = space \<and> rp_state p = Outstanding \<and> rp_ack_eliciting p
      then (p\<lparr>rp_state := Lost\<rparr> # ps, Some (rp_packet_number p))
      else let (ps', r) = mark_oldest_loop space ps in (p # ps', r))"

definition mark_oldest_ack_eliciting_packet_lost ::
    "packet_number_space \<Rightarrow> ('w, 'c) connection_loop \<Rightarrow> u64 list \<times> ('w, 'c) connection_loop" where
  "mark_oldest_ack_eliciting_packet_lost space s =
     (case mark_oldest_loop space (cl_recovery_packets s) of
        (ps, None) \<Rightarrow> ([], s)
      | (ps, Some n) \<Rightarrow>
          ([n], on_space space (\<lambda>st. st\<lparr>ps_sent := mark_lost (ps_sent st) n\<rparr>) (s\<lparr>cl_recovery_packets := ps\<rparr>)))"

text \<open>The loop of \<open>recovery_timer_for\<close>: the latest send time and the earliest loss time.\<close>

fun recovery_timer_loop ::
    "packet_number_space \<Rightarrow> u64 option \<Rightarrow> rtt_estimator \<Rightarrow> duration \<Rightarrow> recovery_packet list
     \<Rightarrow> time_point option \<Rightarrow> time_point option \<Rightarrow> time_point option \<times> time_point option" where
  "recovery_timer_loop space largest rtt loss_delay [] last_sent earliest = (last_sent, earliest)"
| "recovery_timer_loop space largest rtt loss_delay (p # ps) last_sent earliest =
     (if rp_space p \<noteq> space \<or> rp_state p \<noteq> Outstanding \<or> \<not> rp_ack_eliciting p
      then recovery_timer_loop space largest rtt loss_delay ps last_sent earliest
      else recovery_timer_loop space largest rtt loss_delay ps (later last_sent (rp_sent_at p))
        (case largest of
           Some l \<Rightarrow> if rp_packet_number p < l \<and> rtt_has_sample rtt
                     then earlier earliest (rp_sent_at p + loss_delay) else earliest
         | None \<Rightarrow> earliest))"

definition recovery_timer_for :: "packet_number_space \<Rightarrow> ('w, 'c) connection_loop \<Rightarrow> connection_recovery_timer option" where
  "recovery_timer_for space s =
     (if packet_space_discarded s space then None
      else
        let largest = ps_largest_acknowledged (space_of s space);
            rtt = cl_recovery_rtt s;
            loss_delay = (if rtt_has_sample rtt then time_threshold_loss_delay rtt else 0);
            (last_sent, earliest) = recovery_timer_loop space largest rtt loss_delay (cl_recovery_packets s) None None in
        case earliest of
          Some t \<Rightarrow> Some \<lparr>crt_space = space, crt_mode = LossTime, crt_deadline = t\<rparr>
        | None \<Rightarrow>
            (case last_sent of
               Some t \<Rightarrow>
                 if pto_allowed space (cl_recovery_pto_config s)
                 then Some \<lparr>crt_space = space, crt_mode = Pto,
                             crt_deadline = pto_deadline t rtt space (cl_recovery_pto_config s)\<rparr>
                 else None
             | None \<Rightarrow> None))"

definition sooner :: "connection_recovery_timer option \<Rightarrow> connection_recovery_timer option \<Rightarrow> connection_recovery_timer option" where
  "sooner selected candidate =
     (case candidate of
        None \<Rightarrow> selected
      | Some c \<Rightarrow>
          (case selected of
             None \<Rightarrow> candidate
           | Some t \<Rightarrow> if crt_deadline c < crt_deadline t then candidate else selected))"

definition next_recovery_timer ::
    "('w, 'c) connection_env \<Rightarrow> ('w, 'c) connection_loop \<Rightarrow> connection_recovery_timer option \<times> ('w, 'c) connection_loop" where
  "next_recovery_timer E s =
     (if \<not> loop_active s then (None, s)
      else
        let s1 = refresh_key_lifecycle E s in
        if \<not> loop_active s1 then (None, s1)
        else (sooner (sooner (recovery_timer_for InitialSpace s1) (recovery_timer_for HandshakeSpace s1))
                (recovery_timer_for ApplicationSpace s1), s1))"

text \<open>The packet that an RTT sample is taken from: the largest newly acknowledged outstanding ack-eliciting one.\<close>

definition sampled_packet :: "packet_number_space \<Rightarrow> u64 list \<Rightarrow> recovery_packet list \<Rightarrow> recovery_packet option" where
  "sampled_packet space numbers packets =
     foldl (\<lambda>sampled n.
       foldl (\<lambda>sampled p.
         if rp_space p \<noteq> space \<or> rp_packet_number p \<noteq> n \<or> \<not> rp_ack_eliciting p \<or> rp_state p \<noteq> Outstanding then sampled
         else (case sampled of
             None \<Rightarrow> Some p
           | Some q \<Rightarrow> if rp_packet_number p > rp_packet_number q then Some p else sampled)) sampled packets) None numbers"

definition rtt_sample_from_ack ::
    "packet_number_space \<Rightarrow> ack_frame \<Rightarrow> u64 list \<Rightarrow> time_point \<Rightarrow> ('w, 'c) connection_loop \<Rightarrow> rtt_sample option" where
  "rtt_sample_from_ack space ack numbers received_at s =
     (case sampled_packet space numbers (cl_recovery_packets s) of
        None \<Rightarrow> None
      | Some p \<Rightarrow>
          if received_at < rp_sent_at p then None
          else Some \<lparr>smp_latest_rtt = received_at - rp_sent_at p,
            smp_ack_delay = (if space = ApplicationSpace
              then decode_ack_delay (af_ack_delay ack) (cfg_ack_delay_exponent (cl_config s)) else 0),
            smp_peer_max_ack_delay = cfg_max_ack_delay (cl_config s),
            smp_handshake_confirmed = pto_handshake_confirmed (cl_recovery_pto_config s)\<rparr>)"

definition cc_event :: "('w, 'c) connection_env \<Rightarrow> ('c \<Rightarrow> 'c) \<Rightarrow> ('w, 'c) connection_loop \<Rightarrow> ('w, 'c) connection_loop" where
  "cc_event E f s = s\<lparr>cl_congestion := f (cl_congestion s)\<rparr>"

definition apply_ack_frame ::
    "('w, 'c) connection_env \<Rightarrow> packet_number_space \<Rightarrow> ack_frame \<Rightarrow> time_point \<Rightarrow> ('w, 'c) connection_loop
     \<Rightarrow> ('w, 'c) connection_loop" where
  "apply_ack_frame E space ack received_at s =
     (let s1 = record_largest_acknowledged space (af_largest_acknowledged ack) s;
          (result, tracker) = on_ack_received (ps_sent (space_of s1 space)) ack 3;
          s2 = on_space space (\<lambda>st. st\<lparr>ps_sent := tracker\<rparr>) s1;
          s3 = (case rtt_sample_from_ack space ack (newly_acknowledged result) received_at s2 of
                  None \<Rightarrow> s2 | Some sample \<Rightarrow> cl_update_rtt E sample s2);
          s4 = mark_recovery_packets space (newly_acknowledged result) Acknowledged s3;
          s5 = mark_recovery_packets space (newly_lost result) Lost s4;
          s6 = apply_stream_ack_mapping space (newly_acknowledged result) s5;
          s7 = apply_stream_loss_mapping space (newly_lost result) s6;
          s8 = (if newly_acknowledged result \<noteq> []
                then pace_window E (cc_event E (env_cc_on_packet_acknowledged E (cfg_max_datagram_size (cl_config s7))) s7)
                else s7)
      in if newly_lost result \<noteq> [] then pace_window E (cc_event E (env_cc_on_congestion_event E) s8) else s8)"

fun apply_ack_frames ::
    "('w, 'c) connection_env \<Rightarrow> packet_number_space \<Rightarrow> frame list \<Rightarrow> time_point \<Rightarrow> ('w, 'c) connection_loop
     \<Rightarrow> ('w, 'c) connection_loop" where
  "apply_ack_frames E space [] received_at s = s"
| "apply_ack_frames E space (f # fs) received_at s =
     (case f of
        AckFrame ack \<Rightarrow> apply_ack_frames E space fs received_at (apply_ack_frame E space ack received_at s)
      | _ \<Rightarrow> apply_ack_frames E space fs received_at s)"

definition lose_packet ::
    "('w, 'c) connection_env \<Rightarrow> packet_number_space \<Rightarrow> ('w, 'c) connection_loop \<Rightarrow> u64 \<Rightarrow> ('w, 'c) connection_loop" where
  "lose_packet E space s n =
     cc_event E (env_cc_on_packet_lost E (cfg_max_datagram_size (cl_config s)))
       (on_space space (\<lambda>st. st\<lparr>ps_sent := mark_lost (ps_sent st) n\<rparr>) s)"

text \<open>The two halves of \<open>on_recovery_timer\<close>: losses by time threshold, and the probe timeout.\<close>

definition lose_by_time ::
    "('w, 'c) connection_env \<Rightarrow> packet_number_space \<Rightarrow> time_point \<Rightarrow> ('w, 'c) connection_loop
     \<Rightarrow> u64 list \<times> ('w, 'c) connection_loop" where
  "lose_by_time E space now s =
     (case ps_largest_acknowledged (space_of s space) of
        None \<Rightarrow> ([], s)
      | Some largest \<Rightarrow>
          let (packets, lost, next_deadline) =
                detect_time_threshold_losses (cl_recovery_packets s) (cl_recovery_rtt s) space largest now;
              s1 = foldl (lose_packet E space) (s\<lparr>cl_recovery_packets := packets\<rparr>) lost;
              s2 = (if lost \<noteq> [] then pace_window E (cc_event E (env_cc_on_congestion_event E) s1) else s1)
          in (lost, apply_stream_loss_mapping space lost s2))"

definition lose_by_probe_timeout ::
    "('w, 'c) connection_env \<Rightarrow> packet_number_space \<Rightarrow> ('w, 'c) connection_loop \<Rightarrow> u64 list \<times> ('w, 'c) connection_loop" where
  "lose_by_probe_timeout E space s =
     (let (lost, s1) = mark_oldest_ack_eliciting_packet_lost space s in
      if lost \<noteq> []
      then (lost, apply_stream_loss_mapping space lost
             (pace_window E (cc_event E (env_cc_on_congestion_event E)
               (cc_event E (env_cc_on_packet_lost E (cfg_max_datagram_size (cl_config s1))) s1))))
      else (lost, s1))"

definition on_recovery_timer ::
    "('w, 'c) connection_env \<Rightarrow> packet_number_space \<Rightarrow> time_point \<Rightarrow> ('w, 'c) connection_loop
     \<Rightarrow> connection_recovery_result \<times> ('w, 'c) connection_loop" where
  "on_recovery_timer E space now s =
     (let none = \<lparr>crr_space = space, crr_newly_lost = [], crr_next_deadline = None\<rparr> in
      if \<not> loop_active s then (none, s)
      else if \<not> is_connection_loop_space space then (none, s)
      else
        let s1 = refresh_key_lifecycle E s in
        if \<not> loop_active s1 then (none, s1)
        else if packet_space_discarded s1 space then (none, clear_packet_space space s1)
        else
          let (lost, s2) = lose_by_time E space now s1 in
          (case recovery_timer_for space s2 of
             None \<Rightarrow> (none\<lparr>crr_newly_lost := lost\<rparr>, s2)
           | Some timer \<Rightarrow>
               let (lost', s3) =
                 (if crt_mode timer = Pto \<and> now \<ge> crt_deadline timer \<and> lost = []
                  then lose_by_probe_timeout E space s2 else (lost, s2))
               in (none\<lparr>crr_newly_lost := lost', crr_next_deadline := Some (crt_deadline timer)\<rparr>, s3)))"

end
