(* ===== verification/Connection.thy ===== *)
theory Connection
  imports ConnectionState
begin

text \<open>
  The connection loop, continued: the public operations of class \<open>connection_loop\<close> in
  \<open>src/include/flowq/quic/connection.hpp\<close> that send and receive.  The time of a packet is an argument, as in the code; the clock
  readings that \<open>pump_tls_crypto\<close> takes are the argument \<open>clock\<close>.
\<close>

section \<open>Assembling packets\<close>

definition build_request_for ::
    "packet_number_space \<Rightarrow> u64 \<Rightarrow> frame list \<Rightarrow> ('w, 'c) connection_loop \<Rightarrow> packet_build_request" where
  "build_request_for space n frames s =
     (let config = cl_config s in
      \<lparr>br_type = long_type_for space, br_version = cfg_version config,
       br_destination_connection_id = cfg_remote_connection_id config,
       br_source_connection_id = cfg_local_connection_id config, br_token = [],
       br_number = \<lparr>pn_space = space, pn_value = n\<rparr>, br_frames = frames, br_protector = tx_protector_for space config,
       br_max_datagram_size = cfg_max_datagram_size config,
       br_enforce_initial_datagram_minimum = (cfg_role config = ClientRole \<and> space = InitialSpace)\<rparr>)"

definition application_request_for ::
    "packet_number_space \<Rightarrow> u64 \<Rightarrow> frame list \<Rightarrow> ('w, 'c) connection_loop \<Rightarrow> application_packet_build_request" where
  "application_request_for space n frames s =
     (let config = cl_config s in
      \<lparr>abr_destination_connection_id = cfg_remote_connection_id config,
       abr_number = \<lparr>pn_space = space, pn_value = n\<rparr>, abr_frames = frames,
       abr_protector = tx_protector_for space config, abr_max_datagram_size = cfg_max_datagram_size config\<rparr>)"

text \<open>The loop never passes a token, so the padding loop of a client Initial ends (\<open>long_packet_assembled\<close> below).\<close>

definition assemble_space ::
    "('w, 'c) connection_env \<Rightarrow> packet_number_space \<Rightarrow> u64 \<Rightarrow> frame list \<Rightarrow> ('w, 'c) connection_loop \<Rightarrow> assembled_packet" where
  "assemble_space E space n frames s =
     (if space = ApplicationSpace then
        (if cfg_enable_zero_copy (cl_config s) then env_zero_copy_build E (application_request_for space n frames s)
         else assemble_application_packet (application_request_for space n frames s))
      else the (assemble_long_packet (build_request_for space n frames s)))"

definition set_next_packet_number ::
    "packet_number_space \<Rightarrow> u64 \<Rightarrow> ('w, 'c) connection_loop \<Rightarrow> ('w, 'c) connection_loop" where
  "set_next_packet_number space n = on_space space (\<lambda>st. st\<lparr>ps_next_packet_number := n\<rparr>)"

section \<open>Queueing and scheduling\<close>

definition replace_queue ::
    "packet_number_space \<Rightarrow> frame list \<Rightarrow> ('w, 'c) connection_loop \<Rightarrow> ('w, 'c) connection_loop" where
  "replace_queue space frames s =
     (if \<not> loop_active s then s else on_space space (\<lambda>st. st\<lparr>ps_queue := frames\<rparr>) s)"

definition queue_initial :: "frame list \<Rightarrow> ('w, 'c) connection_loop \<Rightarrow> ('w, 'c) connection_loop" where
  "queue_initial = replace_queue InitialSpace"

definition queue_handshake :: "frame list \<Rightarrow> ('w, 'c) connection_loop \<Rightarrow> ('w, 'c) connection_loop" where
  "queue_handshake = replace_queue HandshakeSpace"

definition queue_application :: "frame list \<Rightarrow> ('w, 'c) connection_loop \<Rightarrow> ('w, 'c) connection_loop" where
  "queue_application = replace_queue ApplicationSpace"

definition closed_error :: flowq_error where
  "closed_error = \<lparr>err_code = EC_connection_closed, err_message = ''connection is closed''\<rparr>"

definition append_stream_data ::
    "u64 \<Rightarrow> buffer \<Rightarrow> ('w, 'c) connection_loop \<Rightarrow> flowq_error \<times> ('w, 'c) connection_loop" where
  "append_stream_data stream_id data s =
     (if \<not> loop_active s then (closed_error, s)
      else let (e, ss) = sset_append (cl_send_streams s) stream_id data in (e, s\<lparr>cl_send_streams := ss\<rparr>))"

definition sset_has_unsent_data :: "stream_send_set \<Rightarrow> u64 \<Rightarrow> bool" where
  "sset_has_unsent_data ss stream_id \<longleftrightarrow>
     (case sset_streams ss stream_id of None \<Rightarrow> False | Some st \<Rightarrow> has_unsent_data st)"

definition sset_has_retransmittable_data :: "stream_send_set \<Rightarrow> u64 \<Rightarrow> bool" where
  "sset_has_retransmittable_data ss stream_id \<longleftrightarrow>
     (case sset_streams ss stream_id of None \<Rightarrow> False | Some st \<Rightarrow> has_retransmittable_data st)"

text \<open>The loop over the stream ids: the frames so far, and the error that ends the whole call.\<close>

fun schedule_loop ::
    "u64 list \<Rightarrow> nat \<Rightarrow> nat \<Rightarrow> frame list \<Rightarrow> ('w, 'c) connection_loop
     \<Rightarrow> (frame list \<times> flowq_error) \<times> ('w, 'c) connection_loop" where
  "schedule_loop [] max_frames max_size frames s = ((frames, no_error), s)"
| "schedule_loop (stream_id # ids) max_frames max_size frames s =
     (if length frames = max_frames then ((frames, no_error), s)
      else
        let has_retransmission = sset_has_retransmittable_data (cl_send_streams s) stream_id;
            remaining_credit = u64_sub (cl_connection_send_max_data s) (cl_connection_data_sent s) in
        if remaining_credit = 0 \<and> \<not> has_retransmission then
          (if sset_has_unsent_data (cl_send_streams s) stream_id
           then ((frames @ [DataBlockedFrame (cl_connection_send_max_data s)], no_error), s)
           else schedule_loop ids max_frames max_size frames s)
        else
          let stream_limit = (if has_retransmission then max_size else min max_size remaining_credit);
              (r, ss) = sset_pop_frame (cl_send_streams s) stream_id stream_limit;
              s1 = s\<lparr>cl_send_streams := ss\<rparr> in
          if \<not> error_ok (ssr_error r) then ((frames, ssr_error r), s1)
          else if ssr_has_frame r then
            schedule_loop ids max_frames max_size (frames @ [StreamFrame (ssr_frame r)])
              (if \<not> ssr_retransmission r
               then s1\<lparr>cl_connection_data_sent := u64_add (cl_connection_data_sent s1) (length (sf_data (ssr_frame r)))\<rparr>
               else s1)
          else (case sset_blocked_frame ss stream_id of
              Some b \<Rightarrow> schedule_loop ids max_frames max_size (frames @ [StreamDataBlockedFrame b]) s1
            | None \<Rightarrow> schedule_loop ids max_frames max_size frames s1))"

definition push_streams_blocked ::
    "stream_direction \<Rightarrow> nat \<Rightarrow> stream_send_set \<Rightarrow> frame list \<Rightarrow> frame list" where
  "push_streams_blocked direction max_frames ss frames =
     (if length frames < max_frames then
        (case get_streams_blocked_frame ss direction of
           Some b \<Rightarrow> frames @ [StreamsBlockedFrame b] | None \<Rightarrow> frames)
      else frames)"

definition schedule_stream_frames ::
    "u64 list \<Rightarrow> nat \<Rightarrow> nat \<Rightarrow> ('w, 'c) connection_loop \<Rightarrow> (frame list \<times> flowq_error) \<times> ('w, 'c) connection_loop" where
  "schedule_stream_frames stream_ids max_frames max_size s =
     (if \<not> loop_active s then (([], closed_error), s)
      else if max_frames = 0 then (([], no_error), s)
      else
        let ((frames, e), s1) = schedule_loop stream_ids max_frames max_size [] s in
        if \<not> error_ok e then ((frames, e), s1)
        else ((push_streams_blocked Unidirectional max_frames (cl_send_streams s1)
                (push_streams_blocked Bidirectional max_frames (cl_send_streams s1) frames), no_error), s1))"

definition update_max_data :: "u64 \<Rightarrow> ('w, 'c) connection_loop \<Rightarrow> ('w, 'c) connection_loop" where
  "update_max_data maximum_data s =
     s\<lparr>cl_connection_send_max_data := max (cl_connection_send_max_data s) maximum_data\<rparr>"

section \<open>TLS bytes as CRYPTO frames\<close>

definition crypto_frame_payload_budget :: "packet_number_space \<Rightarrow> connection_loop_config \<Rightarrow> nat" where
  "crypto_frame_payload_budget space config =
     (let payload_budget =
        (if cfg_max_packet_payload_size config = u64_max then cfg_max_datagram_size config
         else min (cfg_max_packet_payload_size config) (cfg_max_datagram_size config)) in
      if space = ApplicationSpace then payload_budget
      else
        case tx_protector_for space config of
          None \<Rightarrow> 0
        | Some p \<Rightarrow>
            (case encoded_size (cfg_max_datagram_size config) of
               Inl _ \<Rightarrow> 0
             | Inr length_size \<Rightarrow>
                 let header_prefix_size =
                       (1 + 4) + (1 + length (cid_bytes (cfg_remote_connection_id config)))
                       + (1 + length (cid_bytes (cfg_local_connection_id config)))
                       + (if space = InitialSpace then 1 else 0) + length_size;
                     packet_overhead = header_prefix_size + fixed_packet_number_length + pp_protection_overhead p in
                 if payload_budget \<le> packet_overhead then 0 else payload_budget - packet_overhead))"

definition crypto_frame_chunk_size :: "packet_number_space \<Rightarrow> u64 \<Rightarrow> nat \<Rightarrow> connection_loop_config \<Rightarrow> nat" where
  "crypto_frame_chunk_size space offset remaining config =
     (let payload_budget = crypto_frame_payload_budget space config in
      if payload_budget \<le> 1 then 0
      else
        case (encoded_size offset, encoded_size remaining) of
          (Inr offset_size, Inr length_size) \<Rightarrow>
            let overhead = 1 + offset_size + length_size in
            if payload_budget \<le> overhead then 0 else payload_budget - overhead
        | _ \<Rightarrow> 0)"

text \<open>The loop of \<open>split_crypto_frames\<close> on the bytes not yet consumed; the result keeps the frames and the error, the two
  members the caller reads.\<close>

function split_crypto_loop ::
    "packet_number_space \<Rightarrow> connection_loop_config \<Rightarrow> u64 \<Rightarrow> buffer \<Rightarrow> frame list \<Rightarrow> frame list \<times> flowq_error" where
  "split_crypto_loop space config offset data frames =
     (if data = [] then (frames, no_error)
      else
        let budget = crypto_frame_chunk_size space offset (length data) config in
        if budget = 0 then (frames, protocol_error ''CRYPTO frame exceeds packet payload budget'')
        else
          let chunk_size = min budget (length data);
              frames' = frames @ [CryptoFrame \<lparr>cf_offset = offset, cf_data = take chunk_size data\<rparr>] in
          if offset > u64_max - chunk_size then (frames', protocol_error ''CRYPTO frame offset overflow'')
          else split_crypto_loop space config (offset + chunk_size) (drop chunk_size data) frames')"
  by pat_completeness auto
termination
  by (relation "measure (\<lambda>(_, _, _, data, _). length data)") auto

declare split_crypto_loop.simps [simp del]

definition split_crypto_frames ::
    "packet_number_space \<Rightarrow> crypto_bytes \<Rightarrow> connection_loop_config \<Rightarrow> frame list \<times> flowq_error" where
  "split_crypto_frames space item config =
     (if cb_data item = [] then ([], no_error)
      else if crypto_frame_chunk_size space (cb_offset item) (length (cb_data item)) config = 0
      then ([], protocol_error ''CRYPTO frame exceeds packet payload budget'')
      else split_crypto_loop space config (cb_offset item) (cb_data item) [])"

fun queue_crypto ::
    "crypto_bytes list \<Rightarrow> time_point \<Rightarrow> ('w, 'c) connection_loop \<Rightarrow> ('w, 'c) connection_loop" where
  "queue_crypto [] clock s = s"
| "queue_crypto (item # items) clock s =
     (let space = packet_space_for_level (cb_level item) in
      if packet_space_discarded s space then queue_crypto items clock s
      else
        let (frames, e) = split_crypto_frames space item (cl_config s) in
        if \<not> error_ok e then enter_closing e clock s
        else queue_crypto items clock (on_space space (\<lambda>st. st\<lparr>ps_queue := ps_queue st @ frames\<rparr>) s))"

definition pump_tls_crypto ::
    "('w, 'c) connection_env \<Rightarrow> time_point \<Rightarrow> ('w, 'c) connection_loop \<Rightarrow> ('w, 'c) connection_loop" where
  "pump_tls_crypto E clock s =
     (if \<not> env_has_tls E then s
      else
        let (e, w) = env_advance E (cl_world s); s1 = s\<lparr>cl_world := w\<rparr> in
        if \<not> error_ok e then enter_closing e clock s1
        else
          let (items, w) = env_drain_crypto E (cl_world s1) in
          queue_crypto items clock (mark_lifecycle_dirty (s1\<lparr>cl_world := w\<rparr>)))"

section \<open>Sending\<close>

text \<open>What both senders record of a packet that leaves.\<close>

definition record_sent ::
    "packet_number_space \<Rightarrow> u64 \<Rightarrow> time_point \<Rightarrow> bool \<Rightarrow> ('w, 'c) connection_loop \<Rightarrow> ('w, 'c) connection_loop" where
  "record_sent space n sent_at ack_eliciting s =
     (let s1 = on_space space (\<lambda>st. st\<lparr>ps_sent := on_packet_sent (ps_sent st) n ack_eliciting\<rparr>) s in
      s1\<lparr>cl_recovery_packets := cl_recovery_packets s1 @
           [\<lparr>rp_space = space, rp_packet_number = n, rp_sent_at = sent_at, rp_ack_eliciting = ack_eliciting,
             rp_state = Outstanding\<rparr>]\<rparr>)"

definition pacing_allows ::
    "('w, 'c) connection_env \<Rightarrow> packet_number_space \<Rightarrow> ('w, 'c) connection_loop \<Rightarrow> bool \<times> ('w, 'c) connection_loop" where
  "pacing_allows E space s =
     (if cl_pacing_enabled s \<and> space = ApplicationSpace then
        (let (allowed, w) = env_pacing_can_send E (env_cc_bytes_in_flight E (cl_congestion s))
               (cfg_max_packet_payload_size (cl_config s)) (cl_world s)
         in (allowed, s\<lparr>cl_world := w\<rparr>))
      else (True, s))"

definition send_selected ::
    "('w, 'c) connection_env \<Rightarrow> packet_number_space \<Rightarrow> time_point \<Rightarrow> frame_payload_budget_selection \<Rightarrow> assembled_packet
     \<Rightarrow> ('w, 'c) connection_loop \<Rightarrow> ('w, 'c) connection_loop" where
  "send_selected E space sent_at selected a s =
     (let n = pn_value (ap_number a); len = length (ap_datagram a); ack_eliciting = is_ack_eliciting (fbs_frames selected);
          s1 = set_next_packet_number space (u64_add (ps_next_packet_number (space_of s space)) 1) s;
          s2 = record_sent_stream_ranges space n (fbs_frames selected) (record_sent space n sent_at ack_eliciting s1);
          s3 = cc_event E (env_cc_on_packet_sent E len ack_eliciting) s2;
          s4 = (if cl_pacing_enabled s3 then s3\<lparr>cl_world := env_pacing_on_packet_sent E len (cl_world s3)\<rparr> else s3);
          s5 = record_peer_bytes_sent len s4;
          s6 = on_space space (\<lambda>st. st\<lparr>ps_queue := drop (fbs_next_index selected) (ps_queue st)\<rparr>) s5
      in emit_action (SendDatagram (ap_datagram a) (cfg_peer (cl_config s6))) (mark_activity sent_at s6))"

definition flush_space ::
    "('w, 'c) connection_env \<Rightarrow> packet_number_space \<Rightarrow> time_point \<Rightarrow> ('w, 'c) connection_loop \<Rightarrow> ('w, 'c) connection_loop" where
  "flush_space E space sent_at s =
     (if ps_queue (space_of s space) = [] then s
      else if packet_space_discarded s space then clear_packet_space space s
      else if \<not> env_cc_can_send E (cl_congestion s) then s
      else
        let (paced, s1) = pacing_allows E space s in
        if \<not> paced then s1
        else if space = ApplicationSpace \<and> \<not> application_send_allowed E s1 then
          enter_closing (protocol_error
            ''production Application data requires confirmed TLS handshake and application keys'') sent_at s1
        else
          let selected = select_frames_for_payload_budget (ps_queue (space_of s1 space))
                (cfg_max_packet_payload_size (cl_config s1)) in
          if \<not> error_ok (fbs_error selected) then enter_closing (fbs_error selected) sent_at s1
          else if fbs_frames selected = []
          then enter_closing (protocol_error ''frame exceeds packet payload budget'') sent_at s1
          else
            let a = assemble_space E space (ps_next_packet_number (space_of s1 space)) (fbs_frames selected) s1 in
            if \<not> error_ok (ap_error a) then enter_closing (ap_error a) sent_at s1
            else if \<not> anti_amplification_allows s1 (length (ap_datagram a)) then s1
            else send_selected E space sent_at selected a s1)"

definition flush ::
    "('w, 'c) connection_env \<Rightarrow> time_point \<Rightarrow> time_point \<Rightarrow> ('w, 'c) connection_loop \<Rightarrow> ('w, 'c) connection_loop" where
  "flush E sent_at clock s =
     (if \<not> loop_active s then s
      else
        let s1 = refresh_key_lifecycle E s in
        if \<not> loop_active s1 then s1
        else
          let s2 = refresh_key_lifecycle E (pump_tls_crypto E clock s1) in
          if \<not> loop_active s2 then s2
          else
            let s3 = flush_space E InitialSpace sent_at s2 in
            if \<not> loop_active s3 then s3
            else
              let s4 = flush_space E HandshakeSpace sent_at s3 in
              if \<not> loop_active s4 then s4 else flush_space E ApplicationSpace sent_at s4)"

definition send_ack ::
    "packet_number_space \<Rightarrow> time_point \<Rightarrow> assembled_packet \<Rightarrow> ('w, 'c) connection_loop \<Rightarrow> ('w, 'c) connection_loop" where
  "send_ack space sent_at a s =
     (let s1 = set_next_packet_number space (u64_add (ps_next_packet_number (space_of s space)) 1) s;
          s2 = record_sent space (pn_value (ap_number a)) sent_at False s1
      in emit_action (SendDatagram (ap_datagram a) (cfg_peer (cl_config s2)))
           (record_peer_bytes_sent (length (ap_datagram a)) s2))"

definition acknowledge ::
    "('w, 'c) connection_env \<Rightarrow> packet_number_space \<Rightarrow> time_point \<Rightarrow> ('w, 'c) connection_loop \<Rightarrow> ('w, 'c) connection_loop" where
  "acknowledge E space sent_at s =
     (if \<not> loop_active s then s
      else if \<not> is_connection_loop_space space
      then enter_closing (protocol_error ''unsupported packet number space for connection loop'') sent_at s
      else
        let s1 = refresh_key_lifecycle E s in
        if \<not> loop_active s1 then s1
        else if packet_space_discarded s1 space then clear_packet_space space s1
        else if received_empty (ps_received (space_of s1 space)) then s1
        else
          let a = assemble_space E space (ps_next_packet_number (space_of s1 space))
                [AckFrame (to_ack_frame (ps_received (space_of s1 space)) 0)] s1 in
          if \<not> error_ok (ap_error a) then enter_closing (ap_error a) sent_at s1
          else if \<not> anti_amplification_allows s1 (length (ap_datagram a)) then s1
          else send_ack space sent_at a s1)"

definition drain_actions :: "('w, 'c) connection_loop \<Rightarrow> connection_loop_action list \<times> ('w, 'c) connection_loop" where
  "drain_actions s = (cl_actions s, s\<lparr>cl_actions := []\<rparr>)"

section \<open>Timers\<close>

definition next_lifecycle_timer ::
    "time_point \<Rightarrow> ('w, 'c) connection_loop \<Rightarrow> connection_lifecycle_timer option \<times> ('w, 'c) connection_loop" where
  "next_lifecycle_timer now s =
     (if cl_state s = Closed then (None, s)
      else if cl_state s = Active then
        (if cfg_max_idle_timeout (cl_config s) \<le> 0 then (None, s)
         else
           let since = (case cl_last_activity_at s of None \<Rightarrow> now | Some t \<Rightarrow> t) in
           (Some \<lparr>clt_kind = IdleKind, clt_deadline = since + cfg_max_idle_timeout (cl_config s)\<rparr>,
            s\<lparr>cl_last_activity_at := Some since\<rparr>))
      else
        let since = (case cl_close_state_entered_at s of None \<Rightarrow> now | Some t \<Rightarrow> t) in
        (Some \<lparr>clt_kind = (if cl_state s = Closing then ClosingKind else DrainingKind),
               clt_deadline = since + cfg_closing_draining_timeout (cl_config s)\<rparr>,
         s\<lparr>cl_close_state_entered_at := Some since\<rparr>))"

definition on_lifecycle_timer ::
    "connection_lifecycle_timer_kind \<Rightarrow> time_point \<Rightarrow> ('w, 'c) connection_loop \<Rightarrow> ('w, 'c) connection_loop" where
  "on_lifecycle_timer kind now s =
     (case next_lifecycle_timer now s of
        (None, s1) \<Rightarrow> s1
      | (Some timer, s1) \<Rightarrow>
          if clt_kind timer \<noteq> kind \<or> now < clt_deadline timer then s1
          else if kind = IdleKind \<and> loop_active s1
          then enter_closing \<lparr>err_code = EC_timeout, err_message = ''idle timeout expired''\<rparr> now s1
          else if kind = ClosingKind \<and> cl_state s1 = Closing \<or> kind = DrainingKind \<and> cl_state s1 = Draining
          then enter_closed s1
          else s1)"

definition discard_packet_space :: "packet_number_space \<Rightarrow> ('w, 'c) connection_loop \<Rightarrow> ('w, 'c) connection_loop" where
  "discard_packet_space space s =
     (if \<not> is_connection_loop_space space then s
      else clear_packet_space space
        (s\<lparr>cl_config := (cl_config s)\<lparr>cfg_key_lifecycle := discard (cfg_key_lifecycle (cl_config s)) space\<rparr>\<rparr>))"

section \<open>Frames of a received packet\<close>

fun apply_flow_control_frame :: "frame \<Rightarrow> ('w, 'c) connection_loop \<Rightarrow> ('w, 'c) connection_loop" where
  "apply_flow_control_frame (MaxStreamDataFrame f) s =
     s\<lparr>cl_send_streams := sset_update_max_data (cl_send_streams s) (msd_stream_id f) (msd_maximum_stream_data f)\<rparr>"
| "apply_flow_control_frame (MaxDataFrame m) s = update_max_data m s"
| "apply_flow_control_frame (MaxStreamsFrame f) s = s\<lparr>cl_send_streams := update_max_streams (cl_send_streams s) f\<rparr>"
| "apply_flow_control_frame _ s = s"

definition apply_flow_control_frames :: "frame list \<Rightarrow> ('w, 'c) connection_loop \<Rightarrow> ('w, 'c) connection_loop" where
  "apply_flow_control_frames frames s = fold apply_flow_control_frame frames s"

fun apply_stream_control_frames :: "frame list \<Rightarrow> ('w, 'c) connection_loop \<Rightarrow> flowq_error \<times> ('w, 'c) connection_loop" where
  "apply_stream_control_frames [] s = (no_error, s)"
| "apply_stream_control_frames (f # fs) s =
     (case f of
        ResetStreamFrame reset \<Rightarrow>
          let ((_, r), rs) = rset_reset (cl_receive_streams s) reset; s1 = s\<lparr>cl_receive_streams := rs\<rparr> in
          if \<not> error_ok (srr_error r) then (srr_error r, s1) else apply_stream_control_frames fs s1
      | StopSendingFrame stop \<Rightarrow>
          let (e, ss) = sset_stop_sending (cl_send_streams s) stop; s1 = s\<lparr>cl_send_streams := ss\<rparr> in
          if \<not> error_ok e then (e, s1) else apply_stream_control_frames fs s1
      | _ \<Rightarrow> apply_stream_control_frames fs s)"

fun receive_stream_frames ::
    "frame list \<Rightarrow> stream_receive_set \<Rightarrow> (u64 \<times> stream_receive_result) list \<times> stream_receive_set" where
  "receive_stream_frames [] rs = ([], rs)"
| "receive_stream_frames (f # fs) rs =
     (case f of
        StreamFrame sf \<Rightarrow>
          let (d, rs1) = rset_receive rs sf; (ds, rs2) = receive_stream_frames fs rs1 in (d # ds, rs2)
      | _ \<Rightarrow> receive_stream_frames fs rs)"

fun receive_crypto_loop ::
    "('w, 'c) connection_env \<Rightarrow> packet_number_space \<Rightarrow> frame list \<Rightarrow> ('w, 'c) connection_loop
     \<Rightarrow> flowq_error \<times> ('w, 'c) connection_loop" where
  "receive_crypto_loop E space [] s = (no_error, s)"
| "receive_crypto_loop E space (f # fs) s =
     (case f of
        CryptoFrame c \<Rightarrow>
          let (e, w) = env_receive_crypto E
                \<lparr>cb_level = tls_level_for space, cb_offset = cf_offset c, cb_data = cf_data c\<rparr> (cl_world s);
              s1 = s\<lparr>cl_world := w\<rparr> in
          if \<not> error_ok e then (e, s1) else receive_crypto_loop E space fs (mark_lifecycle_dirty s1)
      | _ \<Rightarrow> receive_crypto_loop E space fs s)"

definition receive_crypto_frames ::
    "('w, 'c) connection_env \<Rightarrow> packet_number_space \<Rightarrow> frame list \<Rightarrow> ('w, 'c) connection_loop
     \<Rightarrow> flowq_error \<times> ('w, 'c) connection_loop" where
  "receive_crypto_frames E space frames s =
     (if \<not> env_has_tls E then (no_error, s) else receive_crypto_loop E space frames s)"

fun apply_path_validation_frame :: "frame \<Rightarrow> ('w, 'c) connection_loop \<Rightarrow> ('w, 'c) connection_loop" where
  "apply_path_validation_frame (PathChallengeFrame data) s = push_queue ApplicationSpace (PathResponseFrame data) s"
| "apply_path_validation_frame (PathResponseFrame data) s =
     (if cl_pending_path_challenge s = Some data then validate_migrated_peer_path s else s)"
| "apply_path_validation_frame _ s = s"

definition apply_path_validation_frames :: "frame list \<Rightarrow> ('w, 'c) connection_loop \<Rightarrow> ('w, 'c) connection_loop" where
  "apply_path_validation_frames frames s = fold apply_path_validation_frame frames s"

section \<open>Receiving\<close>

text \<open>The tail of \<open>process_parsed_packet\<close>: the deliveries, in frame order, and the event.\<close>

definition deliver_packet ::
    "packet_number \<Rightarrow> frame list \<Rightarrow> time_point \<Rightarrow> ('w, 'c) connection_loop \<Rightarrow> ('w, 'c) connection_loop" where
  "deliver_packet number frames received_at s =
     (let (deliveries, rs) = receive_stream_frames frames (cl_receive_streams s);
          s1 = s\<lparr>cl_receive_streams := rs\<rparr> in
      case find (\<lambda>(_, r). \<not> error_ok (srr_error r)) deliveries of
        Some (_, r) \<Rightarrow> enter_closing (srr_error r) received_at s1
      | None \<Rightarrow> emit_action (PacketReceived \<lparr>rpe_number = number, rpe_frames = frames, rpe_peer = cfg_peer (cl_config s1),
          rpe_stream_deliveries = deliveries\<rparr>) s1)"

definition apply_packet_frames ::
    "('w, 'c) connection_env \<Rightarrow> packet_number \<Rightarrow> frame list \<Rightarrow> time_point \<Rightarrow> ('w, 'c) connection_loop
     \<Rightarrow> ('w, 'c) connection_loop" where
  "apply_packet_frames E number frames received_at s =
     (let space = pn_space number; (e, s1) = apply_connection_id_frames frames s in
      if \<not> error_ok e then enter_closing e received_at s1
      else
        let s2 = apply_flow_control_frames frames
              (apply_ack_frames E space frames received_at (apply_path_validation_frames frames s1));
            (e, s3) = apply_stream_control_frames frames s2 in
        if \<not> error_ok e then enter_closing e received_at s3
        else
          let (e, s4) = receive_crypto_frames E space frames s3 in
          if \<not> error_ok e then enter_closing e received_at s4
          else deliver_packet number frames received_at (refresh_key_lifecycle E s4))"

text \<open>\<open>process_parsed_packet\<close> after the packet number has been recorded as new.\<close>

definition process_new_packet ::
    "('w, 'c) connection_env \<Rightarrow> parsed_packet \<Rightarrow> endpoint \<Rightarrow> nat \<Rightarrow> time_point \<Rightarrow> ('w, 'c) connection_loop
     \<Rightarrow> ('w, 'c) connection_loop" where
  "process_new_packet E parsed peer received_size received_at s =
     (let number = ppk_number parsed; space = pn_space number; frames = ppk_frames parsed;
          (accepted, s1) = accept_peer E peer received_at s in
      if \<not> accepted then s1
      else
        let s2 = mark_activity received_at (record_peer_bytes_received received_size s1);
            e1 = validate_inbound_frame_packet_space space frames;
            e2 = validate_inbound_frame_role (cfg_role (cl_config s2)) frames;
            e3 = validate_inbound_ack_ranges frames in
        if \<not> error_ok e1 then enter_closing e1 received_at s2
        else if \<not> error_ok e2 then enter_closing e2 received_at s2
        else if \<not> error_ok e3 then enter_closing e3 received_at s2
        else (case peer_close_error frames of
            Some e \<Rightarrow> enter_draining e received_at s2
          | None \<Rightarrow> apply_packet_frames E number frames received_at s2))"

definition process_parsed_packet ::
    "('w, 'c) connection_env \<Rightarrow> parsed_packet \<Rightarrow> endpoint \<Rightarrow> nat \<Rightarrow> time_point \<Rightarrow> ('w, 'c) connection_loop
     \<Rightarrow> ('w, 'c) connection_loop" where
  "process_parsed_packet E parsed peer received_size received_at s =
     (let space = pn_space (ppk_number parsed);
          (newly_observed, tracker) = observe (ps_received (space_of s space)) (pn_value (ppk_number parsed));
          s1 = on_space space (\<lambda>st. st\<lparr>ps_received := tracker\<rparr>) s in
      if \<not> newly_observed then s1 else process_new_packet E parsed peer received_size received_at s1)"

text \<open>Every packet of a datagram takes at least one byte of it, so the loop over coalesced packets ends.\<close>

lemma read_connection_id_grows: "read_connection_id d n = Some (c, m) \<Longrightarrow> n < m \<and> m \<le> length d"
  by (auto simp: read_connection_id_def Let_def split: if_splits option.splits)

lemma long_packet_length_grows: "long_packet_length_at d n = Inr m \<Longrightarrow> n < m"
  by (auto simp: long_packet_length_at_def read_packet_varint_at_def decode_varint_def Let_def
      split: if_splits option.splits sum.splits)

lemma long_packet_wire_size_pos: "long_packet_wire_size d = Inr n \<Longrightarrow> 0 < n"
  by (auto simp: long_packet_wire_size_def Let_def bind_eq_Some_conv
      dest!: long_packet_length_grows split: if_splits option.splits)

text \<open>The loop over the long-header packets of a datagram.\<close>

function coalesced_loop ::
    "('w, 'c) connection_env \<Rightarrow> endpoint \<Rightarrow> time_point \<Rightarrow> buffer \<Rightarrow> ('w, 'c) connection_loop \<Rightarrow> ('w, 'c) connection_loop" where
  "coalesced_loop E peer received_at remaining s =
     (if remaining = [] then s
      else
        case long_packet_wire_size remaining of
          Inl e \<Rightarrow> if all_zero_padding remaining then s else enter_closing e received_at s
        | Inr packet_size \<Rightarrow>
            let packet_bytes = take packet_size remaining in
            (case decode_packet_header packet_bytes of
               Inl e \<Rightarrow> enter_closing e received_at s
             | Inr header \<Rightarrow>
                 let s1 = update_remote_connection_id_from_header header s;
                     space = packet_space_for_header header in
                 if packet_space_discarded s1 space
                 then coalesced_loop E peer received_at (drop packet_size remaining) (clear_packet_space space s1)
                 else
                   (case parse_long_packet packet_bytes (rx_protector_for space (cl_config s1)) of
                      Inl e \<Rightarrow> enter_closing e received_at s1
                    | Inr parsed \<Rightarrow>
                        let s2 = process_parsed_packet E parsed peer packet_size received_at s1 in
                        if \<not> loop_active s2 then s2
                        else
                          let (refreshed, s3) = refresh_packet_protectors E received_at s2 in
                          if \<not> refreshed then s3
                          else coalesced_loop E peer received_at (drop packet_size remaining) s3)))"
  by pat_completeness auto
termination
  by (relation "measure (\<lambda>(_, _, _, remaining, _). length remaining)") (auto dest: long_packet_wire_size_pos)

declare coalesced_loop.simps [simp del]

definition on_datagram ::
    "('w, 'c) connection_env \<Rightarrow> buffer \<Rightarrow> endpoint \<Rightarrow> time_point \<Rightarrow> ('w, 'c) connection_loop \<Rightarrow> ('w, 'c) connection_loop" where
  "on_datagram E payload peer received_at s =
     (if \<not> loop_active s then s
      else
        let s1 = refresh_key_lifecycle E s in
        if \<not> loop_active s1 then s1
        else if payload \<noteq> [] \<and> payload ! 0 AND 0x80 = 0 then
          (if packet_space_discarded s1 ApplicationSpace then clear_packet_space ApplicationSpace s1
           else
             (case parse_short_packet payload (length (cid_bytes (cfg_local_connection_id (cl_config s1))))
                     (rx_protector_for ApplicationSpace (cl_config s1)) of
                Inl e \<Rightarrow> handle_short_packet_parse_error payload e received_at s1
              | Inr parsed \<Rightarrow> process_parsed_packet E parsed peer (length payload) received_at s1))
        else coalesced_loop E peer received_at payload s1)"

section \<open>Long packets are always assembled\<close>

lemma long_packet_assembled:
  "\<exists>a. assemble_long_packet (build_request_for space n frames s) = Some a"
proof (rule ccontr)
  let ?r = "build_request_for space n frames s"
  assume "\<not> ?thesis"
  then have "initial_ids_ok ?r" "initial_fields_size ?r = 1135"
    by (auto simp: assemble_long_packet_def assemble_long_datagram_def bind_eq_None_conv pad_initial_stuck
        split: sum.splits option.splits)
  then show False
    by (simp add: initial_ids_ok_def initial_fields_size_def build_request_for_def Let_def varint_len_def)
qed

end
