(* ===== verification/ConnectionSteps.thy ===== *)
theory ConnectionSteps
  imports Connection
begin

text \<open>
  The connection loop as a transition system.  \<open>loop_step\<close> has one rule per public operation of \<open>connection_loop\<close>; the locale
  \<open>loop_relation\<close> walks through the operations once: a reflexive and transitive relation on states that holds of the elementary
  state changes holds of every step.  Each invariant of the loop is an interpretation of it.
\<close>

section \<open>Which functions keep the lifecycle state\<close>

lemma state_on_space [simp]: "cl_state (on_space space f s) = cl_state s"
  by (simp add: on_space_def)

lemma state_elementary [simp]:
  "cl_state (push_queue space f s) = cl_state s"
  "cl_state (emit_action a s) = cl_state s"
  "cl_state (clear_packet_space space s) = cl_state s"
  "cl_state (clear_if_discarded space s) = cl_state s"
  "cl_state (clear_discarded_packet_spaces s) = cl_state s"
  "cl_state (mark_activity at s) = cl_state s"
  "cl_state (mark_lifecycle_dirty s) = cl_state s"
  "cl_state (record_peer_bytes_received n s) = cl_state s"
  "cl_state (record_peer_bytes_sent n s) = cl_state s"
  "cl_state (set_packet_protectors a1 a2 a3 a4 s) = cl_state s"
  "cl_state (set_remote_connection_id cid s) = cl_state s"
  "cl_state (update_remote_connection_id_from_header h s) = cl_state s"
  "cl_state (remove_queued_path_challenge s) = cl_state s"
  "cl_state (refresh_peer_address_validation E s) = cl_state s"
  "cl_state (queue_pending_path_challenge_if_ready E s) = cl_state s"
  "cl_state (validate_migrated_peer_path s) = cl_state s"
  "cl_state (update_max_data m s) = cl_state s"
  by (simp_all add: push_queue_def emit_action_def clear_packet_space_def clear_if_discarded_def
      clear_discarded_packet_spaces_def mark_activity_def mark_lifecycle_dirty_def record_peer_bytes_received_def
      record_peer_bytes_sent_def set_packet_protectors_def set_remote_connection_id_def reset_remote_connection_id_state_def
      update_remote_connection_id_from_header_def remove_queued_path_challenge_def refresh_peer_address_validation_def
      queue_pending_path_challenge_if_ready_def validate_migrated_peer_path_def update_max_data_def split: option.split)

lemma state_recovery [simp]:
  "cl_state (cl_update_rtt E sample s) = cl_state s"
  "cl_state (pace_window E s) = cl_state s"
  "cl_state (cc_event E g s) = cl_state s"
  "cl_state (record_largest_acknowledged space n s) = cl_state s"
  "cl_state (mark_recovery_packets space ns st s) = cl_state s"
  "cl_state (apply_stream_ack_mapping space ns s) = cl_state s"
  "cl_state (apply_stream_loss_mapping space ns s) = cl_state s"
  by (simp_all add: cl_update_rtt_def pace_window_def cc_event_def record_largest_acknowledged_def
      mark_recovery_packets_def apply_stream_ack_mapping_def apply_stream_loss_mapping_def Let_def)

lemma state_refresh_key_lifecycle [simp]: "cl_state (refresh_key_lifecycle E s) = cl_state s"
  by (simp add: refresh_key_lifecycle_def Let_def)

lemma state_apply_ack_frame [simp]: "cl_state (apply_ack_frame E space ack at s) = cl_state s"
  by (simp add: apply_ack_frame_def Let_def split: prod.split option.split)

lemma state_apply_ack_frames [simp]: "cl_state (apply_ack_frames E space frames at s) = cl_state s"
  by (induction frames arbitrary: s) (simp_all split: frame.split)

lemma state_push_all [simp]:
  "cl_state (foldl (\<lambda>s n. push_queue ApplicationSpace (RetireConnectionIdFrame n) s) s ns) = cl_state s"
  by (induction ns arbitrary: s) simp_all

lemma state_retire: "retire_remote_connection_ids_before n s = (e, t) \<Longrightarrow> cl_state t = cl_state s"
  by (auto simp: retire_remote_connection_ids_before_def Let_def split: prod.splits option.splits if_splits)

lemma state_ensure_ids [simp]: "cl_state (ensure_remote_connection_id_state s) = cl_state s"
  by (simp add: ensure_remote_connection_id_state_def)

lemma state_new_connection_id: "apply_new_connection_id_frame item s = (e, t) \<Longrightarrow> cl_state t = cl_state s"
  by (auto simp: apply_new_connection_id_frame_def Let_def dest!: state_retire split: prod.splits option.splits if_splits)

lemma state_connection_id_frames [simp]: "cl_state (snd (apply_connection_id_frames frames s)) = cl_state s"
proof (induction frames arbitrary: s)
  case (Cons f fs)
  have "cl_state t = cl_state s" if "apply_new_connection_id_frame item s = (e, t)" for item e t
    using state_new_connection_id that .
  with Cons show ?case by (auto split: frame.split prod.split if_splits)
qed simp

lemma state_path_validation [simp]: "cl_state (apply_path_validation_frames frames s) = cl_state s"
proof -
  have "cl_state (apply_path_validation_frame f t) = cl_state t" for f and t :: "('a, 'b) connection_loop"
    by (cases "(f, t)" rule: apply_path_validation_frame.cases) simp_all
  then show ?thesis
    unfolding apply_path_validation_frames_def by (induction frames arbitrary: s) simp_all
qed

lemma state_flow_control [simp]: "cl_state (apply_flow_control_frames frames s) = cl_state s"
proof -
  have "cl_state (apply_flow_control_frame f t) = cl_state t" for f and t :: "('a, 'b) connection_loop"
    by (cases "(f, t)" rule: apply_flow_control_frame.cases) simp_all
  then show ?thesis
    unfolding apply_flow_control_frames_def by (induction frames arbitrary: s) simp_all
qed

lemma state_stream_control [simp]: "cl_state (snd (apply_stream_control_frames frames s)) = cl_state s"
  by (induction frames arbitrary: s) (simp_all add: Let_def split: frame.split prod.split)

lemma state_receive_crypto [simp]: "cl_state (snd (receive_crypto_frames E space frames s)) = cl_state s"
proof -
  have "cl_state (snd (receive_crypto_loop E space frames s)) = cl_state s"
    by (induction frames arbitrary: s) (simp_all add: Let_def split: frame.split prod.split)
  then show ?thesis by (simp add: receive_crypto_frames_def)
qed

lemma state_accept_peer: "accept_peer E peer at s = (True, t) \<Longrightarrow> cl_state t = cl_state s"
  by (auto simp: accept_peer_def reset_peer_path_validation_def start_peer_path_validation_def Let_def
      split: prod.splits if_splits sum.splits option.splits)

lemma state_pacing_allows: "pacing_allows E space s = (b, t) \<Longrightarrow> cl_state t = cl_state s"
  by (auto simp: pacing_allows_def split: prod.splits if_splits)

lemma state_refresh_protectors: "refresh_packet_protectors E at s = (True, t) \<Longrightarrow> cl_state t = cl_state s"
  by (auto simp: refresh_packet_protectors_def Let_def split: prod.splits if_splits option.splits)

lemma state_lose_by_time: "cl_state (snd (lose_by_time E space now s)) = cl_state s"
proof -
  have "cl_state (foldl (lose_packet E space) u ns) = cl_state u" for u :: "('a, 'b) connection_loop" and ns
    by (induction ns arbitrary: u) (simp_all add: lose_packet_def)
  then show ?thesis
    by (auto simp: lose_by_time_def Let_def split: option.split prod.split)
qed

section \<open>Steps\<close>

text \<open>Changes to members that no invariant below looks at: the two states agree on every other member.\<close>

definition inert :: "('w, 'c) connection_loop \<Rightarrow> ('w, 'c) connection_loop \<Rightarrow> bool" where
  "inert s t \<longleftrightarrow> cl_config t = cl_config s \<and> cl_state t = cl_state s \<and> cl_packet_spaces t = cl_packet_spaces s \<and>
     cl_actions t = cl_actions s \<and> cl_connection_send_max_data t = cl_connection_send_max_data s \<and>
     cl_connection_data_sent t = cl_connection_data_sent s \<and> cl_peer_address_validated t = cl_peer_address_validated s \<and>
     cl_peer_bytes_received t = cl_peer_bytes_received s \<and> cl_peer_bytes_sent t = cl_peer_bytes_sent s \<and>
     cl_recovery_packets t = cl_recovery_packets s \<and> cl_remote_connection_ids t = cl_remote_connection_ids s \<and>
     cl_remote_connection_ids_initialized t = cl_remote_connection_ids_initialized s \<and>
     cl_active_remote_connection_id_sequence t = cl_active_remote_connection_id_sequence s"

inductive loop_step :: "('w, 'c) connection_env \<Rightarrow> ('w, 'c) connection_loop \<Rightarrow> ('w, 'c) connection_loop \<Rightarrow> bool" for E where
  step_set_packet_protectors: "loop_step E s (set_packet_protectors htx hrx atx arx s)"
| step_set_remote_connection_id: "loop_step E s (set_remote_connection_id cid s)"
| step_queue_initial: "loop_step E s (queue_initial frames s)"
| step_queue_handshake: "loop_step E s (queue_handshake frames s)"
| step_queue_application: "loop_step E s (queue_application frames s)"
| step_append_stream_data: "loop_step E s (snd (append_stream_data stream_id data s))"
| step_schedule_stream_frames: "loop_step E s (snd (schedule_stream_frames stream_ids max_frames max_size s))"
| step_update_max_data: "loop_step E s (update_max_data m s)"
| step_flush: "loop_step E s (flush E sent_at clock s)"
| step_update_rtt: "loop_step E s (cl_update_rtt E sample s)"
| step_next_recovery_timer: "loop_step E s (snd (next_recovery_timer E s))"
| step_next_lifecycle_timer: "loop_step E s (snd (next_lifecycle_timer now s))"
| step_on_lifecycle_timer: "loop_step E s (on_lifecycle_timer kind now s)"
| step_on_recovery_timer: "loop_step E s (snd (on_recovery_timer E space now s))"
| step_discard_packet_space: "loop_step E s (discard_packet_space space s)"
| step_on_datagram: "loop_step E s (on_datagram E payload peer received_at s)"
| step_acknowledge: "loop_step E s (acknowledge E space sent_at s)"
| step_drain_actions: "loop_step E s (snd (drain_actions s))"

text \<open>The states of a connection created from \<open>config\<close>.\<close>

inductive loop_reachable ::
    "('w, 'c) connection_env \<Rightarrow> connection_loop_config \<Rightarrow> 'c \<Rightarrow> 'w \<Rightarrow> ('w, 'c) connection_loop \<Rightarrow> bool" for E config c w where
  reachable_new: "loop_reachable E config c w (new_connection_loop config c w)"
| reachable_step: "loop_reachable E config c w s \<Longrightarrow> loop_step E s t \<Longrightarrow> loop_reachable E config c w t"

section \<open>Recovery keeps the numbers of the packets\<close>

lemma ack_numbers:
  assumes "on_ack_received t f k = (r, t')"
  shows "map sp_packet_number (spt_packets t') = map sp_packet_number (spt_packets t)"
proof -
  have "map sp_packet_number (fst (ack_pass A ps)) = map sp_packet_number ps" for A ps
    by (induction ps) (auto simp: Let_def split: prod.split)
  moreover have "map sp_packet_number (fst (loss_pass l k ps)) = map sp_packet_number ps" for l ps
    by (induction ps) (auto simp: Let_def split: prod.split)
  ultimately show ?thesis
    using assms by (auto simp: on_ack_received_def Let_def split: if_splits prod.splits) (metis fst_conv)
qed

lemma mark_lost_numbers [simp]:
  "map sp_packet_number (spt_packets (mark_lost t n)) = map sp_packet_number (spt_packets t)"
  by (simp add: mark_lost_def)

lemma on_space_sent:
  "on_space space (\<lambda>st. st\<lparr>ps_sent := g (ps_sent st)\<rparr>) s = on_space space (\<lambda>st. st\<lparr>ps_sent := g (ps_sent (space_of s space))\<rparr>) s"
  by (cases space) (simp_all add: on_space_def update_space_def get_space_def)

lemma time_loss_numbers:
  "map rp_packet_number (fst (time_loss_loop d space largest now ps lost x)) = map rp_packet_number ps"
  "map rp_space (fst (time_loss_loop d space largest now ps lost x)) = map rp_space ps"
  by (induction ps arbitrary: lost x) (simp_all add: Let_def case_prod_unfold)

lemma detected_numbers:
  assumes "detect_time_threshold_losses ps e space largest now = (ps', r)"
  shows "map rp_packet_number ps' = map rp_packet_number ps \<and> map rp_space ps' = map rp_space ps"
proof -
  have "ps' = fst (detect_time_threshold_losses ps e space largest now)" using assms by simp
  then show ?thesis by (simp add: detect_time_threshold_losses_def time_loss_numbers)
qed

lemma marked_numbers:
  assumes "mark_oldest_loop space ps = (ps', r)"
  shows "map rp_packet_number ps' = map rp_packet_number ps \<and> map rp_space ps' = map rp_space ps"
  using assms by (induction ps arbitrary: ps' r) (auto split: if_splits prod.splits)

section \<open>A relation kept by every elementary change is kept by every step\<close>

text \<open>
  \<open>loop_change\<close> asks for the elementary changes of the operations that send, schedule and time out, and gives the
  relation for each of these operations; \<open>loop_relation\<close> adds the report of a received packet and gives it for every
  step and every run.
\<close>

locale loop_change =
  fixes E :: "('w, 'c) connection_env"
    and R :: "('w, 'c) connection_loop \<Rightarrow> ('w, 'c) connection_loop \<Rightarrow> bool"
  assumes R_trans: "R s t \<Longrightarrow> R t u \<Longrightarrow> R s u"
    and R_inert: "inert s t \<Longrightarrow> R s t"
    and R_queue: "R s (on_space space (\<lambda>st. st\<lparr>ps_queue := g (ps_queue st)\<rparr>) s)"
    and R_received: "loop_active s \<Longrightarrow> rpt_packets (ps_received (space_of s space)) \<subseteq> rpt_packets rt \<Longrightarrow>
      R s (on_space space (\<lambda>st. st\<lparr>ps_received := rt\<rparr>) s)"
    and R_sent: "loop_active s \<Longrightarrow>
      map sp_packet_number (spt_packets tracker) = map sp_packet_number (spt_packets (ps_sent (space_of s space))) \<Longrightarrow>
      R s (on_space space (\<lambda>st. st\<lparr>ps_sent := tracker\<rparr>) s)"
    and R_largest: "loop_active s \<Longrightarrow> R s (record_largest_acknowledged space n s)"
    and R_recovery: "loop_active s \<Longrightarrow> map rp_packet_number ps = map rp_packet_number (cl_recovery_packets s) \<Longrightarrow>
      map rp_space ps = map rp_space (cl_recovery_packets s) \<Longrightarrow> R s (s\<lparr>cl_recovery_packets := ps\<rparr>)"
    and R_clear: "packet_space_discarded s space \<Longrightarrow> R s (clear_packet_space space s)"
    and R_closing: "R s (enter_closing e at s)"
    and R_draining: "loop_active s \<Longrightarrow> R s (enter_draining e at s)"
    and R_closed: "cl_state s = Closing \<or> cl_state s = Draining \<Longrightarrow> R s (enter_closed s)"
    and R_keys: "(\<And>sp. packet_space_discarded s sp \<Longrightarrow> discarded k sp) \<Longrightarrow>
      R s (s\<lparr>cl_config := (cl_config s)\<lparr>cfg_key_lifecycle := k\<rparr>\<rparr>)"
    and R_protectors: "R s (set_packet_protectors htx hrx atx arx s)"
    and R_peer: "R s (s\<lparr>cl_config := (cl_config s)\<lparr>cfg_peer := peer\<rparr>\<rparr>)"
    and R_validated: "R s (s\<lparr>cl_peer_address_validated := True\<rparr>)"
    and R_path_valid: "R s (validate_migrated_peer_path s)"
    and R_path_reset: "R s (s\<lparr>cl_peer_address_validated := False, cl_peer_bytes_received := 0, cl_peer_bytes_sent := 0,
      cl_peer_path_migrated := True\<rparr>)"
    and R_bytes: "R s (record_peer_bytes_received n s)"
    and R_max_data: "R s (update_max_data m s)"
    and R_schedule: "loop_active s \<Longrightarrow> R s (snd (schedule_loop ids max_frames max_size frames s))"
    and R_remote_id: "R s (set_remote_connection_id cid s)"
    and R_new_id: "loop_active s \<Longrightarrow> apply_new_connection_id_frame item s = (e, t) \<Longrightarrow> error_ok e \<Longrightarrow> R s t"
    and R_new_id_refused: "loop_active s \<Longrightarrow> apply_new_connection_id_frame item s = (e, t) \<Longrightarrow> \<not> error_ok e \<Longrightarrow>
      R s (enter_closing e at t)"
    and R_send: "loop_active s \<Longrightarrow> a = assemble_space E space (ps_next_packet_number (space_of s space)) frames s \<Longrightarrow>
      error_ok (ap_error a) \<Longrightarrow> anti_amplification_allows s (length (ap_datagram a)) \<Longrightarrow>
      R s (send_selected E space sent_at selected a s)"
    and R_send_ack: "loop_active s \<Longrightarrow> a = assemble_space E space (ps_next_packet_number (space_of s space)) frames s \<Longrightarrow>
      error_ok (ap_error a) \<Longrightarrow> anti_amplification_allows s (length (ap_datagram a)) \<Longrightarrow>
      R s (send_ack space sent_at a s)"
    and R_drain: "R s (s\<lparr>cl_actions := []\<rparr>)"
begin

lemma R_refl: "R s s"
  by (rule R_inert) (simp add: inert_def)

lemma R_push: "R s (push_queue space f s)"
  unfolding push_queue_def by (rule R_queue)

lemma R_world: "R s (s\<lparr>cl_world := w\<rparr>)"
  by (rule R_inert) (simp add: inert_def)

lemma R_then_inert: "R s t \<Longrightarrow> inert t u \<Longrightarrow> R s u"
  by (rule R_trans [OF _ R_inert])

lemma R_queue_pending: "R s (queue_pending_path_challenge_if_ready E s)"
  by (auto simp: queue_pending_path_challenge_if_ready_def R_refl inert_def
      intro!: R_then_inert [OF R_push] split: option.split)

lemma R_refresh_validation: "R s (refresh_peer_address_validation E s)"
  by (simp add: refresh_peer_address_validation_def R_refl R_validated)

lemma R_clear_if_discarded: "R s (clear_if_discarded space s)"
  by (simp add: clear_if_discarded_def R_refl R_clear)

lemma R_clear_discarded: "R s (clear_discarded_packet_spaces s)"
  unfolding clear_discarded_packet_spaces_def
  by (rule R_trans [OF R_clear_if_discarded R_trans [OF R_clear_if_discarded R_clear_if_discarded]])

lemma R_refresh_keys: "R s (refresh_key_lifecycle E s)"
proof -
  let ?observed = "if env_has_tls E then
      s\<lparr>cl_config := (cl_config s)\<lparr>cfg_key_lifecycle :=
          observe_tls (cfg_key_lifecycle (cl_config s)) (env_tls_state E (cl_world s)) (env_key_availability E (cl_world s))\<rparr>,
        cl_recovery_pto_config := (cl_recovery_pto_config s)\<lparr>pto_handshake_confirmed :=
          env_tls_state E (cl_world s) = HandshakeConfirmed\<rparr>\<rparr> else s"
  let ?t = "if cl_lifecycle_dirty s then (clear_discarded_packet_spaces ?observed)\<lparr>cl_lifecycle_dirty := False\<rparr> else s"
  have "R s (s\<lparr>cl_config := (cl_config s)\<lparr>cfg_key_lifecycle := observe_tls (cfg_key_lifecycle (cl_config s)) state keys\<rparr>\<rparr>)"
    for state keys
    by (rule R_keys) (simp add: packet_space_discarded_def observe_tls_discarded)
  then have "R s (s\<lparr>cl_config := (cl_config s)\<lparr>cfg_key_lifecycle := observe_tls (cfg_key_lifecycle (cl_config s)) state keys\<rparr>,
      cl_recovery_pto_config := pto\<rparr>)" for state keys pto
    by (rule R_then_inert) (simp add: inert_def)
  then have "R s ?observed" by (simp add: R_refl)
  then have "R s ((clear_discarded_packet_spaces ?observed)\<lparr>cl_lifecycle_dirty := False\<rparr>)"
    by (rule R_then_inert [OF R_trans [OF _ R_clear_discarded]]) (simp add: inert_def)
  then have "R s ?t"
    by (simp only: R_refl if_split simp_thms)
  then show ?thesis
    unfolding refresh_key_lifecycle_def Let_def
    by (rule R_trans [OF _ R_trans [OF R_refresh_validation R_queue_pending]])
qed

lemma R_remove_challenge: "R s (remove_queued_path_challenge s)"
  by (auto simp: remove_queued_path_challenge_def R_refl inert_def intro!: R_then_inert [OF R_queue] split: option.split)

lemma R_start_validation:
  assumes "loop_active s"
  shows "R s (snd (start_peer_path_validation E at s))"
proof -
  let ?s1 = "remove_queued_path_challenge s"
  have w: "R s (?s1\<lparr>cl_world := w\<rparr>)" for w
    by (rule R_trans [OF R_remove_challenge R_world])
  have p: "R s (?s1\<lparr>cl_world := w, cl_pending_path_challenge := c, cl_pending_path_challenge_queued := False\<rparr>)" for w c
    by (rule R_then_inert [OF w [of w]]) (simp add: inert_def)
  show ?thesis
    using assms
    by (auto simp: start_peer_path_validation_def Let_def loop_active_def
        intro: R_trans [OF w R_closing] R_trans [OF p R_queue_pending] split: prod.split sum.split option.split)
qed

lemma R_accept_peer:
  assumes "loop_active s"
  shows "R s (snd (accept_peer E peer at s))"
proof -
  have "R s (s\<lparr>cl_config := (cl_config s)\<lparr>cfg_peer := peer\<rparr>, cl_peer_address_validated := False, cl_peer_bytes_received := 0,
      cl_peer_bytes_sent := 0, cl_peer_path_migrated := True\<rparr>)"
    using R_trans [OF R_peer R_path_reset] by simp
  then show ?thesis
    using assms R_peer
    by (auto simp: accept_peer_def reset_peer_path_validation_def R_refl R_closing loop_active_def
        intro!: R_trans [OF _ R_start_validation])
qed

lemma R_new_ids:
  assumes "loop_active s" and "apply_connection_id_frames frames s = (e, t)"
  shows "if error_ok e then R s t else R s (enter_closing e at t)"
  using assms
proof (induction frames arbitrary: s)
  case Nil
  then show ?case by (simp add: R_refl)
next
  case (Cons f fs)
  have "if error_ok e then R s t else R s (enter_closing e at t)"
    if "apply_new_connection_id_frame item s = (e1, s1)" "error_ok e1" "apply_connection_id_frames fs s1 = (e, t)" for item e1 s1
  proof -
    have "loop_active s1" using state_new_connection_id [OF that(1)] Cons.prems(1) by (simp add: loop_active_def)
    then show ?thesis
      using Cons.IH [OF _ that(3)] R_trans [OF R_new_id [OF Cons.prems(1) that(1,2)]] by (auto split: if_splits)
  qed
  then show ?case
    using Cons R_new_id_refused by (auto split: frame.splits prod.splits if_splits)
qed

lemma R_path_frames: "loop_active s \<Longrightarrow> R s (apply_path_validation_frames frames s)"
proof (induction frames arbitrary: s)
  case (Cons f fs)
  have "R s (apply_path_validation_frame f s)"
    using Cons.prems by (cases "(f, s)" rule: apply_path_validation_frame.cases) (simp_all add: R_push R_path_valid R_refl)
  moreover have "loop_active (apply_path_validation_frame f s)"
    using Cons.prems state_path_validation [of "[f]" s] by (simp add: loop_active_def apply_path_validation_frames_def)
  ultimately show ?case
    using Cons.IH R_trans by (simp add: apply_path_validation_frames_def)
qed (simp add: apply_path_validation_frames_def R_refl)

lemma R_flow_frames: "R s (apply_flow_control_frames frames s)"
proof (induction frames arbitrary: s)
  case (Cons f fs)
  have "R s (apply_flow_control_frame f s)"
    by (cases "(f, s)" rule: apply_flow_control_frame.cases) (simp_all add: R_max_data R_inert inert_def)
  then show ?case
    using Cons.IH R_trans by (simp add: apply_flow_control_frames_def)
qed (simp add: apply_flow_control_frames_def R_refl)

lemma R_stream_control: "R s (snd (apply_stream_control_frames frames s))"
proof (induction frames arbitrary: s)
  case (Cons f fs)
  have i: "R s (s\<lparr>cl_receive_streams := rs\<rparr>)" "R s (s\<lparr>cl_send_streams := ss\<rparr>)" for rs ss
    by (simp_all add: R_inert inert_def)
  show ?case
    using Cons.IH by (auto simp: Let_def intro: i R_trans [OF i(1)] R_trans [OF i(2)] split: frame.split prod.split)
qed (simp add: R_refl)

lemma R_crypto: "R s (snd (receive_crypto_frames E space frames s))"
proof -
  have "R s (snd (receive_crypto_loop E space frames s))"
  proof (induction frames arbitrary: s)
    case (Cons f fs)
    have i: "R s (s\<lparr>cl_world := w\<rparr>)" "R s (mark_lifecycle_dirty (s\<lparr>cl_world := w\<rparr>))" for w
      by (simp_all add: R_inert inert_def mark_lifecycle_dirty_def)
    show ?case
      using Cons.IH by (auto simp: Let_def intro: i R_trans [OF i(2)] split: frame.split prod.split)
  qed (simp add: R_refl)
  then show ?thesis by (simp add: receive_crypto_frames_def R_refl)
qed

lemma R_recovery_inert:
  "R s (cl_update_rtt E sample s)" "R s (pace_window E s)" "R s (cc_event E f s)"
  "R s (apply_stream_ack_mapping space ns s)" "R s (apply_stream_loss_mapping space ns s)"
  by (simp_all add: R_inert inert_def cl_update_rtt_def pace_window_def cc_event_def apply_stream_ack_mapping_def
      apply_stream_loss_mapping_def Let_def)

lemma R_mark: "loop_active s \<Longrightarrow> R s (mark_recovery_packets space ns st s)"
  unfolding mark_recovery_packets_def by (rule R_recovery) (auto simp: comp_def)

lemma R_mark_lost: "loop_active s \<Longrightarrow> R s (on_space space (\<lambda>st. st\<lparr>ps_sent := mark_lost (ps_sent st) n\<rparr>) s)"
  by (subst on_space_sent) (simp add: R_sent)

lemma R_ack_frame:
  assumes "loop_active s"
  shows "R s (apply_ack_frame E space ack at s)"
proof -
  let ?s1 = "record_largest_acknowledged space (af_largest_acknowledged ack) s"
  obtain r tracker where r: "on_ack_received (ps_sent (space_of ?s1 space)) ack 3 = (r, tracker)" by fastforce
  let ?s2 = "on_space space (\<lambda>st. st\<lparr>ps_sent := tracker\<rparr>) ?s1"
  let ?s3 = "case rtt_sample_from_ack space ack (newly_acknowledged r) at ?s2 of None \<Rightarrow> ?s2 | Some x \<Rightarrow> cl_update_rtt E x ?s2"
  let ?s4 = "mark_recovery_packets space (newly_acknowledged r) Acknowledged ?s3"
  let ?s5 = "mark_recovery_packets space (newly_lost r) Lost ?s4"
  let ?s6 = "apply_stream_ack_mapping space (newly_acknowledged r) ?s5"
  let ?s7 = "apply_stream_loss_mapping space (newly_lost r) ?s6"
  have "R s ?s2"
    using assms by (intro R_trans [OF R_largest R_sent]) (simp_all add: loop_active_def ack_numbers [OF r])
  then have "R s ?s3" by (auto intro: R_trans [OF _ R_recovery_inert(1)] split: option.split)
  moreover have a: "loop_active ?s3" "loop_active ?s4"
    using assms by (simp_all add: loop_active_def split: option.split)
  ultimately have "R s ?s7"
    by (meson R_trans R_mark R_recovery_inert(4,5))
  then show ?thesis
    unfolding apply_ack_frame_def Let_def r prod.case
    by (auto intro!: R_trans [OF _ R_trans [OF R_recovery_inert(3,2)]] intro: R_trans [OF _ R_trans [OF R_recovery_inert(3,2)]])
qed

lemma R_ack_frames: "loop_active s \<Longrightarrow> R s (apply_ack_frames E space frames at s)"
proof (induction frames arbitrary: s)
  case (Cons f fs)
  have "R s (apply_ack_frames E space fs at (apply_ack_frame E space ack at s))" for ack
    using R_trans [OF R_ack_frame Cons.IH] Cons.prems by (simp add: loop_active_def)
  with Cons show ?case by (simp split: frame.split)
qed (simp add: R_refl)

lemma R_pump:
  assumes "loop_active s"
  shows "R s (pump_tls_crypto E clock s)"
proof -
  have q: "loop_active u \<Longrightarrow> R u (queue_crypto items clock u)" for items u
  proof (induction items arbitrary: u)
    case (Cons item items)
    have "R u (queue_crypto items clock (on_space space (\<lambda>st. st\<lparr>ps_queue := ps_queue st @ fs\<rparr>) u))" for space fs
      using R_trans [OF R_queue Cons.IH] Cons.prems by (simp add: loop_active_def)
    then show ?case
      using Cons by (simp add: Let_def R_closing split: prod.split)
  qed (simp add: R_refl)
  have w: "R s (mark_lifecycle_dirty (s\<lparr>cl_world := w\<rparr>))" for w
    by (simp add: R_inert inert_def mark_lifecycle_dirty_def)
  show ?thesis
    using assms
    by (auto simp: pump_tls_crypto_def Let_def R_refl loop_active_def
        intro: R_trans [OF R_world R_closing] intro!: R_trans [OF w q] split: prod.split)
qed

lemma R_flush_space:
  assumes "loop_active s"
  shows "R s (flush_space E space at s)"
proof -
  obtain ok s1 where 1: "pacing_allows E space s = (ok, s1)" by fastforce
  have s1: "R s s1" "loop_active s1"
    using assms 1 state_pacing_allows [OF 1]
    by (auto simp: pacing_allows_def R_refl R_world loop_active_def split: if_splits prod.splits)
  have "R s (send_selected E space at selected a s1)"
    if "a = assemble_space E space (ps_next_packet_number (space_of s1 space)) (fbs_frames selected) s1" "error_ok (ap_error a)"
      "anti_amplification_allows s1 (length (ap_datagram a))" for selected a
    by (rule R_trans [OF s1(1) R_send [OF s1(2) that]])
  then show ?thesis
    using s1(1) R_trans [OF s1(1) R_closing]
    by (simp add: flush_space_def Let_def R_refl R_clear 1)
qed

lemma R_flush: "R s (flush E at clock s)"
proof (cases "loop_active s")
  case True
  let ?s1 = "refresh_key_lifecycle E s"
  let ?s2' = "pump_tls_crypto E clock ?s1"
  let ?s2 = "refresh_key_lifecycle E ?s2'"
  let ?s3 = "flush_space E InitialSpace at ?s2"
  let ?s4 = "flush_space E HandshakeSpace at ?s3"
  have s1: "R s ?s1" "loop_active ?s1" using True R_refresh_keys by (simp_all add: loop_active_def)
  have s2': "R s ?s2'" by (rule R_trans [OF s1(1) R_pump [OF s1(2)]])
  have s2: "R s ?s2" by (rule R_trans [OF s2' R_refresh_keys])
  have s3: "R s ?s3" if "loop_active ?s2" by (rule R_trans [OF s2 R_flush_space [OF that]])
  have s4: "R s ?s4" if "loop_active ?s2" "loop_active ?s3" by (rule R_trans [OF s3 R_flush_space]) (rule that)+
  have s5: "R s (flush_space E ApplicationSpace at ?s4)" if "loop_active ?s2" "loop_active ?s3" "loop_active ?s4"
    by (rule R_trans [OF s4 R_flush_space]) (rule that)+
  show ?thesis
    using True s1(2) s2 s3 s4 s5 by (simp add: flush_def Let_def)
qed (simp add: flush_def R_refl)

lemma R_acknowledge: "R s (acknowledge E space at s)"
proof (cases "loop_active s")
  case True
  let ?s1 = "refresh_key_lifecycle E s"
  have s1: "R s ?s1" "loop_active ?s1" using True R_refresh_keys by (simp_all add: loop_active_def)
  show ?thesis
    using True s1 R_closing R_trans [OF s1(1) R_clear] R_trans [OF s1(1) R_closing] R_trans [OF s1(1) R_send_ack [OF s1(2) refl]]
    by (simp add: acknowledge_def Let_def)
qed (simp add: acknowledge_def R_refl)

lemma R_schedule_frames: "R s (snd (schedule_stream_frames ids max_frames max_size s))"
proof (cases "loop_active s")
  case True
  obtain r s1 where 1: "schedule_loop ids max_frames max_size [] s = (r, s1)" by fastforce
  have "R s s1" using R_schedule [OF True, of ids max_frames max_size "[]"] 1 by simp
  with True 1 show ?thesis
    by (simp add: schedule_stream_frames_def Let_def R_refl split: prod.split)
qed (simp add: schedule_stream_frames_def R_refl)

lemma R_lifecycle_timer: "R s (snd (next_lifecycle_timer now s))"
  by (simp add: next_lifecycle_timer_def Let_def R_refl R_inert inert_def)

lemma R_on_lifecycle_timer: "R s (on_lifecycle_timer kind now s)"
proof -
  obtain timer s1 where 1: "next_lifecycle_timer now s = (timer, s1)" by fastforce
  have s1: "R s s1" using R_lifecycle_timer [of s now] 1 by simp
  then show ?thesis
    using R_trans [OF s1 R_closing] R_trans [OF s1 R_closed]
    by (simp add: on_lifecycle_timer_def 1 split: option.split)
qed

lemma R_lose_packets: "loop_active s \<Longrightarrow> R s (foldl (lose_packet E space) s ns)"
proof (induction ns arbitrary: s)
  case (Cons n ns)
  have "R s (lose_packet E space s n)"
    unfolding lose_packet_def by (rule R_trans [OF R_mark_lost [OF Cons.prems] R_recovery_inert(3)])
  moreover have "loop_active (lose_packet E space s n)"
    using Cons.prems by (simp add: lose_packet_def loop_active_def)
  ultimately show ?case using Cons.IH R_trans by fastforce
qed (simp add: R_refl)

lemma R_lose_by_time:
  assumes "loop_active s"
  shows "R s (snd (lose_by_time E space now s))"
proof -
  have "R s (foldl (lose_packet E space) (s\<lparr>cl_recovery_packets := packets\<rparr>) lost)"
    if "detect_time_threshold_losses (cl_recovery_packets s) (cl_recovery_rtt s) space largest now = (packets, lost, d)"
    for packets lost largest d
    using R_trans [OF R_recovery R_lose_packets] assms detected_numbers [OF that] by (simp add: loop_active_def)
  note lost = this
  have "R s (s\<lparr>cl_recovery_packets := packets\<rparr>)"
    if "detect_time_threshold_losses (cl_recovery_packets s) (cl_recovery_rtt s) space largest now = (packets, [], d)"
    for packets largest d
    using lost [OF that] by simp
  with lost show ?thesis
    by (auto simp: lose_by_time_def Let_def R_refl intro: R_trans [OF _ R_recovery_inert(5)]
        R_trans [OF _ R_trans [OF R_recovery_inert(3) R_trans [OF R_recovery_inert(2,5)]]] split: option.split prod.split)
qed

lemma R_lose_by_probe:
  assumes "loop_active s"
  shows "R s (snd (lose_by_probe_timeout E space s))"
proof -
  have "R s s1" if "mark_oldest_ack_eliciting_packet_lost space s = (lost, s1)" for lost s1
  proof (cases "mark_oldest_loop space (cl_recovery_packets s)")
    case (Pair ps r)
    have "R s (s\<lparr>cl_recovery_packets := ps\<rparr>)"
      using R_recovery [OF assms] marked_numbers [OF Pair] by simp
    then have "R s (on_space space (\<lambda>st. st\<lparr>ps_sent := mark_lost (ps_sent st) n\<rparr>) (s\<lparr>cl_recovery_packets := ps\<rparr>))" for n
      using R_trans [OF _ R_mark_lost] assms by (simp add: loop_active_def)
    with that Pair show ?thesis
      by (auto simp: mark_oldest_ack_eliciting_packet_lost_def R_refl split: option.splits)
  qed
  then show ?thesis
    by (auto simp: lose_by_probe_timeout_def intro!: R_trans [OF _ R_recovery_inert(5)]
        R_trans [OF _ R_recovery_inert(2)] R_trans [OF _ R_recovery_inert(3)] split: prod.split)
qed

lemma R_recovery_timer: "R s (snd (on_recovery_timer E space now s))"
proof (cases "loop_active s")
  case True
  let ?s1 = "refresh_key_lifecycle E s"
  have s1: "R s ?s1" "loop_active ?s1" using True R_refresh_keys by (simp_all add: loop_active_def)
  obtain lost s2 where 2: "lose_by_time E space now ?s1 = (lost, s2)" by fastforce
  have s2: "R s s2" using R_trans [OF s1(1) R_lose_by_time [OF s1(2), of space now]] 2 by simp
  have "loop_active s2" using state_lose_by_time [of E space now ?s1] s1(2) 2 by (simp add: loop_active_def)
  then have "R s (snd (lose_by_probe_timeout E space s2))" using R_trans [OF s2 R_lose_by_probe] by simp
  then show ?thesis
    using True s1 s2 R_trans [OF s1(1) R_clear]
    by (auto simp: on_recovery_timer_def Let_def 2 R_refl split: option.split prod.split)
qed (simp add: on_recovery_timer_def Let_def R_refl)

lemma R_simple_operations:
  "R s (queue_initial frames s)" "R s (queue_handshake frames s)" "R s (queue_application frames s)"
  "R s (snd (append_stream_data stream_id data s))" "R s (snd (next_recovery_timer E s))"
  "R s (discard_packet_space space s)" "R s (snd (drain_actions s))"
proof -
  have q: "R s (replace_queue space frames s)" for space
    using R_queue [of s space "\<lambda>_. frames"] by (simp add: replace_queue_def R_refl)
  then show "R s (queue_initial frames s)" "R s (queue_handshake frames s)" "R s (queue_application frames s)"
    by (simp_all add: queue_initial_def queue_handshake_def queue_application_def)
  show "R s (snd (append_stream_data stream_id data s))"
    by (simp add: append_stream_data_def R_refl R_inert inert_def split: prod.split)
  show "R s (snd (next_recovery_timer E s))"
    by (simp add: next_recovery_timer_def Let_def R_refl R_refresh_keys)
  show "R s (discard_packet_space space s)"
    by (auto simp: discard_packet_space_def R_refl packet_space_discarded_def intro!: R_trans [OF R_keys R_clear])
  show "R s (snd (drain_actions s))"
    by (simp add: drain_actions_def R_drain)
qed

end

text \<open>Receiving is the only operation that reports packets: a relation that survives the report is kept by every step.\<close>

locale loop_relation = loop_change +
  assumes R_event: "loop_active s \<Longrightarrow> R s (emit_action (PacketReceived event) s)"
begin

lemma R_deliver: "loop_active s \<Longrightarrow> R s (deliver_packet number frames at s)"
proof -
  assume a: "loop_active s"
  have i: "R s (s\<lparr>cl_receive_streams := rs\<rparr>)" for rs
    by (simp add: R_inert inert_def)
  show ?thesis
    using a by (auto simp: deliver_packet_def Let_def loop_active_def
        intro!: R_trans [OF i R_event] R_trans [OF i R_closing] split: prod.split option.split)
qed

lemma R_packet_frames:
  assumes "loop_active s"
  shows "R s (apply_packet_frames E number frames at s)"
proof -
  let ?space = "pn_space number"
  obtain e1 s1 where 1: "apply_connection_id_frames frames s = (e1, s1)" by fastforce
  let ?s2 = "apply_flow_control_frames frames (apply_ack_frames E ?space frames at (apply_path_validation_frames frames s1))"
  obtain e2 s3 where 3: "apply_stream_control_frames frames ?s2 = (e2, s3)" by fastforce
  obtain e3 s4 where 4: "receive_crypto_frames E ?space frames s3 = (e3, s4)" by fastforce
  have st: "cl_state s1 = cl_state s" "cl_state s3 = cl_state s1" "cl_state s4 = cl_state s3"
    using state_connection_id_frames [of frames s] state_stream_control [of frames ?s2]
      state_receive_crypto [of E ?space frames s3] 1 3 4 by simp_all
  then have a: "loop_active s1" "loop_active s4" using assms by (simp_all add: loop_active_def)
  then have "R s1 ?s2"
    by (intro R_trans [OF R_path_frames R_trans [OF R_ack_frames R_flow_frames]]) (simp_all add: loop_active_def)
  then have s3: "R s1 s3" using R_trans R_stream_control [of ?s2 frames] 3 by simp
  then have s4: "R s1 s4" using R_trans R_crypto [of s3 ?space frames] 4 by simp
  have s5: "R s1 (deliver_packet number frames at (refresh_key_lifecycle E s4))"
    using a(2) by (intro R_trans [OF s4 R_trans [OF R_refresh_keys R_deliver]]) (simp_all add: loop_active_def)
  have "R s1 (if \<not> error_ok e2 then enter_closing e2 at s3
      else if \<not> error_ok e3 then enter_closing e3 at s4 else deliver_packet number frames at (refresh_key_lifecycle E s4))"
    using s5 R_trans [OF s3 R_closing] R_trans [OF s4 R_closing] by simp
  with R_new_ids [OF assms 1, of at] show ?thesis
    unfolding apply_packet_frames_def Let_def 1 prod.case 3 4 by (auto intro: R_trans split: if_splits)
qed

lemma R_new_packet:
  assumes "loop_active s"
  shows "R s (process_new_packet E parsed peer n at s)"
proof -
  obtain ok s1 where 1: "accept_peer E peer at s = (ok, s1)" by fastforce
  let ?s2 = "mark_activity at (record_peer_bytes_received n s1)"
  have s1: "R s s1" using R_accept_peer [OF assms, of peer at] 1 by simp
  then have s2: "R s ?s2"
    by (auto simp: inert_def mark_activity_def intro: R_then_inert [OF R_trans [OF _ R_bytes]])
  have "loop_active ?s2" if ok
    using assms state_accept_peer [of E peer at s s1] 1 that by (simp add: loop_active_def)
  then have "R s (apply_packet_frames E number frames at ?s2)" "R s (enter_draining e at ?s2)" if ok for e number frames
    using that R_trans [OF s2 R_packet_frames] R_trans [OF s2 R_draining] by blast+
  then show ?thesis
    unfolding process_new_packet_def Let_def prod.case 1
    using s1 R_trans [OF s2 R_closing] by (simp split: option.split)
qed

lemma R_process:
  assumes "loop_active s"
  shows "R s (process_parsed_packet E parsed peer n at s)"
proof -
  let ?space = "pn_space (ppk_number parsed)"
  let ?s1 = "\<lambda>tracker. on_space ?space (\<lambda>st. st\<lparr>ps_received := tracker\<rparr>) s"
  have "R s (?s1 tracker)" if "observe (ps_received (space_of s ?space)) (pn_value (ppk_number parsed)) = (fresh, tracker)"
    for fresh tracker
    using that by (intro R_received [OF assms]) (auto simp: observe_def)
  moreover have "loop_active (?s1 tracker)" for tracker using assms by (simp add: loop_active_def)
  ultimately show ?thesis
    unfolding process_parsed_packet_def Let_def by (auto intro: R_trans [OF _ R_new_packet] split: prod.split)
qed

lemma R_protector_refresh: "R s (snd (refresh_packet_protectors E at s))"
  by (auto simp: refresh_packet_protectors_def Let_def R_refl
      intro: R_trans [OF R_world R_closing] R_trans [OF R_world R_protectors] split: option.split prod.split)

lemma R_header_id: "R s (update_remote_connection_id_from_header h s)"
  by (simp add: update_remote_connection_id_from_header_def R_refl R_remote_id split: option.split)

lemma R_coalesced: "loop_active s \<Longrightarrow> R s (coalesced_loop E peer at remaining s)"
proof (induction "length remaining" arbitrary: remaining s rule: less_induct)
  case less
  let ?s1 = "\<lambda>h. update_remote_connection_id_from_header h s"
  let ?s2 = "\<lambda>h parsed n. process_parsed_packet E parsed peer n at (?s1 h)"
  have a1: "loop_active (?s1 h)" for h using less.prems by (simp add: loop_active_def)
  have shorter: "length (drop n remaining) < length remaining" if "long_packet_wire_size remaining = Inr n" "remaining \<noteq> []" for n
    using long_packet_wire_size_pos [OF that(1)] that(2) by simp
  have skip: "R s (coalesced_loop E peer at (drop n remaining) (clear_packet_space space (?s1 h)))"
    if "long_packet_wire_size remaining = Inr n" "remaining \<noteq> []" "packet_space_discarded (?s1 h) space" for n h space
    using R_trans [OF R_trans [OF R_header_id R_clear [OF that(3)]] less.hyps [OF shorter [OF that(1,2)]]] a1
    by (simp add: loop_active_def)
  have s2: "R s (?s2 h parsed n)" for h parsed n
    by (rule R_trans [OF R_header_id R_process [OF a1]])
  have s3: "R s s3" if "refresh_packet_protectors E at (?s2 h parsed n) = (ok, s3)" for h parsed n ok s3
    using R_trans [OF s2 R_protector_refresh [of "?s2 h parsed n" at]] that by simp
  have go: "R s (coalesced_loop E peer at (drop n remaining) s3)"
    if "long_packet_wire_size remaining = Inr n" "remaining \<noteq> []" "loop_active (?s2 h parsed n)"
      "refresh_packet_protectors E at (?s2 h parsed n) = (True, s3)" for n h parsed s3
    using R_trans [OF s3 [OF that(4)] less.hyps [OF shorter [OF that(1,2)]]] that(3) state_refresh_protectors [OF that(4)]
    by (simp add: loop_active_def)
  show ?case
    by (subst coalesced_loop.simps)
      (auto simp: Let_def R_refl R_closing skip s2 intro: R_trans [OF R_header_id R_closing] go s3
        split: sum.split prod.split)
qed

lemma R_datagram: "R s (on_datagram E payload peer at s)"
proof (cases "loop_active s")
  case True
  let ?s1 = "refresh_key_lifecycle E s"
  have s1: "R s ?s1" "loop_active ?s1" using True R_refresh_keys by (simp_all add: loop_active_def)
  have e: "R s (handle_short_packet_parse_error payload e at ?s1)" for e
    using R_trans [OF s1(1) R_draining [OF s1(2)]] R_trans [OF s1(1) R_closing]
    by (simp add: handle_short_packet_parse_error_def)
  show ?thesis
    using True s1(2) e R_trans [OF s1(1) R_clear] R_trans [OF s1(1) R_process [OF s1(2)]]
      R_trans [OF s1(1) R_coalesced [OF s1(2)]]
    by (simp add: on_datagram_def Let_def split: sum.split)
qed (simp add: on_datagram_def R_refl)

lemma R_step: "loop_step E s t \<Longrightarrow> R s t"
  by (induction rule: loop_step.cases)
    (simp_all add: R_simple_operations R_protectors R_remote_id R_flush R_max_data R_recovery_inert(1) R_lifecycle_timer
      R_on_lifecycle_timer R_recovery_timer R_datagram R_acknowledge R_schedule_frames)

lemma R_reachable: "loop_reachable E config c w s \<Longrightarrow> R (new_connection_loop config c w) s"
  by (induction rule: loop_reachable.induct) (auto intro: R_refl R_trans R_step)

end

end
