(* ===== verification/ConnectionInv.thy ===== *)
theory ConnectionInv
  imports ConnectionSteps
begin

text \<open>
  The invariants of the connection loop, each an interpretation of \<open>loop_relation\<close>: the anti-amplification limit, packet numbers,
  connection flow control, the lifecycle, and the peer's connection IDs.
\<close>

section \<open>What the elementary changes leave alone\<close>

lemmas elementary_defs = on_space_def push_queue_def emit_action_def clear_packet_space_def enter_closing_def
  enter_draining_def enter_closed_def clear_all_packet_spaces_def set_packet_protectors_def validate_migrated_peer_path_def
  record_peer_bytes_received_def update_max_data_def set_remote_connection_id_def reset_remote_connection_id_state_def
  record_largest_acknowledged_def

lemma pushed_all:
  "foldl (\<lambda>s n. push_queue ApplicationSpace (RetireConnectionIdFrame n) s) s ns =
     s\<lparr>cl_packet_spaces := update_space ApplicationSpace
         (\<lambda>st. st\<lparr>ps_queue := ps_queue (space_of s ApplicationSpace) @ map RetireConnectionIdFrame ns\<rparr>) (cl_packet_spaces s)\<rparr>"
proof (induction ns arbitrary: s)
  case Nil
  then show ?case by (simp add: update_space_def get_space_def)
next
  case (Cons n ns)
  then show ?case by (simp add: push_queue_def on_space_def update_space_def get_space_def)
qed

text \<open>A NEW\_CONNECTION\_ID frame changes the identifiers, the Application queue and the destination in use.\<close>

definition ids_only :: "('w, 'c) connection_loop \<Rightarrow> ('w, 'c) connection_loop \<Rightarrow> bool" where
  "ids_only s t \<longleftrightarrow> (\<exists>cid. cl_config t = (cl_config s)\<lparr>cfg_remote_connection_id := cid\<rparr>) \<and>
     cl_state t = cl_state s \<and>
     (\<exists>q. cl_packet_spaces t = update_space ApplicationSpace (\<lambda>st. st\<lparr>ps_queue := q\<rparr>) (cl_packet_spaces s)) \<and>
     cl_connection_send_max_data t = cl_connection_send_max_data s \<and> cl_connection_data_sent t = cl_connection_data_sent s \<and>
     cl_peer_address_validated t = cl_peer_address_validated s \<and> cl_peer_bytes_received t = cl_peer_bytes_received s \<and>
     cl_peer_bytes_sent t = cl_peer_bytes_sent s \<and> cl_recovery_packets t = cl_recovery_packets s \<and>
     cl_actions t = cl_actions s"

lemma update_space_queue [simp]:
  "update_space sp (\<lambda>st. st\<lparr>ps_queue := q\<rparr>) (update_space sp (\<lambda>st. st\<lparr>ps_queue := q'\<rparr>) c) =
     update_space sp (\<lambda>st. st\<lparr>ps_queue := q\<rparr>) c"
  by (simp add: update_space_def)

lemma ids_only_refl: "ids_only s s"
  by (auto simp: ids_only_def update_space_def intro!: exI [of _ "ps_queue (cps_application (cl_packet_spaces s))"]
      exI [of _ "cfg_remote_connection_id (cl_config s)"])

lemma ids_only_trans: "ids_only s t \<Longrightarrow> ids_only t u \<Longrightarrow> ids_only s u"
  by (auto simp: ids_only_def)

lemma retire_ids_only: "retire_remote_connection_ids_before n s = (e, t) \<Longrightarrow> ids_only s t"
  by (auto simp: retire_remote_connection_ids_before_def pushed_all on_space_def Let_def ids_only_def
      intro: exI [of _ "cfg_remote_connection_id (cl_config s)"]
      split: if_splits option.splits prod.splits)

lemma ensure_ids_only: "ids_only s (ensure_remote_connection_id_state s)"
  using ids_only_refl [of s] by (auto simp: ensure_remote_connection_id_state_def ids_only_def)

lemma new_id_ids_only:
  assumes "apply_new_connection_id_frame item s = (e, t)"
  shows "ids_only s t"
proof -
  let ?s1 = "ensure_remote_connection_id_state s"
  have "ids_only ?s1 (?s1\<lparr>cl_remote_connection_ids := x\<rparr>)" for x
    using ids_only_refl [of ?s1] by (auto simp: ids_only_def)
  then have "ids_only ?s1 t"
    using assms ids_only_refl [of ?s1] unfolding apply_new_connection_id_frame_def Let_def
    by (auto dest!: retire_ids_only intro: ids_only_trans split: if_splits option.splits prod.splits)
  then show ?thesis by (rule ids_only_trans [OF ensure_ids_only])
qed

text \<open>Scheduling stream frames changes the send streams and the connection's count of bytes sent.\<close>

definition streams_only :: "('w, 'c) connection_loop \<Rightarrow> ('w, 'c) connection_loop \<Rightarrow> bool" where
  "streams_only s t \<longleftrightarrow>
     t = s\<lparr>cl_send_streams := cl_send_streams t, cl_connection_data_sent := cl_connection_data_sent t\<rparr>"

lemma streams_only_update:
  "streams_only (s\<lparr>cl_send_streams := x\<rparr>) t \<Longrightarrow> streams_only s t"
  "streams_only (s\<lparr>cl_send_streams := x, cl_connection_data_sent := y\<rparr>) t \<Longrightarrow> streams_only s t"
  "streams_only s s" "streams_only s (s\<lparr>cl_send_streams := x\<rparr>)"
  by (simp_all add: streams_only_def)

lemma scheduled_streams_only: "streams_only s (snd (schedule_loop ids max_frames max_size frames s))"
proof (induction ids arbitrary: frames s)
  case (Cons i ids)
  show ?case
    by (auto simp: Let_def streams_only_update(3,4) Cons.IH intro: streams_only_update(1,2) [OF Cons.IH]
        split: prod.split option.split)
qed (simp add: streams_only_update)

lemma scheduled_shape:
  obtains ss d where "snd (schedule_loop ids max_frames max_size frames s) = s\<lparr>cl_send_streams := ss, cl_connection_data_sent := d\<rparr>"
  using scheduled_streams_only [of s ids max_frames max_size frames] unfolding streams_only_def by blast

lemma send_defs_fields [simp]:
  "cl_config (send_selected E sp at sel a s) = cl_config s" "cl_config (send_ack sp at a s) = cl_config s"
  "cl_state (send_selected E sp at sel a s) = cl_state s" "cl_state (send_ack sp at a s) = cl_state s"
  "cl_connection_send_max_data (send_selected E sp at sel a s) = cl_connection_send_max_data s"
  "cl_connection_send_max_data (send_ack sp at a s) = cl_connection_send_max_data s"
  "cl_connection_data_sent (send_selected E sp at sel a s) = cl_connection_data_sent s"
  "cl_connection_data_sent (send_ack sp at a s) = cl_connection_data_sent s"
  "cl_peer_bytes_received (send_selected E sp at sel a s) = cl_peer_bytes_received s"
  "cl_peer_bytes_received (send_ack sp at a s) = cl_peer_bytes_received s"
  "cl_remote_connection_ids (send_selected E sp at sel a s) = cl_remote_connection_ids s"
  "cl_remote_connection_ids (send_ack sp at a s) = cl_remote_connection_ids s"
  "cl_remote_connection_ids_initialized (send_selected E sp at sel a s) = cl_remote_connection_ids_initialized s"
  "cl_remote_connection_ids_initialized (send_ack sp at a s) = cl_remote_connection_ids_initialized s"
  "cl_active_remote_connection_id_sequence (send_selected E sp at sel a s) = cl_active_remote_connection_id_sequence s"
  "cl_active_remote_connection_id_sequence (send_ack sp at a s) = cl_active_remote_connection_id_sequence s"
  by (simp_all add: send_selected_def send_ack_def record_sent_def record_sent_stream_ranges_def cc_event_def
      record_peer_bytes_sent_def set_next_packet_number_def mark_activity_def emit_action_def on_space_def Let_def)

lemma sent_bytes [simp]:
  "cl_peer_bytes_sent (send_selected E sp at sel a s) = cl_peer_bytes_sent (record_peer_bytes_sent (length (ap_datagram a)) s)"
  "cl_peer_bytes_sent (send_ack sp at a s) = cl_peer_bytes_sent (record_peer_bytes_sent (length (ap_datagram a)) s)"
  by (simp_all add: send_selected_def send_ack_def record_sent_def record_sent_stream_ranges_def cc_event_def
      record_peer_bytes_sent_def set_next_packet_number_def mark_activity_def emit_action_def on_space_def Let_def
      anti_amplification_limited_def, auto)

lemma sent_actions [simp]:
  "cl_actions (send_selected E sp at sel a s) = cl_actions s @ [SendDatagram (ap_datagram a) (cfg_peer (cl_config s))]"
  "cl_actions (send_ack sp at a s) = cl_actions s @ [SendDatagram (ap_datagram a) (cfg_peer (cl_config s))]"
  by (simp_all add: send_selected_def send_ack_def record_sent_def record_sent_stream_ranges_def cc_event_def
      record_peer_bytes_sent_def set_next_packet_number_def mark_activity_def emit_action_def on_space_def Let_def)

lemma sent_space [simp]:
  "get_space (cl_packet_spaces (send_selected E sp at sel a s)) sp' =
     (if sp' = sp then (space_of s sp)\<lparr>ps_next_packet_number := u64_add (ps_next_packet_number (space_of s sp)) 1,
        ps_sent := on_packet_sent (ps_sent (space_of s sp)) (pn_value (ap_number a)) (is_ack_eliciting (fbs_frames sel)),
        ps_queue := drop (fbs_next_index sel) (ps_queue (space_of s sp))\<rparr> else space_of s sp')"
  "get_space (cl_packet_spaces (send_ack sp at a s)) sp' =
     (if sp' = sp then (space_of s sp)\<lparr>ps_next_packet_number := u64_add (ps_next_packet_number (space_of s sp)) 1,
        ps_sent := on_packet_sent (ps_sent (space_of s sp)) (pn_value (ap_number a)) False\<rparr> else space_of s sp')"
  by (simp_all add: send_selected_def send_ack_def record_sent_def record_sent_stream_ranges_def cc_event_def
      record_peer_bytes_sent_def set_next_packet_number_def mark_activity_def emit_action_def on_space_def Let_def)

section \<open>The anti-amplification limit\<close>

definition within_limit :: "('w, 'c) connection_loop \<Rightarrow> bool" where
  "within_limit s \<longleftrightarrow> cl_peer_bytes_received s > u64_max div 3 \<or> cl_peer_bytes_sent s \<le> 3 * cl_peer_bytes_received s"

lemma within_limit_cong:
  "cl_peer_bytes_received t = cl_peer_bytes_received s \<Longrightarrow> cl_peer_bytes_sent t = cl_peer_bytes_sent s \<Longrightarrow>
     within_limit t = within_limit s"
  by (simp add: within_limit_def)

lemma within_limit_received: "within_limit s \<Longrightarrow> within_limit (record_peer_bytes_received n s)"
  by (auto simp: within_limit_def record_peer_bytes_received_def saturating_add_def Let_def)

lemma within_limit_send:
  assumes "within_limit s" and "anti_amplification_allows s n"
    and "cl_peer_bytes_received t = cl_peer_bytes_received s" and "cl_peer_bytes_sent t = cl_peer_bytes_sent (record_peer_bytes_sent n s)"
  shows "within_limit t"
  using assms
  by (auto simp: within_limit_def record_peer_bytes_sent_def anti_amplification_allows_def saturating_add_def Let_def
      u64_simps split: if_splits)

interpretation amplification: loop_relation E "\<lambda>s t. within_limit s \<longrightarrow> within_limit t" for E
proof (unfold_locales, goal_cases)
  case (18 s n)
  show ?case by (simp add: within_limit_received)
next
  case (20 s ids max_frames max_size frames)
  show ?case by (rule scheduled_shape [of ids max_frames max_size frames s]) (simp add: within_limit_def)
next
  case (22 s item e t)
  then show ?case using new_id_ids_only [of item s e t] by (simp add: within_limit_def ids_only_def)
next
  case (23 s item e t at)
  then show ?case
    using new_id_ids_only [of item s e t] by (simp add: within_limit_def ids_only_def elementary_defs)
next
  case (24 s a space frames sent_at selected)
  then show ?case by (auto intro: within_limit_send)
next
  case (25 s a space frames sent_at)
  then show ?case by (auto intro: within_limit_send)
qed (auto simp: inert_def elementary_defs within_limit_def)

section \<open>Packet numbers\<close>

definition sent_numbers :: "('w, 'c) connection_loop \<Rightarrow> packet_number_space \<Rightarrow> u64 list" where
  "sent_numbers s sp = map sp_packet_number (spt_packets (ps_sent (space_of s sp)))"

definition next_number :: "('w, 'c) connection_loop \<Rightarrow> packet_number_space \<Rightarrow> u64" where
  "next_number s sp = ps_next_packet_number (space_of s sp)"

text \<open>With the copying assembler: the numbers recorded as sent in a space are distinct and below the next number to use, which
  never exceeds \<open>2^32\<close>.\<close>

definition numbers_ok :: "('w, 'c) connection_loop \<Rightarrow> bool" where
  "numbers_ok s \<longleftrightarrow> \<not> cfg_enable_zero_copy (cl_config s) \<and>
     (\<forall>sp. next_number s sp \<le> 2 ^ 32 \<and> distinct (sent_numbers s sp) \<and> (\<forall>n \<in> set (sent_numbers s sp). n < next_number s sp))"

definition numbers_grow :: "('w, 'c) connection_loop \<Rightarrow> ('w, 'c) connection_loop \<Rightarrow> bool" where
  "numbers_grow s t \<longleftrightarrow> (\<forall>sp. next_number s sp \<le> next_number t sp)"

lemma error_ok_pipeline_error [simp]: "\<not> error_ok (pipeline_error m)"
  by (simp add: pipeline_error_def error_ok_def protocol_error_def)

lemma assembled_number_kept [simp]: "ap_number (assembled number level r) = number"
  by (simp add: assembled_def split: sum.split)

lemma assembled_error [simp]: "ap_error (assembled number level (Inl e)) = e"
  by (simp add: assembled_def)

lemma long_assembly_number:
  assumes "assemble_long_packet r = Some a" and "error_ok (ap_error a)"
  shows "ap_number a = br_number r \<and> pn_value (br_number r) < 2 ^ 32"
proof -
  obtain p where p: "br_protector r = Some p"
    using assms by (cases "br_protector r") (auto simp: assemble_long_packet_def)
  then obtain d where d: "assemble_long_datagram r p = Some d" "a = assembled (br_number r) (pp_level p) d"
    using assms by (auto simp: assemble_long_packet_def)
  have "pn_value (br_number r) \<le> 0xffffffff"
    using assms(2) d by (rule_tac ccontr) (auto simp: assemble_long_datagram_def check_long_request_def)
  with d(2) show ?thesis by simp
qed

lemma application_assembly_number:
  assumes "error_ok (ap_error (assemble_application_packet r))"
  shows "ap_number (assemble_application_packet r) = abr_number r \<and> pn_value (abr_number r) < 2 ^ 32"
proof (cases "abr_protector r")
  case (Some p)
  have "pn_value (abr_number r) \<le> 0xffffffff"
    using assms Some by (rule_tac ccontr) (auto simp: assemble_application_packet_def check_application_request_def)
  with Some show ?thesis by (simp add: assemble_application_packet_def)
qed (use assms in \<open>simp add: assemble_application_packet_def\<close>)

lemma assembled_number:
  assumes "\<not> cfg_enable_zero_copy (cl_config s)" and "error_ok (ap_error (assemble_space E sp n frames s))"
  shows "pn_value (ap_number (assemble_space E sp n frames s)) = n \<and> n < 2 ^ 32"
proof (cases "sp = ApplicationSpace")
  case True
  with assms show ?thesis
    using application_assembly_number [of "application_request_for sp n frames s"]
    by (simp add: assemble_space_def application_request_for_def Let_def)
next
  case False
  obtain a where a: "assemble_long_packet (build_request_for sp n frames s) = Some a"
    using long_packet_assembled by blast
  with False assms show ?thesis
    using long_assembly_number [OF a] by (simp add: assemble_space_def) (simp add: build_request_for_def Let_def)
qed

lemma numbers_send:
  assumes "numbers_ok s" and "cl_config t = cl_config s" and "n = next_number s sp" and "n < 2 ^ 32"
    and "\<And>sp'. next_number t sp' = (if sp' = sp then u64_add n 1 else next_number s sp')"
    and "\<And>sp'. sent_numbers t sp' = sent_numbers s sp' @ (if sp' = sp then [n] else [])"
  shows "numbers_ok t \<and> numbers_grow s t"
  using assms by (auto simp: numbers_ok_def numbers_grow_def u64_simps less_Suc_eq)

lemma numbers_cong:
  assumes "cfg_enable_zero_copy (cl_config t) = cfg_enable_zero_copy (cl_config s)"
    and "\<And>sp. next_number t sp = next_number s sp"
    and "\<And>sp. sent_numbers t sp = sent_numbers s sp \<or> sent_numbers t sp = []"
  shows "numbers_ok s \<longrightarrow> numbers_ok t \<and> numbers_grow s t"
proof -
  have "distinct (sent_numbers t sp) \<and> (\<forall>n \<in> set (sent_numbers t sp). n < next_number t sp)" if "numbers_ok s" for sp
    using that assms(2) [of sp] assms(3) [of sp] by (auto simp: numbers_ok_def)
  with assms(1,2) show ?thesis by (simp add: numbers_ok_def numbers_grow_def)
qed

lemmas number_defs = sent_numbers_def next_number_def clear_space_state_def sent_clear_def

interpretation numbers: loop_relation E "\<lambda>s t. numbers_ok s \<longrightarrow> numbers_ok t \<and> numbers_grow s t" for E
proof (unfold_locales, goal_cases)
  case (1 s t u)
  then show ?case by (auto simp: numbers_grow_def intro: order_trans)
next
  case (20 s ids max_frames max_size frames)
  obtain ss d where "snd (schedule_loop ids max_frames max_size frames s) = s\<lparr>cl_send_streams := ss, cl_connection_data_sent := d\<rparr>"
    by (rule scheduled_shape)
  then show ?case
    by (intro numbers_cong) (simp_all add: number_defs)
next
  case (22 s item e t)
  then show ?case
    using new_id_ids_only [of item s e t] by (intro numbers_cong) (auto simp: number_defs ids_only_def)
next
  case (23 s item e t at)
  then show ?case
    using new_id_ids_only [of item s e t] by (intro numbers_cong) (auto simp: number_defs ids_only_def elementary_defs)
next
  case (24 s a space frames sent_at selected)
  have number: "pn_value (ap_number a) = next_number s space" "next_number s space < 2 ^ 32" if "numbers_ok s"
    using that 24 assembled_number [of s E space "next_number s space" frames] by (simp_all add: numbers_ok_def next_number_def)
  show ?case
  proof
    assume ok: "numbers_ok s"
    show "numbers_ok (send_selected E space sent_at selected a s) \<and> numbers_grow s (send_selected E space sent_at selected a s)"
      using ok number [OF ok]
      by (intro numbers_send [where n = "next_number s space" and sp = space]) (simp_all add: number_defs on_packet_sent_def)
  qed
next
  case (25 s a space frames sent_at)
  have number: "pn_value (ap_number a) = next_number s space" "next_number s space < 2 ^ 32" if "numbers_ok s"
    using that 25 assembled_number [of s E space "next_number s space" frames] by (simp_all add: numbers_ok_def next_number_def)
  show ?case
  proof
    assume ok: "numbers_ok s"
    show "numbers_ok (send_ack space sent_at a s) \<and> numbers_grow s (send_ack space sent_at a s)"
      using ok number [OF ok]
      by (intro numbers_send [where n = "next_number s space" and sp = space]) (simp_all add: number_defs on_packet_sent_def)
  qed
qed (rule numbers_cong; auto simp: inert_def elementary_defs number_defs split: option.splits)+

section \<open>Connection flow control\<close>

definition credit_ok :: "('w, 'c) connection_loop \<Rightarrow> bool" where
  "credit_ok s \<longleftrightarrow> cl_connection_data_sent s \<le> cl_connection_send_max_data s"

lemma pop_fresh_size: "pop_fresh s m = (r, s') \<Longrightarrow> length (sf_data (ssr_frame r)) \<le> m \<and> ssr_retransmission r = False"
  by (auto simp: pop_fresh_def pop_new_data_def Let_def empty_send_result_def make_frame_def split: if_splits)

text \<open>A frame that is not a retransmission fits the size given, and a stream with data to retransmit yields no other frame.\<close>

lemma pop_frame_size:
  "pop_frame s m = (r, s') \<Longrightarrow> ssr_has_frame r \<Longrightarrow> \<not> ssr_retransmission r \<Longrightarrow>
     length (sf_data (ssr_frame r)) \<le> m \<and> \<not> has_retransmittable_data s"
proof (induction s m arbitrary: r s' rule: pop_frame.induct)
  case (1 s m)
  note pop = 1(2) [unfolded pop_frame.simps [of s m]]
  show ?case
  proof (cases "send_lost s")
    case Nil
    with pop 1(3) show ?thesis
      using pop_fresh_size [of s m r s'] by (auto simp: has_retransmittable_data_def empty_send_result_def split: if_splits)
  next
    case (Cons rg lost)
    have stop: "\<not> send_stop_requested s" using pop 1(3) by (auto simp: empty_send_result_def)
    have acked: "is_acked (s\<lparr>send_lost := lost\<rparr>) rg"
      using pop 1(3,4) stop Cons by (auto simp: Let_def empty_send_result_def split: if_splits)
    then have "pop_frame (s\<lparr>send_lost := lost\<rparr>) m = (r, s')" using pop stop Cons by (simp add: Let_def)
    from 1(1) [OF stop Cons refl acked this 1(3,4)] acked Cons show ?thesis
      by (auto simp: has_retransmittable_data_def is_acked_def)
  qed
qed

lemma credit_step:
  assumes "sent \<le> m" and "n \<le> u64_sub m sent"
  shows "u64_add sent n \<le> m"
proof (cases "m < 2 ^ 64")
  case True
  then show ?thesis using assms by (simp add: u64_simps)
next
  case False
  have "u64_add sent n < 2 ^ 64" by (simp add: u64_add_def)
  with False show ?thesis by simp
qed

lemma sset_pop_frame_size:
  "sset_pop_frame ss i m = (r, ss') \<Longrightarrow> ssr_has_frame r \<Longrightarrow> \<not> ssr_retransmission r \<Longrightarrow>
     length (sf_data (ssr_frame r)) \<le> m \<and> \<not> sset_has_retransmittable_data ss i"
  using pop_frame_size
  by (auto simp: sset_pop_frame_def sset_has_retransmittable_data_def empty_send_result_def split: option.splits prod.splits)

lemma schedule_credit: "credit_ok s \<Longrightarrow> credit_ok (snd (schedule_loop ids max_frames max_size frames s))"
proof (induction ids arbitrary: frames s)
  case (Cons i ids)
  let ?limit = "if sset_has_retransmittable_data (cl_send_streams s) i then max_size
    else min max_size (u64_sub (cl_connection_send_max_data s) (cl_connection_data_sent s))"
  obtain r ss where r: "sset_pop_frame (cl_send_streams s) i ?limit = (r, ss)" by fastforce
  have keep: "credit_ok (s\<lparr>cl_send_streams := ss\<rparr>)" using Cons.prems by (simp add: credit_ok_def)
  have "credit_ok (s\<lparr>cl_send_streams := ss,
      cl_connection_data_sent := u64_add (cl_connection_data_sent s) (length (sf_data (ssr_frame r)))\<rparr>)"
    if "ssr_has_frame r" "\<not> ssr_retransmission r"
    using sset_pop_frame_size [OF r that] Cons.prems by (auto simp: credit_ok_def intro: credit_step split: if_splits)
  then show ?case
    using Cons keep by (simp only: schedule_loop.simps Let_def r prod.case) (auto split: option.split)
qed simp

interpretation credit: loop_relation E "\<lambda>s t. credit_ok s \<longrightarrow> credit_ok t" for E
proof (unfold_locales, goal_cases)
  case (20 s ids max_frames max_size frames)
  show ?case by (simp add: schedule_credit)
next
  case (22 s item e t)
  then show ?case using new_id_ids_only [of item s e t] by (simp add: credit_ok_def ids_only_def)
next
  case (23 s item e t at)
  then show ?case using new_id_ids_only [of item s e t] by (simp add: credit_ok_def ids_only_def elementary_defs)
qed (auto simp: inert_def elementary_defs credit_ok_def)

section \<open>The lifecycle\<close>

fun rank :: "connection_loop_state \<Rightarrow> nat" where
  "rank Active = 0" | "rank Closing = 1" | "rank Draining = 2" | "rank Closed = 3"

text \<open>Once the connection is not active it keeps no trace of the packets sent and received; once closed, no action is left.\<close>

definition quiet :: "('w, 'c) connection_loop \<Rightarrow> bool" where
  "quiet s \<longleftrightarrow>
     (cl_state s \<noteq> Active \<longrightarrow> cl_recovery_packets s = [] \<and> (\<forall>sp. spt_packets (ps_sent (space_of s sp)) = [] \<and>
        rpt_packets (ps_received (space_of s sp)) = {} \<and> ps_largest_acknowledged (space_of s sp) = None)) \<and>
     (cl_state s = Closed \<longrightarrow> cl_actions s = [])"

lemma cleared_all:
  "cl_recovery_packets (clear_all_packet_spaces s) = []"
  "spt_packets (ps_sent (space_of (clear_all_packet_spaces s) sp)) = []"
  "rpt_packets (ps_received (space_of (clear_all_packet_spaces s) sp)) = {}"
  "ps_largest_acknowledged (space_of (clear_all_packet_spaces s) sp) = None"
  "cl_state (clear_all_packet_spaces s) = cl_state s"
proof -
  have "filter (\<lambda>p. rp_space p \<noteq> ApplicationSpace) (filter (\<lambda>p. rp_space p \<noteq> HandshakeSpace)
      (filter (\<lambda>p. rp_space p \<noteq> InitialSpace) ps)) = []" for ps
    using packet_number_space.exhaust by (auto simp: filter_empty_conv)
  then show "cl_recovery_packets (clear_all_packet_spaces s) = []"
    by (simp add: clear_all_packet_spaces_def clear_packet_space_def)
qed (cases sp; simp add: clear_all_packet_spaces_def clear_packet_space_def clear_space_state_def sent_clear_def
    received_clear_def)+

lemma quiet_closing: "quiet s \<Longrightarrow> quiet (enter_closing e at s)" "quiet (enter_draining e at s) \<or> \<not> loop_active s" "quiet (enter_closed s)"
  by (auto simp: quiet_def enter_closing_def enter_draining_def enter_closed_def loop_active_def emit_action_def cleared_all)

text \<open>A connection that is not active emits nothing more.\<close>

definition winding_down :: "('w, 'c) connection_loop \<Rightarrow> ('w, 'c) connection_loop \<Rightarrow> bool" where
  "winding_down s t \<longleftrightarrow> rank (cl_state s) \<le> rank (cl_state t) \<and> (quiet s \<longrightarrow> quiet t) \<and>
     (cl_state s \<noteq> Active \<longrightarrow> set (cl_actions t) \<subseteq> set (cl_actions s))"

lemma rank_active: "rank st \<le> rank Active \<longleftrightarrow> st = Active" "rank Active \<le> rank st"
  by (cases st; simp)+

interpretation lifecycle: loop_relation E winding_down for E
proof (unfold_locales, goal_cases)
  case (1 s t u)
  then show ?case
    unfolding winding_down_def using rank_active(1) order_trans by (metis (no_types, lifting))
next
  case (8 s space)
  then show ?case
    by (auto simp: winding_down_def quiet_def clear_packet_space_def clear_space_state_def sent_clear_def received_clear_def)
next
  case (9 s e at)
  show ?case
    using quiet_closing(1) [of s e at]
    by (auto simp: winding_down_def enter_closing_def loop_active_def emit_action_def cleared_all)
next
  case (10 s e at)
  then show ?case
    using quiet_closing(2) [of e at s]
    by (auto simp: winding_down_def enter_draining_def loop_active_def emit_action_def cleared_all)
next
  case (11 s)
  then show ?case
    using quiet_closing(3) [of s] by (auto simp: winding_down_def enter_closed_def cleared_all)
next
  case (20 s ids max_frames max_size frames)
  show ?case by (rule scheduled_shape [of ids max_frames max_size frames s]) (simp add: winding_down_def quiet_def)
next
  case (22 s item e t)
  then show ?case
    using new_id_ids_only [of item s e t] by (auto simp: winding_down_def quiet_def loop_active_def ids_only_def)
next
  case (23 s item e t at)
  then have "cl_state t = cl_state s" using new_id_ids_only [of item s e t] by (simp add: ids_only_def)
  with 23 show ?case
    using quiet_closing(1) [of t e at]
    by (auto simp: winding_down_def quiet_def enter_closing_def loop_active_def emit_action_def cleared_all)
qed (auto simp: inert_def winding_down_def quiet_def loop_active_def on_space_def set_packet_protectors_def
    validate_migrated_peer_path_def record_peer_bytes_received_def update_max_data_def set_remote_connection_id_def
    reset_remote_connection_id_state_def emit_action_def record_largest_acknowledged_def split: option.splits)

section \<open>Received packets are remembered\<close>

definition received_numbers :: "('w, 'c) connection_loop \<Rightarrow> packet_number_space \<Rightarrow> u64 set" where
  "received_numbers s sp = rpt_packets (ps_received (space_of s sp))"

definition receipts_kept :: "('w, 'c) connection_loop \<Rightarrow> ('w, 'c) connection_loop \<Rightarrow> bool" where
  "receipts_kept s t \<longleftrightarrow> (cl_state s \<noteq> Active \<longrightarrow> cl_state t \<noteq> Active) \<and>
     (\<forall>sp. packet_space_discarded s sp \<longrightarrow> packet_space_discarded t sp) \<and>
     (cl_state t = Active \<longrightarrow> (\<forall>sp. packet_space_discarded t sp \<or> received_numbers s sp \<subseteq> received_numbers t sp))"

interpretation receipts: loop_relation E receipts_kept for E
proof (unfold_locales, goal_cases)
  case (1 s t u)
  then show ?case unfolding receipts_kept_def by blast
next
  case (9 s e at)
  show ?case by (auto simp: receipts_kept_def enter_closing_def loop_active_def emit_action_def cleared_all
      packet_space_discarded_def clear_all_packet_spaces_def clear_packet_space_def)
next
  case (10 s e at)
  then show ?case by (auto simp: receipts_kept_def enter_draining_def loop_active_def emit_action_def cleared_all
      packet_space_discarded_def clear_all_packet_spaces_def clear_packet_space_def)
next
  case (11 s)
  then show ?case by (auto simp: receipts_kept_def enter_closed_def
      packet_space_discarded_def clear_all_packet_spaces_def clear_packet_space_def)
next
  case (20 s ids max_frames max_size frames)
  show ?case
    by (rule scheduled_shape [of ids max_frames max_size frames s])
      (simp add: receipts_kept_def received_numbers_def packet_space_discarded_def)
next
  case (22 s item e t)
  then show ?case
    using new_id_ids_only [of item s e t]
    by (auto simp: receipts_kept_def received_numbers_def packet_space_discarded_def ids_only_def)
next
  case (23 s item e t at)
  then show ?case
    using new_id_ids_only [of item s e t]
    by (auto simp: receipts_kept_def packet_space_discarded_def ids_only_def enter_closing_def loop_active_def emit_action_def
        clear_all_packet_spaces_def clear_packet_space_def)
qed (auto simp: inert_def receipts_kept_def received_numbers_def packet_space_discarded_def on_space_def
    set_packet_protectors_def validate_migrated_peer_path_def clear_packet_space_def clear_space_state_def
    record_peer_bytes_received_def update_max_data_def set_remote_connection_id_def
    reset_remote_connection_id_state_def emit_action_def record_largest_acknowledged_def split: option.splits)

section \<open>The peer's connection IDs\<close>

definition active_ids :: "remote_connection_id_entry list \<Rightarrow> nat" where
  "active_ids items = length (filter (\<lambda>item. \<not> rce_retired item) items)"

text \<open>The table of an active connection: one entry per sequence number, the identifier in use is an entry that is not
  retired, and the identifiers not retired respect the limit.\<close>

definition table_ok :: "remote_connection_id_entry list \<Rightarrow> u64 \<Rightarrow> connection_id \<Rightarrow> bool" where
  "table_ok items active cid \<longleftrightarrow> distinct (map rce_sequence_number items) \<and>
     (\<exists>item \<in> set items. rce_sequence_number item = active \<and> \<not> rce_retired item \<and> rce_id item = cid)"

definition ids_ok :: "('w, 'c) connection_loop \<Rightarrow> bool" where
  "ids_ok s \<longleftrightarrow> cl_state s = Active \<longrightarrow>
     (if cl_remote_connection_ids_initialized s
      then table_ok (cl_remote_connection_ids s) (cl_active_remote_connection_id_sequence s) (cfg_remote_connection_id (cl_config s))
        \<and> active_ids (cl_remote_connection_ids s) \<le> max 1 (cfg_active_connection_id_limit (cl_config s))
      else cl_remote_connection_ids s = [])"

lemma retire_loop_eq:
  "retire_loop n items =
     (map (\<lambda>item. if rce_retired item \<or> rce_sequence_number item \<ge> n then item else item\<lparr>rce_retired := True\<rparr>) items,
      map rce_sequence_number (filter (\<lambda>item. \<not> (rce_retired item \<or> rce_sequence_number item \<ge> n)) items))"
  by (induction items) simp_all

lemma lowest_active_spec:
  assumes "lowest_active_loop selected items = Some item"
  shows "item \<in> set items \<and> \<not> rce_retired item \<or> selected = Some item"
  using assms by (induction selected items rule: lowest_active_loop.induct) (auto split: if_splits option.splits)

lemma retire_active_ids: "active_ids (fst (retire_loop n items)) \<le> active_ids items"
  by (induction items) (auto simp: active_ids_def retire_loop_eq)

lemma retire_table:
  assumes "table_ok (cl_remote_connection_ids s) (cl_active_remote_connection_id_sequence s) (cfg_remote_connection_id (cl_config s))"
    and "retire_remote_connection_ids_before n s = (e, t)" and "error_ok e"
  shows "table_ok (cl_remote_connection_ids t) (cl_active_remote_connection_id_sequence t) (cfg_remote_connection_id (cl_config t))
     \<and> active_ids (cl_remote_connection_ids t) \<le> active_ids (cl_remote_connection_ids s)"
proof -
  let ?items = "cl_remote_connection_ids s"
  obtain items retired where r: "retire_loop n ?items = (items, retired)" by fastforce
  then have items: "items = map (\<lambda>i. if rce_retired i \<or> rce_sequence_number i \<ge> n then i else i\<lparr>rce_retired := True\<rparr>) ?items"
    and retired: "set retired = rce_sequence_number ` {i \<in> set ?items. \<not> rce_retired i \<and> rce_sequence_number i < n}"
    by (auto simp: retire_loop_eq)
  have seqs: "map rce_sequence_number items = map rce_sequence_number ?items" by (auto simp: items)
  have ids: "cl_remote_connection_ids t = items"
    using assms(2) r by (auto simp: retire_remote_connection_ids_before_def Let_def pushed_all split: if_splits option.splits)
  have "table_ok items (cl_active_remote_connection_id_sequence t) (cfg_remote_connection_id (cl_config t))"
  proof (cases "cl_active_remote_connection_id_sequence s \<in> set retired")
    case False
    then have same: "cl_active_remote_connection_id_sequence t = cl_active_remote_connection_id_sequence s"
      "cfg_remote_connection_id (cl_config t) = cfg_remote_connection_id (cl_config s)"
      using assms(2) r by (auto simp: retire_remote_connection_ids_before_def Let_def pushed_all)
    obtain item where item: "item \<in> set ?items" "rce_sequence_number item = cl_active_remote_connection_id_sequence s"
        "\<not> rce_retired item" "rce_id item = cfg_remote_connection_id (cl_config s)"
      using assms(1) by (auto simp: table_ok_def)
    then have "rce_sequence_number item \<ge> n" using False retired by force
    with item have "item \<in> set items" by (force simp: items)
    with item same assms(1) seqs show ?thesis by (auto simp: table_ok_def)
  next
    case True
    then obtain item where "lowest_active_loop None items = Some item"
      "cl_active_remote_connection_id_sequence t = rce_sequence_number item" "cfg_remote_connection_id (cl_config t) = rce_id item"
      using assms(2,3) r
      by (auto simp: retire_remote_connection_ids_before_def Let_def pushed_all lowest_active_remote_connection_id_def
          split: option.splits)
    with lowest_active_spec [of None items] assms(1) seqs show ?thesis by (auto simp: table_ok_def)
  qed
  with ids r retire_active_ids [of n ?items] show ?thesis by simp
qed

lemma new_id_table:
  assumes "ids_ok s" and "cl_state s = Active" and "apply_new_connection_id_frame item s = (e, t)" and "error_ok e"
  shows "ids_ok t"
proof -
  let ?s = "ensure_remote_connection_id_state s"
  let ?items = "cl_remote_connection_ids ?s" and ?limit = "cfg_active_connection_id_limit (cl_config s)"
  have cfg: "cl_config ?s = cl_config s" by (simp add: ensure_remote_connection_id_state_def)
  have init: "cl_remote_connection_ids_initialized ?s"
    by (simp add: ensure_remote_connection_id_state_def)
  have table: "table_ok ?items (cl_active_remote_connection_id_sequence ?s) (cfg_remote_connection_id (cl_config ?s))"
    and count: "active_ids ?items \<le> max 1 ?limit"
    using assms(1,2) by (auto simp: ids_ok_def ensure_remote_connection_id_state_def table_ok_def active_ids_def split: if_splits)
  have done_ok: "ids_ok t" if "table_ok (cl_remote_connection_ids t) (cl_active_remote_connection_id_sequence t)
      (cfg_remote_connection_id (cl_config t))" "active_ids (cl_remote_connection_ids t) \<le> max 1 ?limit"
    "cl_remote_connection_ids_initialized t"
    using that new_id_ids_only [OF assms(3)] by (auto simp: ids_ok_def ids_only_def)
  have kept: "cl_remote_connection_ids_initialized t' = cl_remote_connection_ids_initialized s'"
    if "retire_remote_connection_ids_before n s' = (e', t')" for n e' t' and s' :: "('a, 'b) connection_loop"
    using that by (auto simp: retire_remote_connection_ids_before_def Let_def pushed_all split: if_splits option.splits prod.splits)
  show ?thesis
  proof (cases "find_remote_connection_id (nci_sequence_number item) ?s")
    case (Some existing)
    then have r: "retire_remote_connection_ids_before (nci_retire_prior_to item) ?s = (e, t)"
      using assms(3,4) by (auto simp: apply_new_connection_id_frame_def Let_def split: if_splits)
    show ?thesis
      using retire_table [OF table r assms(4)] count kept [OF r] init by (intro done_ok) auto
  next
    case None
    let ?entry = "\<lparr>rce_sequence_number = nci_sequence_number item, rce_id = nci_conn_id item,
        rce_stateless_reset_token = nci_stateless_reset_token item, rce_retired = False\<rparr>"
    let ?s1 = "?s\<lparr>cl_remote_connection_ids := ?items @ [?entry]\<rparr>"
    obtain e1 s2 where r: "retire_remote_connection_ids_before (nci_retire_prior_to item) ?s1 = (e1, s2)" by fastforce
    then have e1: "error_ok e1" "s2 = t" "\<not> active_remote_connection_id_count t > cfg_active_connection_id_limit (cl_config t)"
      using assms(3,4) None by (auto simp: apply_new_connection_id_frame_def Let_def split: if_splits)
    have "table_ok (cl_remote_connection_ids ?s1) (cl_active_remote_connection_id_sequence ?s1)
        (cfg_remote_connection_id (cl_config ?s1))"
      using table None by (auto simp: table_ok_def find_remote_connection_id_def find_None_iff)
    from retire_table [OF this r e1(1)] e1(2,3) kept [OF r] init new_id_ids_only [OF assms(3)] show ?thesis
      by (intro done_ok) (auto simp: active_remote_connection_id_count_def active_ids_def ids_only_def)
  qed
qed

interpretation remote_ids: loop_relation E "\<lambda>s t. ids_ok s \<longrightarrow> ids_ok t" for E
proof (unfold_locales, goal_cases)
  case (9 s e at)
  show ?case by (auto simp: ids_ok_def enter_closing_def loop_active_def emit_action_def cleared_all)
next
  case (10 s e at)
  show ?case by (auto simp: ids_ok_def enter_draining_def emit_action_def cleared_all)
next
  case (11 s)
  show ?case by (auto simp: ids_ok_def enter_closed_def cleared_all)
next
  case (20 s ids max_frames max_size frames)
  show ?case by (rule scheduled_shape [of ids max_frames max_size frames s]) (simp add: ids_ok_def)
next
  case (22 s item e t)
  then show ?case by (auto intro: new_id_table simp: loop_active_def)
next
  case (23 s item e t at)
  have "cl_state (enter_closing e at t) \<noteq> Active"
    using new_id_ids_only [OF 23(2)] by (simp add: enter_closing_def loop_active_def emit_action_def cleared_all)
  then show ?case by (simp add: ids_ok_def)
next
  case (24 s a space frames sent_at selected)
  show ?case by (simp add: ids_ok_def)
next
  case (25 s a space frames sent_at)
  show ?case by (simp add: ids_ok_def)
qed (auto simp: inert_def ids_ok_def on_space_def set_packet_protectors_def validate_migrated_peer_path_def
    clear_packet_space_def record_peer_bytes_received_def update_max_data_def set_remote_connection_id_def
    reset_remote_connection_id_state_def emit_action_def record_largest_acknowledged_def)

section \<open>Only a datagram reports packets\<close>

fun is_report :: "connection_loop_action \<Rightarrow> bool" where
  "is_report (PacketReceived ev) = True"
| "is_report a = False"

definition reports :: "('w, 'c) connection_loop \<Rightarrow> connection_loop_action set" where
  "reports s = {a \<in> set (cl_actions s). is_report a}"

interpretation silent: loop_change E "\<lambda>s t. reports t \<subseteq> reports s" for E
proof (unfold_locales, goal_cases)
  case (8 s space)
  show ?case by (simp add: reports_def clear_packet_space_def)
next
  case (9 s e at)
  show ?case by (auto simp: reports_def enter_closing_def emit_action_def clear_all_packet_spaces_def clear_packet_space_def)
next
  case (10 s e at)
  show ?case by (auto simp: reports_def enter_draining_def emit_action_def clear_all_packet_spaces_def clear_packet_space_def)
next
  case (11 s)
  show ?case by (auto simp: reports_def enter_closed_def clear_all_packet_spaces_def clear_packet_space_def)
next
  case (20 s ids max_frames max_size frames)
  show ?case by (rule scheduled_shape [of ids max_frames max_size frames s]) (simp add: reports_def)
next
  case (22 s item e t)
  then show ?case using new_id_ids_only [of item s e t] by (simp add: reports_def ids_only_def)
next
  case (23 s item e t at)
  then show ?case
    using new_id_ids_only [of item s e t] by (auto simp: reports_def ids_only_def enter_closing_def emit_action_def clear_all_packet_spaces_def clear_packet_space_def)
next
  case (24 s a space frames sent_at selected)
  show ?case by (auto simp: reports_def emit_action_def)
next
  case (25 s a space frames sent_at)
  show ?case by (auto simp: reports_def emit_action_def)
qed (auto simp: inert_def elementary_defs reports_def)

end
