(* ===== verification/ConnectionProps.thy ===== *)
theory ConnectionProps
  imports ConnectionInv
begin

text \<open>
  What the connection loop promises: the properties that rest on the invariants of \<open>ConnectionInv\<close>, the splitting of TLS bytes
  into CRYPTO frames, the lifecycle timers, and the congestion feedback of one ACK frame.
\<close>

section \<open>A concrete connection\<close>

text \<open>A server that starts from an unvalidated peer address, with the NewReno controller, no TLS adapter and no pacing.\<close>

definition example_env :: "(unit, congestion_controller) connection_env" where
  "example_env = \<lparr>env_has_tls = False, env_tls_state = (\<lambda>_. HandshakeIdle),
     env_key_availability = (\<lambda>_. \<lparr>ka_initial = False, ka_handshake = False, ka_application = False\<rparr>),
     env_tls_provider_status = (\<lambda>_. pp_provider_status (tag_protector InitialProtection)),
     env_receive_crypto = (\<lambda>_ w. (no_error, w)), env_drain_crypto = (\<lambda>w. ([], w)), env_advance = (\<lambda>w. (no_error, w)),
     env_protector_refresh = None, env_path_challenge = (\<lambda>w. (Inr (replicate 8 7), w)),
     env_zero_copy_build = assemble_application_packet, env_pacing_can_send = (\<lambda>_ _ w. (True, w)),
     env_pacing_on_packet_sent = (\<lambda>_ w. w), env_pacing_set_congestion_window = (\<lambda>_ w. w),
     env_pacing_set_smoothed_rtt = (\<lambda>_ w. w), env_cc_on_packet_sent = (\<lambda>n b c. cc_on_packet_sent c n b),
     env_cc_on_packet_acknowledged = (\<lambda>n c. cc_on_packet_acknowledged c n),
     env_cc_on_packet_lost = (\<lambda>n c. cc_on_packet_lost c n), env_cc_on_congestion_event = cc_on_congestion_event,
     env_cc_congestion_window = cc_congestion_window, env_cc_bytes_in_flight = cc_bytes_in_flight, env_cc_can_send = can_send\<rparr>"

definition example_config :: connection_loop_config where
  "example_config = \<lparr>cfg_role = ServerRole, cfg_version = 1, cfg_local_connection_id = \<lparr>cid_bytes = [1]\<rparr>,
     cfg_remote_connection_id = \<lparr>cid_bytes = [2]\<rparr>, cfg_peer = \<lparr>ep_host = ''peer'', ep_port = 4433, ep_alpn = ''h3''\<rparr>,
     cfg_max_datagram_size = 1200, cfg_initial_stream_send_max_data = 100, cfg_initial_connection_send_max_data = 100,
     cfg_max_packet_payload_size = 1000, cfg_initial_max_stream_data_bidi_local = 100,
     cfg_initial_max_stream_data_bidi_remote = 100, cfg_initial_max_stream_data_uni = 100, cfg_initial_max_streams_bidi = 4,
     cfg_initial_max_streams_uni = 4, cfg_max_idle_timeout = 30, cfg_max_udp_payload_size = 1200,
     cfg_active_connection_id_limit = 2, cfg_ack_delay_exponent = 3, cfg_max_ack_delay = 25000000,
     cfg_disable_active_migration = False, cfg_key_lifecycle = new_key_lifecycle, cfg_closing_draining_timeout = 3,
     cfg_peer_address_validated = False, cfg_initial_tx_protector = Some (tag_protector InitialProtection),
     cfg_initial_rx_protector = Some (tag_protector InitialProtection), cfg_handshake_tx_protector = None,
     cfg_handshake_rx_protector = None, cfg_application_tx_protector = None, cfg_application_rx_protector = None,
     cfg_enable_pacing = False, cfg_enable_zero_copy = False\<rparr>"

abbreviation example_loop :: "(unit, congestion_controller) connection_loop" where
  "example_loop \<equiv> new_connection_loop example_config new_congestion_controller ()"

lemma example_reachable: "loop_reachable example_env example_config new_congestion_controller ()
    (queue_initial [PingFrame] example_loop)"
  by (rule reachable_step [OF reachable_new step_queue_initial])

text \<open>The same server after a 1-RTT packet with a NEW\_CONNECTION\_ID frame has arrived.\<close>

definition plain_protector :: packet_protector where
  "plain_protector = (tag_protector ApplicationProtection)\<lparr>pp_header_protection_enabled := False\<rparr>"

definition app_config :: connection_loop_config where
  "app_config = example_config\<lparr>cfg_application_rx_protector := Some plain_protector\<rparr>"

definition new_id :: new_connection_id_frame where
  "new_id = \<lparr>nci_sequence_number = 1, nci_retire_prior_to = 0, nci_conn_id = \<lparr>cid_bytes = [9]\<rparr>,
     nci_stateless_reset_token = replicate 16 3\<rparr>"

definition new_id_bytes :: buffer where
  "new_id_bytes = [0x18, 1, 0, 1, 9] @ replicate 16 3"

definition app_loop :: "(unit, congestion_controller) connection_loop" where
  "app_loop = on_datagram example_env ([0x43, 1, 0, 0, 0, 5] @ new_id_bytes @ replicate 16 0) (cfg_peer app_config) 1
     (new_connection_loop app_config new_congestion_controller ())"

lemma app_loop_reachable: "loop_reachable example_env app_config new_congestion_controller () app_loop"
  unfolding app_loop_def by (rule reachable_step [OF reachable_new step_on_datagram])

lemma new_id_decoded: "decode_frames new_id_bytes = Inr [NewConnectionIdFrame new_id]"
proof -
  have "encode_frame (NewConnectionIdFrame new_id) = Inr new_id_bytes"
    by (simp add: new_id_def new_id_bytes_def encode_new_connection_id_def varint_bytes_small to_byte_def)
  then have "decode_frames_loop new_id_bytes 0 [] = Inr ([] @ [NewConnectionIdFrame new_id])"
    by (intro decode_frames_loop_encode [where bss = "[new_id_bytes]"]) (auto simp: at_bytes_def)
  then show ?thesis by (simp add: decode_frames_def new_id_bytes_def)
qed

lemma short_decoded: "\<exists>h. decode_short_header (67 # 1 # 0 # 0 # 0 # 5 # xs) 1 = Inr (Short h) \<and>
    sh_truncated_packet_number h = 5 \<and> sh_protected_payload h = xs"
proof -
  have n: "unat ((67 :: byte) AND 3) + 1 = 4" by simp
  have r: "read_truncated_packet_number (67 # 1 # 0 # 0 # 0 # 5 # xs) (1 + 1) 4 = Inr 5"
    by (simp add: read_truncated_packet_number_def valid_packet_number_length_def u64_shl_def take_Cons' drop_Cons')
  show ?thesis unfolding decode_short_header_def Let_def nth_Cons_0 n r by simp
qed

lemma new_id_parsed:
  "\<exists>p. parse_short_packet ([0x43, 1, 0, 0, 0, 5] @ new_id_bytes @ replicate 16 0) 1 (Some plain_protector) = Inr p
   \<and> ppk_number p = \<lparr>pn_space = ApplicationSpace, pn_value = 5\<rparr> \<and> ppk_frames p = [NewConnectionIdFrame new_id]"
proof -
  obtain h where h: "decode_short_header (67 # 1 # 0 # 0 # 0 # 5 # new_id_bytes @ replicate 16 0) 1 = Inr (Short h)"
     "sh_truncated_packet_number h = 5" "sh_protected_payload h = new_id_bytes @ replicate 16 0" using short_decoded by blast
  have v: "validate_protection_policy plain_protector = Inr ()" "application_protection_level_matches (pp_level plain_protector)"
     "pp_header_protection_enabled plain_protector = False" 
    by (simp_all add: plain_protector_def tag_protector_def application_protection_level_matches_def
    validate_protection_policy_def production_protection_satisfied_def packet_protection_ready_def)
  have u: "pp_unprotect plain_protector c (new_id_bytes @ replicate 16 0) = Inr new_id_bytes" for c
    by (simp add: plain_protector_def tag_protector_def)
  show ?thesis
    using h v u new_id_decoded by (simp add: parse_short_packet_def open_frames_def)
qed

lemma example_env_no_tls [simp]: "env_has_tls example_env = False"
  by (simp add: example_env_def)

lemma nothing_discarded [simp]: "discarded new_key_lifecycle space = False"
  by (simp add: discarded_def new_key_lifecycle_def Let_def)

lemma example_refresh:
  assumes "cfg_key_lifecycle (cl_config t) = new_key_lifecycle" and "cl_pending_path_challenge t = None"
  shows "refresh_key_lifecycle example_env t = t\<lparr>cl_lifecycle_dirty := False\<rparr>"
  using assms
  by (simp add: refresh_key_lifecycle_def clear_discarded_packet_spaces_def clear_if_discarded_def
      packet_space_discarded_def refresh_peer_address_validation_def queue_pending_path_challenge_if_ready_def Let_def)

definition app_start :: "(unit, congestion_controller) connection_loop" where
  "app_start = new_connection_loop app_config new_congestion_controller ()"

lemma app_config_fields:
  "cfg_key_lifecycle app_config = new_key_lifecycle" "cfg_local_connection_id app_config = \<lparr>cid_bytes = [1]\<rparr>"
  "cfg_application_rx_protector app_config = Some plain_protector" "cfg_role app_config = ServerRole"
  "cfg_active_connection_id_limit app_config = 2" "cfg_peer_address_validated app_config = False"
  by (simp_all add: app_config_def example_config_def)

lemma app_start_fields:
  "cl_config app_start = app_config" "cl_state app_start = Active" "cl_pending_path_challenge app_start = None"
  "cl_packet_spaces app_start = new_packet_spaces" "cl_remote_connection_ids app_start = []"
  "cl_remote_connection_ids_initialized app_start = False" "cl_peer_address_validated app_start = False"
  "cl_actions app_start = []" "cl_peer_bytes_received app_start = 0"
  by (simp_all add: app_start_def new_connection_loop_def app_config_fields)

lemma app_loop_processed:
  "\<exists>p. parse_short_packet ([0x43, 1, 0, 0, 0, 5] @ new_id_bytes @ replicate 16 0) 1 (Some plain_protector) = Inr p \<and>
     ppk_number p = \<lparr>pn_space = ApplicationSpace, pn_value = 5\<rparr> \<and> ppk_frames p = [NewConnectionIdFrame new_id] \<and>
     app_loop = process_parsed_packet example_env p (cfg_peer app_config) 43 1 (app_start\<lparr>cl_lifecycle_dirty := False\<rparr>)"
proof -
  obtain p where p: "parse_short_packet ([0x43, 1, 0, 0, 0, 5] @ new_id_bytes @ replicate 16 0) 1 (Some plain_protector) = Inr p"
      "ppk_number p = \<lparr>pn_space = ApplicationSpace, pn_value = 5\<rparr>" "ppk_frames p = [NewConnectionIdFrame new_id]"
    using new_id_parsed by blast
  have "app_loop = process_parsed_packet example_env p (cfg_peer app_config) 43 1 (app_start\<lparr>cl_lifecycle_dirty := False\<rparr>)"
    unfolding app_loop_def on_datagram_def app_start_def [symmetric] using p(1)
    by (simp add: loop_active_def example_refresh app_config_fields app_start_fields packet_space_discarded_def
        rx_protector_for_def) (simp add: new_id_bytes_def)
  with p show ?thesis by blast
qed

lemmas receive_defs = process_parsed_packet_def process_new_packet_def on_space_def update_space_def Let_def observe_def
  new_packet_spaces_def new_packet_space_def get_space_def empty_received_tracker_def accept_peer_def same_endpoint_def
  mark_activity_def record_peer_bytes_received_def validate_inbound_frame_packet_space_def validate_inbound_frame_role_def
  apply_packet_frames_def apply_path_validation_frames_def apply_flow_control_frames_def receive_crypto_frames_def
  deliver_packet_def emit_action_def anti_amplification_limited_def saturating_add_def

lemmas new_id_defs = apply_new_connection_id_frame_def ensure_remote_connection_id_state_def new_id_def
  find_remote_connection_id_def retire_remote_connection_ids_before_def active_remote_connection_id_count_def

lemma app_loop_initialized:
  "cl_state app_loop = Active" "cl_remote_connection_ids_initialized app_loop" "active_remote_connection_id_count app_loop = 2"
  "cl_peer_bytes_received app_loop = 43" "packet_space_discarded app_loop ApplicationSpace = False"
proof -
  obtain p where p: "ppk_number p = \<lparr>pn_space = ApplicationSpace, pn_value = 5\<rparr>" "ppk_frames p = [NewConnectionIdFrame new_id]"
      "app_loop = process_parsed_packet example_env p (cfg_peer app_config) 43 1 (app_start\<lparr>cl_lifecycle_dirty := False\<rparr>)"
    using app_loop_processed by blast
  show "cl_state app_loop = Active" "cl_remote_connection_ids_initialized app_loop" "active_remote_connection_id_count app_loop = 2"
    "cl_peer_bytes_received app_loop = 43" "packet_space_discarded app_loop ApplicationSpace = False"
    unfolding p(3)
    by (simp_all add: p(1,2) app_start_fields app_config_fields example_refresh receive_defs new_id_defs packet_space_discarded_def)
qed

section \<open>Properties of every run\<close>







text \<open>C30: a connection that leaves the active state never comes back: the state only moves along active, closing,
  draining, closed, nothing is emitted any more, and no sent, received or recovery packet is kept.\<close>

theorem no_return_from_closing:
  assumes "loop_reachable E config c w s" and "cl_state s \<noteq> Active" and "(loop_step E)\<^sup>*\<^sup>* s t"
  shows "rank (cl_state s) \<le> rank (cl_state t) \<and> set (cl_actions t) \<subseteq> set (cl_actions s) \<and> cl_recovery_packets t = [] \<and>
    sent_numbers t space = [] \<and> received_numbers t space = {}"
proof -
  have "quiet (new_connection_loop config c w)" by (simp add: quiet_def new_connection_loop_def)
  then have s: "quiet s" using lifecycle.R_reachable [OF assms(1)] by (simp add: winding_down_def)
  have down: "winding_down s t"
    using assms(3) by (induction rule: rtranclp_induct) (auto intro: lifecycle.R_refl lifecycle.R_trans lifecycle.R_step)
  then have "cl_state t \<noteq> Active" using assms(2) rank_active(1) by (fastforce simp: winding_down_def)
  with s down assms(2) show ?thesis
    by (simp add: winding_down_def quiet_def sent_numbers_def received_numbers_def)
qed

definition idle_closed_loop :: "(unit, congestion_controller) connection_loop" where
  "idle_closed_loop = on_lifecycle_timer IdleKind 30 (snd (next_lifecycle_timer 0 example_loop))"

lemma idle_closed_loop_closing:
  "loop_reachable example_env example_config new_congestion_controller () idle_closed_loop" "cl_state idle_closed_loop = Closing"
proof -
  show "loop_reachable example_env example_config new_congestion_controller () idle_closed_loop"
    unfolding idle_closed_loop_def
    by (rule reachable_step [OF reachable_step [OF reachable_new step_next_lifecycle_timer] step_on_lifecycle_timer])
  show "cl_state idle_closed_loop = Closing"
    by (simp add: idle_closed_loop_def on_lifecycle_timer_def next_lifecycle_timer_def new_connection_loop_def example_config_def
        loop_active_def enter_closing_def emit_action_def cleared_all)
qed

theorem no_return_from_closing_witness:
  "rank (cl_state idle_closed_loop) \<le> rank (cl_state (flush example_env 40 40 idle_closed_loop)) \<and>
   cl_recovery_packets (flush example_env 40 40 idle_closed_loop) = []"
  using no_return_from_closing [OF idle_closed_loop_closing(1) _ r_into_rtranclp [of "loop_step example_env", OF step_flush]]
    idle_closed_loop_closing(2) by simp



lemma process_observes:
  assumes "loop_active s" and "t = process_parsed_packet E parsed peer n at s" and "number = ppk_number parsed"
    and "cl_state t = Active" and "\<not> packet_space_discarded t (pn_space number)"
  shows "pn_value number \<in> received_numbers t (pn_space number)"
proof -
  let ?space = "pn_space number"
  let ?s1 = "on_space ?space (\<lambda>st. st\<lparr>ps_received := snd (observe (ps_received (space_of s ?space)) (pn_value number))\<rparr>) s"
  have s1: "pn_value number \<in> received_numbers ?s1 ?space" by (simp add: received_numbers_def on_space_def observe_def)
  have t: "t = ?s1 \<or> t = process_new_packet E parsed peer n at ?s1"
    using assms(2,3) by (auto simp: process_parsed_packet_def Let_def split: prod.split)
  have "receipts_kept ?s1 (process_new_packet E parsed peer n at ?s1)"
    using assms(1) by (intro receipts.R_new_packet) (simp add: loop_active_def)
  with t s1 assms(4,5) show ?thesis by (auto simp: receipts_kept_def)
qed

text \<open>C12: no packet is processed twice.  Once a packet of a space has been processed, another packet with the same number in that
  space changes nothing, whatever happened in between, as long as the connection is active and the space is not discarded.\<close>

theorem packet_processed_once:
  assumes "loop_active s" and "(loop_step E)\<^sup>*\<^sup>* (process_parsed_packet E parsed peer n at s) u"
    and "ppk_number again = ppk_number parsed" and "cl_state u = Active"
    and "packet_space_discarded u (pn_space (ppk_number parsed)) = False"
  shows "process_parsed_packet E again peer' n' at' u = u"
proof -
  let ?t = "process_parsed_packet E parsed peer n at s" and ?number = "ppk_number parsed"
  have kept: "receipts_kept ?t u"
    using assms(2) by (induction rule: rtranclp_induct) (auto intro: receipts.R_refl receipts.R_trans receipts.R_step)
  then have "cl_state ?t = Active" "\<not> packet_space_discarded ?t (pn_space ?number)"
    using assms(4,5) by (auto simp: receipts_kept_def)
  from process_observes [OF assms(1) refl refl this] kept assms(4,5)
  have seen: "pn_value ?number \<in> received_numbers u (pn_space ?number)" by (auto simp: receipts_kept_def)
  then have "snd (observe (ps_received (space_of u (pn_space ?number))) (pn_value ?number)) = ps_received (space_of u (pn_space ?number))"
    by (simp add: observe_def received_numbers_def insert_absorb)
  then have "on_space (pn_space ?number) (\<lambda>st. st\<lparr>ps_received :=
      snd (observe (ps_received (space_of u (pn_space ?number))) (pn_value ?number))\<rparr>) u = u"
    by (cases "pn_space ?number") (simp_all add: on_space_def update_space_def get_space_def)
  with seen assms(3) show ?thesis
    by (simp add: process_parsed_packet_def observe_def received_numbers_def Let_def)
qed

theorem packet_processed_once_witness:
  "\<exists>p. parse_short_packet ([0x43, 1, 0, 0, 0, 5] @ new_id_bytes @ replicate 16 0) 1 (Some plain_protector) = Inr p \<and>
     process_parsed_packet example_env p (cfg_peer app_config) 43 2 app_loop = app_loop"
proof -
  obtain p where p: "parse_short_packet ([0x43, 1, 0, 0, 0, 5] @ new_id_bytes @ replicate 16 0) 1 (Some plain_protector) = Inr p"
      "ppk_number p = \<lparr>pn_space = ApplicationSpace, pn_value = 5\<rparr>"
      "process_parsed_packet example_env p (cfg_peer app_config) 43 1 (app_start\<lparr>cl_lifecycle_dirty := False\<rparr>) = app_loop"
    using app_loop_processed by metis
  have "process_parsed_packet example_env p (cfg_peer app_config) 43 2 app_loop = app_loop"
    using p(2,3) app_loop_initialized(1,5)
    by (intro packet_processed_once [of "app_start\<lparr>cl_lifecycle_dirty := False\<rparr>" _ p "cfg_peer app_config" 43 1])
      (simp_all add: loop_active_def app_start_fields)
  with p(1) show ?thesis by blast
qed

section \<open>The lifecycle timers\<close>

text \<open>C31: the lifecycle timers are live.  At its deadline the timer that the loop asked for moves an active connection to closing, a
  closing or draining connection to closed; before its deadline it changes no lifecycle state.\<close>

theorem lifecycle_timer_fires:
  assumes "next_lifecycle_timer now s = (Some timer, s')"
  shows "cl_state (on_lifecycle_timer (clt_kind timer) fired s') =
    (if fired < clt_deadline timer then cl_state s else if cl_state s = Active then Closing else Closed)"
proof (cases "cl_state s")
  case Active
  with assms show ?thesis
    by (auto simp: next_lifecycle_timer_def on_lifecycle_timer_def loop_active_def enter_closing_def emit_action_def cleared_all
        Let_def split: if_splits)
next
  case Closing
  with assms show ?thesis
    by (auto simp: next_lifecycle_timer_def on_lifecycle_timer_def loop_active_def enter_closed_def cleared_all Let_def
        split: if_splits)
next
  case Draining
  with assms show ?thesis
    by (auto simp: next_lifecycle_timer_def on_lifecycle_timer_def loop_active_def enter_closed_def cleared_all Let_def
        split: if_splits)
next
  case Closed
  with assms show ?thesis by (simp add: next_lifecycle_timer_def)
qed

theorem lifecycle_timer_fires_witness:
  "cl_state (on_lifecycle_timer IdleKind 30 (snd (next_lifecycle_timer 0 app_start))) = Closing"
proof -
  have "next_lifecycle_timer 0 app_start = (Some \<lparr>clt_kind = IdleKind, clt_deadline = 30\<rparr>, snd (next_lifecycle_timer 0 app_start))"
    by (simp add: next_lifecycle_timer_def app_start_def new_connection_loop_def app_config_def example_config_def)
  from lifecycle_timer_fires [OF this, of 30] show ?thesis by (simp add: app_start_fields)
qed

section \<open>TLS bytes in CRYPTO frames\<close>

text \<open>The bytes that a sequence of CRYPTO frames at consecutive offsets carries.\<close>

fun crypto_stream :: "u64 \<Rightarrow> frame list \<Rightarrow> buffer option" where
  "crypto_stream offset [] = Some []"
| "crypto_stream offset (f # fs) =
     (case f of
        CryptoFrame c \<Rightarrow> if cf_offset c = offset
          then map_option ((@) (cf_data c)) (crypto_stream (offset + length (cf_data c)) fs) else None
      | _ \<Rightarrow> None)"

lemma crypto_stream_append:
  "crypto_stream off fs = Some bs \<Longrightarrow> crypto_stream off (fs @ gs) = map_option ((@) bs) (crypto_stream (off + length bs) gs)"
proof (induction off fs arbitrary: bs rule: crypto_stream.induct)
  case (2 offset f fs)
  then show ?case
    by (auto split: frame.splits if_splits option.splits simp: map_option_case add.assoc)
next
  case (1 offset)
  then show ?case by (cases "crypto_stream offset gs") simp_all
qed

lemma varint_len_mono: "a \<le> b \<Longrightarrow> varint_len a \<le> varint_len b"
  by (simp add: varint_len_def)

lemma chunk_fits:
  assumes "crypto_frame_chunk_size space offset len config = b" and "b \<noteq> 0" and "length data \<le> len" and "length data \<le> b"
  shows "\<exists>bytes. encode_frame (CryptoFrame \<lparr>cf_offset = offset, cf_data = data\<rparr>) = Inr bytes \<and>
    length bytes \<le> crypto_frame_payload_budget space config"
proof -
  have m: "offset \<le> max_varint" "len \<le> max_varint"
    using assms(1,2) encoded_size_overflow [of offset] encoded_size_overflow [of len]
    by (simp_all add: crypto_frame_chunk_size_def Let_def split: if_splits sum.splits) (meson Inl_Inr_False not_le)+
  then have "1 + varint_len offset + varint_len len + b = crypto_frame_payload_budget space config"
    using assms(1,2) by (auto simp: crypto_frame_chunk_size_def Let_def encoded_size_eq split: if_splits)
  moreover have "varint_len (length data) \<le> varint_len len" by (rule varint_len_mono [OF assms(3)])
  moreover have "varint_len 6 = 1" by (simp add: varint_len_def)
  ultimately show ?thesis
    using m assms(3,4) by (simp add: encode_crypto_def)
qed

lemma split_crypto_loop_spec:
  assumes "crypto_stream start frames = Some sent" and "offset = start + length sent"
    and "split_crypto_loop space config offset data frames = (out, e)" and "error_ok e"
    and "\<forall>f \<in> set frames. \<exists>bytes. encode_frame f = Inr bytes \<and> length bytes \<le> crypto_frame_payload_budget space config"
  shows "crypto_stream start out = Some (sent @ data) \<and>
    (\<forall>f \<in> set out. \<exists>bytes. encode_frame f = Inr bytes \<and> length bytes \<le> crypto_frame_payload_budget space config)"
  using assms
proof (induction space config offset data frames arbitrary: sent rule: split_crypto_loop.induct)
  case (1 space config offset data frames)
  let ?b = "crypto_frame_chunk_size space offset (length data) config"
  let ?n = "min ?b (length data)"
  let ?f = "CryptoFrame \<lparr>cf_offset = offset, cf_data = take ?n data\<rparr>"
  note run = 1(4) [unfolded split_crypto_loop.simps [of space config offset data frames]]
  show ?case
  proof (cases "data = []")
    case True
    with 1(2,6) run show ?thesis by simp
  next
    case False
    have b: "?b \<noteq> 0" and o: "\<not> offset > u64_max - ?n"
      and rest: "split_crypto_loop space config (offset + ?n) (drop ?n data) (frames @ [?f]) = (out, e)"
      using run False 1(5) by (auto simp: Let_def split: if_splits)
    have stream: "crypto_stream start (frames @ [?f]) = Some (sent @ take ?n data)"
      using crypto_stream_append [OF 1(2), of "[?f]"] 1(3) by simp
    have fits: "\<exists>bytes. encode_frame ?f = Inr bytes \<and> length bytes \<le> crypto_frame_payload_budget space config"
      by (rule chunk_fits [OF refl b]) auto
    have "crypto_stream start out = Some ((sent @ take ?n data) @ drop ?n data) \<and>
      (\<forall>f \<in> set out. \<exists>bytes. encode_frame f = Inr bytes \<and> length bytes \<le> crypto_frame_payload_budget space config)"
      using 1(1) [OF False refl b refl refl o stream _ rest 1(5)] 1(3,6) fits by auto
    then show ?thesis by simp
  qed
qed

text \<open>TLS bytes are split into CRYPTO frames at consecutive offsets that carry exactly those bytes, and each frame fits the
  payload that is left in a packet of its space.\<close>

theorem split_crypto_frames_correct:
  assumes "split_crypto_frames space item config = (frames, e)" and "error_ok e"
  shows "crypto_stream (cb_offset item) frames = Some (cb_data item) \<and>
    (\<forall>f \<in> set frames. \<exists>bytes. encode_frame f = Inr bytes \<and> length bytes \<le> crypto_frame_payload_budget space config)"
proof (cases "cb_data item = []")
  case True
  with assms show ?thesis by (simp add: split_crypto_frames_def)
next
  case False
  then have "split_crypto_loop space config (cb_offset item) (cb_data item) [] = (frames, e)"
    using assms by (auto simp: split_crypto_frames_def split: if_splits)
  from split_crypto_loop_spec [OF _ _ this assms(2), of "cb_offset item" "[]"] show ?thesis by simp
qed

theorem split_crypto_frames_correct_witness:
  "crypto_stream 5 (fst (split_crypto_frames InitialSpace \<lparr>cb_level = TlsInitial, cb_offset = 5, cb_data = [1, 2, 3]\<rparr> example_config))
     = Some [1, 2, 3]"
proof -
  have "crypto_frame_payload_budget InitialSpace example_config = 968"
    by (simp add: crypto_frame_payload_budget_def example_config_def tx_protector_for_def encoded_size_def max_varint_def
        fixed_packet_number_length_def tag_protector_def)
  then have "crypto_frame_chunk_size InitialSpace n m example_config = 965" if "n \<le> 63" "m \<le> 63" for n m
    using that by (simp add: crypto_frame_chunk_size_def encoded_size_def max_varint_def)
  then have "split_crypto_frames InitialSpace \<lparr>cb_level = TlsInitial, cb_offset = 5, cb_data = [1, 2, 3]\<rparr> example_config =
      ([CryptoFrame \<lparr>cf_offset = 5, cf_data = [1, 2, 3]\<rparr>], no_error)"
    by (simp add: split_crypto_frames_def split_crypto_loop.simps [of _ _ _ "[]"] split_crypto_loop.simps [of _ _ _ "_ # _"])
  from split_crypto_frames_correct [OF this] this show ?thesis by simp
qed

section \<open>Congestion feedback\<close>

lemma congestion_kept [simp]:
  "cl_congestion (on_space space f s) = cl_congestion s" "cl_config (on_space space f s) = cl_config s"
  "cl_congestion (record_largest_acknowledged space n s) = cl_congestion s"
  "cl_config (record_largest_acknowledged space n s) = cl_config s"
  "cl_congestion (mark_recovery_packets space ns st s) = cl_congestion s"
  "cl_config (mark_recovery_packets space ns st s) = cl_config s"
  "cl_congestion (apply_stream_ack_mapping space ns s) = cl_congestion s"
  "cl_config (apply_stream_ack_mapping space ns s) = cl_config s"
  "cl_congestion (apply_stream_loss_mapping space ns s) = cl_congestion s"
  "cl_config (apply_stream_loss_mapping space ns s) = cl_config s"
  "cl_congestion (pace_window E s) = cl_congestion s" "cl_config (cl_update_rtt E sample s) = cl_config s"
  "cl_congestion (cl_update_rtt E sample s) = cl_congestion s"
  by (simp_all add: on_space_def record_largest_acknowledged_def mark_recovery_packets_def apply_stream_ack_mapping_def
      apply_stream_loss_mapping_def pace_window_def cl_update_rtt_def Let_def)

text \<open>one ACK frame tells the congestion controller of one packet of the maximum datagram size, however many packets it newly
  acknowledges, and of one congestion event if it reveals losses; the lost packets themselves are not reported.\<close>

theorem ack_frame_congestion:
  assumes "on_ack_received (ps_sent (space_of s space)) ack 3 = (r, tracker)"
  shows "cl_congestion (apply_ack_frame E space ack at s) =
    (let c = cl_congestion s;
         c = (if newly_acknowledged r = [] then c else env_cc_on_packet_acknowledged E (cfg_max_datagram_size (cl_config s)) c)
     in if newly_lost r = [] then c else env_cc_on_congestion_event E c)"
proof -
  have kept: "ps_sent (space_of (record_largest_acknowledged space n s) space) = ps_sent (space_of s space)" for n
    by (simp add: record_largest_acknowledged_def on_space_def split: option.split)
  show ?thesis
    using assms unfolding apply_ack_frame_def Let_def kept by (simp add: cc_event_def split: option.split)
qed

definition two_sent_loop :: "(unit, congestion_controller) connection_loop" where
  "two_sent_loop = on_space InitialSpace
     (\<lambda>st. st\<lparr>ps_sent := on_packet_sent (on_packet_sent (ps_sent st) 0 True) 1 True\<rparr>) example_loop"

theorem ack_frame_congestion_witness:
  "cl_congestion (apply_ack_frame example_env InitialSpace \<lparr>af_largest_acknowledged = 1, af_ack_delay = 0, af_first_ack_range = 1,
     af_ranges = [], af_ecn_counts = None\<rparr> 9 two_sent_loop) = cc_on_packet_acknowledged new_congestion_controller 1200"
proof -
  have set: "append_ack_range {} 0 (Suc 0) = Some {0..Suc 0}"
    by (simp add: append_ack_range_def append_ack_loop_eq)
  have "\<exists>tracker. on_ack_received (ps_sent (space_of two_sent_loop InitialSpace)) \<lparr>af_largest_acknowledged = 1, af_ack_delay = 0,
      af_first_ack_range = 1, af_ranges = [], af_ecn_counts = None\<rparr> 3 =
      (\<lparr>newly_acknowledged = [0, 1], newly_lost = []\<rparr>, tracker)"
    by (simp add: two_sent_loop_def on_space_def on_packet_sent_def new_connection_loop_def new_packet_spaces_def get_space_def
        update_space_def new_packet_space_def on_ack_received_def expand_ack_frame_def u64_sub_exact set)
  then obtain tracker where a: "on_ack_received (ps_sent (space_of two_sent_loop InitialSpace)) \<lparr>af_largest_acknowledged = 1,
      af_ack_delay = 0, af_first_ack_range = 1, af_ranges = [], af_ecn_counts = None\<rparr> 3 =
      (\<lparr>newly_acknowledged = [0, 1], newly_lost = []\<rparr>, tracker)" by blast
  show ?thesis
    using ack_frame_congestion [OF a, of example_env 9]
    by (simp add: two_sent_loop_def new_connection_loop_def example_env_def example_config_def)
qed

section \<open>Datagrams that cannot be parsed\<close>



end
