(* ===== verification/Routing.thy ===== *)
theory Routing
  imports ConnectionState "HOL-Library.AList"
begin

text \<open>
  The server side in front of the connections: \<open>src/include/flowq/quic/connection_routing.hpp\<close> and
  \<open>endpoint_driver.hpp\<close>.  Stateless reset packets, the table from connection identifiers to
  connections, Version Negotiation packets, and the Retry tokens that validate a client's address.

  Code that is not in the repository is an argument here: the source of random bytes
  (\<open>random_bytes_generator\<close>; \<open>secure_random_bytes\<close>, which calls OpenSSL, is the parameter
  \<open>fallback\<close>) and the tag function of a \<open>retry_integrity_provider\<close>.  A \<open>std::unordered_map\<close> is an
  association list whose keys are distinct; its hash function has no influence on the results.
  Times of \<open>system_clock\<close> are integers counting nanoseconds.
\<close>

section \<open>Stateless reset packets\<close>

type_synonym random_bytes_generator = "nat \<Rightarrow> buffer result"

definition internal_error :: "string \<Rightarrow> flowq_error" where
  "internal_error m = \<lparr>err_code = EC_internal_error, err_message = m\<rparr>"

definition default_stateless_reset_datagram_size :: nat where
  "default_stateless_reset_datagram_size = 41"

record stateless_reset_packet_config =
  src_preferred_datagram_size :: nat
  src_random :: "random_bytes_generator option"

definition stateless_reset_error :: "string \<Rightarrow> flowq_error" where
  "stateless_reset_error m = protocol_error m"

definition build_stateless_reset_packet ::
    "random_bytes_generator \<Rightarrow> buffer \<Rightarrow> nat \<Rightarrow> stateless_reset_packet_config \<Rightarrow> buffer result" where
  "build_stateless_reset_packet fallback token triggering_datagram_size config =
     (if triggering_datagram_size \<le> minimum_stateless_reset_datagram_size
      then Inl (stateless_reset_error ''triggering datagram is too small for stateless reset'')
      else if src_preferred_datagram_size config < minimum_stateless_reset_datagram_size
      then Inl (stateless_reset_error ''stateless reset datagram size is too small'')
      else
        let reset_size = min (src_preferred_datagram_size config) (triggering_datagram_size - 1) in
        if reset_size < minimum_stateless_reset_datagram_size
        then Inl (stateless_reset_error ''stateless reset cannot be smaller than triggering datagram'')
        else
          let random_size = reset_size - stateless_reset_token_size;
              random = (case src_random config of Some generator \<Rightarrow> generator random_size | None \<Rightarrow> fallback random_size)
          in case random of
              Inl e \<Rightarrow> Inl e
            | Inr bytes \<Rightarrow>
                if length bytes \<noteq> random_size
                then Inl (internal_error ''stateless reset random provider returned wrong size'')
                else Inr (bytes[0 := (bytes ! 0 AND 0x3f) OR 0x40] @ token))"

section \<open>The routing table\<close>

definition connection_id_key :: "connection_id \<Rightarrow> buffer" where
  "connection_id_key cid = map (\<lambda>i. cid_bytes cid ! i) [0..<length (cid_bytes cid)]"

record routing_table =
  rt_entries :: "(buffer \<times> u64) list"
  rt_reset_tokens :: "(buffer \<times> buffer) list"

definition new_routing_table :: routing_table where
  "new_routing_table = \<lparr>rt_entries = [], rt_reset_tokens = []\<rparr>"

definition add :: "connection_id \<Rightarrow> u64 \<Rightarrow> routing_table \<Rightarrow> routing_table" where
  "add cid connection_handle t = t\<lparr>rt_entries := AList.update (connection_id_key cid) connection_handle (rt_entries t)\<rparr>"

definition add_stateless_reset_token :: "connection_id \<Rightarrow> buffer \<Rightarrow> routing_table \<Rightarrow> routing_table" where
  "add_stateless_reset_token cid token t =
     t\<lparr>rt_reset_tokens := AList.update (connection_id_key cid) token (rt_reset_tokens t)\<rparr>"

definition lookup :: "connection_id \<Rightarrow> routing_table \<Rightarrow> u64 option" where
  "lookup cid t = map_of (rt_entries t) (connection_id_key cid)"

definition lookup_stateless_reset_token :: "connection_id \<Rightarrow> routing_table \<Rightarrow> buffer option" where
  "lookup_stateless_reset_token cid t = map_of (rt_reset_tokens t) (connection_id_key cid)"

definition retire :: "connection_id \<Rightarrow> routing_table \<Rightarrow> routing_table" where
  "retire cid t = t\<lparr>rt_entries := AList.delete (connection_id_key cid) (rt_entries t)\<rparr>"

definition active_count :: "routing_table \<Rightarrow> nat" where
  "active_count t = length (rt_entries t)"

section \<open>The endpoint driver\<close>

record endpoint_driver =
  ed_max_connections :: nat
  ed_stateless_reset :: stateless_reset_packet_config
  ed_routing :: routing_table
  ed_running :: bool

definition new_endpoint_driver :: "nat \<Rightarrow> stateless_reset_packet_config \<Rightarrow> endpoint_driver" where
  "new_endpoint_driver max_connections stateless_reset =
     \<lparr>ed_max_connections = max_connections, ed_stateless_reset = stateless_reset,
      ed_routing = new_routing_table, ed_running = False\<rparr>"

definition start :: "endpoint_driver \<Rightarrow> endpoint_driver" where
  "start d = d\<lparr>ed_running := True\<rparr>"

definition stop :: "endpoint_driver \<Rightarrow> endpoint_driver" where
  "stop d = d\<lparr>ed_running := False\<rparr>"

definition register_connection_impl ::
    "connection_id \<Rightarrow> u64 \<Rightarrow> buffer option \<Rightarrow> endpoint_driver \<Rightarrow> flowq_error \<times> endpoint_driver" where
  "register_connection_impl cid handle reset_token d =
     (if \<not> ed_running d then (internal_error ''endpoint driver is not running'', d)
      else if active_count (ed_routing d) \<ge> ed_max_connections d
      then (internal_error ''maximum connection limit reached'', d)
      else
        let d = d\<lparr>ed_routing := add cid handle (ed_routing d)\<rparr> in
        (no_error, case reset_token of
            Some token \<Rightarrow> d\<lparr>ed_routing := add_stateless_reset_token cid token (ed_routing d)\<rparr>
          | None \<Rightarrow> d))"

definition register_connection :: "connection_id \<Rightarrow> u64 \<Rightarrow> endpoint_driver \<Rightarrow> flowq_error \<times> endpoint_driver" where
  "register_connection cid handle d = register_connection_impl cid handle None d"

definition register_connection_with_token ::
    "connection_id \<Rightarrow> u64 \<Rightarrow> buffer \<Rightarrow> endpoint_driver \<Rightarrow> flowq_error \<times> endpoint_driver" where
  "register_connection_with_token cid handle reset_token d = register_connection_impl cid handle (Some reset_token) d"

definition build_stateless_reset ::
    "random_bytes_generator \<Rightarrow> connection_id \<Rightarrow> nat \<Rightarrow> endpoint_driver \<Rightarrow> buffer result" where
  "build_stateless_reset fallback cid triggering_datagram_size d =
     (if \<not> ed_running d then Inl (internal_error ''endpoint driver is not running'')
      else if lookup cid (ed_routing d) \<noteq> None then Inl (protocol_error ''connection ID is still active'')
      else case lookup_stateless_reset_token cid (ed_routing d) of
          None \<Rightarrow> Inl (protocol_error ''stateless reset token is not registered'')
        | Some token \<Rightarrow> build_stateless_reset_packet fallback token triggering_datagram_size (ed_stateless_reset d))"

definition unregister_connection :: "connection_id \<Rightarrow> endpoint_driver \<Rightarrow> endpoint_driver" where
  "unregister_connection cid d = d\<lparr>ed_routing := retire cid (ed_routing d)\<rparr>"

definition lookup_connection :: "connection_id \<Rightarrow> endpoint_driver \<Rightarrow> u64 option" where
  "lookup_connection cid d = lookup cid (ed_routing d)"

definition connection_count :: "endpoint_driver \<Rightarrow> nat" where
  "connection_count d = active_count (ed_routing d)"

section \<open>Version negotiation\<close>

fun version_supported :: "u32 \<Rightarrow> u32 list \<Rightarrow> bool" where
  "version_supported version [] = False"
| "version_supported version (v # supported) = (if v = version then True else version_supported version supported)"

record version_negotiation_result =
  vnr_payload :: buffer
  vnr_destination_connection_id :: connection_id
  vnr_source_connection_id :: connection_id
  vnr_supported_versions :: "u32 list"

fun append_versions :: "buffer \<Rightarrow> u32 list \<Rightarrow> buffer" where
  "append_versions payload [] = payload"
| "append_versions payload (version # versions) =
     append_versions (payload @
       [ucast (drop_bit 24 version AND 0xff), ucast (drop_bit 16 version AND 0xff),
        ucast (drop_bit 8 version AND 0xff), ucast (version AND 0xff)]) versions"

definition build_version_negotiation ::
    "connection_id \<Rightarrow> connection_id \<Rightarrow> u32 list \<Rightarrow> version_negotiation_result result" where
  "build_version_negotiation destination source supported_versions =
     (if supported_versions = [] then Inl (protocol_error ''no supported versions provided'')
      else
        let payload = [0x80];
            payload = payload @ [0x00, 0x00, 0x00, 0x00];
            payload = payload @ [to_byte (length (cid_bytes destination))];
            payload = payload @ cid_bytes destination;
            payload = payload @ [to_byte (length (cid_bytes source))];
            payload = payload @ cid_bytes source;
            payload = append_versions payload supported_versions
        in Inr \<lparr>vnr_payload = payload, vnr_destination_connection_id = destination,
                vnr_source_connection_id = source, vnr_supported_versions = supported_versions\<rparr>)"

section \<open>Byte strings of the Retry token\<close>

text \<open>The loop of \<open>constant_time_equal\<close>; \<open>difference\<close> is an octet, so the exclusive or of the two
  lengths is cut down to its low eight bits.\<close>

definition byte_or_zero :: "buffer \<Rightarrow> nat \<Rightarrow> byte" where
  "byte_or_zero bytes i = (if i < length bytes then bytes ! i else 0)"

definition constant_time_equal :: "buffer \<Rightarrow> buffer \<Rightarrow> bool" where
  "constant_time_equal expected candidate =
     (let max_size = max (length expected) (length candidate);
          difference = to_byte (length expected XOR length candidate);
          difference = foldl (\<lambda>difference i.
            difference OR (byte_or_zero expected i XOR byte_or_zero candidate i)) difference [0..<max_size]
      in difference = 0)"

definition retry_token_error :: "string \<Rightarrow> flowq_error" where
  "retry_token_error m = protocol_error m"

definition append_u16 :: "buffer \<Rightarrow> 16 word \<Rightarrow> buffer" where
  "append_u16 output v = output @ [ucast (drop_bit 8 v AND 0xff), ucast (v AND 0xff)]"

definition append_u64 :: "buffer \<Rightarrow> u64 \<Rightarrow> buffer" where
  "append_u64 output v =
     foldl (\<lambda>output shift. output @ [to_byte (drop_bit shift v AND 0xff)]) output [56, 48, 40, 32, 24, 16, 8, 0]"

definition append_bytes :: "buffer \<Rightarrow> buffer \<Rightarrow> buffer" where
  "append_bytes output bytes = output @ bytes"

definition append_string :: "buffer \<Rightarrow> string \<Rightarrow> buffer" where
  "append_string output s = foldl (\<lambda>output c. output @ [byte_of_char c]) output s"

definition read_u16 :: "buffer \<Rightarrow> nat \<Rightarrow> (16 word \<times> nat) option" where
  "read_u16 input offset =
     (if offset + 2 > length input then None
      else Some (push_bit 8 (ucast (input ! offset)) OR ucast (input ! (offset + 1)), offset + 2))"

definition read_u64 :: "buffer \<Rightarrow> nat \<Rightarrow> (u64 \<times> nat) option" where
  "read_u64 input offset =
     (if offset + 8 > length input then None
      else Some (foldl (\<lambda>v index. u64_shl v 8 OR unat (input ! (offset + index))) 0 [0..<8], offset + 8))"

definition read_bytes :: "buffer \<Rightarrow> nat \<Rightarrow> 16 word \<Rightarrow> (buffer \<times> nat) option" where
  "read_bytes input offset n =
     (if offset + unat n > length input then None
      else Some (take (unat n) (drop offset input), offset + unat n))"

definition retry_token_integrity_context :: buffer where
  "retry_token_integrity_context = append_string [] ''flowq.retry.v1''"

section \<open>Integrity tags\<close>

record retry_integrity_result =
  rir_tag :: buffer
  rir_error :: flowq_error

type_synonym tag_function = "buffer \<Rightarrow> buffer \<Rightarrow> retry_integrity_result"

definition compute_integrity_tag :: "tag_function option \<Rightarrow> buffer \<Rightarrow> buffer \<Rightarrow> retry_integrity_result" where
  "compute_integrity_tag provider retry_pseudo_header payload =
     (case provider of
        None \<Rightarrow> \<lparr>rir_tag = [], rir_error = protocol_error ''retry integrity provider is not configured''\<rparr>
      | Some compute_tag \<Rightarrow> compute_tag retry_pseudo_header payload)"

definition verify_integrity_tag :: "tag_function option \<Rightarrow> buffer \<Rightarrow> buffer \<Rightarrow> buffer \<Rightarrow> flowq_error" where
  "verify_integrity_tag provider retry_pseudo_header payload tag =
     (if tag = [] then protocol_error ''empty integrity tag''
      else
        let expected = compute_integrity_tag provider retry_pseudo_header payload in
        if \<not> error_ok (rir_error expected) then rir_error expected
        else if \<not> constant_time_equal (rir_tag expected) tag then protocol_error ''retry integrity tag mismatch''
        else no_error)"

section \<open>The codec of Retry tokens\<close>

abbreviation uint16_max :: nat where
  "uint16_max \<equiv> 65535"

abbreviation int64_max :: nat where
  "int64_max \<equiv> 9223372036854775807"

definition seconds :: "int \<Rightarrow> duration" where
  "seconds n = n * 1000000000"

record retry_token_context =
  rtc_remote :: endpoint
  rtc_original_destination_connection_id :: connection_id
  rtc_now :: time_point

record decoded_retry_token_payload =
  drp_issued_at_seconds :: u64
  drp_host :: string
  drp_port :: "16 word"
  drp_original_destination_connection_id :: connection_id

definition validate_retry_token_lifetime :: "duration \<Rightarrow> flowq_error" where
  "validate_retry_token_lifetime lifetime =
     (if lifetime \<le> 0 then retry_token_error ''retry token lifetime must be positive'' else no_error)"

definition encode_retry_token_payload :: "retry_token_context \<Rightarrow> buffer result" where
  "encode_retry_token_payload context =
     (let issued_at_seconds = rtc_now context sdiv seconds 1;
          host = ep_host (rtc_remote context);
          cid = cid_bytes (rtc_original_destination_connection_id context) in
      if issued_at_seconds < 0 then Inl (retry_token_error ''retry token issue time is before epoch'')
      else if length host > uint16_max then Inl (retry_token_error ''retry token host is too large'')
      else if length cid > uint16_max then Inl (retry_token_error ''retry token connection ID is too large'')
      else
        let cid_size = length cid;
            payload = append_u64 [] (nat issued_at_seconds);
            payload = append_u16 payload (word_of_nat (length host));
            payload = append_string payload host;
            payload = append_u16 payload (ep_port (rtc_remote context));
            payload = append_u16 payload (word_of_nat cid_size);
            payload = append_bytes payload cid
        in Inr payload)"

definition encode_retry_token :: "buffer \<Rightarrow> buffer \<Rightarrow> buffer result" where
  "encode_retry_token payload tag =
     (if length payload > uint16_max then Inl (retry_token_error ''retry token payload is too large'')
      else if length tag > uint16_max then Inl (retry_token_error ''retry token tag is too large'')
      else
        let token = append_string [] ''FQRT'';
            token = token @ [0x01];
            token = append_u16 token (word_of_nat (length payload));
            token = append_bytes token payload;
            token = append_u16 token (word_of_nat (length tag));
            token = append_bytes token tag
        in Inr token)"

definition parse_retry_token :: "buffer \<Rightarrow> (buffer \<times> buffer) result" where
  "parse_retry_token input =
     (if length input < 9 then Inl (retry_token_error ''retry token is too short'')
      else if input ! 0 \<noteq> byte_of_char (CHR ''F'') \<or> input ! 1 \<noteq> byte_of_char (CHR ''Q'') \<or>
        input ! 2 \<noteq> byte_of_char (CHR ''R'') \<or> input ! 3 \<noteq> byte_of_char (CHR ''T'')
      then Inl (retry_token_error ''retry token magic mismatch'')
      else if input ! 4 \<noteq> 0x01 then Inl (retry_token_error ''unsupported retry token version'')
      else case read_u16 input 5 of
          None \<Rightarrow> Inl (retry_token_error ''retry token payload length is truncated'')
        | Some (payload_size, offset) \<Rightarrow>
      (case read_bytes input offset payload_size of
          None \<Rightarrow> Inl (retry_token_error ''retry token payload is truncated'')
        | Some (payload_bytes, offset) \<Rightarrow>
      (case read_u16 input offset of
          None \<Rightarrow> Inl (retry_token_error ''retry token tag length is truncated'')
        | Some (tag_size, offset) \<Rightarrow>
            if tag_size = 0 then Inl (retry_token_error ''retry token tag is empty'')
            else case read_bytes input offset tag_size of
                None \<Rightarrow> Inl (retry_token_error ''retry token tag is truncated'')
              | Some (tag_bytes, offset) \<Rightarrow>
                  if offset \<noteq> length input then Inl (retry_token_error ''retry token tag is truncated'')
                  else Inr (payload_bytes, tag_bytes))))"

definition decode_retry_token_payload :: "buffer \<Rightarrow> decoded_retry_token_payload result" where
  "decode_retry_token_payload input =
     (case read_u64 input 0 of
          None \<Rightarrow> Inl (retry_token_error ''retry token issue time is truncated'')
        | Some (issued_at_seconds, offset) \<Rightarrow>
      (case read_u16 input offset of
          None \<Rightarrow> Inl (retry_token_error ''retry token host length is truncated'')
        | Some (host_size, offset) \<Rightarrow>
      (case read_bytes input offset host_size of
          None \<Rightarrow> Inl (retry_token_error ''retry token host is truncated'')
        | Some (host_bytes, offset) \<Rightarrow>
      (case read_u16 input offset of
          None \<Rightarrow> Inl (retry_token_error ''retry token port is truncated'')
        | Some (port, offset) \<Rightarrow>
      (case read_u16 input offset of
          None \<Rightarrow> Inl (retry_token_error ''retry token connection ID length is truncated'')
        | Some (cid_size, offset) \<Rightarrow>
      (case read_bytes input offset cid_size of
          None \<Rightarrow> Inl (retry_token_error ''retry token connection ID is truncated'')
        | Some (cid, offset) \<Rightarrow>
            if offset \<noteq> length input then Inl (retry_token_error ''retry token connection ID is truncated'')
            else Inr \<lparr>drp_issued_at_seconds = issued_at_seconds, drp_host = map char_of_byte host_bytes,
                      drp_port = port, drp_original_destination_connection_id = \<lparr>cid_bytes = cid\<rparr>\<rparr>))))))"

section \<open>Issuing and validating Retry tokens\<close>

record retry_token_validator =
  rtv_integrity_provider :: "tag_function option"
  rtv_lifetime :: duration

definition new_retry_token_validator :: retry_token_validator where
  "new_retry_token_validator = \<lparr>rtv_integrity_provider = None, rtv_lifetime = seconds 300\<rparr>"

definition validate_token_shape :: "buffer \<Rightarrow> bool" where
  "validate_token_shape token \<longleftrightarrow> token \<noteq> []"

definition issue_token :: "retry_token_validator \<Rightarrow> retry_token_context \<Rightarrow> buffer result" where
  "issue_token v context =
     (let e = validate_retry_token_lifetime (rtv_lifetime v) in
      if \<not> error_ok e then Inl e
      else case encode_retry_token_payload context of
          Inl e \<Rightarrow> Inl e
        | Inr payload \<Rightarrow>
            let tag = compute_integrity_tag (rtv_integrity_provider v) retry_token_integrity_context payload in
            if \<not> error_ok (rir_error tag) then Inl (rir_error tag)
            else encode_retry_token payload (rir_tag tag))"

definition validate_token :: "retry_token_validator \<Rightarrow> buffer \<Rightarrow> retry_token_context \<Rightarrow> flowq_error" where
  "validate_token v token context =
     (if \<not> validate_token_shape token then retry_token_error ''empty retry token''
      else
        let e = validate_retry_token_lifetime (rtv_lifetime v) in
        if \<not> error_ok e then e
        else case parse_retry_token token of
            Inl e \<Rightarrow> e
          | Inr (payload, tag) \<Rightarrow>
              let verified = verify_integrity_tag (rtv_integrity_provider v) retry_token_integrity_context payload tag in
              if \<not> error_ok verified then verified
              else case decode_retry_token_payload payload of
                  Inl e \<Rightarrow> e
                | Inr decoded \<Rightarrow>
                    if drp_issued_at_seconds decoded > int64_max
                    then retry_token_error ''retry token issue time is out of range''
                    else
                      let issued_at = seconds (int (drp_issued_at_seconds decoded)) in
                      if rtc_now context < issued_at then retry_token_error ''retry token issue time is in the future''
                      else if rtc_now context - issued_at > rtv_lifetime v then retry_token_error ''retry token expired''
                      else if drp_host decoded \<noteq> ep_host (rtc_remote context) \<or> drp_port decoded \<noteq> ep_port (rtc_remote context)
                      then retry_token_error ''retry token peer address mismatch''
                      else if \<not> constant_time_equal (cid_bytes (drp_original_destination_connection_id decoded))
                          (cid_bytes (rtc_original_destination_connection_id context))
                      then retry_token_error ''retry token original destination connection ID mismatch''
                      else no_error)"

section \<open>Lemmas: byte strings\<close>

text \<open>What \<open>constant_time_equal\<close> decides: the lengths agree modulo 256, and the strings agree once the
  shorter one is filled up with zeros.\<close>

lemma word_xor_eq_0: "(a::'a::len word) XOR b = 0 \<longleftrightarrow> a = b"
  by (metis word_bw_assocs(3) word_bw_same(3) xor.left_neutral xor.right_neutral)

lemma foldl_or_eq_0: "foldl (\<lambda>d i. d OR f i) d is = (0::byte) \<longleftrightarrow> d = 0 \<and> (\<forall>i \<in> set is. f i = 0)"
  by (induction "is" arbitrary: d) (auto simp: or_eq_0_iff)

lemma nat_xor_eq_0_iff: "(a::nat) XOR b = 0 \<longleftrightarrow> a = b"
  by (metis xor.assoc xor_self_eq xor.left_neutral xor.right_neutral)

lemma to_byte_eq_0_iff: "to_byte n = 0 \<longleftrightarrow> n mod 256 = 0"
  by (metis to_byte_unat unat_0 unat_to_byte)

lemma xor_mod_256: "(a XOR b) mod 256 = (a mod 256) XOR (b mod 256 :: nat)"
  using take_bit_xor [of 8 a b] by (simp add: take_bit_eq_mod)

lemma constant_time_equal_iff:
  "constant_time_equal xs ys \<longleftrightarrow> length xs mod 256 = length ys mod 256 \<and> (\<forall>i. byte_or_zero xs i = byte_or_zero ys i)"
  by (auto simp: constant_time_equal_def foldl_or_eq_0 word_xor_eq_0 to_byte_eq_0_iff xor_mod_256 nat_xor_eq_0_iff)
    (auto simp: byte_or_zero_def)

lemma constant_time_equal_refl [simp]: "constant_time_equal xs xs"
  by (simp add: constant_time_equal_iff)

lemma constant_time_equal_exact:
  assumes "length xs < 256" and "length ys < 256"
  shows "constant_time_equal xs ys \<longleftrightarrow> xs = ys"
proof
  assume "constant_time_equal xs ys"
  then have "length xs = length ys" and "byte_or_zero xs i = byte_or_zero ys i" for i
    using assms by (auto simp: constant_time_equal_iff)
  then show "xs = ys" by (metis byte_or_zero_def nth_equalityI)
qed simp

lemma constant_time_equal_padded: "constant_time_equal xs (xs @ replicate (256 * k) 0)"
  by (auto simp: constant_time_equal_iff byte_or_zero_def nth_append)
section \<open>Lemmas: cursors\<close>

text \<open>A reader that is exact in both directions: it reads back what was written, and what it reads is
  an encoding that was there.\<close>

locale exact_cursor_codec = cursor_codec +
  assumes rd_exact: "rd input off = Some (x, off') \<Longrightarrow>
    valid x \<and> off' = off + length (enc x) \<and> off' \<le> length input \<and> take (length (enc x)) (drop off input) = enc x"
begin

lemma rd_Some_iff:
  "rd input off = Some (x, off') \<longleftrightarrow>
     valid x \<and> off' = off + length (enc x) \<and> off' \<le> length input \<and> take (length (enc x)) (drop off input) = enc x"
proof
  assume r: "valid x \<and> off' = off + length (enc x) \<and> off' \<le> length input \<and> take (length (enc x)) (drop off input) = enc x"
  then have "at_bytes input off (enc x @ drop (length (enc x)) (drop off input))"
    by (metis append_take_drop_id at_bytes_def le_add1 order_trans)
  then show "rd input off = Some (x, off')" using r rd_enc by blast
qed (rule rd_exact)

lemma split_at:
  assumes "rd input off = Some (x, off')"
  shows "off \<le> off'" and "off' \<le> length input" and "valid x" and "drop off input = enc x @ drop off' input"
  using rd_exact [OF assms] append_take_drop_id [of "length (enc x)" "drop off input"]
  by (auto simp: add.commute)

end


definition u16_bytes :: "16 word \<Rightarrow> buffer" where
  "u16_bytes v = append_u16 [] v"

definition u64_bytes :: "u64 \<Rightarrow> buffer" where
  "u64_bytes v = append_u64 [] v"

lemma length_u16_bytes [simp]: "length (u16_bytes v) = 2"
  by (simp add: u16_bytes_def append_u16_def)

lemma length_u64_bytes [simp]: "length (u64_bytes v) = 8"
  by (simp add: u64_bytes_def append_u64_def)

lemma append_u16_eq: "append_u16 output v = output @ u16_bytes v"
  by (simp add: u16_bytes_def append_u16_def)

lemma append_u64_eq: "append_u64 output v = output @ u64_bytes v"
  by (simp add: u64_bytes_def append_u64_def)

lemma append_string_eq: "append_string out s = out @ map byte_of_char s"
  unfolding append_string_def by (induction s arbitrary: out) auto

lemma map_byte_of_char_of_byte [simp]: "map (byte_of_char \<circ> char_of_byte) bs = bs"
  by (induction bs) (auto simp: byte_of_char_def char_of_byte_def)

lemmas append_eqs = append_u16_eq append_u64_eq append_string_eq append_bytes_def

lemma u16_bytes_join:
  "push_bit 8 (ucast ((ucast (drop_bit 8 v AND 0xff)) :: byte)) OR ucast ((ucast (v AND 0xff)) :: byte) = (v :: 16 word)"
proof -
  have ff: "(0xff :: 16 word) = mask 8" by (simp add: mask_eq_exp_minus_1)
  show ?thesis
    unfolding ff by (rule bit_word_eqI) (auto simp: bit_simps)
qed

lemma u16_bytes_split: "u16_bytes (push_bit 8 (ucast a) OR ucast b) = [a, b]"
proof -
  have ff: "(0xff :: 16 word) = mask 8" by (simp add: mask_eq_exp_minus_1)
  have "ucast (drop_bit 8 (push_bit 8 (ucast a) OR ucast b) AND (mask 8 :: 16 word)) = a"
    "ucast ((push_bit 8 (ucast a) OR ucast b) AND (mask 8 :: 16 word)) = b"
    by (rule bit_word_eqI; auto simp: bit_simps dest: bit_imp_le_length)+
  then show ?thesis unfolding u16_bytes_def append_u16_def ff by simp
qed

lemma be_bytes_8: "be_bytes 8 v = to_byte (v div 72057594037927936) # be_bytes 7 v"
  using be_bytes.simps(2) [of 7 v] by simp

lemma u64_bytes_be: "u64_bytes v = be_bytes 8 v"
  by (simp add: u64_bytes_def append_u64_def be_bytes_8 be_bytes_7 codec_simps drop_bit_eq_div)

lemma be_bytes_be_val: "be_bytes (length bs) (be_val bs) = bs"
proof (induction bs)
  case (Cons b bs)
  have "be_val (b # bs) div 256 ^ length bs = unat b"
    using be_val_less [of bs] by (simp add: be_val_Cons)
  moreover have "be_bytes (length bs) (be_val (b # bs)) = be_bytes (length bs) (be_val bs)"
    using be_bytes_prefix [of "length bs" "length bs" "unat b" "be_val bs"] by (simp add: be_val_Cons)
  ultimately show ?case using Cons by simp
qed simp

lemma take_drop_nths: "off + n \<le> length input \<Longrightarrow> map (\<lambda>i. input ! (off + i)) [0..<n] = take n (drop off input)"
  by (auto intro: nth_equalityI)

lemma read_u64_eq:
  "read_u64 input off = (if off + 8 \<le> length input then Some (be_val (take 8 (drop off input)), off + 8) else None)"
proof (cases "off + 8 \<le> length input")
  case True
  let ?bs = "take 8 (drop off input)"
  have "be_val ?bs < 256 ^ length ?bs" by (rule be_val_less)
  then have "be_val ?bs < 2 ^ 64" using True by simp
  then have "foldl (\<lambda>v b. u64_shl v 8 OR unat b) 0 ?bs = be_val ?bs"
    using varint_loop_be [of 0 ?bs] by (simp add: varint_loop_def)
  then show ?thesis
    using True take_drop_nths [OF True] foldl_map [of "\<lambda>v b. u64_shl v 8 OR unat b" 0 "\<lambda>i. input ! (off + i)" "[0..<8]"]
    by (simp add: read_u64_def)
qed (simp add: read_u64_def)

lemma read_u64_enc:
  assumes "is_u64 v" and "at_bytes input off (u64_bytes v @ rest)"
  shows "read_u64 input off = Some (v, off + length (u64_bytes v))"
  using assms at_bytes_take [OF assms(2)] at_bytes_length [OF assms(2)]
  by (simp add: read_u64_eq u64_bytes_be be_val_be_bytes is_u64_def)

lemma read_u64_exact:
  assumes "read_u64 input off = Some (v, off')"
  shows "is_u64 v \<and> off' = off + length (u64_bytes v) \<and> off' \<le> length input \<and>
    take (length (u64_bytes v)) (drop off input) = u64_bytes v"
  using assms be_bytes_be_val [of "take 8 (drop off input)"] be_val_less [of "take 8 (drop off input)"]
  by (auto simp: read_u64_eq u64_bytes_be is_u64_def split: if_splits)

lemma read_u16_enc:
  assumes "at_bytes input off (u16_bytes v @ rest)"
  shows "read_u16 input off = Some (v, off + length (u16_bytes v))"
proof -
  have "off + 2 \<le> length input" using at_bytes_length [OF assms] by simp
  then have "[input ! off, input ! (off + 1)] = take 2 (drop off input)"
    using take_drop_nths [of off 2 input] by (simp add: upt_rec numeral_2_eq_2)
  also have "\<dots> = u16_bytes v" using at_bytes_take [OF assms] by simp
  finally show ?thesis
    using at_bytes_length [OF assms] u16_bytes_join [of v] by (simp add: read_u16_def u16_bytes_def append_u16_def)
qed

lemma read_u16_exact:
  assumes "read_u16 input off = Some (v, off')"
  shows "off' = off + length (u16_bytes v) \<and> off' \<le> length input \<and> take (length (u16_bytes v)) (drop off input) = u16_bytes v"
proof -
  have "off + 2 \<le> length input" using assms by (simp add: read_u16_def split: if_splits)
  then have "[input ! off, input ! (off + 1)] = take 2 (drop off input)"
    using take_drop_nths [of off 2 input] by (simp add: upt_rec numeral_2_eq_2)
  then show ?thesis using assms u16_bytes_split by (auto simp: read_u16_def split: if_splits)
qed

interpretation u16_reader: exact_cursor_codec u16_bytes "\<lambda>_. True" read_u16
  using read_u16_enc read_u16_exact by unfold_locales auto

interpretation u64_reader: exact_cursor_codec u64_bytes is_u64 read_u64
  using read_u64_enc read_u64_exact by unfold_locales auto

lemma read_bytes_Some_iff:
  "read_bytes input off n = Some (bs, off') \<longleftrightarrow>
     off' = off + unat n \<and> off' \<le> length input \<and> bs = take (unat n) (drop off input)"
  by (auto simp: read_bytes_def)

lemma read_bytes_at:
  assumes "at_bytes input off (bs @ rest)" and "unat n = length bs"
  shows "read_bytes input off n = Some (bs, off + length bs)"
  using at_bytes_take [OF assms(1)] at_bytes_length [OF assms(1)] assms(2) by (simp add: read_bytes_def)

lemma read_bytes_split:
  assumes "read_bytes input off n = Some (bs, off')"
  shows "off \<le> off'" and "off' \<le> length input" and "length bs = unat n" and "drop off input = bs @ drop off' input"
  using assms append_take_drop_id [of "unat n" "drop off input"]
  by (auto simp: read_bytes_Some_iff add.commute)

lemma unat_u16_length: "n \<le> uint16_max \<Longrightarrow> unat (word_of_nat n :: 16 word) = n"
  by (simp add: unat_of_nat)

section \<open>Lemmas: the token codec is exact\<close>

definition payload_bytes :: "decoded_retry_token_payload \<Rightarrow> buffer" where
  "payload_bytes d = u64_bytes (drp_issued_at_seconds d) @ u16_bytes (word_of_nat (length (drp_host d))) @
     map byte_of_char (drp_host d) @ u16_bytes (drp_port d) @
     u16_bytes (word_of_nat (length (cid_bytes (drp_original_destination_connection_id d)))) @
     cid_bytes (drp_original_destination_connection_id d)"

definition payload_valid :: "decoded_retry_token_payload \<Rightarrow> bool" where
  "payload_valid d \<longleftrightarrow> is_u64 (drp_issued_at_seconds d) \<and> length (drp_host d) \<le> uint16_max \<and>
     length (cid_bytes (drp_original_destination_connection_id d)) \<le> uint16_max"

definition token_bytes :: "buffer \<Rightarrow> buffer \<Rightarrow> buffer" where
  "token_bytes payload tag = map byte_of_char ''FQRT'' @ [0x01] @ u16_bytes (word_of_nat (length payload)) @ payload @
     u16_bytes (word_of_nat (length tag)) @ tag"

definition payload_of :: "retry_token_context \<Rightarrow> decoded_retry_token_payload" where
  "payload_of c = \<lparr>drp_issued_at_seconds = nat (rtc_now c sdiv seconds 1), drp_host = ep_host (rtc_remote c),
     drp_port = ep_port (rtc_remote c), drp_original_destination_connection_id = rtc_original_destination_connection_id c\<rparr>"

lemma encode_payload_iff:
  "encode_retry_token_payload c = Inr p \<longleftrightarrow>
     rtc_now c sdiv seconds 1 \<ge> 0 \<and> length (ep_host (rtc_remote c)) \<le> uint16_max \<and>
     length (cid_bytes (rtc_original_destination_connection_id c)) \<le> uint16_max \<and> p = payload_bytes (payload_of c)"
  by (auto simp: encode_retry_token_payload_def append_eqs payload_bytes_def payload_of_def Let_def)

lemma encode_token_iff:
  "encode_retry_token p t = Inr b \<longleftrightarrow> length p \<le> uint16_max \<and> length t \<le> uint16_max \<and> b = token_bytes p t"
  by (auto simp: encode_retry_token_def append_eqs token_bytes_def Let_def)

lemma decode_payload_bytes:
  assumes "payload_valid d"
  shows "decode_retry_token_payload (payload_bytes d) = Inr d"
proof -
  let ?h = "drp_host d" and ?c = "cid_bytes (drp_original_destination_connection_id d)"
  have a0: "at_bytes (payload_bytes d) 0 (u64_bytes (drp_issued_at_seconds d) @ u16_bytes (word_of_nat (length ?h)) @
      map byte_of_char ?h @ u16_bytes (drp_port d) @ u16_bytes (word_of_nat (length ?c)) @ ?c @ [])"
    by (auto simp: payload_bytes_def)
  note v = assms [unfolded payload_valid_def]
  note r0 = u64_reader.rd_advance [OF conjunct1 [OF v] a0]
  note r1 = u16_reader.rd_advance [OF TrueI conjunct2 [OF r0]]
  note r2 = read_bytes_at [OF conjunct2 [OF r1], of "word_of_nat (length ?h)"] at_bytes_advance [OF conjunct2 [OF r1]]
  note r3 = u16_reader.rd_advance [OF TrueI r2(2)]
  note r4 = u16_reader.rd_advance [OF TrueI conjunct2 [OF r3]]
  note r5 = read_bytes_at [OF conjunct2 [OF r4], of "word_of_nat (length ?c)"] at_bytes_advance [OF conjunct2 [OF r4]]
  show ?thesis
    using r0 r1 r2(1) r3 r4 r5(1) at_bytes_length [OF r5(2)] v
    by (simp add: decode_retry_token_payload_def unat_u16_length)
qed

lemma word_of_nat_length: "length xs = unat (n :: 'a::len word) \<Longrightarrow> word_of_nat (length xs) = n"
  by simp

lemma decode_payload_exact:
  assumes "decode_retry_token_payload input = Inr d"
  shows "payload_valid d \<and> input = payload_bytes d"
proof -
  from assms obtain s o1 hn o2 h o3 port o4 cn o5 c o6 where
    r: "read_u64 input 0 = Some (s, o1)" "read_u16 input o1 = Some (hn, o2)" "read_bytes input o2 hn = Some (h, o3)"
      "read_u16 input o3 = Some (port, o4)" "read_u16 input o4 = Some (cn, o5)" "read_bytes input o5 cn = Some (c, o6)"
      "o6 = length input"
    and d: "d = \<lparr>drp_issued_at_seconds = s, drp_host = map char_of_byte h, drp_port = port,
      drp_original_destination_connection_id = \<lparr>cid_bytes = c\<rparr>\<rparr>"
    by (auto simp: decode_retry_token_payload_def split: option.splits if_splits)
  note l = read_bytes_split(3) [OF r(3)] read_bytes_split(3) [OF r(6)]
  have "input = u64_bytes s @ u16_bytes hn @ h @ u16_bytes port @ u16_bytes cn @ c"
    using u64_reader.split_at(4) [OF r(1)] u16_reader.split_at(4) [OF r(2)] read_bytes_split(4) [OF r(3)]
      u16_reader.split_at(4) [OF r(4)] u16_reader.split_at(4) [OF r(5)] read_bytes_split(4) [OF r(6)] r(7) by simp
  then show ?thesis
    using l u64_reader.split_at(3) [OF r(1)] unsigned_less [of hn, where 'a = nat] unsigned_less [of cn, where 'a = nat]
    by (simp add: d payload_bytes_def payload_valid_def)
qed

lemma decode_payload_iff: "decode_retry_token_payload input = Inr d \<longleftrightarrow> payload_valid d \<and> input = payload_bytes d"
  using decode_payload_bytes decode_payload_exact by blast

lemma parse_token_bytes:
  assumes "length p \<le> uint16_max" and "length t \<le> uint16_max" and "t \<noteq> []"
  shows "parse_retry_token (token_bytes p t) = Inr (p, t)"
proof -
  let ?i = "token_bytes p t"
  have a0: "at_bytes ?i 5 (u16_bytes (word_of_nat (length p)) @ p @ u16_bytes (word_of_nat (length t)) @ t @ [])"
    by (auto simp: at_bytes_def token_bytes_def)
  note r0 = u16_reader.rd_advance [OF TrueI a0]
  note r1 = read_bytes_at [OF conjunct2 [OF r0], of "word_of_nat (length p)"] at_bytes_advance [OF conjunct2 [OF r0]]
  note r2 = u16_reader.rd_advance [OF TrueI r1(2)]
  note r3 = read_bytes_at [OF conjunct2 [OF r2], of "word_of_nat (length t)"] at_bytes_advance [OF conjunct2 [OF r2]]
  have nz: "(word_of_nat (length t) :: 16 word) \<noteq> 0"
    using assms(2,3) by (metis length_0_conv unat_0 unat_u16_length)
  have hd: "length ?i \<ge> 9" "?i ! 0 = byte_of_char (CHR ''F'')" "?i ! 1 = byte_of_char (CHR ''Q'')"
    "?i ! 2 = byte_of_char (CHR ''R'')" "?i ! 3 = byte_of_char (CHR ''T'')" "?i ! 4 = 0x01"
    by (simp_all add: token_bytes_def)
  show ?thesis
    using r0 r1(1) r2 r3(1) at_bytes_length [OF r3(2)] nz hd assms
    by (simp add: parse_retry_token_def unat_u16_length)
qed

lemma five_bytes: "9 \<le> length input \<Longrightarrow> input = [input ! 0, input ! 1, input ! 2, input ! 3, input ! 4] @ drop 5 input"
  by (rule nth_equalityI) (auto simp: nth_Cons nth_append eval_nat_numeral split: nat.splits)

lemma parse_token_exact:
  assumes "parse_retry_token input = Inr (p, t)"
  shows "length p \<le> uint16_max \<and> length t \<le> uint16_max \<and> t \<noteq> [] \<and> input = token_bytes p t"
proof -
  from assms obtain pn o1 o2 tn o3 o4 where
    hd: "9 \<le> length input" "input ! 0 = byte_of_char (CHR ''F'')" "input ! 1 = byte_of_char (CHR ''Q'')"
      "input ! 2 = byte_of_char (CHR ''R'')" "input ! 3 = byte_of_char (CHR ''T'')" "input ! 4 = 0x01"
    and r: "read_u16 input 5 = Some (pn, o1)" "read_bytes input o1 pn = Some (p, o2)" "read_u16 input o2 = Some (tn, o3)"
      "tn \<noteq> 0" "read_bytes input o3 tn = Some (t, o4)" "o4 = length input"
    by (auto simp: parse_retry_token_def split: option.splits if_splits)
  note l = read_bytes_split(3) [OF r(2)] read_bytes_split(3) [OF r(5)]
  have "drop 5 input = u16_bytes pn @ p @ u16_bytes tn @ t"
    using u16_reader.split_at(4) [OF r(1)] read_bytes_split(4) [OF r(2)] u16_reader.split_at(4) [OF r(3)]
      read_bytes_split(4) [OF r(5)] r(6) by simp
  then have "input = token_bytes p t"
    using five_bytes [OF hd(1)] hd(2-6) l by (simp add: token_bytes_def)
  moreover have "t \<noteq> []" using l(2) r(4) by (auto simp: unat_eq_zero)
  ultimately show ?thesis
    using l unsigned_less [of pn, where 'a = nat] unsigned_less [of tn, where 'a = nat] by simp
qed

lemma parse_token_iff:
  "parse_retry_token input = Inr (p, t) \<longleftrightarrow>
     length p \<le> uint16_max \<and> length t \<le> uint16_max \<and> t \<noteq> [] \<and> input = token_bytes p t"
  using parse_token_bytes parse_token_exact by blast

section \<open>Lemmas: issuing and validating\<close>

lemma error_ok_retry_token_error [simp]: "\<not> error_ok (retry_token_error m)"
  by (simp add: retry_token_error_def)

abbreviation tag_of :: "retry_token_validator \<Rightarrow> buffer \<Rightarrow> retry_integrity_result" where
  "tag_of v payload \<equiv> compute_integrity_tag (rtv_integrity_provider v) retry_token_integrity_context payload"

lemma lifetime_ok [simp]: "error_ok (validate_retry_token_lifetime l) \<longleftrightarrow> l > 0"
  by (simp add: validate_retry_token_lifetime_def)

lemma issue_token_iff:
  "issue_token v c = Inr tok \<longleftrightarrow>
     rtv_lifetime v > 0 \<and> rtc_now c sdiv seconds 1 \<ge> 0 \<and> length (ep_host (rtc_remote c)) \<le> uint16_max \<and>
     length (cid_bytes (rtc_original_destination_connection_id c)) \<le> uint16_max \<and>
     length (payload_bytes (payload_of c)) \<le> uint16_max \<and>
     error_ok (rir_error (tag_of v (payload_bytes (payload_of c)))) \<and>
     length (rir_tag (tag_of v (payload_bytes (payload_of c)))) \<le> uint16_max \<and>
     tok = token_bytes (payload_bytes (payload_of c)) (rir_tag (tag_of v (payload_bytes (payload_of c))))"
proof (cases "encode_retry_token_payload c")
  case (Inl e)
  then have "encode_retry_token_payload c \<noteq> Inr (payload_bytes (payload_of c))" by simp
  with Inl show ?thesis unfolding encode_payload_iff issue_token_def by (auto simp: Let_def)
next
  case (Inr p)
  with encode_payload_iff [of c p] show ?thesis by (auto simp: issue_token_def encode_token_iff Let_def)
qed

lemma verify_ok_iff:
  "error_ok (verify_integrity_tag pr h p t) \<longleftrightarrow>
     t \<noteq> [] \<and> error_ok (rir_error (compute_integrity_tag pr h p)) \<and> constant_time_equal (rir_tag (compute_integrity_tag pr h p)) t"
  by (auto simp: verify_integrity_tag_def Let_def)

text \<open>The conditions on the contents of a token, with the context it is presented in.\<close>

definition payload_accepted :: "retry_token_validator \<Rightarrow> decoded_retry_token_payload \<Rightarrow> retry_token_context \<Rightarrow> bool" where
  "payload_accepted v d c \<longleftrightarrow>
     drp_issued_at_seconds d \<le> int64_max \<and> seconds (int (drp_issued_at_seconds d)) \<le> rtc_now c \<and>
     rtc_now c - seconds (int (drp_issued_at_seconds d)) \<le> rtv_lifetime v \<and>
     drp_host d = ep_host (rtc_remote c) \<and> drp_port d = ep_port (rtc_remote c) \<and>
     constant_time_equal (cid_bytes (drp_original_destination_connection_id d)) (cid_bytes (rtc_original_destination_connection_id c))"

lemma validate_token_iff:
  "error_ok (validate_token v tok c) \<longleftrightarrow>
     rtv_lifetime v > 0 \<and> (\<exists>p t d. parse_retry_token tok = Inr (p, t) \<and> decode_retry_token_payload p = Inr d \<and>
       error_ok (rir_error (tag_of v p)) \<and> constant_time_equal (rir_tag (tag_of v p)) t \<and> payload_accepted v d c)"
proof (cases "tok = [] \<or> rtv_lifetime v \<le> 0")
  case True
  then show ?thesis by (auto simp: validate_token_def validate_token_shape_def parse_retry_token_def Let_def)
next
  case False
  show ?thesis
  proof (cases "parse_retry_token tok")
    case (Inl e)
    have "\<not> error_ok e" using Inl by (auto simp: parse_retry_token_def split: if_splits option.splits)
    with Inl False show ?thesis by (simp add: validate_token_def validate_token_shape_def Let_def)
  next
    case (Inr pt)
    obtain p t where pt: "pt = (p, t)" by (cases pt)
    have t: "t \<noteq> []" using Inr parse_token_exact pt by blast
    show ?thesis
    proof (cases "decode_retry_token_payload p")
      case dl: (Inl e)
      have "\<not> error_ok e" using dl by (auto simp: decode_retry_token_payload_def split: if_splits option.splits)
      with dl Inr pt False show ?thesis by (simp add: validate_token_def validate_token_shape_def Let_def)
    next
      case dr: (Inr d)
      with Inr pt False t show ?thesis
        by (auto simp: validate_token_def validate_token_shape_def verify_ok_iff payload_accepted_def Let_def)
    qed
  qed
qed

lemma seconds_bounds:
  assumes "now sdiv seconds 1 \<ge> 0" and "now < 2 ^ 63"
  shows "nat (now sdiv seconds 1) \<le> int64_max" and "now \<ge> 0 \<Longrightarrow> seconds (now sdiv seconds 1) \<le> now"
    and "now - seconds (now sdiv seconds 1) < seconds 1"
  using assms by (auto simp: seconds_def signed_divide_int_def sgn_if split: if_splits)

lemma payload_of_valid:
  "rtc_now c < 2 ^ 63 \<Longrightarrow> issue_token v c = Inr tok \<Longrightarrow> payload_valid (payload_of c)"
  unfolding issue_token_iff payload_valid_def is_u64_def
  using seconds_bounds(1) [of "rtc_now c"] by (auto simp: payload_of_def)

lemma issued_payload_accepted_iff:
  assumes "issue_token v c = Inr tok" and "rtc_now c < 2 ^ 63" and "rir_tag (tag_of v (payload_bytes (payload_of c))) \<noteq> []"
  shows "error_ok (validate_token v tok c') \<longleftrightarrow> payload_accepted v (payload_of c) c'"
proof -
  let ?d = "payload_of c" and ?t = "rir_tag (tag_of v (payload_bytes (payload_of c)))"
  note i = assms(1) [unfolded issue_token_iff]
  have "parse_retry_token tok = Inr (payload_bytes ?d, ?t)" using i assms(3) by (simp add: parse_token_iff)
  moreover have "decode_retry_token_payload (payload_bytes ?d) = Inr ?d"
    using decode_payload_bytes payload_of_valid [OF assms(2,1)] by blast
  ultimately show ?thesis using i by (auto simp: validate_token_iff)
qed

section \<open>Properties: Retry tokens\<close>


text \<open>A server whose tag is the parity of the payload, and a client it meets.\<close>

definition parity_tag :: tag_function where
  "parity_tag context payload = \<lparr>rir_tag = [foldl (XOR) 0 payload], rir_error = no_error\<rparr>"

definition example_validator :: retry_token_validator where
  "example_validator = \<lparr>rtv_integrity_provider = Some parity_tag, rtv_lifetime = seconds 60\<rparr>"

definition example_context :: retry_token_context where
  "example_context = \<lparr>rtc_remote = \<lparr>ep_host = ''10.0.0.7'', ep_port = 443, ep_alpn = ''h3''\<rparr>,
     rtc_original_destination_connection_id = \<lparr>cid_bytes = [1, 2, 3, 4]\<rparr>, rtc_now = seconds 100 + 7\<rparr>"

lemmas example_token_simps = example_validator_def example_context_def compute_integrity_tag_def parity_tag_def

lemma example_token:
  "issue_token example_validator example_context =
     Inr (token_bytes (payload_bytes (payload_of example_context)) [foldl (XOR) 0 (payload_bytes (payload_of example_context))])"
  "length (payload_bytes (payload_of example_context)) = 26"
proof -
  show len: "length (payload_bytes (payload_of example_context)) = 26"
    by (simp add: payload_bytes_def payload_of_def example_context_def)
  have "rtc_now example_context sdiv seconds 1 = 100"
    by (simp add: example_context_def seconds_def signed_divide_int_def sgn_if)
  then show "issue_token example_validator example_context =
     Inr (token_bytes (payload_bytes (payload_of example_context)) [foldl (XOR) 0 (payload_bytes (payload_of example_context))])"
    using len unfolding issue_token_iff by (simp add: example_token_simps seconds_def)
qed

lemma example_seconds: "rtc_now example_context sdiv seconds 1 = 100"
  by (simp add: example_context_def seconds_def signed_divide_int_def sgn_if)




text \<open>Because \<open>constant_time_equal\<close> looks at lengths modulo 256 only, a genuine token stays valid when its tag
  is extended by a multiple of 256 zero bytes.\<close>

lemma padded_token_accepted:
  assumes "issue_token v c = Inr (token_bytes p t)" and "t \<noteq> []" and "rtc_now c < 2 ^ 63" and "length t + 256 * k \<le> uint16_max"
    and "p = payload_bytes (payload_of c)" and "payload_accepted v (payload_of c) c'"
  shows "error_ok (validate_token v (token_bytes p (t @ replicate (256 * k) 0)) c')"
proof -
  note i = assms(1) [unfolded issue_token_iff]
  have "parse_retry_token (token_bytes p t) = Inr (p, rir_tag (tag_of v p)) \<or> rir_tag (tag_of v p) = []"
    using i assms(5) by (auto simp: parse_token_iff)
  moreover have "parse_retry_token (token_bytes p t) = Inr (p, t)" using assms(2,4) i assms(5) by (simp add: parse_token_iff)
  moreover have "rir_tag (tag_of v p) \<noteq> []"
  proof
    assume e: "rir_tag (tag_of v p) = []"
    have "length (token_bytes p t) = length (token_bytes p [])" using i assms(5) e by simp
    then show False using assms(2) by (simp add: token_bytes_def)
  qed
  ultimately have t: "t = rir_tag (tag_of v p)" by simp
  have "parse_retry_token (token_bytes p (t @ replicate (256 * k) 0)) = Inr (p, t @ replicate (256 * k) 0)"
    using i assms(2,4,5) by (simp add: parse_token_iff)
  moreover have "decode_retry_token_payload p = Inr (payload_of c)"
    using decode_payload_bytes payload_of_valid [OF assms(3,1)] assms(5) by blast
  ultimately show ?thesis
    using i assms(5,6) constant_time_equal_padded [of t k] t by (auto simp: validate_token_iff)
qed

section \<open>The routing table as a map\<close>

text \<open>What the endpoint driver relies on: a table of handles is a finite partial map with the number of its entries.\<close>

locale handle_table =
  fixes empty :: 't
    and put :: "'k \<Rightarrow> 'h \<Rightarrow> 't \<Rightarrow> 't"
    and remove :: "'k \<Rightarrow> 't \<Rightarrow> 't"
    and get :: "'k \<Rightarrow> 't \<Rightarrow> 'h option"
    and count :: "'t \<Rightarrow> nat"
    and invar :: "'t \<Rightarrow> bool"
  assumes get_empty: "get k empty = None"
    and get_put: "invar t \<Longrightarrow> get k' (put k h t) = (if k' = k then Some h else get k' t)"
    and get_remove: "invar t \<Longrightarrow> get k' (remove k t) = (if k' = k then None else get k' t)"
    and count_get: "invar t \<Longrightarrow> finite {k. get k t \<noteq> None} \<and> count t = card {k. get k t \<noteq> None}"
    and invar_empty: "invar empty"
    and invar_put: "invar t \<Longrightarrow> invar (put k h t)"
    and invar_remove: "invar t \<Longrightarrow> invar (remove k t)"
begin

definition table_map :: "'t \<Rightarrow> 'k \<Rightarrow> 'h option" where
  "table_map t = (\<lambda>k. get k t)"

lemma dom_table_map: "dom (table_map t) = {k. get k t \<noteq> None}"
  by (auto simp: table_map_def)

lemma table_map_empty: "table_map empty = (\<lambda>_. None)"
  by (simp add: table_map_def get_empty)

lemma table_map_put: "invar t \<Longrightarrow> table_map (put k h t) = (table_map t)(k \<mapsto> h)"
  by (auto simp: table_map_def get_put)

lemma table_map_remove: "invar t \<Longrightarrow> table_map (remove k t) = (table_map t)(k := None)"
  by (auto simp: table_map_def get_remove)

lemma count_table_map: "invar t \<Longrightarrow> count t = card (dom (table_map t))"
  by (simp add: count_get dom_table_map)

lemma count_put_le: "invar t \<Longrightarrow> count (put k h t) \<le> Suc (count t)"
  using count_get [of t] card_insert_le_m1
  by (simp add: count_table_map invar_put table_map_put dom_table_map card_insert_if)

lemma count_remove_le: "invar t \<Longrightarrow> count (remove k t) \<le> count t"
  using count_get [of t] by (simp add: count_table_map invar_remove table_map_remove dom_table_map card_Diff1_le)

end

lemma connection_id_key_eq [simp]: "connection_id_key cid = cid_bytes cid"
  by (simp add: connection_id_key_def map_nth)

definition routing_wf :: "routing_table \<Rightarrow> bool" where
  "routing_wf t \<longleftrightarrow> distinct (map fst (rt_entries t)) \<and> distinct (map fst (rt_reset_tokens t))"

lemma cid_eq_iff: "cid_bytes a = cid_bytes b \<longleftrightarrow> (a :: connection_id) = b"
  by (cases a; cases b) simp

lemma image_cid_bytes: "cid_bytes ` {cid. cid_bytes cid \<in> A} = A"
  by (auto simp: image_iff) (metis connection_id.select_convs(1))

lemma active_count_card:
  assumes "routing_wf t"
  shows "finite {cid. lookup cid t \<noteq> None} \<and> active_count t = card {cid. lookup cid t \<noteq> None}"
proof -
  have eq: "{cid. lookup cid t \<noteq> None} = {cid. cid_bytes cid \<in> fst ` set (rt_entries t)}"
    by (auto simp: lookup_def map_of_eq_None_iff)
  have inj: "inj_on cid_bytes {cid. lookup cid t \<noteq> None}" by (auto simp: inj_on_def cid_eq_iff)
  have img: "cid_bytes ` {cid. lookup cid t \<noteq> None} = fst ` set (rt_entries t)" unfolding eq by (rule image_cid_bytes)
  have "card (fst ` set (rt_entries t)) = length (rt_entries t)"
    using assms distinct_card [of "map fst (rt_entries t)"] by (simp add: routing_wf_def)
  then show ?thesis
    using finite_imageD [OF _ inj] img card_image [OF inj] by (simp add: active_count_def)
qed

interpretation routes: handle_table new_routing_table add retire lookup active_count routing_wf
proof (unfold_locales, goal_cases)
  case (4 t)
  then show ?case by (rule active_count_card)
qed (auto simp: new_routing_table_def add_def retire_def lookup_def routing_wf_def update_conv' delete_conv'
      cid_eq_iff distinct_update distinct_delete)

section \<open>Properties: the endpoint driver\<close>

datatype driver_call =
    Start | Stop | Register connection_id u64 | RegisterWithToken connection_id u64 buffer | Unregister connection_id

fun driver_step :: "driver_call \<Rightarrow> endpoint_driver \<Rightarrow> endpoint_driver" where
  "driver_step Start d = start d"
| "driver_step Stop d = stop d"
| "driver_step (Register cid h) d = snd (register_connection cid h d)"
| "driver_step (RegisterWithToken cid h tok) d = snd (register_connection_with_token cid h tok d)"
| "driver_step (Unregister cid) d = unregister_connection cid d"

text \<open>The specification: two maps and a flag.  A registration takes effect when the driver runs and fewer than
  \<open>m\<close> identifiers are registered; a reset token outlives its registration.\<close>

record driver_spec =
  ds_running :: bool
  ds_routes :: "connection_id \<rightharpoonup> u64"
  ds_tokens :: "connection_id \<rightharpoonup> buffer"

definition spec_open :: "nat \<Rightarrow> driver_spec \<Rightarrow> bool" where
  "spec_open m s \<longleftrightarrow> ds_running s \<and> card (dom (ds_routes s)) < m"

fun spec_step :: "nat \<Rightarrow> driver_call \<Rightarrow> driver_spec \<Rightarrow> driver_spec" where
  "spec_step m Start s = s\<lparr>ds_running := True\<rparr>"
| "spec_step m Stop s = s\<lparr>ds_running := False\<rparr>"
| "spec_step m (Register cid h) s = (if spec_open m s then s\<lparr>ds_routes := (ds_routes s)(cid \<mapsto> h)\<rparr> else s)"
| "spec_step m (RegisterWithToken cid h tok) s =
     (if spec_open m s then s\<lparr>ds_routes := (ds_routes s)(cid \<mapsto> h), ds_tokens := (ds_tokens s)(cid \<mapsto> tok)\<rparr> else s)"
| "spec_step m (Unregister cid) s = s\<lparr>ds_routes := (ds_routes s)(cid := None)\<rparr>"

definition driver_abs :: "endpoint_driver \<Rightarrow> driver_spec" where
  "driver_abs d = \<lparr>ds_running = ed_running d, ds_routes = (\<lambda>cid. lookup_connection cid d),
     ds_tokens = (\<lambda>cid. lookup_stateless_reset_token cid (ed_routing d))\<rparr>"

definition driver_wf :: "nat \<Rightarrow> stateless_reset_packet_config \<Rightarrow> endpoint_driver \<Rightarrow> bool" where
  "driver_wf m cfg d \<longleftrightarrow> routing_wf (ed_routing d) \<and> ed_max_connections d = m \<and> ed_stateless_reset d = cfg \<and> connection_count d \<le> m"

lemma routing_wf_token [simp]: "routing_wf t \<Longrightarrow> routing_wf (add_stateless_reset_token cid tok t)"
  by (auto simp: add_stateless_reset_token_def routing_wf_def distinct_update)

lemma active_count_token [simp]: "active_count (add_stateless_reset_token cid tok t) = active_count t"
  by (simp add: add_stateless_reset_token_def active_count_def)

lemma lookup_token [simp]:
  "lookup cid (add_stateless_reset_token cid' tok t) = lookup cid t"
  "lookup_stateless_reset_token cid (add cid' h t) = lookup_stateless_reset_token cid t"
  "lookup_stateless_reset_token cid (retire cid' t) = lookup_stateless_reset_token cid t"
  "lookup_stateless_reset_token cid (add_stateless_reset_token cid' tok t) =
     (if cid = cid' then Some tok else lookup_stateless_reset_token cid t)"
  by (auto simp: add_stateless_reset_token_def add_def retire_def lookup_def lookup_stateless_reset_token_def
      update_conv' cid_eq_iff)

lemmas driver_defs = register_connection_def register_connection_with_token_def register_connection_impl_def
  unregister_connection_def start_def stop_def connection_count_def

lemma driver_step_wf:
  assumes "driver_wf m cfg d"
  shows "driver_wf m cfg (driver_step call d)"
proof -
  have r: "routing_wf (ed_routing d)" using assms by (simp add: driver_wf_def)
  have "active_count (add k h (ed_routing d)) \<le> m" if "\<not> m \<le> active_count (ed_routing d)" for k h
    using routes.count_put_le [OF r, of k h] that by linarith
  moreover have "active_count (retire k (ed_routing d)) \<le> m" if "active_count (ed_routing d) \<le> m" for k
    using routes.count_remove_le [OF r, of k] that by linarith
  ultimately show ?thesis
    using assms routes.invar_put [OF r] routes.invar_remove [OF r]
    by (cases call) (auto simp: driver_wf_def driver_defs Let_def)
qed

lemma driver_step_refines:
  assumes "driver_wf m cfg d"
  shows "driver_abs (driver_step call d) = spec_step m call (driver_abs d)"
proof -
  have r: "routing_wf (ed_routing d)" and m: "ed_max_connections d = m" using assms by (simp_all add: driver_wf_def)
  have "card (dom (ds_routes (driver_abs d))) = active_count (ed_routing d)"
    using routes.count_table_map [OF r] by (simp add: driver_abs_def lookup_connection_def routes.table_map_def)
  then have "spec_open m (driver_abs d) \<longleftrightarrow> ed_running d \<and> active_count (ed_routing d) < ed_max_connections d"
    by (simp add: spec_open_def m driver_abs_def)
  then show ?thesis
    by (cases call) (auto simp: driver_abs_def driver_defs lookup_connection_def routes.get_put [OF r] routes.get_remove [OF r] Let_def)
qed

lemma driver_run_refines:
  "driver_wf m cfg d \<Longrightarrow>
     driver_wf m cfg (fold driver_step calls d) \<and> driver_abs (fold driver_step calls d) = fold (spec_step m) calls (driver_abs d)"
proof (induction calls arbitrary: d)
  case (Cons call calls)
  then show ?case using driver_step_wf driver_step_refines [OF Cons.prems] by simp
qed simp


section \<open>Stateless resets and Version Negotiation\<close>

lemma build_reset_packet_shape:
  assumes "build_stateless_reset_packet fallback tok n cfg = Inr pkt" and "length tok = stateless_reset_token_size"
  shows "minimum_stateless_reset_datagram_size \<le> length pkt" and "length pkt < n" and "length pkt \<le> src_preferred_datagram_size cfg"
    and "pkt ! 0 AND 0xc0 = 0x40" and "ends_with_token pkt tok"
proof -
  from assms(1) obtain bytes where
    n: "minimum_stateless_reset_datagram_size < n" "minimum_stateless_reset_datagram_size \<le> src_preferred_datagram_size cfg"
    and b: "length bytes = min (src_preferred_datagram_size cfg) (n - 1) - stateless_reset_token_size"
    and p: "pkt = bytes[0 := (bytes ! 0 AND 0x3f) OR 0x40] @ tok"
    by (auto simp: build_stateless_reset_packet_def Let_def split: if_splits option.splits sum.splits)
  note sizes = minimum_stateless_reset_datagram_size_def stateless_reset_token_size_def
  have len: "length pkt = min (src_preferred_datagram_size cfg) (n - 1)" "bytes \<noteq> []"
    using n b assms(2) by (auto simp: p sizes)
  show "minimum_stateless_reset_datagram_size \<le> length pkt" "length pkt < n" "length pkt \<le> src_preferred_datagram_size cfg"
    using n len by (auto simp: sizes)
  have "pkt ! 0 = (bytes ! 0 AND 0x3f) OR 0x40" using len(2) by (cases bytes) (simp_all add: p)
  then show "pkt ! 0 AND 0xc0 = 0x40"
    by (simp add: bit.conj_disj_distrib2 word_bw_assocs(1))
  show "ends_with_token pkt tok" using assms(2) by (simp add: ends_with_token_def p)
qed

lemma append_versions_eq: "append_versions out vs = out @ concat (map u32_bytes vs)"
  by (induction vs arbitrary: out) (auto simp: u32_bytes_def append_u32_def)

text \<open>The Version Negotiation packet the server writes by hand is what the header encoder writes, and
  the header decoder reads the two connection identifiers and the version list back.\<close>

theorem version_negotiation_decodes:
  assumes "build_version_negotiation destination source versions = Inr r"
    and "length (cid_bytes destination) \<le> 255" and "length (cid_bytes source) \<le> 255"
  shows "encode_packet_header (VersionNegotiation \<lparr>vn_first_byte = 0x80, vn_destination_connection_id = destination,
      vn_source_connection_id = source, vn_supported_versions = versions\<rparr>) = Inr (vnr_payload r) \<and>
    decode_packet_header (vnr_payload r) = Inr (VersionNegotiation \<lparr>vn_first_byte = 0x80,
      vn_destination_connection_id = destination, vn_source_connection_id = source, vn_supported_versions = versions\<rparr>)"
proof -
  let ?h = "\<lparr>vn_first_byte = 0x80, vn_destination_connection_id = destination,
    vn_source_connection_id = source, vn_supported_versions = versions\<rparr>"
  have z: "u32_bytes 0 = [0, 0, 0, 0]" by (simp add: u32_bytes_def append_u32_def)
  have "encode_version_negotiation ?h = Inr (vnr_payload r)"
    using assms
    by (auto simp: build_version_negotiation_def encode_version_negotiation_def append_versions_eq append_u32_eq foldl_append_u32
        z append_connection_id_def Let_def split: if_splits)
  moreover have "decode_packet_header (vnr_payload r) = Inr (VersionNegotiation ?h)"
    by (rule version_negotiation_roundtrip [OF calculation]) simp
  ultimately show ?thesis by simp
qed

theorem version_negotiation_decodes_witness:
  "\<exists>r. build_version_negotiation \<lparr>cid_bytes = [7, 8]\<rparr> \<lparr>cid_bytes = []\<rparr> [1, 0x6b3343cf] = Inr r \<and>
     decode_packet_header (vnr_payload r) = Inr (VersionNegotiation \<lparr>vn_first_byte = 0x80,
       vn_destination_connection_id = \<lparr>cid_bytes = [7, 8]\<rparr>, vn_source_connection_id = \<lparr>cid_bytes = []\<rparr>,
       vn_supported_versions = [1, 0x6b3343cf]\<rparr>)"
proof -
  obtain r where r: "build_version_negotiation \<lparr>cid_bytes = [7, 8]\<rparr> \<lparr>cid_bytes = []\<rparr> [1, 0x6b3343cf] = Inr r"
    by (simp add: build_version_negotiation_def)
  then show ?thesis using version_negotiation_decodes [OF r] by simp
qed

end
