(* ===== verification/Qpack.thy ===== *)
theory Qpack
  imports Prelude
begin

text \<open>
  Header compression, \<open>src/include/flowq/quic/qpack.hpp\<close>: the static table, the dynamic table, the encoder with
  its lookup caches and the decoder.  The caches, maps from names to maps from values to indices, are functions to
  \<open>option\<close>.  A call that leaves C++ by an exception or has undefined behaviour is a value of \<open>outcome\<close>.
\<close>

section \<open>Data\<close>

record header_field =
  hf_name :: string
  hf_value :: string

definition qpack_error :: "string \<Rightarrow> flowq_error" where
  "qpack_error m = protocol_error m"

definition static_table :: "header_field list" where
  "static_table = map (\<lambda>(n, v). \<lparr>hf_name = n, hf_value = v\<rparr>)
    [
     ('':authority'', ''''),
     ('':path'', ''/''),
     (''age'', ''0''),
     (''content-disposition'', ''''),
     (''content-length'', ''0''),
     (''cookie'', ''''),
     (''date'', ''''),
     (''etag'', ''''),
     (''if-modified-since'', ''''),
     (''if-none-match'', ''''),
     (''last-modified'', ''''),
     (''link'', ''''),
     (''location'', ''''),
     (''referer'', ''''),
     (''set-cookie'', ''''),
     ('':method'', ''CONNECT''),
     ('':method'', ''DELETE''),
     ('':method'', ''GET''),
     ('':method'', ''HEAD''),
     ('':method'', ''OPTIONS''),
     ('':method'', ''POST''),
     ('':method'', ''PUT''),
     ('':scheme'', ''http''),
     ('':scheme'', ''https''),
     ('':status'', ''100''),
     ('':status'', ''103''),
     ('':status'', ''200''),
     ('':status'', ''204''),
     ('':status'', ''206''),
     ('':status'', ''302''),
     ('':status'', ''304''),
     ('':status'', ''400''),
     ('':status'', ''404''),
     ('':status'', ''503''),
     (''accept'', ''*/*''),
     (''accept'', ''application/dns-message''),
     (''accept-encoding'', ''gzip, deflate, br''),
     (''accept-ranges'', ''bytes''),
     (''access-control-allow-headers'', ''cache-control''),
     (''access-control-allow-headers'', ''content-type''),
     (''access-control-allow-origin'', ''*''),
     (''cache-control'', ''max-age=0''),
     (''cache-control'', ''max-age=2592000''),
     (''cache-control'', ''max-age=604800''),
     (''cache-control'', ''no-cache''),
     (''cache-control'', ''no-store''),
     (''cache-control'', ''public, max-age=31536000''),
     (''content-encoding'', ''br''),
     (''content-encoding'', ''gzip''),
     (''content-type'', ''application/dns-message''),
     (''content-type'', ''application/javascript''),
     (''content-type'', ''application/json''),
     (''content-type'', ''application/x-www-form-urlencoded''),
     (''content-type'', ''image/gif''),
     (''content-type'', ''image/jpeg''),
     (''content-type'', ''image/png''),
     (''content-type'', ''text/css''),
     (''content-type'', ''text/html; charset=utf-8''),
     (''content-type'', ''text/plain''),
     (''content-type'', ''text/plain;charset=utf-8''),
     (''range'', ''bytes=0-''),
     (''strict-transport-security'', ''max-age=31536000''),
     (''strict-transport-security'', ''max-age=31536000; includesubdomains''),
     (''strict-transport-security'', ''max-age=31536000; includesubdomains; preload''),
     (''vary'', ''accept-encoding''),
     (''vary'', ''origin''),
     (''x-content-type-options'', ''nosniff''),
     (''x-xss-protection'', ''1; mode=block''),
     (''dnt'', ''1''),
     (''x-frame-options'', ''deny'')
    ]"

section \<open>The dynamic table\<close>

record dynamic_table =
  dt_entries :: "header_field list"
  dt_capacity :: u64
  dt_max_capacity :: u64

definition new_dynamic_table :: "u64 \<Rightarrow> dynamic_table" where
  "new_dynamic_table max_capacity = \<lparr>dt_entries = [], dt_capacity = 0, dt_max_capacity = max_capacity\<rparr>"

definition entry_size :: "string \<Rightarrow> string \<Rightarrow> u64" where
  "entry_size name val = u64_add (u64_add (length name) (length val)) 32"

fun evict :: "u64 \<Rightarrow> u64 \<Rightarrow> header_field list \<Rightarrow> u64 \<Rightarrow> header_field list \<times> u64" where
  "evict max_capacity sz [] capacity = ([], capacity)"
| "evict max_capacity sz (e # entries) capacity =
     (if u64_add capacity sz > max_capacity
      then evict max_capacity sz entries (u64_sub capacity (entry_size (hf_name e) (hf_value e)))
      else (e # entries, capacity))"

definition dt_add :: "string \<Rightarrow> string \<Rightarrow> dynamic_table \<Rightarrow> dynamic_table" where
  "dt_add name val t =
     (let sz = entry_size name val;
          (entries, capacity) = evict (dt_max_capacity t) sz (dt_entries t) (dt_capacity t);
          t = t\<lparr>dt_entries := entries, dt_capacity := capacity\<rparr> in
      if sz \<le> dt_max_capacity t
      then t\<lparr>dt_entries := dt_entries t @ [\<lparr>hf_name = name, hf_value = val\<rparr>], dt_capacity := u64_add (dt_capacity t) sz\<rparr>
      else t)"

fun find_from :: "(header_field \<Rightarrow> bool) \<Rightarrow> nat \<Rightarrow> header_field list \<Rightarrow> u64 option" where
  "find_from p i [] = None"
| "find_from p i (e # entries) = (if p e then Some i else find_from p (Suc i) entries)"

definition dt_find :: "string \<Rightarrow> string \<Rightarrow> dynamic_table \<Rightarrow> u64 option" where
  "dt_find name val t = find_from (\<lambda>e. hf_name e = name \<and> hf_value e = val) 0 (dt_entries t)"

definition dt_find_name :: "string \<Rightarrow> dynamic_table \<Rightarrow> u64 option" where
  "dt_find_name name t = find_from (\<lambda>e. hf_name e = name) 0 (dt_entries t)"

section \<open>The encoder\<close>

record encoder =
  static_name_value_cache :: "string \<Rightarrow> (string \<Rightarrow> u64 option) option"
  static_name_cache :: "string \<Rightarrow> u64 option"

text \<open>One iteration of \<open>build_static_cache\<close>; \<open>operator[]\<close> creates an empty inner map for a new name.\<close>

definition cache_entry :: "encoder \<Rightarrow> nat \<times> header_field \<Rightarrow> encoder" where
  "cache_entry c ie =
     (let (i, entry) = ie;
          value_map = (case static_name_value_cache c (hf_name entry) of None \<Rightarrow> (\<lambda>_. None) | Some m \<Rightarrow> m);
          value_map = (if value_map (hf_value entry) = None then value_map(hf_value entry \<mapsto> i) else value_map);
          c = c\<lparr>static_name_value_cache := (static_name_value_cache c)(hf_name entry \<mapsto> value_map)\<rparr>
      in if static_name_cache c (hf_name entry) = None
         then c\<lparr>static_name_cache := (static_name_cache c)(hf_name entry \<mapsto> i)\<rparr>
         else c)"

definition build_static_cache :: encoder where
  "build_static_cache = foldl cache_entry \<lparr>static_name_value_cache = (\<lambda>_. None), static_name_cache = (\<lambda>_. None)\<rparr>
     (enumerate 0 static_table)"

definition find_in_static_table_fast :: "encoder \<Rightarrow> string \<Rightarrow> string \<Rightarrow> u64 option" where
  "find_in_static_table_fast c name val =
     (case static_name_value_cache c name of None \<Rightarrow> None | Some m \<Rightarrow> m val)"

definition find_static_name_fast :: "encoder \<Rightarrow> string \<Rightarrow> u64 option" where
  "find_static_name_fast c name = static_name_cache c name"

function encode_varint_to :: "buffer \<Rightarrow> u64 \<Rightarrow> buffer" where
  "encode_varint_to out v =
     (if v \<ge> 0x80 then encode_varint_to (out @ [to_byte (0x80 OR (v AND 0x7f))]) (drop_bit 7 v)
      else out @ [to_byte v])"
  by pat_completeness auto
termination
  by (relation "measure snd") (auto simp: drop_bit_eq_div)

declare encode_varint_to.simps [simp del]

definition encode_string :: "buffer \<Rightarrow> string \<Rightarrow> buffer" where
  "encode_string out str = foldl (\<lambda>out c. out @ [byte_of_char c]) (encode_varint_to out (length str)) str"

definition encode_static_reference :: "buffer \<Rightarrow> u64 \<Rightarrow> buffer" where
  "encode_static_reference out index =
     (if index < 128 then out @ [to_byte (0x80 OR index)]
      else encode_varint_to (out @ [0xff]) (index - 128))"

definition encode_static_name_with_literal_value :: "buffer \<Rightarrow> u64 \<Rightarrow> string \<Rightarrow> buffer" where
  "encode_static_name_with_literal_value out name_index val =
     encode_string
       (if name_index < 64 then out @ [to_byte (0x40 OR name_index)]
        else encode_varint_to (out @ [0x7f]) (name_index - 64)) val"

definition encode_literal_header :: "buffer \<Rightarrow> string \<Rightarrow> string \<Rightarrow> buffer" where
  "encode_literal_header out name val = encode_string (encode_string (out @ [0x20]) name) val"

definition encode_field :: "encoder \<Rightarrow> buffer \<Rightarrow> header_field \<Rightarrow> buffer" where
  "encode_field c body header =
     (case find_in_static_table_fast c (hf_name header) (hf_value header) of
        Some index \<Rightarrow> encode_static_reference body index
      | None \<Rightarrow>
          (case find_static_name_fast c (hf_name header) of
             Some index \<Rightarrow> encode_static_name_with_literal_value body index (hf_value header)
           | None \<Rightarrow> encode_literal_header body (hf_name header) (hf_value header)))"

definition encode :: "encoder \<Rightarrow> header_field list \<Rightarrow> buffer result" where
  "encode c headers = (let body = foldl (encode_field c) [] headers in Inr ([0x00, 0x00] @ body))"

section \<open>The decoder\<close>

text \<open>The largest \<open>std::string\<close>; \<open>reserve\<close> throws \<open>std::length_error\<close> beyond it.\<close>

definition string_max_size :: nat where
  "string_max_size = 9223372036854775807"

text \<open>The length loop of \<open>decode_string\<close>.  \<open>None\<close> stands for a shift by 64 or more, which is undefined.\<close>

function read_length :: "buffer \<Rightarrow> nat \<Rightarrow> u64 \<Rightarrow> nat \<Rightarrow> (u64 \<times> nat) option" where
  "read_length data offset len shift =
     (if offset < length data then
        let byte = data ! offset; offset = offset + 1 in
        if shift \<ge> 64 then None
        else
          let len = len OR u64_shl (unat (byte AND 0x7f)) shift in
          if byte AND 0x80 = 0 then Some (len, offset)
          else read_length data offset len (shift + 7)
      else Some (len, offset))"
  by pat_completeness auto
termination
  by (relation "measure (\<lambda>(data, offset, _, _). length data - offset)") auto

declare read_length.simps [simp del]

definition decode_string :: "buffer \<Rightarrow> nat \<Rightarrow> (string \<times> nat) option outcome" where
  "decode_string data offset =
     (if offset \<ge> length data then Returns None
      else case read_length data offset 0 0 of
          None \<Rightarrow> Undefined
        | Some (len, offset) \<Rightarrow>
            if u64_add offset len > length data then Returns None
            else if len > string_max_size then Throws ''std::length_error''
            else Returns (Some (map char_of_byte (take len (drop offset data)), offset + len)))"

lemma read_length_offset: "read_length data offset len shift = Some (n, offset') \<Longrightarrow> offset \<le> offset'"
proof (induction data offset len shift rule: read_length.induct)
  case (1 data offset len shift)
  then show ?case
    by (subst (asm) (2) read_length.simps) (force simp: Let_def split: if_splits)
qed

lemma decode_string_offset: "decode_string data offset = Returns (Some (str, offset')) \<Longrightarrow> offset \<le> offset'"
  using read_length_offset by (fastforce simp: decode_string_def split: if_splits option.splits)

function decode_fields :: "buffer \<Rightarrow> nat \<Rightarrow> header_field list \<Rightarrow> header_field list result outcome" where
  "decode_fields data offset headers =
     (if offset < length data then
        let byte = data ! offset in
        if byte AND 0x80 \<noteq> 0 then
          (let index = unat (byte AND 0x7f) in
           if index \<ge> length static_table then Returns (Inl (qpack_error ''Invalid static table index''))
           else decode_fields data (offset + 1) (headers @ [static_table ! index]))
        else if byte AND 0x40 \<noteq> 0 then
          (let name_index = unat (byte AND 0x3f) in
           if name_index \<ge> length static_table then Returns (Inl (qpack_error ''Invalid static name index''))
           else case decode_string data (offset + 1) of
               Undefined \<Rightarrow> Undefined
             | Throws e \<Rightarrow> Throws e
             | Returns None \<Rightarrow> Returns (Inl (qpack_error ''Failed to decode string''))
             | Returns (Some (val, offset1)) \<Rightarrow>
                 decode_fields data offset1 (headers @ [\<lparr>hf_name = hf_name (static_table ! name_index), hf_value = val\<rparr>]))
        else if byte AND 0x20 \<noteq> 0 then
          (case decode_string data (offset + 1) of
               Undefined \<Rightarrow> Undefined
             | Throws e \<Rightarrow> Throws e
             | Returns None \<Rightarrow> Returns (Inl (qpack_error ''Failed to decode name''))
             | Returns (Some (name, offset1)) \<Rightarrow>
          (case decode_string data offset1 of
               Undefined \<Rightarrow> Undefined
             | Throws e \<Rightarrow> Throws e
             | Returns None \<Rightarrow> Returns (Inl (qpack_error ''Failed to decode value''))
             | Returns (Some (val, offset2)) \<Rightarrow> decode_fields data offset2 (headers @ [\<lparr>hf_name = name, hf_value = val\<rparr>])))
        else Returns (Inl (qpack_error ''Unknown QPACK instruction''))
      else Returns (Inr headers))"
  by pat_completeness auto
termination
  by (relation "measure (\<lambda>(data, offset, _). length data - offset)")
    (auto dest!: decode_string_offset)

declare decode_fields.simps [simp del]

definition decode :: "buffer \<Rightarrow> header_field list result outcome" where
  "decode data =
     (if length data < 2 then Returns (Inl (qpack_error ''QPACK data too short''))
      else if data ! 0 \<noteq> 0x00 \<or> data ! 1 \<noteq> 0x00
      then Returns (Inl (qpack_error ''Dynamic QPACK references are not supported''))
      else decode_fields data 2 [])"

section \<open>Lemmas: the dynamic table\<close>

definition table_size :: "header_field list \<Rightarrow> nat" where
  "table_size es = sum_list (map (\<lambda>e. length (hf_name e) + length (hf_value e) + 32) es)"

definition table_wf :: "dynamic_table \<Rightarrow> bool" where
  "table_wf t \<longleftrightarrow> dt_capacity t = table_size (dt_entries t) \<and> dt_capacity t \<le> dt_max_capacity t"

lemma table_size_simps [simp]:
  "table_size [] = 0"
  "table_size (e # es) = length (hf_name e) + length (hf_value e) + 32 + table_size es"
  "table_size (es @ fs) = table_size es + table_size fs"
  by (simp_all add: table_size_def)

lemma entry_size_exact: "length n + length v + 32 < 2 ^ 64 \<Longrightarrow> entry_size n v = length n + length v + 32"
  by (simp add: entry_size_def u64_add_exact)

lemma evict_correct:
  assumes "m + sz < 2 ^ 64" and "table_size es \<le> m" and "evict m sz es (table_size es) = (es', c)"
  shows "c = table_size es' \<and> c \<le> m \<and> (c + sz \<le> m \<or> es' = []) \<and> (\<exists>old. es = old @ es') \<and>
    (\<forall>old e. es = old @ e # es' \<longrightarrow> table_size (e # es') + sz > m)"
  using assms
proof (induction es)
  case (Cons e es)
  let ?n = "length (hf_name e) + length (hf_value e) + 32"
  have le: "table_size (e # es) + sz < 2 ^ 64" using Cons.prems(1,2) by linarith
  then have ex: "entry_size (hf_name e) (hf_value e) = ?n" by (intro entry_size_exact) simp
  show ?case
  proof (cases "table_size (e # es) + sz > m")
    case True
    have "u64_sub (table_size (e # es)) ?n = table_size es" using le by (simp add: u64_sub_exact)
    then have "evict m sz es (table_size es) = (es', c)"
      using Cons.prems(3) True le ex by (simp add: u64_add_exact)
    moreover have "table_size es \<le> m" using Cons.prems(2) by simp
    ultimately have ih: "c = table_size es'" "c \<le> m" "c + sz \<le> m \<or> es' = []" "\<exists>old. es = old @ es'"
      "\<forall>old e. es = old @ e # es' \<longrightarrow> table_size (e # es') + sz > m"
      using Cons.IH [OF Cons.prems(1)] by auto
    obtain old where "es = old @ es'" using ih(4) by blast
    then have "\<exists>old. e # es = old @ es'" by (intro exI [of _ "e # old"]) simp
    moreover have "\<forall>old e'. e # es = old @ e' # es' \<longrightarrow> table_size (e' # es') + sz > m"
      using ih(5) True by (auto simp: Cons_eq_append_conv)
    ultimately show ?thesis using ih by blast
  next
    case False
    then show ?thesis using Cons.prems(3) le Cons.prems(2) by (auto simp: u64_add_exact dest: arg_cong [of _ _ length])
  qed
qed simp

lemma dt_add_correct:
  assumes "table_wf t" and "dt_max_capacity t + (length n + length v + 32) < 2 ^ 64"
  shows "table_wf (dt_add n v t) \<and> dt_max_capacity (dt_add n v t) = dt_max_capacity t \<and>
    (\<exists>old kept. dt_entries t = old @ kept \<and>
       dt_entries (dt_add n v t) =
         (if length n + length v + 32 \<le> dt_max_capacity t then kept @ [\<lparr>hf_name = n, hf_value = v\<rparr>] else []) \<and>
       (\<forall>old' e. dt_entries t = old' @ e # kept \<longrightarrow> table_size (e # kept) + (length n + length v + 32) > dt_max_capacity t))"
proof -
  let ?sz = "length n + length v + 32"
  have sz: "entry_size n v = ?sz" using assms(2) by (intro entry_size_exact) simp
  have cap: "dt_capacity t = table_size (dt_entries t)" "table_size (dt_entries t) \<le> dt_max_capacity t"
    using assms(1) by (auto simp: table_wf_def)
  obtain es c where e: "evict (dt_max_capacity t) ?sz (dt_entries t) (table_size (dt_entries t)) = (es, c)" by fastforce
  note ev = evict_correct [OF assms(2) cap(2) e]
  show ?thesis
  proof (cases "?sz \<le> dt_max_capacity t")
    case True
    then have "u64_add c ?sz = c + ?sz" and le: "c + ?sz \<le> dt_max_capacity t" using ev assms(2) by (auto intro: u64_add_exact)
    then have "dt_add n v t = t\<lparr>dt_entries := es @ [\<lparr>hf_name = n, hf_value = v\<rparr>], dt_capacity := c + ?sz\<rparr>"
      using True by (simp add: dt_add_def sz cap(1) e)
    then show ?thesis using ev le True by (auto simp: table_wf_def)
  next
    case False
    then have "es = []" using ev by auto
    moreover have "dt_add n v t = t\<lparr>dt_entries := es, dt_capacity := c\<rparr>"
      using False by (simp add: dt_add_def sz cap(1) e)
    ultimately show ?thesis using ev False by (auto simp: table_wf_def)
  qed
qed

section \<open>Lemmas: lookup caches\<close>

text \<open>After a prefix of the table has been cached, both caches hold the first indices in that prefix.\<close>

lemma find_from_append:
  "find_from p i (xs @ ys) = (case find_from p i xs of Some j \<Rightarrow> Some j | None \<Rightarrow> find_from p (i + length xs) ys)"
  by (induction xs arbitrary: i) (auto split: option.splits)

lemma find_from_Some:
  "find_from p i xs = Some j \<Longrightarrow> i \<le> j \<and> j < i + length xs \<and> p (xs ! (j - i)) \<and> (\<forall>k < j - i. \<not> p (xs ! k))"
proof (induction xs arbitrary: i)
  case (Cons x xs)
  show ?case
  proof (cases "p x")
    case False
    then have "find_from p (Suc i) xs = Some j" using Cons.prems by simp
    from Cons.IH [OF this] have h: "Suc i \<le> j" "j < Suc i + length xs" "p (xs ! (j - Suc i))" "\<forall>k < j - Suc i. \<not> p (xs ! k)"
      by auto
    then have "j - i = Suc (j - Suc i)" by simp
    moreover have "\<not> p ((x # xs) ! k)" if "k < j - i" for k using that h(4) False by (cases k) auto
    ultimately show ?thesis using h by auto
  qed (use Cons.prems in auto)
qed simp

definition cached :: "encoder \<Rightarrow> header_field list \<Rightarrow> bool" where
  "cached c es \<longleftrightarrow>
     (\<forall>n v. find_in_static_table_fast c n v = find_from (\<lambda>e. hf_name e = n \<and> hf_value e = v) 0 es) \<and>
     (\<forall>n. find_static_name_fast c n = find_from (\<lambda>e. hf_name e = n) 0 es)"

lemma cache_entry_cached:
  assumes "cached c es"
  shows "cached (cache_entry c (length es, e)) (es @ [e])"
proof -
  have nv: "(case static_name_value_cache c n of None \<Rightarrow> None | Some m \<Rightarrow> m v) =
      find_from (\<lambda>e. hf_name e = n \<and> hf_value e = v) 0 es" for n v
    using assms by (simp add: cached_def find_in_static_table_fast_def)
  have nm: "static_name_cache c n = find_from (\<lambda>e. hf_name e = n) 0 es" for n
    using assms by (simp add: cached_def find_static_name_fast_def)
  have vm: "(case static_name_value_cache c n of None \<Rightarrow> (\<lambda>_. None) | Some m \<Rightarrow> m) v =
      find_from (\<lambda>e. hf_name e = n \<and> hf_value e = v) 0 es" for n v
    using nv [where n = n and v = v] by (simp split: option.splits)
  show ?thesis
    unfolding cached_def
    by (auto simp: cache_entry_def find_in_static_table_fast_def find_static_name_fast_def Let_def vm nv nm find_from_append
        split: option.splits)
qed

lemma foldl_cache: "cached c es \<Longrightarrow> cached (foldl cache_entry c (enumerate (length es) fs)) (es @ fs)"
proof (induction fs arbitrary: c es)
  case (Cons f fs)
  from Cons.IH [OF cache_entry_cached [OF Cons.prems, of f]] show ?case by simp
qed simp

lemma static_cached: "cached build_static_cache static_table"
  using foldl_cache [of "\<lparr>static_name_value_cache = (\<lambda>_. None), static_name_cache = (\<lambda>_. None)\<rparr>" "[]" static_table]
  by (simp add: build_static_cache_def cached_def find_in_static_table_fast_def find_static_name_fast_def)

abbreviation static_index :: "header_field \<Rightarrow> u64 option" where
  "static_index h \<equiv> find_from (\<lambda>e. hf_name e = hf_name h \<and> hf_value e = hf_value h) 0 static_table"

abbreviation static_name_index :: "header_field \<Rightarrow> u64 option" where
  "static_name_index h \<equiv> find_from (\<lambda>e. hf_name e = hf_name h) 0 static_table"

lemma cache_lookups:
  "find_in_static_table_fast build_static_cache n v = find_from (\<lambda>e. hf_name e = n \<and> hf_value e = v) 0 static_table"
  "find_static_name_fast build_static_cache n = find_from (\<lambda>e. hf_name e = n) 0 static_table"
  using static_cached by (auto simp: cached_def)


section \<open>Lemmas: strings\<close>

definition leb :: "u64 \<Rightarrow> buffer" where
  "leb v = encode_varint_to [] v"

definition string_bytes :: "string \<Rightarrow> buffer" where
  "string_bytes str = leb (length str) @ map byte_of_char str"

lemma encode_varint_to_prefix: "encode_varint_to (pre @ out) v = pre @ encode_varint_to out v"
proof (induction out v rule: encode_varint_to.induct)
  case (1 out v)
  show ?case
    using 1 by (cases "v \<ge> 0x80") (simp_all add: encode_varint_to.simps [of "pre @ out"] encode_varint_to.simps [of out])
qed

lemma encode_varint_to_eq: "encode_varint_to out v = out @ leb v"
  using encode_varint_to_prefix [of out "[]" v] by (simp add: leb_def)

lemma leb_rec: "leb v = (if v \<ge> 128 then to_byte (128 + v mod 128) # leb (v div 128) else [to_byte v])"
  using encode_varint_to_eq [of "[to_byte (128 + v mod 128)]" "v div 128"]
  by (simp add: leb_def encode_varint_to.simps [of "[]" v] codec_simps drop_bit_eq_div)

lemma encode_string_eq: "encode_string out str = out @ string_bytes str"
proof -
  have "foldl (\<lambda>out c. out @ [byte_of_char c]) o1 str = o1 @ map byte_of_char str" for o1
    by (induction str arbitrary: o1) auto
  then show ?thesis by (simp add: encode_string_def encode_varint_to_eq string_bytes_def)
qed

lemma byte_test: "n < 8 \<Longrightarrow> (b :: byte) AND 2 ^ n = 0 \<longleftrightarrow> even (unat b div 2 ^ n)"
  using bit_unsigned_iff [of b n, where 'a = nat] by (auto simp: and_exp_eq_0_iff_not_bit bit_iff_odd [of "unat b"])

lemma byte_tests:
  "(b :: byte) AND 0x80 = 0 \<longleftrightarrow> unat b < 128"
  "(b :: byte) AND 0x40 = 0 \<longleftrightarrow> even (unat b div 64)"
  "(b :: byte) AND 0x20 = 0 \<longleftrightarrow> even (unat b div 32)"
proof -
  have "even (unat b div 128) \<longleftrightarrow> unat b < 128"
    using unat_byte_less [of b] div_nat_eqI [of 128 1 "unat b"] by (cases "unat b < 128") auto
  then show "b AND 0x80 = 0 \<longleftrightarrow> unat b < 128" using byte_test [of 7 b] by simp
  show "b AND 0x40 = 0 \<longleftrightarrow> even (unat b div 64)" "b AND 0x20 = 0 \<longleftrightarrow> even (unat b div 32)"
    using byte_test [of 6 b] byte_test [of 5 b] by simp_all
qed

lemma unat_byte_masks:
  "unat ((b :: byte) AND 0x7f) = unat b mod 128" "unat ((b :: byte) AND 0x3f) = unat b mod 64"
  by (simp_all add: unsigned_and_eq codec_simps)

lemma read_length_leb:
  assumes "at_bytes data off (leb v @ rest)" and "len < 2 ^ shift" and "len + v * 2 ^ shift < 2 ^ 64" and "shift < 64"
  shows "read_length data off len shift = Some (len + v * 2 ^ shift, off + length (leb v))"
  using assms
proof (induction v arbitrary: off len shift rule: less_induct)
  case (less v)
  let ?b = "data ! off"
  have hd: "?b = (if v \<ge> 128 then to_byte (128 + v mod 128) else to_byte v)"
    using less.prems(1) at_bytes_nth [of data off] by (cases "v \<ge> 128") (auto simp: leb_rec [of v])
  have off: "off < length data" using at_bytes_length [OF less.prems(1)] by (simp add: leb_rec [of v])
  have low: "unat (?b AND 0x7f) = v mod 128" using hd by (simp add: unat_byte_masks)
  have acc: "len OR u64_shl (v mod 128) shift = len + v mod 128 * 2 ^ shift"
  proof -
    have "v mod 128 * 2 ^ shift \<le> v * 2 ^ shift" by simp
    then have "v mod 128 * 2 ^ shift < 2 ^ 64" using less.prems(3) by linarith
    then have "u64_shl (v mod 128) shift = 2 ^ shift * (v mod 128)"
      by (simp add: u64_shl_def push_bit_eq_mult mult.commute)
    then show ?thesis using nat_or_low [OF less.prems(2), of "v mod 128"] by (simp add: or.commute mult.commute)
  qed
  show ?case
  proof (cases "v \<ge> 128")
    case False
    then have "?b AND 0x80 = 0" using hd by (simp add: byte_tests)
    then show ?thesis
      using off less.prems(4) low acc False
      by (simp add: read_length.simps [of data off] leb_rec [of v])
  next
    case True
    have cont: "?b AND 0x80 \<noteq> 0" using hd True by (simp add: byte_tests)
    have "v * 2 ^ shift = (v mod 128 + 128 * (v div 128)) * 2 ^ shift" by simp
    then have eq: "len + v * 2 ^ shift = (len + v mod 128 * 2 ^ shift) + v div 128 * 2 ^ (shift + 7)"
      by (simp only: distrib_right power_add) simp
    have sh: "shift + 7 < 64"
    proof (rule ccontr)
      assume "\<not> shift + 7 < 64"
      then have "(2 :: nat) ^ 64 \<le> 2 ^ (shift + 7)" by (intro power_increasing) auto
      also have "\<dots> \<le> v div 128 * 2 ^ (shift + 7)" using True by (simp add: Suc_le_eq div_greater_zero_iff)
      finally show False using less.prems(3) eq by linarith
    qed
    have small: "len + v mod 128 * 2 ^ shift < 2 ^ (shift + 7)"
    proof -
      have "len + v mod 128 * 2 ^ shift < (v mod 128 + 1) * 2 ^ shift" using less.prems(2) by simp
      also have "\<dots> \<le> 128 * 2 ^ shift" by (intro mult_right_mono) (auto simp: Suc_le_eq)
      finally show ?thesis by (simp add: power_add)
    qed
    have "at_bytes data (off + 1) (leb (v div 128) @ rest)"
      using less.prems(1) True at_bytes_advance [of data off "[to_byte (128 + v mod 128)]"] by (simp add: leb_rec [of v])
    from less.IH [OF _ this small _ sh] have
      "read_length data (off + 1) (len + v mod 128 * 2 ^ shift) (shift + 7) =
        Some (len + v * 2 ^ shift, off + 1 + length (leb (v div 128)))"
      using True less.prems(3) unfolding eq by simp
    then show ?thesis
      using off less.prems(4) low acc cont True
      by (simp add: read_length.simps [of data off] leb_rec [of v])
  qed
qed

lemma decode_string_at:
  assumes "at_bytes data off (string_bytes str @ rest)" and "length data < 2 ^ 63"
  shows "decode_string data off = Returns (Some (str, off + length (string_bytes str)))"
proof -
  have at: "at_bytes data off (leb (length str) @ map byte_of_char str @ rest)"
    using assms(1) by (simp add: string_bytes_def)
  have len: "length data = off + length (leb (length str)) + length str + length rest"
    using at_bytes_length [OF at] by simp
  then have small: "length str < 2 ^ 63" using assms(2) by linarith
  have "read_length data off 0 0 = Some (length str, off + length (leb (length str)))"
    using read_length_leb [OF at, of 0 0] small by simp
  moreover have "u64_add (off + length (leb (length str))) (length str) = off + length (leb (length str)) + length str"
    using len assms(2) by (intro u64_add_exact) simp
  moreover have "take (length str) (drop (off + length (leb (length str))) data) = map byte_of_char str"
    using at_bytes_take [OF at_bytes_advance [OF at]] by simp
  moreover have "off < length data" using len by (simp add: leb_rec [of "length str"])
  ultimately show ?thesis
    using len small by (simp add: decode_string_def string_max_size_def string_bytes_def add.assoc)
qed

section \<open>Lemmas: header fields\<close>

definition field_bytes :: "header_field \<Rightarrow> buffer" where
  "field_bytes h = encode_field build_static_cache [] h"

lemma encode_field_eq: "encode_field build_static_cache body h = body @ field_bytes h"
  by (simp add: field_bytes_def encode_field_def encode_static_reference_def encode_static_name_with_literal_value_def
      encode_literal_header_def encode_string_eq encode_varint_to_eq split: option.splits)

lemma encode_eq: "encode build_static_cache hs = Inr ([0, 0] @ concat (map field_bytes hs))"
proof -
  have "foldl (encode_field build_static_cache) body hs = body @ concat (map field_bytes hs)" for body
    by (induction hs arbitrary: body) (simp_all add: encode_field_eq)
  then show ?thesis by (simp add: encode_def)
qed

lemma length_static_table [simp]: "length static_table = 70"
  by (simp add: static_table_def)

lemma static_index_Some:
  assumes "static_index h = Some i"
  shows "i < 70" and "static_table ! i = h"
  using find_from_Some [OF assms] by (auto intro: header_field.equality)

lemma static_name_index_Some:
  assumes "static_name_index h = Some i"
  shows "i < 70" and "hf_name (static_table ! i) = hf_name h" and "k < i \<Longrightarrow> hf_name (static_table ! k) \<noteq> hf_name h"
  using find_from_Some [OF assms] by auto

text \<open>Fields the decoder reads back: the names at the indices 64 to 69 of the static table are the exception,
  unless the whole field is in the table.\<close>

definition field_safe :: "header_field \<Rightarrow> bool" where
  "field_safe h \<longleftrightarrow> static_index h \<noteq> None \<or> (case static_name_index h of None \<Rightarrow> True | Some i \<Rightarrow> i < 64)"

lemma tag_bytes:
  "i < 128 \<Longrightarrow> unat (to_byte (0x80 OR i)) = 128 + i"
  "i < 64 \<Longrightarrow> unat (to_byte (0x40 OR i)) = 64 + i"
  by (simp_all add: codec_simps)

lemma field_eta: "\<lparr>hf_name = hf_name h, hf_value = hf_value h\<rparr> = h"
  by simp

lemma decode_fields_safe:
  assumes "at_bytes data off (field_bytes h @ rest)" and "field_safe h" and "length data < 2 ^ 63"
  shows "decode_fields data off acc = decode_fields data (off + length (field_bytes h)) (acc @ [h])"
proof -
  have off: "off < length data" if "field_bytes h \<noteq> []" using at_bytes_length [OF assms(1)] that by simp
  consider (whole) i where "static_index h = Some i" | (nm) i where "static_index h = None" "static_name_index h = Some i" "i < 64"
    | (lit) "static_index h = None" "static_name_index h = None"
    using assms(2) by (auto simp: field_safe_def split: option.splits)
  then show ?thesis
  proof cases
    case whole
    note i = static_index_Some [OF whole]
    have fb: "field_bytes h = [to_byte (0x80 OR i)]"
      using whole i by (simp add: field_bytes_def encode_field_def cache_lookups encode_static_reference_def)
    then have "data ! off = to_byte (0x80 OR i)" using assms(1) by (simp add: at_bytes_nth)
    then have "unat (data ! off) = 128 + i" using tag_bytes(1) i by simp
    then have "data ! off AND 0x80 \<noteq> 0" "unat (data ! off AND 0x7f) = i" using i by (simp_all add: byte_tests unat_byte_masks)
    then show ?thesis using off i by (simp add: decode_fields.simps [of data off] fb)
  next
    case nm
    have fb: "field_bytes h = to_byte (0x40 OR i) # string_bytes (hf_value h)"
      using nm by (simp add: field_bytes_def encode_field_def cache_lookups encode_static_name_with_literal_value_def encode_string_eq)
    have at: "at_bytes data (off + 1) (string_bytes (hf_value h) @ rest)"
      using at_bytes_advance [of data off "[to_byte (0x40 OR i)]"] assms(1) by (simp add: fb)
    have "data ! off = to_byte (0x40 OR i)" using assms(1) by (simp add: fb at_bytes_nth)
    then have "unat (data ! off) = 64 + i" using tag_bytes(2) nm by simp
    moreover have "(64 + i) div 64 = 1" using nm by (intro div_nat_eqI) auto
    ultimately have "data ! off AND 0x80 = 0" "data ! off AND 0x40 \<noteq> 0" "unat (data ! off AND 0x3f) = i"
      using nm by (simp_all add: byte_tests unat_byte_masks)
    moreover have "\<lparr>hf_name = hf_name (static_table ! i), hf_value = hf_value h\<rparr> = h"
      using static_name_index_Some(2) [OF nm(2)] by simp
    ultimately show ?thesis
      using off decode_string_at [OF at assms(3)] nm by (simp add: decode_fields.simps [of data off] fb)
  next
    case lit
    have fb: "field_bytes h = 0x20 # string_bytes (hf_name h) @ string_bytes (hf_value h)"
      using lit by (simp add: field_bytes_def encode_field_def cache_lookups encode_literal_header_def encode_string_eq)
    have at: "at_bytes data (off + 1) (string_bytes (hf_name h) @ string_bytes (hf_value h) @ rest)"
      using at_bytes_advance [of data off "[0x20]"] assms(1) by (simp add: fb)
    have "data ! off = 0x20" using assms(1) by (simp add: fb at_bytes_nth)
    then show ?thesis
      using off decode_string_at [OF at assms(3)] decode_string_at [OF at_bytes_advance [OF at] assms(3)]
      by (simp add: decode_fields.simps [of data off] fb add.assoc field_eta)
  qed
qed

lemma decode_fields_step:
  assumes "decode_fields data off acc = Returns (Inr hs)" and "off < length data"
  obtains off' h where "off < off'" and "decode_fields data off' (acc @ [h]) = Returns (Inr hs)"
    and "data ! off AND 0x80 = 0 \<Longrightarrow> data ! off AND 0x40 \<noteq> 0 \<Longrightarrow> hf_name h = hf_name (static_table ! unat (data ! off AND 0x3f))"
proof -
  let ?b = "data ! off"
  note d = assms(1) [unfolded decode_fields.simps [of data off acc]]
  consider (whole) "?b AND 0x80 \<noteq> 0" | (nm) "?b AND 0x80 = 0" "?b AND 0x40 \<noteq> 0"
    | (lit) "?b AND 0x80 = 0" "?b AND 0x40 = 0" by blast
  then show ?thesis
  proof cases
    case whole
    then have "decode_fields data (off + 1) (acc @ [static_table ! unat (?b AND 0x7f)]) = Returns (Inr hs)"
      using d assms(2) by (simp add: Let_def split: if_splits)
    then show ?thesis using that [of "off + 1"] whole by simp
  next
    case nm
    then obtain str off' where "decode_string data (off + 1) = Returns (Some (str, off'))"
      and "decode_fields data off' (acc @ [\<lparr>hf_name = hf_name (static_table ! unat (?b AND 0x3f)), hf_value = str\<rparr>]) = Returns (Inr hs)"
      using d assms(2) by (auto simp: Let_def split: if_splits outcome.splits option.splits)
    then show ?thesis
      using that [of off'] decode_string_offset [of data "off + 1"] by (metis Suc_eq_plus1 Suc_le_eq header_field.select_convs(1))
  next
    case lit
    then obtain str off1 str2 off2 where "decode_string data (off + 1) = Returns (Some (str, off1))"
      and "decode_string data off1 = Returns (Some (str2, off2))"
      and r: "decode_fields data off2 (acc @ [\<lparr>hf_name = str, hf_value = str2\<rparr>]) = Returns (Inr hs)"
      using d assms(2) by (auto simp: Let_def split: if_splits outcome.splits option.splits)
    then have "off < off2" using decode_string_offset [of data "off + 1"] decode_string_offset [of data off1] by fastforce
    then show ?thesis using that [OF _ r] lit by simp
  qed
qed

lemma decode_fields_keeps:
  "decode_fields data off acc = Returns (Inr hs) \<Longrightarrow> \<exists>more. hs = acc @ more"
proof (induction "length data - off" arbitrary: off acc rule: less_induct)
  case less
  show ?case
  proof (cases "off < length data")
    case True
    then obtain off' h where "off < off'" "decode_fields data off' (acc @ [h]) = Returns (Inr hs)"
      using decode_fields_step [OF less.prems] by blast
    then show ?thesis using less.hyps [of off' "acc @ [h]"] True by force
  next
    case False
    then show ?thesis using less.prems by (simp add: decode_fields.simps [of data off])
  qed
qed

lemma length_string_bytes: "length str < 128 \<Longrightarrow> length (string_bytes str) = length str + 1"
  by (simp add: string_bytes_def leb_rec [of "length str"])

lemma length_field_bytes:
  assumes "length (hf_name h) < 128" and "length (hf_value h) < 128"
  shows "length (field_bytes h) \<le> 3 + length (hf_name h) + length (hf_value h)"
proof -
  have "length (leb (i - 64)) = 1" if "static_name_index h = Some i" for i
  proof -
    have "\<not> 128 \<le> i - 64" using static_name_index_Some(1) [OF that] by simp
    then show ?thesis by (simp only: leb_rec [of "i - 64"] if_False) simp
  qed
  then show ?thesis
    using assms static_index_Some(1) [of h]
    by (auto simp: field_bytes_def encode_field_def cache_lookups encode_static_reference_def
        encode_static_name_with_literal_value_def encode_literal_header_def encode_string_eq encode_varint_to_eq
        length_string_bytes split: option.splits)
qed

text \<open>The byte that announces a table name is \<open>0x7f\<close> for every index from 64 on, and the decoder takes it for index 63.\<close>

lemma decode_fields_unsafe:
  assumes "at_bytes data off (field_bytes h @ rest)" and "\<not> field_safe h"
    and "decode_fields data off acc = Returns (Inr hs)"
  shows "\<exists>h' more. hs = acc @ h' # more \<and> hf_name h' \<noteq> hf_name h"
proof -
  obtain i where i: "static_index h = None" "static_name_index h = Some i" "64 \<le> i"
    using assms(2) by (auto simp: field_safe_def split: option.splits)
  have fb: "\<exists>tl. field_bytes h = 0x7f # tl"
    using i by (simp add: field_bytes_def encode_field_def cache_lookups encode_static_name_with_literal_value_def encode_string_eq
        encode_varint_to_eq)
  then have b: "data ! off = 0x7f" using assms(1) at_bytes_nth by fastforce
  have off: "off < length data" using fb at_bytes_length [OF assms(1)] by auto
  obtain off' h' where h': "decode_fields data off' (acc @ [h']) = Returns (Inr hs)" "hf_name h' = hf_name (static_table ! 63)"
    using decode_fields_step [OF assms(3) off] by (simp add: b byte_tests) blast
  moreover have "hf_name (static_table ! 63) \<noteq> hf_name h" using static_name_index_Some(3) [OF i(2), of 63] i(3) by simp
  ultimately show ?thesis using decode_fields_keeps [OF h'(1)] by fastforce
qed

lemma decode_fields_list:
  assumes "at_bytes data off (concat (map field_bytes hs))" and "length data < 2 ^ 63"
  shows "decode_fields data off acc = Returns (Inr (acc @ hs)) \<longleftrightarrow> list_all field_safe hs"
  using assms(1)
proof (induction hs arbitrary: off acc)
  case Nil
  then show ?case by (simp add: decode_fields.simps [of data off] at_bytes_def)
next
  case (Cons h hs)
  have at: "at_bytes data off (field_bytes h @ concat (map field_bytes hs))" using Cons.prems by simp
  show ?case
  proof (cases "field_safe h")
    case True
    then show ?thesis
      using decode_fields_safe [OF at True assms(2)] Cons.IH [OF at_bytes_advance [OF at], of "acc @ [h]"] by simp
  next
    case False
    have "decode_fields data off acc \<noteq> Returns (Inr (acc @ h # hs))"
      using decode_fields_unsafe [OF at False] by fastforce
    then show ?thesis using False by simp
  qed
qed

section \<open>Properties\<close>

text \<open>C37: The QPACK decoder returns exactly the header list that was encoded if and only if no header has a name
  that the static table holds only at the indices from 64 on with a value that the table does not hold for it.\<close>

theorem qpack_roundtrip_iff:
  assumes "encode build_static_cache headers = Inr data" and "length data < 2 ^ 63"
  shows "decode data = Returns (Inr headers) \<longleftrightarrow> list_all field_safe headers"
proof -
  have data: "data = [0, 0] @ concat (map field_bytes headers)" using assms(1) by (simp add: encode_eq)
  have at: "at_bytes data 2 (concat (map field_bytes headers))" by (simp add: data at_bytes_def)
  have "decode data = decode_fields data 2 []" by (simp add: decode_def data)
  then show ?thesis using decode_fields_list [OF at assms(2), of "[]"] by simp
qed

theorem qpack_roundtrip_iff_witness:
  "\<exists>good bad.
     encode build_static_cache [\<lparr>hf_name = '':method'', hf_value = ''GET''\<rparr>, \<lparr>hf_name = ''accept'', hf_value = ''text''\<rparr>,
       \<lparr>hf_name = ''x'', hf_value = ''y''\<rparr>] = Inr good \<and>
     decode good = Returns (Inr [\<lparr>hf_name = '':method'', hf_value = ''GET''\<rparr>, \<lparr>hf_name = ''accept'', hf_value = ''text''\<rparr>,
       \<lparr>hf_name = ''x'', hf_value = ''y''\<rparr>]) \<and>
     encode build_static_cache [\<lparr>hf_name = ''vary'', hf_value = ''cookie''\<rparr>] = Inr bad \<and>
     decode bad \<noteq> Returns (Inr [\<lparr>hf_name = ''vary'', hf_value = ''cookie''\<rparr>])"
proof -
  let ?g = "[\<lparr>hf_name = '':method'', hf_value = ''GET''\<rparr>, \<lparr>hf_name = ''accept'', hf_value = ''text''\<rparr>,
    \<lparr>hf_name = ''x'', hf_value = ''y''\<rparr>]"
  let ?b = "[\<lparr>hf_name = ''vary'', hf_value = ''cookie''\<rparr>]"
  have safe: "list_all field_safe ?g" "\<not> list_all field_safe ?b"
    by (simp_all add: field_safe_def static_table_def)
  have "length ([0, 0] @ concat (map field_bytes ?g)) < 2 ^ 63" "length ([0, 0] @ concat (map field_bytes ?b)) < 2 ^ 63"
    using length_field_bytes [of "?g ! 0"] length_field_bytes [of "?g ! 1"] length_field_bytes [of "?g ! 2"]
      length_field_bytes [of "?b ! 0"] by simp_all
  then show ?thesis
    using qpack_roundtrip_iff [OF encode_eq, of ?g] qpack_roundtrip_iff [OF encode_eq, of ?b] safe encode_eq [of ?g] encode_eq [of ?b]
    by blast
qed

text \<open>A length prefix of more than nine bytes leads the decoder out of the language or out of the call: the tenth
  continuation byte shifts by 70 bits, and a length near \<open>2 ^ 64\<close> passes the bounds check by wrapping around.\<close>

lemma long_length_prefix:
  "decode [0, 0, 0x20, 0xff, 0xff, 0xff, 0xff, 0xff, 0xff, 0xff, 0xff, 0xff, 0x01] = Throws ''std::length_error''"
  "decode [0, 0, 0x20, 0x80, 0x80, 0x80, 0x80, 0x80, 0x80, 0x80, 0x80, 0x80, 0x80, 0x00] = Undefined"
  by (simp_all add: decode_def decode_fields.simps decode_string_def read_length.simps u64_shl_def u64_add_def
      string_max_size_def push_bit_eq_mult Let_def)

end
