(* ===== verification/Http3.thy ===== *)
theory Http3
  imports Varint Qpack "HOL-Library.AList"
begin

text \<open>
  HTTP/3 messages, \<open>src/include/flowq/quic/http3.hpp\<close> and \<open>http3_request.hpp\<close>: the encoders of DATA, GOAWAY and
  SETTINGS frames, the builders, encoders and decoders of requests and responses.  The \<open>std::unordered_map\<close> of
  header fields is an association list with distinct keys, in the order in which the map is iterated.
\<close>

section \<open>Frames\<close>

record settings =
  max_field_section_size :: u64
  qpack_max_table_capacity :: u64
  qpack_blocked_streams :: u64

record h3_header_field =
  h3_name :: buffer
  h3_value :: buffer

datatype http3_frame_variant =
    H3Data buffer
  | H3Headers "h3_header_field list"
  | H3Goaway u64

text \<open>The bytes that \<open>encode_varint\<close> wrote to an array of eight; none when it failed.\<close>

definition varint_written :: "u64 \<Rightarrow> buffer" where
  "varint_written v = (case encode_varint v (replicate 8 0) of Inl _ \<Rightarrow> [] | Inr (n, buf) \<Rightarrow> take n buf)"

definition encode_data_frame :: "buffer \<Rightarrow> buffer result" where
  "encode_data_frame payload =
     (let out = varint_written 0x00;
          out = out @ varint_written (length payload)
      in Inr (out @ payload))"

definition encode_goaway_frame :: "u64 \<Rightarrow> buffer result" where
  "encode_goaway_frame stream_id =
     (case encode_varint stream_id (replicate 8 0) of
        Inl _ \<Rightarrow> Inl \<lparr>err_code = EC_internal_error, err_message = ''failed to encode GOAWAY stream id varint''\<rparr>
      | Inr (bytes_written, id_buf) \<Rightarrow>
          let out = varint_written 0x07;
              out = out @ varint_written bytes_written
          in Inr (out @ take bytes_written id_buf))"

definition encode_settings_frame :: "settings \<Rightarrow> buffer result" where
  "encode_settings_frame s =
     (let out = varint_written 0x04;
          payload = varint_written 0x06;
          payload = payload @ varint_written (max_field_section_size s);
          payload = payload @ varint_written 0x01;
          payload = payload @ varint_written (qpack_max_table_capacity s);
          payload = payload @ varint_written 0x07;
          payload = payload @ varint_written (qpack_blocked_streams s);
          out = out @ varint_written (length payload)
      in Inr (out @ payload))"

section \<open>Requests and responses\<close>

record request =
  rq_method :: string
  rq_path :: string
  rq_authority :: string
  rq_scheme :: string
  rq_headers :: "(string \<times> string) list"
  rq_body :: buffer

record response =
  rs_status_code :: u64
  rs_headers :: "(string \<times> string) list"
  rs_body :: buffer

definition new_request :: request where
  "new_request = \<lparr>rq_method = '''', rq_path = '''', rq_authority = '''', rq_scheme = '''', rq_headers = [], rq_body = []\<rparr>"

definition new_response :: response where
  "new_response = \<lparr>rs_status_code = 0, rs_headers = [], rs_body = []\<rparr>"

text \<open>The builders return themselves; their state is the message built so far.\<close>

definition rqb_method :: "string \<Rightarrow> request \<Rightarrow> request" where
  "rqb_method m r = r\<lparr>rq_method := m\<rparr>"

definition rqb_path :: "string \<Rightarrow> request \<Rightarrow> request" where
  "rqb_path p r = r\<lparr>rq_path := p\<rparr>"

definition rqb_authority :: "string \<Rightarrow> request \<Rightarrow> request" where
  "rqb_authority a r = r\<lparr>rq_authority := a\<rparr>"

definition rqb_scheme :: "string \<Rightarrow> request \<Rightarrow> request" where
  "rqb_scheme s r = r\<lparr>rq_scheme := s\<rparr>"

definition rqb_header :: "string \<Rightarrow> string \<Rightarrow> request \<Rightarrow> request" where
  "rqb_header name val r = r\<lparr>rq_headers := AList.update name val (rq_headers r)\<rparr>"

definition rqb_body :: "buffer \<Rightarrow> request \<Rightarrow> request" where
  "rqb_body b r = r\<lparr>rq_body := b\<rparr>"

definition rsb_status :: "u64 \<Rightarrow> response \<Rightarrow> response" where
  "rsb_status c r = r\<lparr>rs_status_code := c\<rparr>"

definition rsb_header :: "string \<Rightarrow> string \<Rightarrow> response \<Rightarrow> response" where
  "rsb_header name val r = r\<lparr>rs_headers := AList.update name val (rs_headers r)\<rparr>"

definition rsb_body :: "buffer \<Rightarrow> response \<Rightarrow> response" where
  "rsb_body b r = r\<lparr>rs_body := b\<rparr>"

section \<open>Encoders\<close>

definition h3_append_varint :: "buffer \<Rightarrow> u64 \<Rightarrow> buffer" where
  "h3_append_varint out v =
     (case encode_varint v (replicate 8 0) of Inl _ \<Rightarrow> out | Inr (n, encoded) \<Rightarrow> out @ take n encoded)"

definition encode_headers_frame :: "buffer \<Rightarrow> buffer" where
  "encode_headers_frame headers =
     (let out = h3_append_varint [] 0x01;
          out = h3_append_varint out (length headers)
      in out @ headers)"

definition request_fields :: "request \<Rightarrow> header_field list" where
  "request_fields req =
     [\<lparr>hf_name = '':method'', hf_value = rq_method req\<rparr>, \<lparr>hf_name = '':path'', hf_value = rq_path req\<rparr>,
      \<lparr>hf_name = '':authority'', hf_value = rq_authority req\<rparr>, \<lparr>hf_name = '':scheme'', hf_value = rq_scheme req\<rparr>] @
     map (\<lambda>(name, val). \<lparr>hf_name = name, hf_value = val\<rparr>) (rq_headers req)"

text \<open>The common rest of the two encoders: QPACK, the HEADERS frame, and a DATA frame for a body.\<close>

definition encode_message :: "header_field list \<Rightarrow> buffer \<Rightarrow> buffer result" where
  "encode_message fs body =
     (case encode build_static_cache fs of
        Inl e \<Rightarrow> Inl e
      | Inr encoded_headers \<Rightarrow>
          let headers_frame = encode_headers_frame encoded_headers in
          if body \<noteq> [] then
            (case encode_data_frame body of
               Inl e \<Rightarrow> Inl e
             | Inr data_frame \<Rightarrow> Inr (headers_frame @ data_frame))
          else Inr headers_frame)"

definition encode_request :: "request \<Rightarrow> buffer result" where
  "encode_request req = encode_message (request_fields req) (rq_body req)"

text \<open>\<open>std::to_string\<close> of an unsigned integer.\<close>

fun to_string :: "u64 \<Rightarrow> string" where
  "to_string n = (if n < 10 then [char_of (48 + n)] else to_string (n div 10) @ [char_of (48 + n mod 10)])"

declare to_string.simps [simp del]

definition response_fields :: "response \<Rightarrow> header_field list" where
  "response_fields resp =
     [\<lparr>hf_name = '':status'', hf_value = to_string (rs_status_code resp)\<rparr>] @
     map (\<lambda>(name, val). \<lparr>hf_name = name, hf_value = val\<rparr>) (rs_headers resp)"

definition encode_response :: "response \<Rightarrow> buffer result" where
  "encode_response resp = encode_message (response_fields resp) (rs_body resp)"

section \<open>Decoders\<close>

definition set_request_field :: "request \<Rightarrow> header_field \<Rightarrow> request" where
  "set_request_field req field =
     (if hf_name field = '':method'' then req\<lparr>rq_method := hf_value field\<rparr>
      else if hf_name field = '':path'' then req\<lparr>rq_path := hf_value field\<rparr>
      else if hf_name field = '':authority'' then req\<lparr>rq_authority := hf_value field\<rparr>
      else if hf_name field = '':scheme'' then req\<lparr>rq_scheme := hf_value field\<rparr>
      else req\<lparr>rq_headers := AList.update (hf_name field) (hf_value field) (rq_headers req)\<rparr>)"

fun decode_request_frames :: "http3_frame_variant list \<Rightarrow> request \<Rightarrow> request option outcome" where
  "decode_request_frames [] req = (if rq_method req = '''' \<or> rq_path req = '''' then Returns None else Returns (Some req))"
| "decode_request_frames (H3Headers fs # frames) req =
     (if fs = [] then Returns None
      else case decode (h3_name (fs ! 0)) of
          Undefined \<Rightarrow> Undefined
        | Throws e \<Rightarrow> Throws e
        | Returns (Inl _) \<Rightarrow> decode_request_frames frames req
        | Returns (Inr decoded) \<Rightarrow> decode_request_frames frames (foldl set_request_field req decoded))"
| "decode_request_frames (H3Data d # frames) req = decode_request_frames frames (req\<lparr>rq_body := d\<rparr>)"
| "decode_request_frames (H3Goaway i # frames) req = decode_request_frames frames req"

definition decode_request :: "http3_frame_variant list \<Rightarrow> request option outcome" where
  "decode_request frames = decode_request_frames frames new_request"

text \<open>\<open>std::stoull\<close>, that is \<open>strtoull\<close> in base 10: white space, a sign, digits; whatever follows is ignored.
  No digit is an \<open>invalid_argument\<close>, a value beyond 64 bits an \<open>out_of_range\<close>; a minus sign negates modulo \<open>2 ^ 64\<close>.\<close>

definition is_digit :: "char \<Rightarrow> bool" where
  "is_digit c \<longleftrightarrow> 48 \<le> (of_char c :: nat) \<and> (of_char c :: nat) \<le> 57"

definition is_space :: "char \<Rightarrow> bool" where
  "is_space c \<longleftrightarrow> (of_char c :: nat) = 32 \<or> (9 \<le> (of_char c :: nat) \<and> (of_char c :: nat) \<le> 13)"

definition digits_value :: "string \<Rightarrow> nat" where
  "digits_value ds = foldl (\<lambda>v c. 10 * v + (of_char c - 48)) 0 ds"

definition stoull :: "string \<Rightarrow> u64 outcome" where
  "stoull str =
     (let str = dropWhile is_space str;
          negative = (str \<noteq> [] \<and> hd str = CHR ''-'');
          str = (if str \<noteq> [] \<and> (hd str = CHR ''-'' \<or> hd str = CHR ''+'') then tl str else str);
          digits = takeWhile is_digit str;
          v = digits_value digits in
      if digits = [] then Throws ''std::invalid_argument''
      else if v \<ge> 2 ^ 64 then Throws ''std::out_of_range''
      else Returns (if negative then u64_sub 0 v else v))"

fun set_response_fields :: "header_field list \<Rightarrow> response \<Rightarrow> response outcome" where
  "set_response_fields [] resp = Returns resp"
| "set_response_fields (field # fs) resp =
     (if hf_name field = '':status'' then
        (case stoull (hf_value field) of
           Undefined \<Rightarrow> Undefined
         | Throws e \<Rightarrow> Throws e
         | Returns c \<Rightarrow> set_response_fields fs (resp\<lparr>rs_status_code := c\<rparr>))
      else set_response_fields fs
        (resp\<lparr>rs_headers := AList.update (hf_name field) (hf_value field) (rs_headers resp)\<rparr>))"

fun decode_response_frames :: "http3_frame_variant list \<Rightarrow> response \<Rightarrow> response option outcome" where
  "decode_response_frames [] resp = (if rs_status_code resp = 0 then Returns None else Returns (Some resp))"
| "decode_response_frames (H3Headers fs # frames) resp =
     (if fs = [] then Returns None
      else case decode (h3_name (fs ! 0)) of
          Undefined \<Rightarrow> Undefined
        | Throws e \<Rightarrow> Throws e
        | Returns (Inl _) \<Rightarrow> decode_response_frames frames resp
        | Returns (Inr decoded) \<Rightarrow>
            (case set_response_fields decoded resp of
               Undefined \<Rightarrow> Undefined
             | Throws e \<Rightarrow> Throws e
             | Returns resp \<Rightarrow> decode_response_frames frames resp))"
| "decode_response_frames (H3Data d # frames) resp = decode_response_frames frames (resp\<lparr>rs_body := d\<rparr>)"
| "decode_response_frames (H3Goaway i # frames) resp = decode_response_frames frames resp"

definition decode_response :: "http3_frame_variant list \<Rightarrow> response option outcome" where
  "decode_response frames = decode_response_frames frames new_response"

section \<open>Lemmas\<close>

lemma varint_written_ok: "v \<le> max_varint \<Longrightarrow> varint_written v = varint_bytes v"
  using encode_varint_ok [of v "replicate 8 0"] varint_len_bounds(2) [of v] by (simp add: varint_written_def)

lemma h3_append_varint_eq: "h3_append_varint out v = out @ varint_written v"
  by (auto simp: h3_append_varint_def varint_written_def split: sum.splits)

lemma encode_message_bytes:
  assumes "encode build_static_cache fs = Inr block" and "length block \<le> max_varint" and "length body \<le> max_varint"
  shows "encode_message fs body = Inr (varint_bytes 1 @ varint_bytes (length block) @ block @
    (if body = [] then [] else varint_bytes 0 @ varint_bytes (length body) @ body))"
  using assms by (simp add: encode_message_def encode_headers_frame_def encode_data_frame_def h3_append_varint_eq varint_written_ok
      max_varint_def)

lemma update_fresh: "k \<notin> fst ` set al \<Longrightarrow> AList.update k v al = al @ [(k, v)]"
  by (induction al) auto

definition pseudo_names :: "string list" where
  "pseudo_names = ['':method'', '':path'', '':authority'', '':scheme'', '':status'']"

text \<open>Header fields an application may set: distinct names, none of the pseudo-header names, and none of the names
  that the QPACK decoder confuses.\<close>

definition regular_headers :: "(string \<times> string) list \<Rightarrow> bool" where
  "regular_headers hs \<longleftrightarrow> distinct (map fst hs) \<and> (\<forall>(n, v) \<in> set hs. n \<notin> set pseudo_names \<and> field_safe \<lparr>hf_name = n, hf_value = v\<rparr>)"

lemma pseudo_safe:
  "field_safe \<lparr>hf_name = '':method'', hf_value = v\<rparr>" "field_safe \<lparr>hf_name = '':path'', hf_value = v\<rparr>"
  "field_safe \<lparr>hf_name = '':authority'', hf_value = v\<rparr>" "field_safe \<lparr>hf_name = '':scheme'', hf_value = v\<rparr>"
  "field_safe \<lparr>hf_name = '':status'', hf_value = v\<rparr>"
  unfolding field_safe_def by (rule disjI2, simp add: static_table_def)+

lemma regular: "regular_headers hs \<Longrightarrow> distinct (map fst hs) \<and> (\<forall>(n, v) \<in> set hs. n \<notin> set pseudo_names)"
  by (auto simp: regular_headers_def)

lemma fields_safe:
  assumes "regular_headers hs"
  shows "list_all field_safe (map (\<lambda>(n, v). \<lparr>hf_name = n, hf_value = v\<rparr>) hs)"
  using assms by (auto simp: regular_headers_def list_all_iff)

lemma foldl_set_request_field:
  assumes "distinct (map fst (rq_headers req @ hs))" and "\<forall>(n, v) \<in> set hs. n \<notin> set pseudo_names"
  shows "foldl set_request_field req (map (\<lambda>(n, v). \<lparr>hf_name = n, hf_value = v\<rparr>) hs) = req\<lparr>rq_headers := rq_headers req @ hs\<rparr>"
  using assms
proof (induction hs arbitrary: req)
  case (Cons h hs)
  obtain n v where h: "h = (n, v)" by (cases h)
  have "set_request_field req \<lparr>hf_name = n, hf_value = v\<rparr> = req\<lparr>rq_headers := rq_headers req @ [(n, v)]\<rparr>"
    using Cons.prems by (simp add: h set_request_field_def pseudo_names_def update_fresh)
  then show ?case using Cons.IH [of "req\<lparr>rq_headers := rq_headers req @ [(n, v)]\<rparr>"] Cons.prems by (simp add: h)
qed simp

lemma set_response_fields_regular:
  assumes "distinct (map fst (rs_headers resp @ hs))" and "\<forall>(n, v) \<in> set hs. n \<notin> set pseudo_names"
  shows "set_response_fields (map (\<lambda>(n, v). \<lparr>hf_name = n, hf_value = v\<rparr>) hs) resp =
    Returns (resp\<lparr>rs_headers := rs_headers resp @ hs\<rparr>)"
  using assms
proof (induction hs arbitrary: resp)
  case (Cons h hs)
  obtain n v where h: "h = (n, v)" by (cases h)
  then show ?case
    using Cons.IH [of "resp\<lparr>rs_headers := rs_headers resp @ [(n, v)]\<rparr>"] Cons.prems
    by (simp add: pseudo_names_def update_fresh)
qed simp

lemma of_char_digit: "d < 10 \<Longrightarrow> (of_char (char_of (48 + d) :: char) :: nat) = 48 + d"
  by (simp add: of_char_mod_256)

lemma to_string_digits: "to_string n \<noteq> [] \<and> list_all is_digit (to_string n) \<and> digits_value (to_string n) = n"
proof (induction n rule: to_string.induct)
  case (1 n)
  show ?case
  proof (cases "n < 10")
    case True
    then show ?thesis using of_char_digit [of n] by (simp add: to_string.simps [of n] is_digit_def digits_value_def)
  next
    case False
    have "n mod 10 < 10" by simp
    from of_char_digit [OF this] 1 [OF False] False show ?thesis
      by (simp add: to_string.simps [of n] is_digit_def digits_value_def)
  qed
qed

lemma stoull_to_string:
  assumes "is_u64 n"
  shows "stoull (to_string n) = Returns n"
proof -
  note d = to_string_digits [of n]
  obtain c cs where c: "to_string n = c # cs" "is_digit c" using d by (cases "to_string n") auto
  have c': "\<not> is_space c" "c \<noteq> CHR ''-''" "c \<noteq> CHR ''+''" using c(2) by (auto simp: is_digit_def is_space_def)
  have "dropWhile is_space (to_string n) = to_string n" "hd (to_string n) = c" using c' by (simp_all add: c)
  moreover have all: "takeWhile is_digit (to_string n) = to_string n" using d by (simp add: takeWhile_eq_all_conv list_all_iff)
  ultimately show ?thesis
    using d assms c' unfolding stoull_def is_u64_def by (simp add: Let_def all)
qed

lemma decode_block:
  assumes "encode build_static_cache fs = Inr block" and "length block \<le> max_varint" and "list_all field_safe fs"
  shows "decode block = Returns (Inr fs)"
proof -
  have data: "block = [0, 0] @ concat (map field_bytes fs)" using assms(1) by (simp add: encode_eq)
  have "at_bytes block 2 (concat (map field_bytes fs))" by (simp add: data at_bytes_def)
  moreover have "length block < 2 ^ 63" using assms(2) by (simp add: max_varint_def)
  ultimately have "decode_fields block 2 [] = Returns (Inr ([] @ fs))" using decode_fields_list assms(3) by blast
  then show ?thesis by (simp add: decode_def data)
qed

section \<open>Properties\<close>

text \<open>C38: A request with a method, a path and regular header fields is encoded as a HEADERS frame, followed by a
  DATA frame when it has a body, and the decoder recovers exactly that request from the two frames.\<close>

theorem http3_request_roundtrip:
  assumes "rq_method req \<noteq> []" and "rq_path req \<noteq> []" and "regular_headers (rq_headers req)"
    and "encode build_static_cache (request_fields req) = Inr block" and "length block \<le> max_varint"
    and "length (rq_body req) \<le> max_varint"
  shows "encode_request req = Inr (varint_bytes 1 @ varint_bytes (length block) @ block @
      (if rq_body req = [] then [] else varint_bytes 0 @ varint_bytes (length (rq_body req)) @ rq_body req)) \<and>
    decode_request (H3Headers [\<lparr>h3_name = block, h3_value = []\<rparr>] # (if rq_body req = [] then [] else [H3Data (rq_body req)])) =
      Returns (Some req)"
proof -
  have "list_all field_safe (request_fields req)"
    using fields_safe [OF assms(3)] by (simp add: request_fields_def pseudo_safe)
  note d = decode_block [OF assms(4,5) this]
  let ?r = "\<lparr>rq_method = rq_method req, rq_path = rq_path req, rq_authority = rq_authority req, rq_scheme = rq_scheme req,
    rq_headers = [], rq_body = []\<rparr>"
  have "foldl set_request_field new_request (request_fields req) =
      foldl set_request_field ?r (map (\<lambda>(n, v). \<lparr>hf_name = n, hf_value = v\<rparr>) (rq_headers req))"
    by (simp add: request_fields_def set_request_field_def new_request_def)
  also have "\<dots> = req\<lparr>rq_body := []\<rparr>"
    using foldl_set_request_field [of ?r "rq_headers req"] regular [OF assms(3)] by (cases req) simp
  finally have "decode_request (H3Headers [\<lparr>h3_name = block, h3_value = []\<rparr>] # fr) = decode_request_frames fr (req\<lparr>rq_body := []\<rparr>)" for fr
    using d by (simp add: decode_request_def)
  then show ?thesis
    using encode_message_bytes [OF assms(4-6)] assms(1,2) by (simp add: encode_request_def)
qed

definition example_request :: request where
  "example_request = rqb_body [1, 2, 3] (rqb_header ''accept'' ''text'' (rqb_scheme ''https'' (rqb_authority ''example.org''
     (rqb_path ''/index'' (rqb_method ''GET'' new_request)))))"

lemma example_request_eq:
  "example_request = \<lparr>rq_method = ''GET'', rq_path = ''/index'', rq_authority = ''example.org'', rq_scheme = ''https'',
     rq_headers = [(''accept'', ''text'')], rq_body = [1, 2, 3]\<rparr>"
  by (simp add: example_request_def new_request_def rqb_method_def rqb_path_def rqb_authority_def rqb_scheme_def rqb_header_def
      rqb_body_def)

lemma accept_safe: "field_safe \<lparr>hf_name = ''accept'', hf_value = v\<rparr>"
  unfolding field_safe_def by (rule disjI2, simp add: static_table_def)

theorem http3_request_roundtrip_witness:
  "\<exists>block. encode build_static_cache (request_fields example_request) = Inr block \<and>
     decode_request [H3Headers [\<lparr>h3_name = block, h3_value = []\<rparr>], H3Data [1, 2, 3]] = Returns (Some example_request)"
proof -
  let ?f = "request_fields example_request"
  have f: "?f = [\<lparr>hf_name = '':method'', hf_value = ''GET''\<rparr>, \<lparr>hf_name = '':path'', hf_value = ''/index''\<rparr>,
      \<lparr>hf_name = '':authority'', hf_value = ''example.org''\<rparr>, \<lparr>hf_name = '':scheme'', hf_value = ''https''\<rparr>,
      \<lparr>hf_name = ''accept'', hf_value = ''text''\<rparr>]" by (simp add: request_fields_def example_request_eq)
  have "length (concat (map field_bytes ?f)) \<le> 200"
    unfolding f using length_field_bytes [of "?f ! 0"] length_field_bytes [of "?f ! 1"] length_field_bytes [of "?f ! 2"]
      length_field_bytes [of "?f ! 3"] length_field_bytes [of "?f ! 4"] by (simp add: f)
  then have "length ([0, 0] @ concat (map field_bytes ?f)) \<le> max_varint" by (simp add: max_varint_def)
  moreover have "regular_headers (rq_headers example_request)"
    by (simp add: example_request_eq regular_headers_def pseudo_names_def accept_safe)
  ultimately show ?thesis
    using http3_request_roundtrip [of example_request, OF _ _ _ encode_eq] encode_eq [of ?f]
    by (simp add: example_request_eq max_varint_def)
qed

text \<open>A response with a non-zero status code and regular header fields is encoded as a HEADERS frame and a DATA
  frame for its body, and the decoder recovers exactly that response, the decimal status code included.\<close>

theorem http3_response_roundtrip:
  assumes "rs_status_code resp \<noteq> 0" and "is_u64 (rs_status_code resp)" and "regular_headers (rs_headers resp)"
    and "encode build_static_cache (response_fields resp) = Inr block" and "length block \<le> max_varint"
    and "length (rs_body resp) \<le> max_varint"
  shows "encode_response resp = Inr (varint_bytes 1 @ varint_bytes (length block) @ block @
      (if rs_body resp = [] then [] else varint_bytes 0 @ varint_bytes (length (rs_body resp)) @ rs_body resp)) \<and>
    decode_response (H3Headers [\<lparr>h3_name = block, h3_value = []\<rparr>] # (if rs_body resp = [] then [] else [H3Data (rs_body resp)])) =
      Returns (Some resp)"
proof -
  have "list_all field_safe (response_fields resp)"
    using fields_safe [OF assms(3)] by (simp add: response_fields_def pseudo_safe)
  note d = decode_block [OF assms(4,5) this]
  let ?r = "\<lparr>rs_status_code = rs_status_code resp, rs_headers = [], rs_body = []\<rparr>"
  have "set_response_fields (response_fields resp) new_response =
      set_response_fields (map (\<lambda>(n, v). \<lparr>hf_name = n, hf_value = v\<rparr>) (rs_headers resp)) ?r"
    by (simp add: response_fields_def new_response_def stoull_to_string [OF assms(2)])
  also have "\<dots> = Returns (resp\<lparr>rs_body := []\<rparr>)"
    using set_response_fields_regular [of ?r "rs_headers resp"] regular [OF assms(3)] by (cases resp) simp
  finally have "decode_response (H3Headers [\<lparr>h3_name = block, h3_value = []\<rparr>] # fr) = decode_response_frames fr (resp\<lparr>rs_body := []\<rparr>)" for fr
    using d by (simp add: decode_response_def)
  then show ?thesis
    using encode_message_bytes [OF assms(4-6)] assms(1) by (simp add: encode_response_def)
qed

theorem http3_response_roundtrip_witness:
  "\<exists>block. encode build_static_cache (response_fields \<lparr>rs_status_code = 404, rs_headers = [], rs_body = []\<rparr>) = Inr block \<and>
     decode_response [H3Headers [\<lparr>h3_name = block, h3_value = []\<rparr>]] = Returns (Some \<lparr>rs_status_code = 404, rs_headers = [], rs_body = []\<rparr>)"
proof -
  let ?r = "\<lparr>rs_status_code = 404, rs_headers = [], rs_body = []\<rparr> :: response"
  have "length (to_string 404) = 3" by (simp add: to_string.simps)
  then have "length (concat (map field_bytes (response_fields ?r))) \<le> 20"
    using length_field_bytes [of "\<lparr>hf_name = '':status'', hf_value = to_string 404\<rparr>"] by (simp add: response_fields_def)
  then have "length ([0, 0] @ concat (map field_bytes (response_fields ?r))) \<le> max_varint" by (simp add: max_varint_def)
  then show ?thesis
    using http3_response_roundtrip [of ?r, OF _ _ _ encode_eq] encode_eq [of "response_fields ?r"]
    by (simp add: regular_headers_def is_u64_def max_varint_def)
qed

text \<open>\<open>encode_settings_frame\<close> ignores a failed \<open>encode_varint\<close>: a setting beyond 62 bits is written as an identifier
  without a value.\<close>

lemma oversized_setting_dropped:
  "max_varint < n \<Longrightarrow> encode_settings_frame \<lparr>max_field_section_size = n, qpack_max_table_capacity = 0, qpack_blocked_streams = 0\<rparr> =
     Inr [4, 5, 6, 1, 0, 7, 0]"
proof -
  have w: "varint_written v = [to_byte v]" if "v < 64" for v
    using that varint_written_ok [of v] by (simp add: max_varint_def varint_bytes_def varint_len_def varint_tag_def)
  assume "max_varint < n"
  then have "varint_written n = []"
    using encode_varint_fail [of n "replicate 8 0"] by (auto simp: varint_written_def split: sum.splits)
  then show ?thesis by (simp add: encode_settings_frame_def w to_byte_def)
qed

end
