(* ===== verification/ZeroCopy.thy ===== *)
theory ZeroCopy
  imports PacketPipeline
begin

text \<open>
  The packet builder that works inside one preallocated buffer, \<open>src/include/flowq/quic/zero_copy_packet_builder.hpp\<close>,
  and the default \<open>protect_in_place\<close> of \<open>packet_pipeline.hpp\<close>.  The buffer is a list of fixed length and every copy
  into it is explicit: a copy or a read that leaves the buffer makes the call \<open>Undefined\<close>.
\<close>

section \<open>Memory\<close>

text \<open>\<open>std::memcpy\<close> into a buffer and a read of a range of it; \<open>None\<close> when the range is not inside.\<close>

definition store_bytes :: "buffer \<Rightarrow> nat \<Rightarrow> buffer \<Rightarrow> buffer option" where
  "store_bytes buf pos bytes =
     (if pos + length bytes \<le> length buf then Some (take pos buf @ bytes @ drop (pos + length bytes) buf) else None)"

definition load_bytes :: "buffer \<Rightarrow> nat \<Rightarrow> nat \<Rightarrow> buffer option" where
  "load_bytes buf pos n = (if pos + n \<le> length buf then Some (take n (drop pos buf)) else None)"

text \<open>\<open>std::memmove\<close> inside one buffer.\<close>

definition move_bytes :: "buffer \<Rightarrow> nat \<Rightarrow> nat \<Rightarrow> nat \<Rightarrow> buffer option" where
  "move_bytes buf dest source n = do { bytes \<leftarrow> load_bytes buf source n; store_bytes buf dest bytes }"

text \<open>The default of \<open>packet_protector::protect_in_place\<close>: the result and the buffer, which holds the protected bytes
  when protection succeeded.\<close>

definition protect_in_place ::
    "packet_protector \<Rightarrow> buffer \<Rightarrow> nat \<Rightarrow> nat \<Rightarrow> packet_protection_context \<Rightarrow> (buffer result \<times> buffer) option" where
  "protect_in_place p buf plaintext_offset plaintext_size context =
     do { plaintext \<leftarrow> load_bytes buf plaintext_offset plaintext_size;
          (case pp_protect p context plaintext of
             Inl e \<Rightarrow> Some (Inl e, buf)
           | Inr payload \<Rightarrow> do { buf \<leftarrow> store_bytes buf plaintext_offset payload; Some (Inr payload, buf) }) }"

section \<open>The builder\<close>

record zero_copy_packet_builder =
  zc_buffer :: buffer
  zc_write_pos :: nat

definition new_zero_copy_packet_builder :: "nat \<Rightarrow> zero_copy_packet_builder" where
  "new_zero_copy_packet_builder max_datagram_size = \<lparr>zc_buffer = replicate max_datagram_size 0, zc_write_pos = 0\<rparr>"

definition write_span :: "buffer \<Rightarrow> zero_copy_packet_builder \<Rightarrow> zero_copy_packet_builder option" where
  "write_span bytes b =
     do { buf \<leftarrow> store_bytes (zc_buffer b) (zc_write_pos b) bytes;
          Some (b\<lparr>zc_buffer := buf, zc_write_pos := zc_write_pos b + length bytes\<rparr>) }"

text \<open>The loop over the frames; \<open>None\<close> is a write outside the buffer.\<close>

fun write_frames :: "frame list \<Rightarrow> zero_copy_packet_builder \<Rightarrow> (unit result \<times> zero_copy_packet_builder) option" where
  "write_frames [] b = Some (Inr (), b)"
| "write_frames (f # fs) b =
     (case encode_frame f of
        Inl e \<Rightarrow> Some (Inl e, b)
      | Inr payload \<Rightarrow> do { b \<leftarrow> write_span payload b; write_frames fs b })"

definition check_zero_copy_request :: "application_packet_build_request \<Rightarrow> packet_protector \<Rightarrow> unit result" where
  "check_zero_copy_request r p =
     (if pn_space (abr_number r) \<noteq> ApplicationSpace
      then Inl (pipeline_error ''packet number space does not match short-header packet'')
      else if \<not> application_protection_level_matches (pp_level p)
      then Inl (pipeline_error ''packet protector level does not match short-header packet'')
      else validate_protection_policy p)"

definition write_short_header :: "connection_id \<Rightarrow> u64 \<Rightarrow> buffer \<Rightarrow> buffer option" where
  "write_short_header dcid number buf =
     do { buf \<leftarrow> store_bytes buf 0 [0x43];
          buf \<leftarrow> store_bytes buf 1 (cid_bytes dcid);
          store_bytes buf (1 + length (cid_bytes dcid))
            [to_byte (drop_bit 24 number AND 0xff), to_byte (drop_bit 16 number AND 0xff),
             to_byte (drop_bit 8 number AND 0xff), to_byte (number AND 0xff)] }"

text \<open>From the protected payload on: the second copy, header protection on the used part, the size check.\<close>

definition finish_application ::
    "application_packet_build_request \<Rightarrow> packet_protector \<Rightarrow> nat \<Rightarrow> buffer \<Rightarrow> buffer \<Rightarrow> (buffer result \<times> buffer) option" where
  "finish_application r p header_size payload buf =
     (let total_size = header_size + length payload in
      if total_size > length buf then Some (Inl (pipeline_error ''datagram exceeds max size''), buf)
      else do {
        buf \<leftarrow> store_bytes buf header_size payload;
        Some (case (if pp_header_protection_enabled p
                then apply_short_header_protection (take total_size buf) (length (cid_bytes (abr_destination_connection_id r))) p
                else Inr (take total_size buf)) of
            Inl e \<Rightarrow> (Inl e, buf)
          | Inr datagram \<Rightarrow>
              let buf = datagram @ drop total_size buf in
              if total_size > abr_max_datagram_size r
              then (Inl (pipeline_error ''QUIC datagram exceeds maximum size''), buf)
              else (Inr (take total_size buf), buf)) })"

abbreviation short_header_reserve :: nat where
  "short_header_reserve \<equiv> 32"

definition build_application_datagram ::
    "application_packet_build_request \<Rightarrow> packet_protector \<Rightarrow> zero_copy_packet_builder \<Rightarrow>
     (buffer result \<times> zero_copy_packet_builder) option" where
  "build_application_datagram r p b =
     (let b = b\<lparr>zc_write_pos := short_header_reserve\<rparr> in
      do { (written, b) \<leftarrow> write_frames (abr_frames r) b;
           (case written of
              Inl e \<Rightarrow> Some (Inl e, b)
            | Inr _ \<Rightarrow>
                let frame_size = zc_write_pos b - short_header_reserve;
                    dcid = abr_destination_connection_id r;
                    header_size = 1 + length (cid_bytes dcid) + 4 in
                do { buf \<leftarrow> write_short_header dcid (pn_value (abr_number r)) (zc_buffer b);
                     buf \<leftarrow> (if short_header_reserve \<noteq> header_size
                             then move_bytes buf header_size short_header_reserve frame_size else Some buf);
                     (protected, buf) \<leftarrow> protect_in_place p buf header_size frame_size
                       \<lparr>ctx_number = abr_number r, ctx_associated_data = take header_size buf\<rparr>;
                     (case protected of
                        Inl e \<Rightarrow> Some (Inl e, b\<lparr>zc_buffer := buf\<rparr>)
                      | Inr payload \<Rightarrow>
                          do { (datagram, buf) \<leftarrow> finish_application r p header_size payload buf;
                               Some (datagram, b\<lparr>zc_buffer := buf\<rparr>) }) }) })"

definition build_application_packet ::
    "application_packet_build_request \<Rightarrow> zero_copy_packet_builder \<Rightarrow> (assembled_packet \<times> zero_copy_packet_builder) outcome" where
  "build_application_packet r b =
     (case abr_protector r of
        None \<Rightarrow> Returns (assembled (abr_number r) NoProtection (Inl (pipeline_error ''packet protector is required'')), b)
      | Some p \<Rightarrow>
          (case check_zero_copy_request r p of
             Inl e \<Rightarrow> Returns (assembled (abr_number r) (pp_level p) (Inl e), b)
           | Inr _ \<Rightarrow>
               (case build_application_datagram r p b of
                  None \<Rightarrow> Undefined
                | Some (datagram, b) \<Rightarrow> Returns (assembled (abr_number r) (pp_level p) datagram, b))))"

section \<open>Long packets\<close>

abbreviation long_header_reserve :: nat where
  "long_header_reserve \<equiv> 64"

text \<open>The local \<open>write_varint\<close>; it writes nothing from \<open>2 ^ 30\<close> on.\<close>

definition zc_varint :: "u64 \<Rightarrow> buffer" where
  "zc_varint v =
     (if v < 0x40 then [to_byte v]
      else if v < 0x4000 then [to_byte (0x40 OR drop_bit 8 v), to_byte (v AND 0xff)]
      else if v < 0x40000000
      then [to_byte (0x80 OR drop_bit 24 v), to_byte (drop_bit 16 v AND 0xff), to_byte (drop_bit 8 v AND 0xff), to_byte (v AND 0xff)]
      else [])"

definition zc_u32 :: "u32 \<Rightarrow> buffer" where
  "zc_u32 v = [ucast (drop_bit 24 v AND 0xff), ucast (drop_bit 16 v AND 0xff), ucast (drop_bit 8 v AND 0xff), ucast (v AND 0xff)]"

definition zc_cid :: "connection_id \<Rightarrow> buffer" where
  "zc_cid cid = to_byte (length (cid_bytes cid)) # cid_bytes cid"

text \<open>The header, in the order in which it is written from the start of the buffer on.\<close>

definition zc_long_header :: "packet_build_request \<Rightarrow> u64 \<Rightarrow> buffer" where
  "zc_long_header r protected_payload_length =
     [long_header_first_byte (br_type r)] @ zc_u32 (br_version r) @
     zc_cid (br_destination_connection_id r) @ zc_cid (br_source_connection_id r) @
     (if br_type r = LongInitial then zc_varint (length (br_token r)) @ br_token r else []) @
     zc_varint protected_payload_length @
     [to_byte (drop_bit 24 (pn_value (br_number r)) AND 0xff), to_byte (drop_bit 16 (pn_value (br_number r)) AND 0xff),
      to_byte (drop_bit 8 (pn_value (br_number r)) AND 0xff), to_byte (pn_value (br_number r) AND 0xff)]"

definition pad_in_buffer :: "packet_build_request \<Rightarrow> packet_protector \<Rightarrow> nat \<Rightarrow> zero_copy_packet_builder \<Rightarrow> zero_copy_packet_builder option" where
  "pad_in_buffer r p frame_size b =
     (if br_enforce_initial_datagram_minimum r \<and> br_type r = LongInitial then
        let current_size = long_header_reserve + fixed_packet_number_length + frame_size + pp_protection_overhead p in
        if current_size < minimum_client_initial_datagram_size
        then write_span (replicate (minimum_client_initial_datagram_size - current_size) 0) b
        else Some b
      else Some b)"

definition finish_long :: "packet_protector \<Rightarrow> nat \<Rightarrow> nat \<Rightarrow> buffer \<Rightarrow> buffer \<Rightarrow> (buffer result \<times> buffer) option" where
  "finish_long p protected_payload_length header_size payload buf =
     (let total_size = header_size + length payload in
      if total_size > length buf then Some (Inl (pipeline_error ''datagram exceeds max size''), buf)
      else do {
        buf \<leftarrow> store_bytes buf header_size payload;
        Some (case (if pp_header_protection_enabled p
                then apply_long_header_protection (take total_size buf) protected_payload_length p
                else Inr (take total_size buf)) of
            Inl e \<Rightarrow> (Inl e, buf)
          | Inr datagram \<Rightarrow> (Inr datagram, datagram @ drop total_size buf)) })"

definition build_long_datagram ::
    "packet_build_request \<Rightarrow> packet_protector \<Rightarrow> zero_copy_packet_builder \<Rightarrow> (buffer result \<times> zero_copy_packet_builder) option" where
  "build_long_datagram r p b =
     (let b = b\<lparr>zc_write_pos := long_header_reserve\<rparr> in
      do { (written, b) \<leftarrow> write_frames (br_frames r) b;
           (case written of
              Inl e \<Rightarrow> Some (Inl e, b)
            | Inr _ \<Rightarrow>
                let frame_size = zc_write_pos b - long_header_reserve in
                do { b \<leftarrow> pad_in_buffer r p frame_size b;
                     let protected_payload_length = fixed_packet_number_length + frame_size + pp_protection_overhead p;
                         header = zc_long_header r protected_payload_length in
                     do { buf \<leftarrow> store_bytes (zc_buffer b) 0 header;
                          buf \<leftarrow> (if long_header_reserve \<noteq> length header
                                  then move_bytes buf (length header) long_header_reserve frame_size else Some buf);
                          (protected, buf) \<leftarrow> protect_in_place p buf (length header) frame_size
                            \<lparr>ctx_number = br_number r, ctx_associated_data = take (length header) buf\<rparr>;
                          (case protected of
                             Inl e \<Rightarrow> Some (Inl e, b\<lparr>zc_buffer := buf\<rparr>)
                           | Inr payload \<Rightarrow>
                               do { (datagram, buf) \<leftarrow> finish_long p protected_payload_length (length header) payload buf;
                                    Some (datagram, b\<lparr>zc_buffer := buf\<rparr>) }) } }) })"

definition build_long_packet ::
    "packet_build_request \<Rightarrow> zero_copy_packet_builder \<Rightarrow> (assembled_packet \<times> zero_copy_packet_builder) outcome" where
  "build_long_packet r b =
     (case br_protector r of
        None \<Rightarrow> Returns (assembled (br_number r) NoProtection (Inl (pipeline_error ''packet protector is required'')), b)
      | Some p \<Rightarrow>
          (case build_long_datagram r p b of
             None \<Rightarrow> Undefined
           | Some (datagram, b) \<Rightarrow> Returns (assembled (br_number r) (pp_level p) datagram, b)))"

section \<open>The pool\<close>

record datagram_buffer_pool =
  bp_buffer_size :: nat
  bp_pool :: "buffer list"

definition max_pool_size :: nat where
  "max_pool_size = 32"

definition new_datagram_buffer_pool :: "nat \<Rightarrow> nat \<Rightarrow> datagram_buffer_pool" where
  "new_datagram_buffer_pool buffer_size pool_size = \<lparr>bp_buffer_size = buffer_size, bp_pool = replicate pool_size (replicate buffer_size 0)\<rparr>"

definition acquire :: "datagram_buffer_pool \<Rightarrow> buffer \<times> datagram_buffer_pool" where
  "acquire d = (if bp_pool d \<noteq> [] then (last (bp_pool d), d\<lparr>bp_pool := butlast (bp_pool d)\<rparr>) else (replicate (bp_buffer_size d) 0, d))"

definition release :: "buffer \<Rightarrow> datagram_buffer_pool \<Rightarrow> datagram_buffer_pool" where
  "release buf d = (if length (bp_pool d) < max_pool_size then d\<lparr>bp_pool := bp_pool d @ [[]]\<rparr> else d)"

section \<open>Lemmas\<close>

text \<open>Where the frames end up.\<close>

lemma write_frames_fits:
  assumes "encode_frame_list fs [] = Inr fb" and "zc_write_pos b + length fb \<le> length (zc_buffer b)"
  shows "write_frames fs b = Some (Inr (), b\<lparr>zc_buffer := take (zc_write_pos b) (zc_buffer b) @ fb @
    drop (zc_write_pos b + length fb) (zc_buffer b), zc_write_pos := zc_write_pos b + length fb\<rparr>)"
  using assms
proof (induction fs arbitrary: fb b)
  case (Cons f fs)
  obtain c where c: "encode_frame f = Inr c" using Cons.prems(1) by (auto split: sum.splits)
  then obtain fb' where fb': "encode_frame_list fs [] = Inr fb'" "fb = c @ fb'"
    using Cons.prems(1) encode_frame_list_acc [of fs c] by (auto split: sum.splits)
  let ?b = "b\<lparr>zc_buffer := take (zc_write_pos b) (zc_buffer b) @ c @ drop (zc_write_pos b + length c) (zc_buffer b),
    zc_write_pos := zc_write_pos b + length c\<rparr>"
  have "write_span c b = Some ?b" using Cons.prems(2) fb'(2) by (simp add: write_span_def store_bytes_def)
  moreover have "zc_write_pos ?b + length fb' \<le> length (zc_buffer ?b)" using Cons.prems(2) fb'(2) by simp
  ultimately show ?case using Cons.IH [OF fb'(1), of ?b] c fb'(2) Cons.prems(2) by (simp add: ac_simps)
qed (simp add: Cons)

lemma write_frames_overflow:
  assumes "encode_frame_list fs [] = Inr fb" and "length (zc_buffer b) < zc_write_pos b + length fb"
    and "zc_write_pos b \<le> length (zc_buffer b) \<or> fs \<noteq> []"
  shows "write_frames fs b = None"
  using assms
proof (induction fs arbitrary: fb b)
  case (Cons f fs)
  obtain c where c: "encode_frame f = Inr c" using Cons.prems(1) by (auto split: sum.splits)
  then obtain fb' where fb': "encode_frame_list fs [] = Inr fb'" "fb = c @ fb'"
    using Cons.prems(1) encode_frame_list_acc [of fs c] by (auto split: sum.splits)
  show ?case
  proof (cases "zc_write_pos b + length c \<le> length (zc_buffer b)")
    case True
    let ?b = "b\<lparr>zc_buffer := take (zc_write_pos b) (zc_buffer b) @ c @ drop (zc_write_pos b + length c) (zc_buffer b),
      zc_write_pos := zc_write_pos b + length c\<rparr>"
    have "write_span c b = Some ?b" using True by (simp add: write_span_def store_bytes_def)
    moreover have "write_frames fs ?b = None"
      using Cons.prems(2) True fb'(2) by (intro Cons.IH [OF fb'(1)]) auto
    ultimately show ?thesis using c by simp
  next
    case False
    then have "write_span c b = None" by (simp add: write_span_def store_bytes_def)
    then show ?thesis using c by simp
  qed
qed auto

definition short_header_bytes :: "application_packet_build_request \<Rightarrow> buffer" where
  "short_header_bytes r = 0x43 # cid_bytes (abr_destination_connection_id r) @ be_bytes 4 (pn_value (abr_number r))"

lemma length_short_header_bytes [simp]:
  "length (short_header_bytes r) = 5 + length (cid_bytes (abr_destination_connection_id r))"
  by (simp add: short_header_bytes_def)

lemma store_append:
  "length h + length c \<le> length buf \<Longrightarrow>
     store_bytes (h @ drop (length h) buf) (length h) c = Some ((h @ c) @ drop (length (h @ c)) buf)"
  by (simp add: store_bytes_def ac_simps)

lemma write_short_header_eq:
  assumes "length (short_header_bytes r) \<le> length buf"
  shows "write_short_header (abr_destination_connection_id r) (pn_value (abr_number r)) buf =
    Some (short_header_bytes r @ drop (length (short_header_bytes r)) buf)"
proof -
  let ?c = "cid_bytes (abr_destination_connection_id r)"
  have "[to_byte (drop_bit 24 v AND 0xff), to_byte (drop_bit 16 v AND 0xff), to_byte (drop_bit 8 v AND 0xff), to_byte (v AND 0xff)] =
      be_bytes 4 v" for v
    using append_packet_number_be [of v] by (simp add: append_packet_number_def)
  then show ?thesis
    using assms store_append [of "[]" "[0x43]" buf] store_append [of "[0x43]" ?c buf]
      store_append [of "0x43 # ?c" "be_bytes 4 (pn_value (abr_number r))" buf]
    by (simp add: write_short_header_def short_header_bytes_def)
qed

lemma apply_short_length: "apply_short_header_protection d n p = Inr d' \<Longrightarrow> length d' = length d"
  by (erule apply_short_Inr) simp

text \<open>The buffer once header and frames are in place: both are contiguous at its start.\<close>

lemma frames_moved:
  assumes "length h \<le> n" and "n + length fb \<le> length buf" and "buf1 = take n buf @ fb @ drop (n + length fb) buf"
  shows "\<exists>rest. (if n \<noteq> length h then move_bytes (h @ drop (length h) buf1) (length h) n (length fb) else Some (h @ drop (length h) buf1)) =
    Some (h @ fb @ rest) \<and> length (h @ fb @ rest) = length buf"
proof (cases "length h = n")
  case True
  have "drop n buf1 = fb @ drop (n + length fb) buf" using assms(2,3) by simp
  then show ?thesis using True assms(2) by auto
next
  case False
  let ?b = "h @ drop (length h) buf1"
  have len: "length buf1 = length buf" using assms(2,3) by simp
  have "drop n ?b = drop n buf1" using assms(1) by simp
  also have "\<dots> = fb @ drop (n + length fb) buf" using assms(2,3) by simp
  finally have "load_bytes ?b n (length fb) = Some fb"
    using assms(1,2) len by (simp add: load_bytes_def)
  moreover have "store_bytes ?b (length h) fb = Some (h @ fb @ drop (length h + length fb) ?b)"
    using assms(1,2) len by (simp add: store_bytes_def)
  ultimately have "move_bytes ?b (length h) n (length fb) = Some (h @ fb @ drop (length h + length fb) ?b)"
    by (simp add: move_bytes_def)
  then show ?thesis using False assms(1,2) len by auto
qed

text \<open>Protection and the rest, on a buffer that starts with the header and the frames.\<close>

lemma finish_in_place:
  assumes "length h + length payload \<le> length buf" and "buf = h @ fb @ rest"
  shows "\<exists>buf'. do { buf \<leftarrow> store_bytes buf (length h) payload; finish_application r p (length h) payload buf } =
    Some (case (if pp_header_protection_enabled p
          then apply_short_header_protection (h @ payload) (length (cid_bytes (abr_destination_connection_id r))) p
          else Inr (h @ payload)) of
        Inl e \<Rightarrow> Inl e
      | Inr datagram \<Rightarrow> if length (h @ payload) > abr_max_datagram_size r
          then Inl (pipeline_error ''QUIC datagram exceeds maximum size'') else Inr datagram, buf') \<and> length buf' = length buf"
proof -
  let ?t = "length h + length payload"
  let ?rest = "drop (length payload) (fb @ rest)"
  have store: "store_bytes buf (length h) payload = Some (h @ payload @ ?rest)"
    using assms by (simp add: store_bytes_def)
  have again: "store_bytes (h @ payload @ ?rest) (length h) payload = Some (h @ payload @ ?rest)"
    by (simp add: store_bytes_def)
  have len: "length (h @ payload @ ?rest) = length buf" using assms by simp
  have "finish_application r p (length h) payload (h @ payload @ ?rest) =
      Some (case (if pp_header_protection_enabled p
            then apply_short_header_protection (h @ payload) (length (cid_bytes (abr_destination_connection_id r))) p
            else Inr (h @ payload)) of
          Inl e \<Rightarrow> (Inl e, h @ payload @ ?rest)
        | Inr datagram \<Rightarrow> (if ?t > abr_max_datagram_size r then Inl (pipeline_error ''QUIC datagram exceeds maximum size'') else Inr datagram,
            datagram @ ?rest))"
    using again len assms(1) apply_short_length [of "h @ payload"]
    by (auto simp: finish_application_def Let_def split: sum.splits if_splits)
  then show ?thesis
    using store len apply_short_length [of "h @ payload"] by (auto split: sum.splits if_splits)
qed

text \<open>What has to fit into a buffer of \<open>n\<close> bytes: the frames behind the reserved header, and the sealed packet.\<close>

definition zero_copy_fits :: "application_packet_build_request \<Rightarrow> packet_protector \<Rightarrow> buffer \<Rightarrow> nat \<Rightarrow> bool" where
  "zero_copy_fits r p fb n \<longleftrightarrow> short_header_reserve + length fb \<le> n \<and>
     (case pp_protect p \<lparr>ctx_number = abr_number r, ctx_associated_data = short_header_bytes r\<rparr> fb of
        Inl _ \<Rightarrow> True | Inr sealed \<Rightarrow> length (short_header_bytes r) + length sealed \<le> n)"

lemma protect_in_place_at:
  "protect_in_place p (h @ fb @ rest) (length h) (length fb) context =
    (case pp_protect p context fb of
       Inl e \<Rightarrow> Some (Inl e, h @ fb @ rest)
     | Inr payload \<Rightarrow> do { buf \<leftarrow> store_bytes (h @ fb @ rest) (length h) payload; Some (Inr payload, buf) })"
  by (simp add: protect_in_place_def load_bytes_def)

lemma build_datagram:
  assumes "encode_frame_list (abr_frames r) [] = Inr fb" and "length (cid_bytes (abr_destination_connection_id r)) \<le> 27"
    and "pn_value (abr_number r) \<le> 0xffffffff" and "short_header_reserve \<le> length (zc_buffer b)"
  shows "if zero_copy_fits r p fb (length (zc_buffer b))
    then \<exists>b'. build_application_datagram r p b = Some (seal_application_packet r p fb, b') \<and> length (zc_buffer b') = length (zc_buffer b)
    else build_application_datagram r p b = None"
proof (cases "short_header_reserve + length fb \<le> length (zc_buffer b)")
  case False
  then have "write_frames (abr_frames r) (b\<lparr>zc_write_pos := short_header_reserve\<rparr>) = None"
    using assms(4) by (intro write_frames_overflow [OF assms(1)]) auto
  then show ?thesis using False by (simp add: zero_copy_fits_def build_application_datagram_def)
next
  case True
  let ?h = "short_header_bytes r" and ?B = "zc_buffer b"
  let ?buf1 = "take 32 ?B @ fb @ drop (32 + length fb) ?B"
  have wf: "write_frames (abr_frames r) (b\<lparr>zc_write_pos := 32\<rparr>) = Some (Inr (), b\<lparr>zc_buffer := ?buf1, zc_write_pos := 32 + length fb\<rparr>)"
    using write_frames_fits [OF assms(1), of "b\<lparr>zc_write_pos := 32\<rparr>"] True by simp
  have h: "length ?h \<le> 32" using assms(2) by simp
  have wh: "write_short_header (abr_destination_connection_id r) (pn_value (abr_number r)) ?buf1 = Some (?h @ drop (length ?h) ?buf1)"
    using True h by (intro write_short_header_eq) simp
  obtain rest where mv: "(if 32 \<noteq> length ?h then move_bytes (?h @ drop (length ?h) ?buf1) (length ?h) 32 (length fb)
      else Some (?h @ drop (length ?h) ?buf1)) = Some (?h @ fb @ rest)" "length (?h @ fb @ rest) = length ?B"
    using frames_moved [OF h True refl] by blast
  let ?ctx = "\<lparr>ctx_number = abr_number r, ctx_associated_data = ?h\<rparr>"
  have hs: "1 + length (cid_bytes (abr_destination_connection_id r)) + 4 = length ?h" by simp
  have "build_application_datagram r p b =
      do { (protected, buf) \<leftarrow> protect_in_place p (?h @ fb @ rest) (length ?h) (length fb) ?ctx;
           (case protected of
              Inl e \<Rightarrow> Some (Inl e, b\<lparr>zc_write_pos := 32 + length fb, zc_buffer := buf\<rparr>)
            | Inr payload \<Rightarrow>
                do { (datagram, buf) \<leftarrow> finish_application r p (length ?h) payload buf;
                     Some (datagram, b\<lparr>zc_write_pos := 32 + length fb, zc_buffer := buf\<rparr>) }) }"
    unfolding build_application_datagram_def Let_def hs
    using mv(1) by (cases "length ?h = 32") (simp_all add: wf wh del: length_short_header_bytes cong: sum.case_cong)
  note build = this [unfolded protect_in_place_at]
  show ?thesis
  proof (cases "pp_protect p ?ctx fb")
    case (Inl e)
    then show ?thesis
      using build True mv(2) seal_application_eq [OF assms(3), of p fb] by (auto simp: zero_copy_fits_def short_header_bytes_def)
  next
    case (Inr sealed)
    show ?thesis
    proof (cases "length ?h + length sealed \<le> length ?B")
      case fit: True
      then have fit': "length ?h + length sealed \<le> length (?h @ fb @ rest)" using mv(2) by simp
      obtain buf' where f: "do { buf \<leftarrow> store_bytes (?h @ fb @ rest) (length ?h) sealed; finish_application r p (length ?h) sealed buf } =
          Some (case (if pp_header_protection_enabled p
              then apply_short_header_protection (?h @ sealed) (length (cid_bytes (abr_destination_connection_id r))) p
              else Inr (?h @ sealed)) of
            Inl e \<Rightarrow> Inl e
          | Inr datagram \<Rightarrow> if length (?h @ sealed) > abr_max_datagram_size r
              then Inl (pipeline_error ''QUIC datagram exceeds maximum size'') else Inr datagram, buf')" "length buf' = length ?B"
        using finish_in_place [OF fit' refl, of r p] mv(2) by metis
      have "(case (if pp_header_protection_enabled p
              then apply_short_header_protection (?h @ sealed) (length (cid_bytes (abr_destination_connection_id r))) p
              else Inr (?h @ sealed)) of
            Inl e \<Rightarrow> Inl e
          | Inr datagram \<Rightarrow> if length (?h @ sealed) > abr_max_datagram_size r
              then Inl (pipeline_error ''QUIC datagram exceeds maximum size'') else Inr datagram) = seal_application_packet r p fb"
        using seal_application_eq [OF assms(3), of p fb] Inr apply_short_length [of "?h @ sealed"]
        by (auto simp: short_header_bytes_def split: sum.splits)
      then show ?thesis
        using build f Inr True fit by (auto simp: zero_copy_fits_def bind_eq_Some_conv)
    next
      case False
      then have "store_bytes (?h @ fb @ rest) (length ?h) sealed = None" using mv(2) by (simp add: store_bytes_def)
      then show ?thesis using build Inr False by (simp add: zero_copy_fits_def)
    qed
  qed
qed

section \<open>Properties\<close>



text \<open>A buffer that went back to the pool comes out empty: \<open>release\<close> clears it and \<open>acquire\<close> does not resize it.\<close>

lemma released_buffer_is_empty:
  "length (bp_pool d) < max_pool_size \<Longrightarrow> fst (acquire (release buf d)) = []"
  by (simp add: acquire_def release_def)

lemma fresh_buffer_has_size:
  "fst (acquire (new_datagram_buffer_pool n k)) = replicate n 0"
  by (cases k) (auto simp: acquire_def new_datagram_buffer_pool_def)

section \<open>Padding of long packets\<close>

text \<open>The datagram of \<open>build_long_packet\<close>, as a function of the request and the encoded frames alone.\<close>

definition long_datagram :: "packet_build_request \<Rightarrow> packet_protector \<Rightarrow> buffer \<Rightarrow> buffer result" where
  "long_datagram r p fb =
     (let n = fixed_packet_number_length + length fb + pp_protection_overhead p; h = zc_long_header r n in
      case pp_protect p \<lparr>ctx_number = br_number r, ctx_associated_data = h\<rparr> fb of
        Inl e \<Rightarrow> Inl e
      | Inr sealed \<Rightarrow> if pp_header_protection_enabled p then apply_long_header_protection (h @ sealed) n p else Inr (h @ sealed))"

lemma pad_in_buffer_keeps:
  assumes "pad_in_buffer r p k b = Some b'"
  shows "length (zc_buffer b') = length (zc_buffer b)" and "take (zc_write_pos b) (zc_buffer b') = take (zc_write_pos b) (zc_buffer b)"
  using assms by (auto simp: pad_in_buffer_def write_span_def store_bytes_def Let_def min_def split: if_splits bind_splits)

lemma finish_long_stored:
  assumes "length h + length payload \<le> length buf" and "buf = h @ fb @ rest"
  shows "map_option fst (do { buf \<leftarrow> store_bytes buf (length h) payload; finish_long p n (length h) payload buf }) =
    Some (if pp_header_protection_enabled p then apply_long_header_protection (h @ payload) n p else Inr (h @ payload))"
proof -
  let ?rest = "drop (length payload) (fb @ rest)"
  have st: "store_bytes buf (length h) payload = Some (h @ payload @ ?rest)" using assms by (simp add: store_bytes_def)
  have again: "store_bytes (h @ payload @ ?rest) (length h) payload = Some (h @ payload @ ?rest)" by (simp add: store_bytes_def)
  have "length (h @ payload @ ?rest) = length buf" using assms by simp
  then have "map_option fst (finish_long p n (length h) payload (h @ payload @ ?rest)) =
      Some (if pp_header_protection_enabled p then apply_long_header_protection (h @ payload) n p else Inr (h @ payload))"
    using again assms(1) by (auto simp: finish_long_def Let_def split: sum.splits if_splits)
  then show ?thesis using st by simp
qed

lemma build_long_datagram_eq:
  assumes "encode_frame_list (br_frames r) [] = Inr fb" and "long_header_reserve \<le> length (zc_buffer b)"
    and "length (zc_long_header r (fixed_packet_number_length + length fb + pp_protection_overhead p)) \<le> long_header_reserve"
    and "build_long_datagram r p b = Some (d, b')"
  shows "d = long_datagram r p fb"
proof -
  let ?n = "fixed_packet_number_length + length fb + pp_protection_overhead p"
  let ?h = "zc_long_header r ?n"
  have fit: "64 + length fb \<le> length (zc_buffer b)"
  proof (rule ccontr)
    assume "\<not> ?thesis"
    then have "write_frames (br_frames r) (b\<lparr>zc_write_pos := 64\<rparr>) = None"
      using assms(2) by (intro write_frames_overflow [OF assms(1)]) auto
    then show False using assms(4) by (simp add: build_long_datagram_def)
  qed
  let ?B1 = "take 64 (zc_buffer b) @ fb @ drop (64 + length fb) (zc_buffer b)"
  let ?b1 = "b\<lparr>zc_buffer := ?B1, zc_write_pos := 64 + length fb\<rparr>"
  have wf: "write_frames (br_frames r) (b\<lparr>zc_write_pos := 64\<rparr>) = Some (Inr (), ?b1)"
    using write_frames_fits [OF assms(1), of "b\<lparr>zc_write_pos := 64\<rparr>"] fit by simp
  obtain b2 where b2: "pad_in_buffer r p (length fb) ?b1 = Some b2"
    using assms(4) wf by (auto simp: build_long_datagram_def Let_def split: bind_splits)
  let ?B2 = "zc_buffer b2"
  have len2: "length ?B2 = length (zc_buffer b)" using pad_in_buffer_keeps(1) [OF b2] fit by simp
  have "take (64 + length fb) ?B2 = take 64 (zc_buffer b) @ fb" using pad_in_buffer_keeps(2) [OF b2] fit by simp
  then have B2: "?B2 = take 64 ?B2 @ fb @ drop (64 + length fb) ?B2"
    by (metis (no_types, lifting) append.assoc append_take_drop_id append_eq_append_conv fit length_take min.absorb2
        add_leD1 len2 take_take)
  have st: "store_bytes ?B2 0 ?h = Some (?h @ drop (length ?h) ?B2)"
    using assms(2,3) len2 by (simp add: store_bytes_def)
  obtain rest where mv: "(if 64 \<noteq> length ?h then move_bytes (?h @ drop (length ?h) ?B2) (length ?h) 64 (length fb)
      else Some (?h @ drop (length ?h) ?B2)) = Some (?h @ fb @ rest)"
    using frames_moved [OF assms(3) _ B2] fit len2 by force
  let ?ctx = "\<lparr>ctx_number = br_number r, ctx_associated_data = ?h\<rparr>"
  have "build_long_datagram r p b =
      do { (protected, buf) \<leftarrow> protect_in_place p (?h @ fb @ rest) (length ?h) (length fb) ?ctx;
           (case protected of
              Inl e \<Rightarrow> Some (Inl e, b2\<lparr>zc_buffer := buf\<rparr>)
            | Inr payload \<Rightarrow>
                do { (datagram, buf) \<leftarrow> finish_long p ?n (length ?h) payload buf;
                     Some (datagram, b2\<lparr>zc_buffer := buf\<rparr>) }) }"
    using mv by (cases "length ?h = 64") (simp_all add: build_long_datagram_def wf b2 st Let_def cong: sum.case_cong)
  note build = this [unfolded protect_in_place_at]
  show ?thesis
  proof (cases "pp_protect p ?ctx fb")
    case (Inl e)
    then show ?thesis using build assms(4) by (simp add: long_datagram_def Let_def)
  next
    case (Inr sealed)
    then obtain buf buf' where s: "store_bytes (?h @ fb @ rest) (length ?h) sealed = Some buf"
      and f: "finish_long p ?n (length ?h) sealed buf = Some (d, buf')"
      using build assms(4) by (auto split: bind_splits)
    have "length ?h + length sealed \<le> length (?h @ fb @ rest)" using s by (simp add: store_bytes_def split: if_splits)
    from finish_long_stored [OF this refl, of p ?n] s f Inr show ?thesis by (simp add: long_datagram_def Let_def)
  qed
qed

text \<open>The zeros that \<open>build_long_packet\<close> appends to reach 1200 bytes are not part of the packet: with and without
  \<open>enforce_initial_datagram_minimum\<close> it returns the same datagram.\<close>

theorem long_padding_has_no_effect:
  assumes "br_protector r = Some p" and "encode_frame_list (br_frames r) [] = Inr fb" and "long_header_reserve \<le> length (zc_buffer b)"
    and "length (zc_long_header r (fixed_packet_number_length + length fb + pp_protection_overhead p)) \<le> long_header_reserve"
    and "build_long_packet r b = Returns (a, b1)"
    and "build_long_packet (r\<lparr>br_enforce_initial_datagram_minimum := False\<rparr>) b = Returns (a', b2)"
  shows "a = a'"
proof -
  let ?r = "r\<lparr>br_enforce_initial_datagram_minimum := False\<rparr>"
  obtain d where d: "build_long_datagram r p b = Some (d, b1)" "a = assembled (br_number r) (pp_level p) d"
    using assms(1,5) by (auto simp: build_long_packet_def split: option.splits)
  obtain d' where d': "build_long_datagram ?r p b = Some (d', b2)" "a' = assembled (br_number r) (pp_level p) d'"
    using assms(1,6) by (auto simp: build_long_packet_def split: option.splits)
  have h: "zc_long_header ?r n = zc_long_header r n" for n by (simp add: zc_long_header_def)
  have "d = long_datagram r p fb" using build_long_datagram_eq [OF assms(2-4) d(1)] .
  moreover have "d' = long_datagram ?r p fb" using build_long_datagram_eq [of ?r fb b p d' b2] assms(2-4) d'(1) by (simp add: h)
  ultimately show ?thesis using d(2) d'(2) by (simp add: long_datagram_def h Let_def)
qed

end
