(* ===== verification/KeyUpdate.thy ===== *)
theory KeyUpdate
  imports PacketPipeline
begin

text \<open>
  Key updates of 1-RTT packets, \<open>src/include/flowq/quic/key_update.hpp\<close>: the state of the key phase bit and the manager
  that owns the key material of two phases.  The owning pointers \<open>current_keys_\<close> and \<open>previous_keys_\<close> never share an
  object, so they are optional values; \<open>secure_zero_buffer\<close> overwrites a buffer with zeros and keeps its size.
\<close>

section \<open>The key phase\<close>

datatype key_phase = Phase0 | Phase1

record key_update_state =
  ku_current_phase :: key_phase
  ku_update_in_progress :: bool
  ku_received_current_phase :: bool

definition new_key_update_state :: key_update_state where
  "new_key_update_state = \<lparr>ku_current_phase = Phase0, ku_update_in_progress = False, ku_received_current_phase = False\<rparr>"

definition ku_can_update :: "key_update_state \<Rightarrow> bool" where
  "ku_can_update s \<longleftrightarrow> \<not> ku_update_in_progress s \<and> ku_received_current_phase s"

definition ku_initiate_update :: "key_update_state \<Rightarrow> key_phase \<times> key_update_state" where
  "ku_initiate_update s =
     (let phase = (if ku_current_phase s = Phase0 then Phase1 else Phase0);
          s = s\<lparr>ku_current_phase := phase, ku_update_in_progress := True, ku_received_current_phase := False\<rparr>
      in (ku_current_phase s, s))"

definition ku_receive_key_phase :: "key_phase \<Rightarrow> key_update_state \<Rightarrow> bool \<times> key_update_state" where
  "ku_receive_key_phase phase s =
     (let s = s\<lparr>ku_received_current_phase := True\<rparr> in
      if phase = ku_current_phase s then (False, s)
      else if ku_update_in_progress s then (False, s)
      else (True, s\<lparr>ku_current_phase := phase, ku_update_in_progress := True\<rparr>))"

definition ku_complete_update :: "key_update_state \<Rightarrow> key_update_state" where
  "ku_complete_update s = s\<lparr>ku_update_in_progress := False\<rparr>"

definition ku_reset :: "key_update_state \<Rightarrow> key_update_state" where
  "ku_reset s = s\<lparr>ku_current_phase := Phase0, ku_update_in_progress := False, ku_received_current_phase := False\<rparr>"

section \<open>Key material\<close>

record traffic_key_material =
  tk_key :: buffer
  tk_iv :: buffer
  tk_header_protection_key :: buffer
  tk_suite :: cipher_suite
  tk_error :: flowq_error

definition new_traffic_key_material :: traffic_key_material where
  "new_traffic_key_material = \<lparr>tk_key = [], tk_iv = [], tk_header_protection_key = [], tk_suite = SuiteUnknown, tk_error = no_error\<rparr>"

definition secure_zero_buffer :: "buffer \<Rightarrow> buffer" where
  "secure_zero_buffer b = replicate (length b) 0"

record phased_key_material =
  pk_phase :: key_phase
  pk_send_keys :: traffic_key_material
  pk_receive_keys :: traffic_key_material
  pk_send_keys_active :: bool
  pk_receive_keys_active :: bool

definition new_phased_key_material :: phased_key_material where
  "new_phased_key_material = \<lparr>pk_phase = Phase0, pk_send_keys = new_traffic_key_material, pk_receive_keys = new_traffic_key_material,
     pk_send_keys_active = False, pk_receive_keys_active = False\<rparr>"

definition erased :: "traffic_key_material \<Rightarrow> traffic_key_material" where
  "erased k = k\<lparr>tk_key := secure_zero_buffer (tk_key k), tk_iv := secure_zero_buffer (tk_iv k),
     tk_header_protection_key := secure_zero_buffer (tk_header_protection_key k)\<rparr>"

definition secure_erase :: "phased_key_material \<Rightarrow> phased_key_material" where
  "secure_erase k = k\<lparr>pk_send_keys := erased (pk_send_keys k), pk_receive_keys := erased (pk_receive_keys k)\<rparr>"

section \<open>The manager\<close>

record key_update_manager =
  km_state :: key_update_state
  km_current_keys :: "phased_key_material option"
  km_previous_keys :: "phased_key_material option"
  km_cipher_suite :: cipher_suite

definition new_key_update_manager :: key_update_manager where
  "new_key_update_manager = \<lparr>km_state = new_key_update_state, km_current_keys = None, km_previous_keys = None,
     km_cipher_suite = SuiteUnknown\<rparr>"

text \<open>\<open>get_or_create_keys\<close> returns a reference to the current keys; the callers then write through it.\<close>

definition get_or_create_keys :: "key_phase \<Rightarrow> key_update_manager \<Rightarrow> phased_key_material \<times> key_update_manager" where
  "get_or_create_keys phase m =
     (case km_current_keys m of
        Some keys \<Rightarrow>
          if pk_phase keys = phase then (keys, m)
          else (let fresh = new_phased_key_material\<lparr>pk_phase := phase\<rparr> in
                (fresh, m\<lparr>km_previous_keys := Some keys, km_current_keys := Some fresh\<rparr>))
      | None \<Rightarrow> (let fresh = new_phased_key_material\<lparr>pk_phase := phase\<rparr> in (fresh, m\<lparr>km_current_keys := Some fresh\<rparr>)))"

definition update_keys :: "key_phase \<Rightarrow> (phased_key_material \<Rightarrow> phased_key_material) \<Rightarrow> key_update_manager \<Rightarrow> key_update_manager" where
  "update_keys phase f m = (let (keys, m) = get_or_create_keys phase m in m\<lparr>km_current_keys := Some (f keys)\<rparr>)"

definition find_keys :: "key_phase \<Rightarrow> key_update_manager \<Rightarrow> phased_key_material option" where
  "find_keys phase m =
     (case km_current_keys m of
        Some keys \<Rightarrow> if pk_phase keys = phase then Some keys
          else (case km_previous_keys m of Some keys \<Rightarrow> if pk_phase keys = phase then Some keys else None | None \<Rightarrow> None)
      | None \<Rightarrow> (case km_previous_keys m of Some keys \<Rightarrow> if pk_phase keys = phase then Some keys else None | None \<Rightarrow> None))"

definition km_initialize ::
    "key_phase \<Rightarrow> traffic_key_material \<Rightarrow> traffic_key_material \<Rightarrow> cipher_suite \<Rightarrow> key_update_manager \<Rightarrow> key_update_manager" where
  "km_initialize initial_phase send_keys receive_keys suite m =
     update_keys initial_phase (\<lambda>keys. keys\<lparr>pk_phase := initial_phase, pk_send_keys := send_keys, pk_receive_keys := receive_keys,
       pk_send_keys_active := True, pk_receive_keys_active := True\<rparr>) (m\<lparr>km_cipher_suite := suite\<rparr>)"

definition km_initiate_update :: "key_update_manager \<Rightarrow> key_phase option \<times> key_update_manager" where
  "km_initiate_update m =
     (if \<not> ku_can_update (km_state m) then (None, m)
      else
        let (new_phase, s) = ku_initiate_update (km_state m);
            m = update_keys new_phase (\<lambda>keys. keys\<lparr>pk_phase := new_phase\<rparr>) (m\<lparr>km_state := s\<rparr>)
        in (Some new_phase, m))"

definition km_receive_key_phase :: "key_phase \<Rightarrow> key_update_manager \<Rightarrow> bool \<times> key_update_manager" where
  "km_receive_key_phase phase m = (let (changed, s) = ku_receive_key_phase phase (km_state m) in (changed, m\<lparr>km_state := s\<rparr>))"

definition install_send_keys :: "key_phase \<Rightarrow> traffic_key_material \<Rightarrow> key_update_manager \<Rightarrow> key_update_manager" where
  "install_send_keys phase keys m =
     update_keys phase (\<lambda>phased. phased\<lparr>pk_send_keys := keys, pk_send_keys_active := True\<rparr>) m"

definition install_receive_keys :: "key_phase \<Rightarrow> traffic_key_material \<Rightarrow> key_update_manager \<Rightarrow> key_update_manager" where
  "install_receive_keys phase keys m =
     update_keys phase (\<lambda>phased. phased\<lparr>pk_receive_keys := keys, pk_receive_keys_active := True\<rparr>) m"

definition current_send_keys :: "key_update_manager \<Rightarrow> traffic_key_material option" where
  "current_send_keys m =
     (case find_keys (ku_current_phase (km_state m)) m of
        Some keys \<Rightarrow> if pk_send_keys_active keys then Some (pk_send_keys keys) else None
      | None \<Rightarrow> None)"

definition receive_keys_for_phase :: "key_phase \<Rightarrow> key_update_manager \<Rightarrow> traffic_key_material option" where
  "receive_keys_for_phase phase m =
     (case find_keys phase m of
        Some keys \<Rightarrow> if pk_receive_keys_active keys then Some (pk_receive_keys keys) else None
      | None \<Rightarrow> None)"

definition km_complete_update :: "key_update_manager \<Rightarrow> key_update_manager" where
  "km_complete_update m =
     (let m = m\<lparr>km_state := ku_complete_update (km_state m)\<rparr> in
      case km_previous_keys m of Some keys \<Rightarrow> m\<lparr>km_previous_keys := Some (secure_erase keys)\<rparr> | None \<Rightarrow> m)"

section \<open>Lemmas\<close>

text \<open>No phase has two sets of keys, so nothing that was installed is hidden.\<close>

definition km_inv :: "key_update_manager \<Rightarrow> bool" where
  "km_inv m \<longleftrightarrow>
     (case km_previous_keys m of
        None \<Rightarrow> True
      | Some old \<Rightarrow> (case km_current_keys m of None \<Rightarrow> False | Some new \<Rightarrow> pk_phase new \<noteq> pk_phase old))"

lemma update_keys_inv: "km_inv m \<Longrightarrow> (\<And>k. pk_phase k = phase \<Longrightarrow> pk_phase (f k) = phase) \<Longrightarrow> km_inv (update_keys phase f m)"
  by (auto simp: km_inv_def update_keys_def get_or_create_keys_def Let_def split: option.splits)

datatype key_call =
    CallInitialize key_phase traffic_key_material traffic_key_material cipher_suite
  | CallInitiate | CallReceive key_phase | CallInstallSend key_phase traffic_key_material
  | CallInstallReceive key_phase traffic_key_material | CallComplete

fun km_step :: "key_call \<Rightarrow> key_update_manager \<Rightarrow> key_update_manager" where
  "km_step (CallInitialize ph sk rk suite) m = km_initialize ph sk rk suite m"
| "km_step CallInitiate m = snd (km_initiate_update m)"
| "km_step (CallReceive ph) m = snd (km_receive_key_phase ph m)"
| "km_step (CallInstallSend ph k) m = install_send_keys ph k m"
| "km_step (CallInstallReceive ph k) m = install_receive_keys ph k m"
| "km_step CallComplete m = km_complete_update m"

lemma km_inv_state: "km_inv m \<Longrightarrow> km_inv (m\<lparr>km_state := s\<rparr>)" "km_inv m \<Longrightarrow> km_inv (m\<lparr>km_cipher_suite := c\<rparr>)"
  by (simp_all add: km_inv_def split: option.splits)

lemma km_step_inv: "km_inv m \<Longrightarrow> km_inv (km_step call m)"
proof (cases call)
  case CallComplete
  moreover assume "km_inv m"
  ultimately show ?thesis by (auto simp: km_inv_def km_complete_update_def secure_erase_def split: option.splits)
qed (auto simp: km_initialize_def km_initiate_update_def km_receive_key_phase_def install_send_keys_def install_receive_keys_def
    Let_def split: prod.splits intro!: update_keys_inv km_inv_state)

lemma km_run_inv: "km_inv (fold km_step calls new_key_update_manager)"
proof -
  have "km_inv m \<Longrightarrow> km_inv (fold km_step calls m)" for m
    by (induction calls arbitrary: m) (auto simp: km_step_inv)
  then show ?thesis by (simp add: km_inv_def new_key_update_manager_def)
qed

section \<open>Properties\<close>

text \<open>Whatever calls are made, every set of keys the manager owns is the one it finds for its phase.\<close>

theorem keys_never_hidden:
  assumes "m = fold km_step calls new_key_update_manager" and "km_current_keys m = Some k \<or> km_previous_keys m = Some k"
  shows "find_keys (pk_phase k) m = Some k"
proof -
  have "km_inv m" unfolding assms(1) by (rule km_run_inv)
  then show ?thesis
    using assms(2) unfolding km_inv_def find_keys_def by (cases "km_current_keys m"; cases "km_previous_keys m") auto
qed

text \<open>A key update that the local side starts and for which it installs new keys: packets are sent with the new keys in
  the other phase, both phases can be received until the update completes, no second update can start before that, and
  afterwards the old phase's keys are zeroed, yet still handed out for packets of the old phase.\<close>

theorem key_rotation:
  assumes "km_current_keys m = Some old" and "pk_phase old = ku_current_phase (km_state m)" and "pk_receive_keys_active old"
    and "ku_can_update (km_state m)"
    and "m1 = install_receive_keys ph rk (install_send_keys ph sk (snd (km_initiate_update m)))" and "fst (km_initiate_update m) = Some ph"
    and "m2 = km_complete_update m1"
  shows "ph \<noteq> pk_phase old \<and> current_send_keys m1 = Some sk \<and> receive_keys_for_phase ph m1 = Some rk \<and>
    receive_keys_for_phase (pk_phase old) m1 = Some (pk_receive_keys old) \<and> fst (km_initiate_update m1) = None \<and>
    current_send_keys m2 = Some sk \<and> receive_keys_for_phase ph m2 = Some rk \<and>
    receive_keys_for_phase (pk_phase old) m2 = Some (erased (pk_receive_keys old))"
proof -
  have ph: "ph \<noteq> pk_phase old" "ph = (if ku_current_phase (km_state m) = Phase0 then Phase1 else Phase0)"
    using assms(2,4,6) by (auto simp: km_initiate_update_def ku_initiate_update_def Let_def split: if_splits)
  let ?new = "\<lparr>pk_phase = ph, pk_send_keys = sk, pk_receive_keys = rk, pk_send_keys_active = True, pk_receive_keys_active = True\<rparr>"
  have m1: "km_current_keys m1 = Some ?new" "km_previous_keys m1 = Some old" "ku_current_phase (km_state m1) = ph"
    "ku_update_in_progress (km_state m1)"
    using assms(1,4,5) ph by (simp_all add: km_initiate_update_def ku_initiate_update_def install_send_keys_def
        install_receive_keys_def update_keys_def get_or_create_keys_def new_phased_key_material_def Let_def)
  have m2: "km_current_keys m2 = Some ?new" "km_previous_keys m2 = Some (secure_erase old)" "ku_current_phase (km_state m2) = ph"
    using assms(7) m1 by (simp_all add: km_complete_update_def ku_complete_update_def)
  show ?thesis
    using m1 m2 ph(1) assms(3)
    by (simp add: current_send_keys_def receive_keys_for_phase_def find_keys_def secure_erase_def km_initiate_update_def ku_can_update_def)
qed

text \<open>A manager with keys of four bytes that has received one packet.\<close>

definition plain_keys :: "byte \<Rightarrow> traffic_key_material" where
  "plain_keys b = \<lparr>tk_key = replicate 4 b, tk_iv = [b], tk_header_protection_key = [b], tk_suite = Aes128GcmSha256, tk_error = no_error\<rparr>"

definition example_manager :: key_update_manager where
  "example_manager = snd (km_receive_key_phase Phase0 (km_initialize Phase0 (plain_keys 1) (plain_keys 2) Aes128GcmSha256 new_key_update_manager))"

theorem key_rotation_witness:
  "let m1 = install_receive_keys Phase1 (plain_keys 4) (install_send_keys Phase1 (plain_keys 3) (snd (km_initiate_update example_manager)))
   in current_send_keys m1 = Some (plain_keys 3) \<and>
      receive_keys_for_phase Phase0 m1 = Some (plain_keys 2) \<and>
      map_option tk_key (receive_keys_for_phase Phase0 (km_complete_update m1)) = Some [0, 0, 0, 0]"
proof -
  let ?old = "\<lparr>pk_phase = Phase0, pk_send_keys = plain_keys 1, pk_receive_keys = plain_keys 2, pk_send_keys_active = True,
    pk_receive_keys_active = True\<rparr>"
  have m: "km_current_keys example_manager = Some ?old" "ku_current_phase (km_state example_manager) = Phase0"
    "ku_can_update (km_state example_manager)" "fst (km_initiate_update example_manager) = Some Phase1"
    by (simp_all add: example_manager_def km_receive_key_phase_def ku_receive_key_phase_def km_initialize_def update_keys_def
        get_or_create_keys_def new_key_update_manager_def new_key_update_state_def new_phased_key_material_def ku_can_update_def
        km_initiate_update_def ku_initiate_update_def Let_def)
  have "tk_key (erased (plain_keys 2)) = [0, 0, 0, 0]"
    by (simp add: erased_def secure_zero_buffer_def plain_keys_def numeral_eq_Suc)
  then show ?thesis
    using key_rotation [OF m(1) _ _ m(3) refl m(4) refl] m(2) by (simp add: Let_def)
qed

text \<open>\<open>can_update\<close> does not mean that a packet of the current phase has arrived: any packet sets the flag.\<close>

lemma old_phase_counts_as_received:
  "let s = snd (ku_initiate_update \<lparr>ku_current_phase = Phase0, ku_update_in_progress = False, ku_received_current_phase = True\<rparr>);
       s' = ku_complete_update (snd (ku_receive_key_phase Phase0 s))
   in ku_current_phase s' = Phase1 \<and> ku_can_update s'"
  by (simp add: ku_initiate_update_def ku_receive_key_phase_def ku_complete_update_def ku_can_update_def)

end
