(* ===== verification/Session.thy ===== *)
theory Session
  imports ConnectionProps
begin

text \<open>
  The session on top of the connection loop and the timer schedulers: \<open>src/include/flowq/quic/session.hpp\<close>,
  \<open>events.hpp\<close>, \<open>timer_scheduler.hpp\<close>, \<open>recovery_scheduler.hpp\<close> and \<open>lifecycle_scheduler.hpp\<close>.  The TLS adapter and
  the protector refresh callback of a \<open>session_config\<close> are part of the environment \<open>E\<close> of the loop.  The asio timer
  is the outside world: the model has the calls that asio makes, with the error code it passes.
\<close>

section \<open>Configuration\<close>

record session_config =
  sc_role :: connection_role
  sc_version :: u32
  sc_local_connection_id :: connection_id
  sc_remote_connection_id :: connection_id
  sc_peer :: endpoint
  sc_max_datagram_size :: nat
  sc_initial_stream_send_max_data :: u64
  sc_initial_connection_send_max_data :: u64
  sc_max_packet_payload_size :: nat
  sc_max_stream_frames :: nat
  sc_max_stream_data_size :: nat
  sc_initial_max_stream_data_bidi_local :: u64
  sc_initial_max_stream_data_bidi_remote :: u64
  sc_initial_max_stream_data_uni :: u64
  sc_initial_max_streams_bidi :: u64
  sc_initial_max_streams_uni :: u64
  sc_max_idle_timeout :: duration
  sc_max_udp_payload_size :: u64
  sc_active_connection_id_limit :: u64
  sc_ack_delay_exponent :: u64
  sc_max_ack_delay :: duration
  sc_disable_active_migration :: bool
  sc_key_lifecycle :: key_lifecycle_state
  sc_closing_draining_timeout :: duration
  sc_peer_address_validated :: bool
  sc_initial_tx_protector :: "packet_protector option"
  sc_initial_rx_protector :: "packet_protector option"
  sc_handshake_tx_protector :: "packet_protector option"
  sc_handshake_rx_protector :: "packet_protector option"
  sc_application_tx_protector :: "packet_protector option"
  sc_application_rx_protector :: "packet_protector option"

text \<open>Pacing and zero-copy assembly keep the defaults of a \<open>connection_loop_config\<close>: both are off.\<close>

definition to_connection_config :: "session_config \<Rightarrow> connection_loop_config" where
  "to_connection_config c =
     \<lparr>cfg_role = sc_role c, cfg_version = sc_version c, cfg_local_connection_id = sc_local_connection_id c,
      cfg_remote_connection_id = sc_remote_connection_id c, cfg_peer = sc_peer c, cfg_max_datagram_size = sc_max_datagram_size c,
      cfg_initial_stream_send_max_data = sc_initial_stream_send_max_data c,
      cfg_initial_connection_send_max_data = sc_initial_connection_send_max_data c,
      cfg_max_packet_payload_size = sc_max_packet_payload_size c,
      cfg_initial_max_stream_data_bidi_local = sc_initial_max_stream_data_bidi_local c,
      cfg_initial_max_stream_data_bidi_remote = sc_initial_max_stream_data_bidi_remote c,
      cfg_initial_max_stream_data_uni = sc_initial_max_stream_data_uni c, cfg_initial_max_streams_bidi = sc_initial_max_streams_bidi c,
      cfg_initial_max_streams_uni = sc_initial_max_streams_uni c, cfg_max_idle_timeout = sc_max_idle_timeout c,
      cfg_max_udp_payload_size = sc_max_udp_payload_size c, cfg_active_connection_id_limit = sc_active_connection_id_limit c,
      cfg_ack_delay_exponent = sc_ack_delay_exponent c, cfg_max_ack_delay = sc_max_ack_delay c,
      cfg_disable_active_migration = sc_disable_active_migration c, cfg_key_lifecycle = sc_key_lifecycle c,
      cfg_closing_draining_timeout = sc_closing_draining_timeout c, cfg_peer_address_validated = sc_peer_address_validated c,
      cfg_initial_tx_protector = sc_initial_tx_protector c, cfg_initial_rx_protector = sc_initial_rx_protector c,
      cfg_handshake_tx_protector = sc_handshake_tx_protector c, cfg_handshake_rx_protector = sc_handshake_rx_protector c,
      cfg_application_tx_protector = sc_application_tx_protector c, cfg_application_rx_protector = sc_application_rx_protector c,
      cfg_enable_pacing = False, cfg_enable_zero_copy = False\<rparr>"

definition session_apply_transport_parameters :: "session_config \<Rightarrow> transport_parameters \<Rightarrow> session_config" where
  "session_apply_transport_parameters config p =
     (let c = apply_transport_parameters (to_connection_config config) p in
      config\<lparr>sc_max_idle_timeout := cfg_max_idle_timeout c, sc_max_udp_payload_size := cfg_max_udp_payload_size c,
        sc_max_packet_payload_size := cfg_max_packet_payload_size c,
        sc_initial_connection_send_max_data := cfg_initial_connection_send_max_data c,
        sc_initial_max_stream_data_bidi_local := cfg_initial_max_stream_data_bidi_local c,
        sc_initial_max_stream_data_bidi_remote := cfg_initial_max_stream_data_bidi_remote c,
        sc_initial_max_stream_data_uni := cfg_initial_max_stream_data_uni c,
        sc_initial_stream_send_max_data := cfg_initial_stream_send_max_data c,
        sc_initial_max_streams_bidi := cfg_initial_max_streams_bidi c, sc_initial_max_streams_uni := cfg_initial_max_streams_uni c,
        sc_active_connection_id_limit := cfg_active_connection_id_limit c, sc_ack_delay_exponent := cfg_ack_delay_exponent c,
        sc_max_ack_delay := cfg_max_ack_delay c, sc_disable_active_migration := cfg_disable_active_migration c\<rparr>)"

section \<open>Results\<close>

record session_stream_delivery =
  sd_stream_id :: u64
  sd_data :: buffer
  sd_final_size_known :: bool
  sd_final_size :: u64
  sd_closed :: bool
  sd_error :: flowq_error

record session_send_result =
  ssnd_datagrams :: "(buffer \<times> endpoint) list"
  ssnd_closes :: "flowq_error list"
  ssnd_error :: flowq_error

record session_receive_result =
  srcv_stream_deliveries :: "session_stream_delivery list"
  srcv_datagrams :: "(buffer \<times> endpoint) list"
  srcv_closes :: "flowq_error list"
  srcv_error :: flowq_error

definition empty_send_result :: session_send_result where
  "empty_send_result = \<lparr>ssnd_datagrams = [], ssnd_closes = [], ssnd_error = no_error\<rparr>"

definition empty_receive_result :: session_receive_result where
  "empty_receive_result = \<lparr>srcv_stream_deliveries = [], srcv_datagrams = [], srcv_closes = [], srcv_error = no_error\<rparr>"

definition append_delivery :: "session_receive_result \<Rightarrow> u64 \<times> stream_receive_result \<Rightarrow> session_receive_result" where
  "append_delivery result d =
     (let (stream_id, r) = d;
          result = (if error_ok (srcv_error result) \<and> \<not> error_ok (srr_error r) then result\<lparr>srcv_error := srr_error r\<rparr> else result)
      in result\<lparr>srcv_stream_deliveries := srcv_stream_deliveries result @
           [\<lparr>sd_stream_id = stream_id, sd_data = srr_data r, sd_final_size_known = srr_final_size_known r,
             sd_final_size = srr_final_size r, sd_closed = srr_closed r, sd_error = srr_error r\<rparr>]\<rparr>)"

definition append_deliveries :: "session_receive_result \<Rightarrow> (u64 \<times> stream_receive_result) list \<Rightarrow> session_receive_result" where
  "append_deliveries result deliveries = foldl append_delivery result deliveries"

fun collect_send :: "session_send_result \<Rightarrow> connection_loop_action \<Rightarrow> session_send_result" where
  "collect_send result (SendDatagram payload peer) = result\<lparr>ssnd_datagrams := ssnd_datagrams result @ [(payload, peer)]\<rparr>"
| "collect_send result (ConnectionClose e) =
     (let result = (if error_ok (ssnd_error result) then result\<lparr>ssnd_error := e\<rparr> else result)
      in result\<lparr>ssnd_closes := ssnd_closes result @ [e]\<rparr>)"
| "collect_send result (PacketReceived ev) = result"

fun collect_receive :: "session_receive_result \<Rightarrow> connection_loop_action \<Rightarrow> session_receive_result" where
  "collect_receive result (SendDatagram payload peer) = result\<lparr>srcv_datagrams := srcv_datagrams result @ [(payload, peer)]\<rparr>"
| "collect_receive result (PacketReceived ev) = append_deliveries result (rpe_stream_deliveries ev)"
| "collect_receive result (ConnectionClose e) =
     (let result = (if error_ok (srcv_error result) then result\<lparr>srcv_error := e\<rparr> else result)
      in result\<lparr>srcv_closes := srcv_closes result @ [e]\<rparr>)"

section \<open>The session\<close>

record ('w, 'c) session =
  ses_config :: session_config
  ses_loop :: "('w, 'c) connection_loop"

definition new_session :: "session_config \<Rightarrow> 'c \<Rightarrow> 'w \<Rightarrow> ('w, 'c) session" where
  "new_session config c w = \<lparr>ses_config = config, ses_loop = new_connection_loop (to_connection_config config) c w\<rparr>"

definition drain_send_actions :: "('w, 'c) session \<Rightarrow> session_send_result \<times> ('w, 'c) session" where
  "drain_send_actions s =
     (let (actions, l) = drain_actions (ses_loop s) in (foldl collect_send empty_send_result actions, s\<lparr>ses_loop := l\<rparr>))"

definition drain_receive_actions :: "('w, 'c) session \<Rightarrow> session_receive_result \<times> ('w, 'c) session" where
  "drain_receive_actions s =
     (let (actions, l) = drain_actions (ses_loop s) in (foldl collect_receive empty_receive_result actions, s\<lparr>ses_loop := l\<rparr>))"

definition ses_append_stream_data :: "u64 \<Rightarrow> buffer \<Rightarrow> ('w, 'c) session \<Rightarrow> flowq_error \<times> ('w, 'c) session" where
  "ses_append_stream_data stream_id data s = (let (r, l) = append_stream_data stream_id data (ses_loop s) in (r, s\<lparr>ses_loop := l\<rparr>))"

definition queue_stream_data :: "u64 list \<Rightarrow> nat \<Rightarrow> nat \<Rightarrow> ('w, 'c) session \<Rightarrow> session_send_result \<times> ('w, 'c) session" where
  "queue_stream_data stream_ids max_frames max_stream_data_size s =
     (let frame_limit = (if max_frames = 0 then sc_max_stream_frames (ses_config s) else max_frames);
          data_limit = (if max_stream_data_size = 0 then sc_max_stream_data_size (ses_config s) else max_stream_data_size);
          ((frames, e), l) = schedule_stream_frames stream_ids frame_limit data_limit (ses_loop s);
          s = s\<lparr>ses_loop := l\<rparr> in
      if \<not> error_ok e then (empty_send_result\<lparr>ssnd_error := e\<rparr>, s)
      else if frames = [] then (empty_send_result, s)
      else (empty_send_result, s\<lparr>ses_loop := queue_application frames l\<rparr>))"

definition ses_flush ::
    "('w, 'c) connection_env \<Rightarrow> time_point \<Rightarrow> time_point \<Rightarrow> ('w, 'c) session \<Rightarrow> session_send_result \<times> ('w, 'c) session" where
  "ses_flush E sent_at clock s = drain_send_actions (s\<lparr>ses_loop := flush E sent_at clock (ses_loop s)\<rparr>)"

definition ses_set_packet_protectors ::
    "packet_protector option \<Rightarrow> packet_protector option \<Rightarrow> packet_protector option \<Rightarrow> packet_protector option
     \<Rightarrow> ('w, 'c) session \<Rightarrow> ('w, 'c) session" where
  "ses_set_packet_protectors htx hrx atx arx s =
     s\<lparr>ses_config := (ses_config s)\<lparr>
         sc_handshake_tx_protector := (if htx \<noteq> None then htx else sc_handshake_tx_protector (ses_config s)),
         sc_handshake_rx_protector := (if hrx \<noteq> None then hrx else sc_handshake_rx_protector (ses_config s)),
         sc_application_tx_protector := (if atx \<noteq> None then atx else sc_application_tx_protector (ses_config s)),
         sc_application_rx_protector := (if arx \<noteq> None then arx else sc_application_rx_protector (ses_config s))\<rparr>,
       ses_loop := set_packet_protectors htx hrx atx arx (ses_loop s)\<rparr>"

definition ses_set_remote_connection_id :: "connection_id \<Rightarrow> ('w, 'c) session \<Rightarrow> ('w, 'c) session" where
  "ses_set_remote_connection_id cid s =
     s\<lparr>ses_config := (ses_config s)\<lparr>sc_remote_connection_id := cid\<rparr>, ses_loop := set_remote_connection_id cid (ses_loop s)\<rparr>"

definition ses_acknowledge ::
    "('w, 'c) connection_env \<Rightarrow> packet_number_space \<Rightarrow> time_point \<Rightarrow> ('w, 'c) session \<Rightarrow> session_send_result \<times> ('w, 'c) session" where
  "ses_acknowledge E space sent_at s = drain_send_actions (s\<lparr>ses_loop := acknowledge E space sent_at (ses_loop s)\<rparr>)"

definition ses_on_datagram ::
    "('w, 'c) connection_env \<Rightarrow> buffer \<Rightarrow> endpoint \<Rightarrow> time_point \<Rightarrow> ('w, 'c) session \<Rightarrow> session_receive_result \<times> ('w, 'c) session" where
  "ses_on_datagram E payload peer received_at s =
     drain_receive_actions (s\<lparr>ses_loop := on_datagram E payload peer received_at (ses_loop s)\<rparr>)"

definition ses_next_recovery_timer ::
    "('w, 'c) connection_env \<Rightarrow> ('w, 'c) session \<Rightarrow> connection_recovery_timer option \<times> ('w, 'c) session" where
  "ses_next_recovery_timer E s = (let (r, l) = next_recovery_timer E (ses_loop s) in (r, s\<lparr>ses_loop := l\<rparr>))"

definition ses_on_recovery_timer ::
    "('w, 'c) connection_env \<Rightarrow> packet_number_space \<Rightarrow> time_point \<Rightarrow> ('w, 'c) session \<Rightarrow> connection_recovery_result \<times> ('w, 'c) session" where
  "ses_on_recovery_timer E space now s = (let (r, l) = on_recovery_timer E space now (ses_loop s) in (r, s\<lparr>ses_loop := l\<rparr>))"

definition ses_discard_packet_space :: "packet_number_space \<Rightarrow> ('w, 'c) session \<Rightarrow> ('w, 'c) session" where
  "ses_discard_packet_space space s =
     s\<lparr>ses_config := (ses_config s)\<lparr>sc_key_lifecycle := discard (sc_key_lifecycle (ses_config s)) space\<rparr>,
       ses_loop := discard_packet_space space (ses_loop s)\<rparr>"

definition ses_next_lifecycle_timer ::
    "time_point \<Rightarrow> ('w, 'c) session \<Rightarrow> connection_lifecycle_timer option \<times> ('w, 'c) session" where
  "ses_next_lifecycle_timer now s = (let (r, l) = next_lifecycle_timer now (ses_loop s) in (r, s\<lparr>ses_loop := l\<rparr>))"

definition ses_on_lifecycle_timer ::
    "connection_lifecycle_timer_kind \<Rightarrow> time_point \<Rightarrow> ('w, 'c) session \<Rightarrow> session_send_result \<times> ('w, 'c) session" where
  "ses_on_lifecycle_timer kind now s = drain_send_actions (s\<lparr>ses_loop := on_lifecycle_timer kind now (ses_loop s)\<rparr>)"

section \<open>Runs of a session\<close>

inductive session_step :: "('w, 'c) connection_env \<Rightarrow> ('w, 'c) session \<Rightarrow> ('w, 'c) session \<Rightarrow> bool" for E where
  ses_append: "session_step E s (snd (ses_append_stream_data stream_id data s))"
| ses_queue: "session_step E s (snd (queue_stream_data stream_ids max_frames max_stream_data_size s))"
| ses_flushed: "session_step E s (snd (ses_flush E sent_at clock s))"
| ses_protectors: "session_step E s (ses_set_packet_protectors htx hrx atx arx s)"
| ses_remote_id: "session_step E s (ses_set_remote_connection_id cid s)"
| ses_acknowledged: "session_step E s (snd (ses_acknowledge E space sent_at s))"
| ses_datagram: "session_step E s (snd (ses_on_datagram E payload peer received_at s))"
| ses_recovery_timer: "session_step E s (snd (ses_next_recovery_timer E s))"
| ses_recovery_fired: "session_step E s (snd (ses_on_recovery_timer E space now s))"
| ses_discarded: "session_step E s (ses_discard_packet_space space s)"
| ses_lifecycle_timer: "session_step E s (snd (ses_next_lifecycle_timer now s))"
| ses_lifecycle_fired: "session_step E s (snd (ses_on_lifecycle_timer kind now s))"

inductive session_reachable ::
    "('w, 'c) connection_env \<Rightarrow> session_config \<Rightarrow> 'c \<Rightarrow> 'w \<Rightarrow> ('w, 'c) session \<Rightarrow> bool" for E config c w where
  session_new: "session_reachable E config c w (new_session config c w)"
| session_next: "session_reachable E config c w s \<Longrightarrow> session_step E s t \<Longrightarrow> session_reachable E config c w t"

lemmas session_defs = ses_append_stream_data_def queue_stream_data_def ses_flush_def ses_set_packet_protectors_def
  ses_set_remote_connection_id_def ses_acknowledge_def ses_on_datagram_def ses_next_recovery_timer_def
  ses_on_recovery_timer_def ses_discard_packet_space_def ses_next_lifecycle_timer_def ses_on_lifecycle_timer_def
  drain_send_actions_def drain_receive_actions_def

text \<open>Every operation of a session is a sequence of operations of its connection.\<close>

lemma loop_step_then:
  "loop_step E s t \<Longrightarrow> loop_step E t u \<Longrightarrow> (loop_step E)\<^sup>*\<^sup>* s u"
  by (meson rtranclp.rtrancl_into_rtrancl r_into_rtranclp)

lemma drained_loop: "ses_loop (snd (drain_send_actions s)) = snd (drain_actions (ses_loop s))"
    "ses_loop (snd (drain_receive_actions s)) = snd (drain_actions (ses_loop s))"
  by (simp_all add: drain_send_actions_def drain_receive_actions_def split: prod.split)

lemma queue_stream_data_loop:
  "(loop_step E)\<^sup>*\<^sup>* (ses_loop s) (ses_loop (snd (queue_stream_data stream_ids max_frames max_stream_data_size s)))"
proof -
  define limit where "limit = (if max_frames = 0 then sc_max_stream_frames (ses_config s) else max_frames)"
  define data where "data = (if max_stream_data_size = 0 then sc_max_stream_data_size (ses_config s) else max_stream_data_size)"
  obtain frames e l where l: "schedule_stream_frames stream_ids limit data (ses_loop s) = ((frames, e), l)"
    by (metis prod.exhaust)
  have "loop_step E (ses_loop s) l"
    using step_schedule_stream_frames [of E "ses_loop s" stream_ids limit data] by (simp add: l)
  then have "(loop_step E)\<^sup>*\<^sup>* (ses_loop s) l" "(loop_step E)\<^sup>*\<^sup>* (ses_loop s) (queue_application frames l)"
    by (auto intro: loop_step_then step_queue_application)
  then show ?thesis
    by (simp add: queue_stream_data_def Let_def l limit_def [symmetric] data_def [symmetric])
qed

lemma session_step_loop: "session_step E s t \<Longrightarrow> (loop_step E)\<^sup>*\<^sup>* (ses_loop s) (ses_loop t)"
proof (induction rule: session_step.cases)
  case (ses_queue s stream_ids max_frames max_stream_data_size)
  then show ?case using queue_stream_data_loop by blast
next
  case (ses_append s stream_id data)
  then show ?case
    using step_append_stream_data [of E "ses_loop s" stream_id data]
    by (auto simp: ses_append_stream_data_def split: prod.split)
next
  case (ses_recovery_timer s)
  then show ?case
    using step_next_recovery_timer [of E "ses_loop s"] by (auto simp: ses_next_recovery_timer_def split: prod.split)
next
  case (ses_recovery_fired s space now)
  then show ?case
    using step_on_recovery_timer [of E "ses_loop s" space now] by (auto simp: ses_on_recovery_timer_def split: prod.split)
next
  case (ses_lifecycle_timer s now)
  then show ?case
    using step_next_lifecycle_timer [of E "ses_loop s" now] by (auto simp: ses_next_lifecycle_timer_def split: prod.split)
qed (auto simp: ses_flush_def ses_acknowledge_def ses_on_datagram_def ses_on_lifecycle_timer_def drained_loop
    ses_set_packet_protectors_def ses_set_remote_connection_id_def ses_discard_packet_space_def
    intro: loop_step.intros loop_step_then)

lemma reachable_run: "(loop_step E)\<^sup>*\<^sup>* s t \<Longrightarrow> loop_reachable E config c w s \<Longrightarrow> loop_reachable E config c w t"
  by (induction rule: rtranclp_induct) (auto intro: reachable_step)

lemma session_loop_reachable:
  "session_reachable E config c w s \<Longrightarrow> loop_reachable E (to_connection_config config) c w (ses_loop s)"
  by (induction rule: session_reachable.induct)
    (auto simp: new_session_def intro: reachable_new reachable_run session_step_loop)

section \<open>No report is lost\<close>

lemma actions_recovery [simp]:
  "cl_actions (pace_window E s) = cl_actions s" "cl_actions (cc_event E g s) = cl_actions s"
  "cl_actions (apply_stream_loss_mapping space ns s) = cl_actions s"
  by (simp_all add: pace_window_def cc_event_def apply_stream_loss_mapping_def Let_def)

lemma actions_elementary [simp]:
  "cl_actions (clear_packet_space space s) = cl_actions s" "cl_actions (clear_if_discarded space s) = cl_actions s"
  "cl_actions (refresh_peer_address_validation E s) = cl_actions s" "cl_actions (push_queue space f s) = cl_actions s"
  by (simp_all add: clear_packet_space_def clear_if_discarded_def refresh_peer_address_validation_def push_queue_def on_space_def)

lemma actions_refresh [simp]: "cl_actions (refresh_key_lifecycle E s) = cl_actions s"
proof -
  have "cl_actions (queue_pending_path_challenge_if_ready E s) = cl_actions s" for s :: "('a, 'b) connection_loop"
    by (simp add: queue_pending_path_challenge_if_ready_def split: option.split)
  then show ?thesis
    by (simp add: refresh_key_lifecycle_def clear_discarded_packet_spaces_def Let_def)
qed

lemma actions_lost [simp]: "cl_actions (foldl (lose_packet E space) s ns) = cl_actions s"
  by (induction ns arbitrary: s) (simp_all add: lose_packet_def on_space_def)

lemma actions_recovery_timer [simp]: "cl_actions (snd (on_recovery_timer E space now s)) = cl_actions s"
proof -
  have t: "cl_actions (snd (lose_by_time E space now s)) = cl_actions s" for s
    by (simp add: lose_by_time_def Let_def split: option.split prod.split)
  have p: "cl_actions (snd (lose_by_probe_timeout E space s)) = cl_actions s" for s
    by (auto simp: lose_by_probe_timeout_def mark_oldest_ack_eliciting_packet_lost_def on_space_def Let_def
        split: option.split prod.split)
  obtain lost s2 where 2: "lose_by_time E space now (refresh_key_lifecycle E s) = (lost, s2)" by fastforce
  then have "cl_actions s2 = cl_actions s" using t [of "refresh_key_lifecycle E s"] by simp
  with p [of s2] show ?thesis
    by (auto simp: on_recovery_timer_def Let_def 2 clear_packet_space_def split: option.split prod.split)
qed

lemma actions_schedule [simp]: "cl_actions (snd (schedule_stream_frames ids max_frames max_size s)) = cl_actions s"
  by (rule scheduled_shape [of ids max_frames max_size "[]" s])
    (auto simp: schedule_stream_frames_def Let_def split: prod.split)

lemma actions_simple [simp]:
  "cl_actions (snd (append_stream_data stream_id data s)) = cl_actions s"
  "cl_actions (queue_application frames s) = cl_actions s"
  "cl_actions (set_packet_protectors htx hrx atx arx s) = cl_actions s"
  "cl_actions (set_remote_connection_id cid s) = cl_actions s"
  "cl_actions (snd (next_recovery_timer E s)) = cl_actions s"
  "cl_actions (discard_packet_space space s) = cl_actions s"
  "cl_actions (snd (next_lifecycle_timer now s)) = cl_actions s"
  "cl_actions (snd (drain_actions s)) = []"
  by (simp_all add: append_stream_data_def queue_application_def replace_queue_def on_space_def set_packet_protectors_def
      set_remote_connection_id_def reset_remote_connection_id_state_def next_recovery_timer_def discard_packet_space_def
      clear_packet_space_def next_lifecycle_timer_def drain_actions_def Let_def split: prod.split)

lemma session_step_idle:
  assumes "session_step E s t" and "cl_actions (ses_loop s) = []"
  shows "cl_actions (ses_loop t) = []"
  using assms
proof (induction rule: session_step.cases)
  case (ses_append s stream_id data)
  then show ?case by (simp add: ses_append_stream_data_def case_prod_unfold Let_def)
next
  case (ses_queue s stream_ids max_frames max_stream_data_size)
  then show ?case by (simp add: queue_stream_data_def case_prod_unfold Let_def)
next
  case (ses_recovery_timer s)
  then show ?case by (simp add: ses_next_recovery_timer_def case_prod_unfold Let_def)
next
  case (ses_recovery_fired s space now)
  then show ?case by (simp add: ses_on_recovery_timer_def case_prod_unfold Let_def)
next
  case (ses_lifecycle_timer s now)
  then show ?case by (simp add: ses_next_lifecycle_timer_def case_prod_unfold Let_def)
qed (simp_all add: ses_flush_def ses_acknowledge_def ses_on_datagram_def ses_on_lifecycle_timer_def drained_loop
    ses_set_packet_protectors_def ses_set_remote_connection_id_def ses_discard_packet_space_def)

lemma session_idle: "session_reachable E config c w s \<Longrightarrow> cl_actions (ses_loop s) = []"
proof (induction rule: session_reachable.induct)
  case session_new
  show ?case by (simp add: new_session_def new_connection_loop_def)
next
  case (session_next s t)
  then show ?case using session_step_idle by blast
qed

text \<open>What the actions of a connection say about streams, in order.\<close>

definition delivery_of :: "u64 \<times> stream_receive_result \<Rightarrow> session_stream_delivery" where
  "delivery_of d = \<lparr>sd_stream_id = fst d, sd_data = srr_data (snd d), sd_final_size_known = srr_final_size_known (snd d),
     sd_final_size = srr_final_size (snd d), sd_closed = srr_closed (snd d), sd_error = srr_error (snd d)\<rparr>"

fun reported_deliveries :: "connection_loop_action list \<Rightarrow> (u64 \<times> stream_receive_result) list" where
  "reported_deliveries [] = []"
| "reported_deliveries (PacketReceived ev # actions) = rpe_stream_deliveries ev @ reported_deliveries actions"
| "reported_deliveries (SendDatagram payload peer # actions) = reported_deliveries actions"
| "reported_deliveries (ConnectionClose e # actions) = reported_deliveries actions"

lemma append_deliveries_all:
  "srcv_stream_deliveries (append_deliveries result ds) = srcv_stream_deliveries result @ map delivery_of ds"
  unfolding append_deliveries_def
  by (induction ds arbitrary: result) (simp_all add: append_delivery_def delivery_of_def case_prod_unfold Let_def)

lemma collected_deliveries:
  "srcv_stream_deliveries (foldl collect_receive result actions) =
     srcv_stream_deliveries result @ map delivery_of (reported_deliveries actions)"
  by (induction actions arbitrary: result rule: reported_deliveries.induct)
    (simp_all add: append_deliveries_all Let_def)

text \<open>C19: no stream delivery is lost between a connection and the user of its session.  The result of \<open>on_datagram\<close> has
  every delivery that the connection reported, in order, and the operations whose result has no room for deliveries
  (\<open>flush\<close>, \<open>acknowledge\<close> and the lifecycle timer drop a \<open>received_packet_event\<close>) never find one, whatever
  was called before.\<close>

theorem session_delivers_all:
  assumes "session_reachable E config c w s"
  shows "srcv_stream_deliveries (fst (ses_on_datagram E payload peer at s)) =
      map delivery_of (reported_deliveries (cl_actions (on_datagram E payload peer at (ses_loop s)))) \<and>
    reports (flush E at clock (ses_loop s)) = {} \<and> reports (acknowledge E space at (ses_loop s)) = {} \<and>
    reports (on_lifecycle_timer kind at (ses_loop s)) = {}"
proof -
  have "reports (ses_loop s) = {}" using session_idle [OF assms] by (simp add: reports_def)
  then have "reports (flush E at clock (ses_loop s)) = {}" "reports (acknowledge E space at (ses_loop s)) = {}"
      "reports (on_lifecycle_timer kind at (ses_loop s)) = {}"
    using silent.R_flush [of E at clock "ses_loop s"] silent.R_acknowledge [of E space at "ses_loop s"]
      silent.R_on_lifecycle_timer [of kind at "ses_loop s"] by auto
  moreover have "srcv_stream_deliveries (fst (ses_on_datagram E payload peer at s)) =
      map delivery_of (reported_deliveries (cl_actions (on_datagram E payload peer at (ses_loop s))))"
    by (simp add: ses_on_datagram_def drain_receive_actions_def drain_actions_def collected_deliveries
        empty_receive_result_def)
  ultimately show ?thesis by blast
qed

definition example_session_config :: session_config where
  "example_session_config = \<lparr>sc_role = ServerRole, sc_version = 1, sc_local_connection_id = \<lparr>cid_bytes = [1]\<rparr>,
     sc_remote_connection_id = \<lparr>cid_bytes = [2]\<rparr>, sc_peer = \<lparr>ep_host = ''peer'', ep_port = 4433, ep_alpn = ''h3''\<rparr>,
     sc_max_datagram_size = 1200, sc_initial_stream_send_max_data = 100, sc_initial_connection_send_max_data = 100,
     sc_max_packet_payload_size = 1000, sc_max_stream_frames = 8, sc_max_stream_data_size = 1200,
     sc_initial_max_stream_data_bidi_local = 100, sc_initial_max_stream_data_bidi_remote = 100,
     sc_initial_max_stream_data_uni = 100, sc_initial_max_streams_bidi = 4, sc_initial_max_streams_uni = 4,
     sc_max_idle_timeout = 30, sc_max_udp_payload_size = 1200, sc_active_connection_id_limit = 2, sc_ack_delay_exponent = 3,
     sc_max_ack_delay = 25000000, sc_disable_active_migration = False, sc_key_lifecycle = new_key_lifecycle,
     sc_closing_draining_timeout = 3, sc_peer_address_validated = False,
     sc_initial_tx_protector = Some (tag_protector InitialProtection),
     sc_initial_rx_protector = Some (tag_protector InitialProtection), sc_handshake_tx_protector = None,
     sc_handshake_rx_protector = None, sc_application_tx_protector = None,
     sc_application_rx_protector = Some plain_protector\<rparr>"

definition example_session :: "(unit, congestion_controller) session" where
  "example_session = new_session example_session_config new_congestion_controller ()"

lemma example_session_loop: "ses_loop example_session = app_start"
  by (simp add: example_session_def new_session_def app_start_def to_connection_config_def example_session_config_def
      app_config_def example_config_def)

text \<open>A datagram with one 1-RTT packet: the session hands over what the connection reports of it.\<close>

theorem session_delivers_all_witness:
  "srcv_stream_deliveries (fst (ses_on_datagram example_env ([0x43, 1, 0, 0, 0, 5] @ new_id_bytes @ replicate 16 0)
      (cfg_peer app_config) 1 example_session)) = map delivery_of (reported_deliveries (cl_actions app_loop)) \<and>
    reports (flush example_env 1 1 app_start) = {}"
proof -
  have "session_reachable example_env example_session_config new_congestion_controller () example_session"
    unfolding example_session_def by (rule session_new)
  from session_delivers_all [OF this, of "[0x43, 1, 0, 0, 0, 5] @ new_id_bytes @ replicate 16 0" "cfg_peer app_config" 1 1]
  show ?thesis by (simp add: example_session_loop app_loop_def app_start_def)
qed

text \<open>The frames that \<open>queue_stream_data\<close> schedules replace the queue of the Application space: frames queued
  before and not yet flushed are dropped, although their bytes have left the send buffers of their streams.\<close>

theorem queue_stream_data_replaces:
  assumes "schedule_stream_frames stream_ids (sc_max_stream_frames (ses_config s)) (sc_max_stream_data_size (ses_config s))
      (ses_loop s) = ((frames, e), l)" and "error_ok e" "frames \<noteq> []" "loop_active l"
  shows "ps_queue (space_of (ses_loop (snd (queue_stream_data stream_ids 0 0 s))) ApplicationSpace) = frames"
  using assms by (simp add: queue_stream_data_def Let_def queue_application_def replace_queue_def on_space_def
      get_space_def update_space_def)

section \<open>The timer schedulers\<close>

text \<open>
  A scheduler operation asks the session for its next timer, waits for the deadline on an asio timer and hands the
  timer back to the session.  Its receiver gets one signal.  \<open>sch_waits\<close> counts the waits that asio has accepted and not
  yet completed; asio completes each of them once, with an error code of its choice (\<open>cancel\<close> only asks it to complete the
  pending waits with \<open>operation_aborted\<close>).
\<close>

datatype asio_error = AsioNone | OperationAborted | AsioFailure string

datatype 'r signal = SetValue 'r | SetStopped | SetError flowq_error

record ('t, 'r) scheduler_state =
  sch_now :: time_point
  sch_receiver :: bool
  sch_fired :: "'t option"
  sch_waits :: nat
  sch_signals :: "'r signal list"

definition new_scheduler_state :: "time_point \<Rightarrow> ('t, 'r) scheduler_state" where
  "new_scheduler_state now = \<lparr>sch_now = now, sch_receiver = True, sch_fired = None, sch_waits = 0, sch_signals = []\<rparr>"

definition scheduler_error :: "string \<Rightarrow> flowq_error" where
  "scheduler_error message = \<lparr>err_code = EC_internal_error, err_message = message\<rparr>"

definition signal_receiver :: "'r signal \<Rightarrow> ('t, 'r) scheduler_state \<Rightarrow> ('t, 'r) scheduler_state" where
  "signal_receiver v st =
     (if \<not> sch_receiver st then st else st\<lparr>sch_receiver := False, sch_signals := sch_signals st @ [v]\<rparr>)"

definition complete_value :: "'r \<Rightarrow> ('t, 'r) scheduler_state \<Rightarrow> ('t, 'r) scheduler_state" where
  "complete_value result st = signal_receiver (SetValue result) st"

definition complete_error :: "asio_error \<Rightarrow> ('t, 'r) scheduler_state \<Rightarrow> ('t, 'r) scheduler_state" where
  "complete_error code st =
     signal_receiver (case code of OperationAborted \<Rightarrow> SetStopped | AsioFailure m \<Rightarrow> SetError (scheduler_error m)
       | AsioNone \<Rightarrow> SetError (scheduler_error [])) st"

definition async_wait :: "'t \<Rightarrow> ('t, 'r) scheduler_state \<Rightarrow> ('t, 'r) scheduler_state" where
  "async_wait timer st = st\<lparr>sch_fired := Some timer, sch_waits := sch_waits st + 1\<rparr>"

subsection \<open>Recovery timers\<close>

record recovery_scheduler_result =
  rsr_fired :: "connection_recovery_timer option"
  rsr_recovery_result :: "connection_recovery_result option"
  rsr_error :: flowq_error

type_synonym ('w, 'c) recovery_scheduler =
  "(connection_recovery_timer, recovery_scheduler_result) scheduler_state \<times> ('w, 'c) session"

definition recovery_start :: "('w, 'c) connection_env \<Rightarrow> ('w, 'c) recovery_scheduler \<Rightarrow> ('w, 'c) recovery_scheduler" where
  "recovery_start E x =
     (let (st, s) = x; (selected, s) = ses_next_recovery_timer E s in
      case selected of
        None \<Rightarrow> (complete_value \<lparr>rsr_fired = None, rsr_recovery_result = None, rsr_error = no_error\<rparr> st, s)
      | Some timer \<Rightarrow> (async_wait timer st, s))"

definition recovery_complete_wait ::
    "('w, 'c) connection_env \<Rightarrow> asio_error \<Rightarrow> ('w, 'c) recovery_scheduler \<Rightarrow> ('w, 'c) recovery_scheduler" where
  "recovery_complete_wait E code x =
     (let (st, s) = x in
      if code \<noteq> AsioNone then (complete_error code st, s)
      else
        case sch_fired st of
          None \<Rightarrow> (complete_value \<lparr>rsr_fired = None, rsr_recovery_result = None, rsr_error = no_error\<rparr> st, s)
        | Some timer \<Rightarrow>
            let (r, s) = ses_on_recovery_timer E (crt_space timer) (crt_deadline timer) s
            in (complete_value \<lparr>rsr_fired = Some timer, rsr_recovery_result = Some r, rsr_error = no_error\<rparr> st, s))"

subsection \<open>Lifecycle timers\<close>

record lifecycle_scheduler_result =
  lsr_fired :: "connection_lifecycle_timer option"
  lsr_send_result :: "session_send_result option"
  lsr_error :: flowq_error

type_synonym ('w, 'c) lifecycle_scheduler =
  "(connection_lifecycle_timer, lifecycle_scheduler_result) scheduler_state \<times> ('w, 'c) session"

definition lifecycle_start :: "('w, 'c) lifecycle_scheduler \<Rightarrow> ('w, 'c) lifecycle_scheduler" where
  "lifecycle_start x =
     (let (st, s) = x; (selected, s) = ses_next_lifecycle_timer (sch_now st) s in
      case selected of
        None \<Rightarrow> (complete_value \<lparr>lsr_fired = None, lsr_send_result = None, lsr_error = no_error\<rparr> st, s)
      | Some timer \<Rightarrow> (async_wait timer st, s))"

definition lifecycle_complete_wait :: "asio_error \<Rightarrow> ('w, 'c) lifecycle_scheduler \<Rightarrow> ('w, 'c) lifecycle_scheduler" where
  "lifecycle_complete_wait code x =
     (let (st, s) = x in
      if code \<noteq> AsioNone then (complete_error code st, s)
      else
        case sch_fired st of
          None \<Rightarrow> (complete_value \<lparr>lsr_fired = None, lsr_send_result = None, lsr_error = no_error\<rparr> st, s)
        | Some timer \<Rightarrow>
            let (r, s) = ses_on_lifecycle_timer (clt_kind timer) (clt_deadline timer) s
            in (complete_value \<lparr>lsr_fired = Some timer, lsr_send_result = Some r, lsr_error = no_error\<rparr> st, s))"

subsection \<open>Both families\<close>

datatype quic_timer_kind = RecoveryTimerKind | LifecycleTimerKind

record quic_timer =
  qt_kind :: quic_timer_kind
  qt_deadline :: time_point
  qt_recovery :: "connection_recovery_timer option"
  qt_lifecycle :: "connection_lifecycle_timer option"

record quic_timer_scheduler_result =
  qsr_fired :: "quic_timer option"
  qsr_recovery_result :: "connection_recovery_result option"
  qsr_lifecycle_result :: "session_send_result option"
  qsr_error :: flowq_error

definition select_quic_timer ::
    "connection_recovery_timer option \<Rightarrow> connection_lifecycle_timer option \<Rightarrow> quic_timer option" where
  "select_quic_timer recovery lifecycle =
     (case lifecycle of
        Some l \<Rightarrow>
          if (case recovery of None \<Rightarrow> True | Some r \<Rightarrow> clt_deadline l \<le> crt_deadline r)
          then Some \<lparr>qt_kind = LifecycleTimerKind, qt_deadline = clt_deadline l, qt_recovery = None, qt_lifecycle = lifecycle\<rparr>
          else map_option (\<lambda>r. \<lparr>qt_kind = RecoveryTimerKind, qt_deadline = crt_deadline r, qt_recovery = recovery,
            qt_lifecycle = None\<rparr>) recovery
      | None \<Rightarrow> map_option (\<lambda>r. \<lparr>qt_kind = RecoveryTimerKind, qt_deadline = crt_deadline r, qt_recovery = recovery,
            qt_lifecycle = None\<rparr>) recovery)"

type_synonym ('w, 'c) quic_timer_scheduler =
  "(quic_timer, quic_timer_scheduler_result) scheduler_state \<times> ('w, 'c) session"

definition empty_quic_timer_result :: quic_timer_scheduler_result where
  "empty_quic_timer_result =
     \<lparr>qsr_fired = None, qsr_recovery_result = None, qsr_lifecycle_result = None, qsr_error = no_error\<rparr>"

definition quic_timer_start ::
    "('w, 'c) connection_env \<Rightarrow> ('w, 'c) quic_timer_scheduler \<Rightarrow> ('w, 'c) quic_timer_scheduler" where
  "quic_timer_start E x =
     (let (st, s) = x;
          (recovery, s) = ses_next_recovery_timer E s;
          (lifecycle, s) = ses_next_lifecycle_timer (sch_now st) s in
      case select_quic_timer recovery lifecycle of
        None \<Rightarrow> (complete_value empty_quic_timer_result (st\<lparr>sch_fired := None\<rparr>), s)
      | Some timer \<Rightarrow> (async_wait timer st, s))"

definition quic_timer_complete_wait ::
    "('w, 'c) connection_env \<Rightarrow> asio_error \<Rightarrow> ('w, 'c) quic_timer_scheduler \<Rightarrow> ('w, 'c) quic_timer_scheduler" where
  "quic_timer_complete_wait E code x =
     (let (st, s) = x; result = empty_quic_timer_result\<lparr>qsr_fired := sch_fired st\<rparr> in
      if code \<noteq> AsioNone then (complete_error code st, s)
      else
        case sch_fired st of
          None \<Rightarrow> (complete_value result st, s)
        | Some timer \<Rightarrow>
            (case qt_recovery timer of
               Some recovery \<Rightarrow>
                 let (r, s) = ses_on_recovery_timer E (crt_space recovery) (qt_deadline timer) s
                 in (complete_value (result\<lparr>qsr_recovery_result := Some r\<rparr>) st, s)
             | None \<Rightarrow>
                 (case qt_lifecycle timer of
                    Some lifecycle \<Rightarrow>
                      let (r, s) = ses_on_lifecycle_timer (clt_kind lifecycle) (qt_deadline timer) s
                      in (complete_value (result\<lparr>qsr_lifecycle_result := Some r\<rparr>) st, s)
                  | None \<Rightarrow> (complete_value result st, s))))"

subsection \<open>Runs of a scheduler operation\<close>

text \<open>
  A run interleaves calls of \<open>start\<close>, completions of accepted waits with any error code, and steps \<open>other\<close> of the
  session by its other users.
\<close>

inductive scheduler_run ::
    "(('t, 'r) scheduler_state \<times> 's \<Rightarrow> ('t, 'r) scheduler_state \<times> 's)
     \<Rightarrow> (asio_error \<Rightarrow> ('t, 'r) scheduler_state \<times> 's \<Rightarrow> ('t, 'r) scheduler_state \<times> 's)
     \<Rightarrow> ('s \<Rightarrow> 's \<Rightarrow> bool) \<Rightarrow> ('t, 'r) scheduler_state \<times> 's \<Rightarrow> ('t, 'r) scheduler_state \<times> 's \<Rightarrow> bool"
  for start complete other x0 where
  run_new: "scheduler_run start complete other x0 x0"
| run_start: "scheduler_run start complete other x0 x \<Longrightarrow> scheduler_run start complete other x0 (start x)"
| run_wait: "scheduler_run start complete other x0 (st, s) \<Longrightarrow> 0 < sch_waits st \<Longrightarrow>
    scheduler_run start complete other x0 (complete code (st\<lparr>sch_waits := sch_waits st - 1\<rparr>, s))"
| run_other: "scheduler_run start complete other x0 (st, s) \<Longrightarrow> other s t \<Longrightarrow> scheduler_run start complete other x0 (st, t)"

definition completes :: "('t, 'r) scheduler_state \<Rightarrow> ('t, 'r) scheduler_state \<Rightarrow> bool" where
  "completes st st' \<longleftrightarrow> sch_waits st' = sch_waits st \<and> \<not> sch_receiver st' \<and>
     (if sch_receiver st then \<exists>v. sch_signals st' = sch_signals st @ [v] else sch_signals st' = sch_signals st)"

definition awaits :: "('t, 'r) scheduler_state \<Rightarrow> ('t, 'r) scheduler_state \<Rightarrow> bool" where
  "awaits st st' \<longleftrightarrow> sch_waits st' = sch_waits st + 1 \<and> sch_receiver st' = sch_receiver st \<and> sch_signals st' = sch_signals st"

lemma completes_value [simp]: "completes st (complete_value r st)" "completes st (complete_error code st)"
    "completes st (complete_value r (st\<lparr>sch_fired := t\<rparr>))"
  by (simp_all add: complete_value_def complete_error_def signal_receiver_def completes_def)

lemma awaits_wait [simp]: "awaits st (async_wait timer st)"
  by (simp add: async_wait_def awaits_def)

text \<open>
  What a scheduler promises: starting it either completes or leaves a wait behind, completing a wait completes it, and the
  session is only used through its operations.
\<close>

locale one_shot_scheduler =
  fixes start :: "('t, 'r) scheduler_state \<times> 's \<Rightarrow> ('t, 'r) scheduler_state \<times> 's"
    and complete :: "asio_error \<Rightarrow> ('t, 'r) scheduler_state \<times> 's \<Rightarrow> ('t, 'r) scheduler_state \<times> 's"
    and other :: "'s \<Rightarrow> 's \<Rightarrow> bool"
  assumes start_law: "start (st, s) = (st', s') \<Longrightarrow> (completes st st' \<or> awaits st st') \<and> other\<^sup>*\<^sup>* s s'"
    and complete_law: "complete code (st, s) = (st', s') \<Longrightarrow> completes st st' \<and> other\<^sup>*\<^sup>* s s'"
begin

definition settled :: "('t, 'r) scheduler_state \<Rightarrow> ('t, 'r) scheduler_state \<Rightarrow> bool" where
  "settled st0 st \<longleftrightarrow> (if sch_receiver st then sch_signals st = [] \<and> (st = st0 \<or> 0 < sch_waits st)
     else length (sch_signals st) = 1)"

lemma settled_completes: "settled st0 st \<Longrightarrow> completes st' st'' \<Longrightarrow> sch_receiver st' = sch_receiver st \<Longrightarrow>
    sch_signals st' = sch_signals st \<Longrightarrow> settled st0 st''"
  by (auto simp: settled_def completes_def split: if_splits)

lemma run_settled:
  assumes "scheduler_run start complete other x0 x"
    and "sch_receiver (fst x0)" and "sch_signals (fst x0) = []"
  shows "settled (fst x0) (fst x) \<and> other\<^sup>*\<^sup>* (snd x0) (snd x)"
  using assms
proof (induction rule: scheduler_run.induct)
  case run_new
  then show ?case by (simp add: settled_def)
next
  case (run_start x)
  obtain st s st' s' where x: "x = (st, s)" and y: "start (st, s) = (st', s')" by (metis surj_pair)
  have "settled (fst x0) st'"
    using start_law [OF y] run_start settled_completes [of "fst x0" st st st']
    by (auto simp: x settled_def awaits_def split: if_splits)
  with start_law [OF y] run_start show ?case by (auto simp: x y)
next
  case (run_wait st s code)
  obtain st' s' where y: "complete code (st\<lparr>sch_waits := sch_waits st - 1\<rparr>, s) = (st', s')" by fastforce
  have "settled (fst x0) st'"
    using complete_law [OF y] run_wait settled_completes [of "fst x0" st "st\<lparr>sch_waits := sch_waits st - 1\<rparr>" st'] by simp
  with complete_law [OF y] run_wait show ?case unfolding y by auto
next
  case (run_other st s t)
  then show ?case by auto
qed

lemma one_signal:
  assumes "scheduler_run start complete other (st0, s0) (st, s)" and "sch_receiver st0" and "sch_signals st0 = []"
  shows "length (sch_signals st) \<le> 1 \<and> (sch_waits st = 0 \<and> st \<noteq> st0 \<longrightarrow> length (sch_signals st) = 1) \<and> other\<^sup>*\<^sup>* s0 s"
  using run_settled [OF assms(1)] assms(2,3) by (auto simp: settled_def split: if_splits)

end

lemma session_timers:
  "session_step E s (snd (ses_next_recovery_timer E s))" "session_step E s (snd (ses_on_recovery_timer E space now s))"
  "session_step E s (snd (ses_next_lifecycle_timer now s))" "session_step E s (snd (ses_on_lifecycle_timer kind now s))"
  by (rule session_step.intros)+

lemma session_timer_runs:
  "ses_next_recovery_timer E s = (r, t) \<Longrightarrow> session_step E s t" "ses_on_recovery_timer E space now s = (rr, t) \<Longrightarrow> session_step E s t"
  "ses_next_lifecycle_timer now s = (l, t) \<Longrightarrow> session_step E s t" "ses_on_lifecycle_timer kind now s = (lr, t) \<Longrightarrow> session_step E s t"
  using session_timers [of E s] by (metis snd_conv)+

interpretation recovery_scheduler: one_shot_scheduler "recovery_start E" "recovery_complete_wait E" "session_step E" for E
  by unfold_locales
    (auto simp: recovery_start_def recovery_complete_wait_def Let_def dest: session_timer_runs split: prod.splits option.splits if_splits)

interpretation lifecycle_scheduler: one_shot_scheduler lifecycle_start lifecycle_complete_wait "session_step E" for E
  by unfold_locales
    (auto simp: lifecycle_start_def lifecycle_complete_wait_def Let_def dest: session_timer_runs
      split: prod.splits option.splits if_splits)

interpretation quic_scheduler: one_shot_scheduler "quic_timer_start E" "quic_timer_complete_wait E" "session_step E" for E
  by unfold_locales
    (auto simp: quic_timer_start_def quic_timer_complete_wait_def Let_def dest!: session_timer_runs [where E = E]
      intro: rtranclp_trans split: prod.splits option.splits if_splits)

lemma session_run: "(session_step E)\<^sup>*\<^sup>* s t \<Longrightarrow> session_reachable E config c w s \<Longrightarrow> session_reachable E config c w t"
  by (induction rule: rtranclp_induct) (auto intro: session_next)

text \<open>The unified scheduler waits for the earlier of the two timers, the lifecycle timer when they are due together.\<close>

lemma select_quic_timer_earliest:
  "select_quic_timer recovery lifecycle = None \<longleftrightarrow> recovery = None \<and> lifecycle = None"
  "select_quic_timer recovery lifecycle = Some timer \<Longrightarrow>
     (\<forall>r. recovery = Some r \<longrightarrow> qt_deadline timer \<le> crt_deadline r) \<and>
     (\<forall>l. lifecycle = Some l \<longrightarrow> qt_deadline timer \<le> clt_deadline l) \<and>
     (case qt_kind timer of
        LifecycleTimerKind \<Rightarrow> qt_lifecycle timer = lifecycle \<and> map_option clt_deadline lifecycle = Some (qt_deadline timer)
      | RecoveryTimerKind \<Rightarrow> qt_recovery timer = recovery \<and> map_option crt_deadline recovery = Some (qt_deadline timer))"
  by (auto simp: select_quic_timer_def split: option.splits if_splits)

text \<open>the unified timer scheduler gives its receiver at most one signal, whatever the order of starts, completions and
  other uses of the session; once no wait is pending an operation that was started has signalled; and the session stays a
  reachable one, so all that holds of sessions holds while timers fire.\<close>

theorem quic_timer_signals_once:
  assumes "session_reachable E config c w s0"
    and "scheduler_run (quic_timer_start E) (quic_timer_complete_wait E) (session_step E) (new_scheduler_state now, s0) (st, s)"
  shows "length (sch_signals st) \<le> 1 \<and>
    (sch_waits st = 0 \<and> st \<noteq> new_scheduler_state now \<longrightarrow> length (sch_signals st) = 1) \<and>
    session_reachable E config c w s"
  using quic_scheduler.one_signal [OF assms(2)] session_run [OF _ assms(1)] by (simp add: new_scheduler_state_def)

text \<open>A session with an idle timeout: the operation is started, and its wait ends at the deadline.\<close>

theorem quic_timer_signals_once_witness:
  "length (sch_signals (fst (quic_timer_complete_wait example_env AsioNone
     (let (st, s) = quic_timer_start example_env (new_scheduler_state 0, example_session) in (st\<lparr>sch_waits := 0\<rparr>, s))))) = 1"
proof -
  let ?x = "quic_timer_start example_env (new_scheduler_state 0, example_session)"
  let ?run = "scheduler_run (quic_timer_start example_env) (quic_timer_complete_wait example_env) (session_step example_env)
    (new_scheduler_state 0, example_session)"
  let ?y = "quic_timer_complete_wait example_env AsioNone ((fst ?x)\<lparr>sch_waits := 0\<rparr>, snd ?x)"
  have r: "session_reachable example_env example_session_config new_congestion_controller () example_session"
    unfolding example_session_def by (rule session_new)
  obtain r1 s1 where 1: "ses_next_recovery_timer example_env example_session = (r1, s1)" by fastforce
  obtain l1 s2 where 2: "ses_next_lifecycle_timer 0 s1 = (l1, s2)" by fastforce
  have "ses_loop (snd (ses_next_recovery_timer example_env example_session)) = app_start\<lparr>cl_lifecycle_dirty := False\<rparr>"
    by (simp add: ses_next_recovery_timer_def case_prod_unfold Let_def next_recovery_timer_def example_session_loop
        loop_active_def app_start_fields app_config_fields example_refresh)
  then have s1: "ses_loop s1 = app_start\<lparr>cl_lifecycle_dirty := False\<rparr>" by (simp add: 1)
  have "fst (ses_next_lifecycle_timer 0 s1) \<noteq> None"
    by (simp add: ses_next_lifecycle_timer_def case_prod_unfold Let_def s1 next_lifecycle_timer_def app_start_fields)
      (simp add: app_config_def example_config_def)
  then obtain timer where "select_quic_timer r1 l1 = Some timer"
    using select_quic_timer_earliest(1) [of r1 l1] by (auto simp: 2)
  with 1 2 have "fst ?x = async_wait timer (new_scheduler_state 0)"
    by (simp add: quic_timer_start_def new_scheduler_state_def)
  then have w: "sch_waits (fst ?x) = 1" by (simp add: async_wait_def new_scheduler_state_def)
  have "?run (fst ?x, snd ?x)" using run_start [OF run_new] by simp
  from run_wait [OF this] w have "?run (fst ?y, snd ?y)" by simp
  note q = quic_timer_signals_once [OF r this]
  have "completes ((fst ?x)\<lparr>sch_waits := 0\<rparr>) (fst ?y)"
    using quic_scheduler.complete_law [of example_env AsioNone "(fst ?x)\<lparr>sch_waits := 0\<rparr>" "snd ?x" "fst ?y" "snd ?y"] by simp
  then have "sch_waits (fst ?y) = 0" "fst ?y \<noteq> new_scheduler_state 0"
    by (auto simp: completes_def new_scheduler_state_def)
  with q show ?thesis by (simp add: case_prod_unfold Let_def)
qed

end
