(* ===== verification/Protection.thy ===== *)
theory Protection
  imports ZeroCopy KeyUpdate
begin

text \<open>
  Packet protection with OpenSSL: \<open>initial_keys.hpp\<close>, \<open>key_derivation.hpp\<close>, \<open>initial_packet_protector.hpp\<close>,
  \<open>openssl_aead_protector.hpp\<close> and \<open>tls_protector_factory.hpp\<close> under \<open>src/include/flowq/quic\<close>, built with
  \<open>FLOWQ_ENABLE_OPENSSL_CRYPTO\<close>.  OpenSSL itself is the record \<open>openssl\<close>, one field per call that the code makes, and
  \<open>aead_law\<close> says what the documentation of an AEAD cipher promises about them.  A call that writes or reads outside a buffer
  is \<open>Undefined\<close>.  The result is that the code's own protectors are \<open>paired\<close>, which is what the packet pipeline asks for.
\<close>

section \<open>OpenSSL\<close>

datatype evp_cipher = EvpAes128Gcm | EvpAes256Gcm | EvpChacha20Poly1305 | EvpAes128Ecb | EvpAes256Ecb

text \<open>
  The type \<open>'x\<close> is the state of an \<open>EVP_CIPHER_CTX\<close>.  A call that can fail returns an option; an update returns the bytes it
  writes, whose number is what it stores through its length pointer, and an update with associated data, which writes
  nothing, the number it stores.  The last two fields say whether the headers define the two ChaCha20 macros that the code
  tests.
\<close>

record 'x openssl =
  ssl_hkdf_init :: bool
  ssl_hkdf_extract_setup :: "buffer \<Rightarrow> buffer \<Rightarrow> bool"
  ssl_hkdf_extract :: "buffer \<Rightarrow> buffer \<Rightarrow> nat \<Rightarrow> buffer option"
  ssl_hkdf_expand_setup :: "buffer \<Rightarrow> buffer \<Rightarrow> bool"
  ssl_hkdf_expand :: "buffer \<Rightarrow> buffer \<Rightarrow> nat \<Rightarrow> buffer option"
  ssl_new :: "'x option"
  ssl_encrypt_init :: "evp_cipher \<Rightarrow> 'x \<Rightarrow> 'x option"
  ssl_decrypt_init :: "evp_cipher \<Rightarrow> 'x \<Rightarrow> 'x option"
  ssl_set_ivlen :: "nat \<Rightarrow> 'x \<Rightarrow> 'x option"
  ssl_encrypt_key :: "buffer \<Rightarrow> buffer \<Rightarrow> 'x \<Rightarrow> 'x option"
  ssl_decrypt_key :: "buffer \<Rightarrow> buffer \<Rightarrow> 'x \<Rightarrow> 'x option"
  ssl_ecb_key :: "buffer \<Rightarrow> 'x \<Rightarrow> 'x option"
  ssl_chacha20_init :: "buffer \<Rightarrow> buffer \<Rightarrow> 'x \<Rightarrow> 'x option"
  ssl_encrypt_aad :: "buffer \<Rightarrow> 'x \<Rightarrow> (nat \<times> 'x) option"
  ssl_decrypt_aad :: "buffer \<Rightarrow> 'x \<Rightarrow> (nat \<times> 'x) option"
  ssl_encrypt_update :: "buffer \<Rightarrow> 'x \<Rightarrow> (buffer \<times> 'x) option"
  ssl_decrypt_update :: "buffer \<Rightarrow> 'x \<Rightarrow> (buffer \<times> 'x) option"
  ssl_encrypt_final :: "'x \<Rightarrow> (buffer \<times> 'x) option"
  ssl_decrypt_final :: "'x \<Rightarrow> (buffer \<times> 'x) option"
  ssl_get_tag :: "nat \<Rightarrow> 'x \<Rightarrow> buffer option"
  ssl_set_tag :: "buffer \<Rightarrow> 'x \<Rightarrow> 'x option"
  ssl_evp_chacha20 :: bool
  ssl_evp_chacha20_poly1305 :: bool

section \<open>Key lengths, labels and nonces\<close>

record cipher_key_lengths =
  ckl_key :: nat
  ckl_iv :: nat
  ckl_header_protection :: nat

definition cipher_suite_key_lengths :: "cipher_suite \<Rightarrow> cipher_key_lengths" where
  "cipher_suite_key_lengths suite =
     (case suite of
        Aes128GcmSha256 \<Rightarrow> \<lparr>ckl_key = 16, ckl_iv = 12, ckl_header_protection = 16\<rparr>
      | Aes256GcmSha384 \<Rightarrow> \<lparr>ckl_key = 32, ckl_iv = 12, ckl_header_protection = 32\<rparr>
      | Chacha20Poly1305Sha256 \<Rightarrow> \<lparr>ckl_key = 32, ckl_iv = 12, ckl_header_protection = 32\<rparr>
      | SuiteUnknown \<Rightarrow> \<lparr>ckl_key = 0, ckl_iv = 0, ckl_header_protection = 0\<rparr>)"

definition initial_key_error :: "string \<Rightarrow> flowq_error" where
  "initial_key_error m = \<lparr>err_code = EC_tls_error, err_message = m\<rparr>"

definition rfc9001_initial_salt :: buffer where
  "rfc9001_initial_salt = [0x38, 0x76, 0x2c, 0xf7, 0xf5, 0x59, 0x34, 0xb3, 0x4d, 0x17,
     0x9a, 0xe6, 0xa4, 0xc8, 0x0c, 0xad, 0xcc, 0xbb, 0x7f, 0x0a]"

definition tls13_hkdf_label :: "nat \<Rightarrow> string \<Rightarrow> buffer" where
  "tls13_hkdf_label len label =
     [to_byte (drop_bit 8 len AND 0xff), to_byte (len AND 0xff), to_byte (length ''tls13 '' + length label)] @
     map byte_of_char ''tls13 '' @ map byte_of_char label @ [0]"

definition nonce_step :: "u64 \<Rightarrow> buffer \<Rightarrow> nat \<Rightarrow> buffer" where
  "nonce_step packet_number nonce index =
     nonce[length nonce - 1 - index :=
       nonce ! (length nonce - 1 - index) XOR to_byte (drop_bit (index * 8) packet_number AND 0xff)]"

definition nonce_for_packet_number :: "buffer \<Rightarrow> u64 \<Rightarrow> buffer" where
  "nonce_for_packet_number iv packet_number = foldl (nonce_step packet_number) iv [0..<8]"

section \<open>Key derivation\<close>

definition hkdf_extract_sha256 :: "'x openssl \<Rightarrow> buffer \<Rightarrow> buffer \<Rightarrow> buffer result" where
  "hkdf_extract_sha256 S salt key =
     (if \<not> ssl_hkdf_init S then Inl (initial_key_error ''OpenSSL HKDF context initialization failed'')
      else if \<not> ssl_hkdf_extract_setup S salt key then Inl (initial_key_error ''OpenSSL HKDF extract setup failed'')
      else case ssl_hkdf_extract S salt key 32 of
          None \<Rightarrow> Inl (initial_key_error ''OpenSSL HKDF extract failed'')
        | Some out \<Rightarrow> if length out \<noteq> 32 then Inl (initial_key_error ''OpenSSL HKDF extract failed'') else Inr out)"

definition hkdf_expand_label_sha256 :: "'x openssl \<Rightarrow> buffer \<Rightarrow> string \<Rightarrow> nat \<Rightarrow> buffer result" where
  "hkdf_expand_label_sha256 S secret label len =
     (let info = tls13_hkdf_label len label in
      if \<not> ssl_hkdf_init S then Inl (initial_key_error ''OpenSSL HKDF context initialization failed'')
      else if \<not> ssl_hkdf_expand_setup S secret info then Inl (initial_key_error ''OpenSSL HKDF expand setup failed'')
      else case ssl_hkdf_expand S secret info len of
          None \<Rightarrow> Inl (initial_key_error ''OpenSSL HKDF expand failed'')
        | Some out \<Rightarrow> if length out \<noteq> len then Inl (initial_key_error ''OpenSSL HKDF expand failed'') else Inr out)"

record initial_secrets =
  is_initial_secret :: buffer
  is_client_initial_secret :: buffer
  is_server_initial_secret :: buffer

definition derive_initial_secrets :: "'x openssl \<Rightarrow> buffer \<Rightarrow> initial_secrets result" where
  "derive_initial_secrets S destination_connection_id =
     (case hkdf_extract_sha256 S rfc9001_initial_salt destination_connection_id of
        Inl e \<Rightarrow> Inl e
      | Inr initial \<Rightarrow>
          (case hkdf_expand_label_sha256 S initial ''client in'' 32 of
             Inl e \<Rightarrow> Inl e
           | Inr client \<Rightarrow>
               (case hkdf_expand_label_sha256 S initial ''server in'' 32 of
                  Inl e \<Rightarrow> Inl e
                | Inr server \<Rightarrow> Inr \<lparr>is_initial_secret = initial, is_client_initial_secret = client,
                    is_server_initial_secret = server\<rparr>)))"

record initial_key_material =
  ikm_key :: buffer
  ikm_iv :: buffer
  ikm_header_protection_key :: buffer

text \<open>The three expansions of \<open>derive_initial_key_material\<close> and \<open>derive_traffic_key_material\<close>.\<close>

definition expand_keys :: "'x openssl \<Rightarrow> buffer \<Rightarrow> cipher_key_lengths \<Rightarrow> initial_key_material result" where
  "expand_keys S secret lengths =
     (case hkdf_expand_label_sha256 S secret ''quic key'' (ckl_key lengths) of
        Inl e \<Rightarrow> Inl e
      | Inr key \<Rightarrow>
          (case hkdf_expand_label_sha256 S secret ''quic iv'' (ckl_iv lengths) of
             Inl e \<Rightarrow> Inl e
           | Inr iv \<Rightarrow>
               (case hkdf_expand_label_sha256 S secret ''quic hp'' (ckl_header_protection lengths) of
                  Inl e \<Rightarrow> Inl e
                | Inr hp \<Rightarrow> Inr \<lparr>ikm_key = key, ikm_iv = iv, ikm_header_protection_key = hp\<rparr>)))"

definition derive_initial_key_material :: "'x openssl \<Rightarrow> buffer \<Rightarrow> initial_key_material result" where
  "derive_initial_key_material S initial_secret =
     expand_keys S initial_secret \<lparr>ckl_key = 16, ckl_iv = 12, ckl_header_protection = 16\<rparr>"

definition derive_traffic_key_material :: "'x openssl \<Rightarrow> buffer \<Rightarrow> cipher_suite \<Rightarrow> traffic_key_material" where
  "derive_traffic_key_material S secret suite =
     (let lengths = cipher_suite_key_lengths suite;
          failed = (\<lambda>e. new_traffic_key_material\<lparr>tk_suite := suite, tk_error := e\<rparr>) in
      if ckl_key lengths = 0 then failed (initial_key_error ''unsupported cipher suite for traffic key derivation'')
      else if secret = [] then failed (initial_key_error ''empty secret for traffic key derivation'')
      else case expand_keys S secret lengths of
          Inl e \<Rightarrow> failed e
        | Inr m \<Rightarrow> \<lparr>tk_key = ikm_key m, tk_iv = ikm_iv m, tk_header_protection_key = ikm_header_protection_key m,
            tk_suite = suite, tk_error = no_error\<rparr>)"

section \<open>The cipher calls\<close>

text \<open>One OpenSSL call with the error that its failure returns, and a write to \<open>output\<close>.\<close>

definition try_step :: "string \<Rightarrow> 'a option \<Rightarrow> ('a \<Rightarrow> 'b result outcome) \<Rightarrow> 'b result outcome" where
  "try_step message r k = (case r of None \<Rightarrow> Returns (Inl (initial_key_error message)) | Some x \<Rightarrow> k x)"

definition write_output :: "buffer \<Rightarrow> nat \<Rightarrow> buffer \<Rightarrow> (buffer \<Rightarrow> 'b outcome) \<Rightarrow> 'b outcome" where
  "write_output out pos bytes k = (case store_bytes out pos bytes of None \<Rightarrow> Undefined | Some out \<Rightarrow> k out)"

definition resize_buffer :: "nat \<Rightarrow> buffer \<Rightarrow> buffer" where
  "resize_buffer n b = take n b @ replicate (n - length b) 0"

definition encrypt_setup :: "'x openssl \<Rightarrow> evp_cipher \<Rightarrow> buffer \<Rightarrow> buffer \<Rightarrow> 'x option" where
  "encrypt_setup S cipher key nonce =
     do { x \<leftarrow> ssl_new S; x \<leftarrow> ssl_encrypt_init S cipher x; x \<leftarrow> ssl_set_ivlen S (length nonce) x; ssl_encrypt_key S key nonce x }"

definition decrypt_setup :: "'x openssl \<Rightarrow> evp_cipher \<Rightarrow> buffer \<Rightarrow> buffer \<Rightarrow> 'x option" where
  "decrypt_setup S cipher key nonce =
     do { x \<leftarrow> ssl_new S; x \<leftarrow> ssl_decrypt_init S cipher x; x \<leftarrow> ssl_set_ivlen S (length nonce) x; ssl_decrypt_key S key nonce x }"

text \<open>\<open>EVP_EncryptFinal_ex\<close>, the tag and the resize, after \<open>total_written\<close> bytes have been written.\<close>

definition finish_seal :: "'x openssl \<Rightarrow> string \<Rightarrow> nat \<Rightarrow> buffer \<Rightarrow> 'x \<Rightarrow> buffer result outcome" where
  "finish_seal S label total_written out x =
     try_step (''OpenSSL '' @ label @ '' seal finalization failed'') (ssl_encrypt_final S x) (\<lambda>(bytes, x).
     write_output out total_written bytes (\<lambda>out.
     let total_written = total_written + length bytes in
     try_step (''OpenSSL '' @ label @ '' tag extraction failed'') (ssl_get_tag S 16 x) (\<lambda>tag.
     write_output out total_written tag (\<lambda>out. Returns (Inr (resize_buffer (total_written + 16) out))))))"

text \<open>\<open>written\<close> is set by the call for the associated data and, unless the plaintext is empty, overwritten by the next.\<close>

definition seal_steps :: "'x openssl \<Rightarrow> string \<Rightarrow> evp_cipher \<Rightarrow> buffer \<Rightarrow> buffer \<Rightarrow> buffer \<Rightarrow> buffer \<Rightarrow> buffer result outcome" where
  "seal_steps S label cipher key nonce aad plaintext =
     try_step (''OpenSSL '' @ label @ '' seal setup failed'') (encrypt_setup S cipher key nonce) (\<lambda>x.
     try_step (''OpenSSL '' @ label @ '' AAD setup failed'') (if aad = [] then Some (0, x) else ssl_encrypt_aad S aad x) (\<lambda>(written, x).
     let out = replicate (length plaintext + 16) 0 in
     if plaintext = [] then finish_seal S label written out x
     else try_step (''OpenSSL '' @ label @ '' seal failed'') (ssl_encrypt_update S plaintext x) (\<lambda>(bytes, x).
       write_output out 0 bytes (\<lambda>out. finish_seal S label (length bytes) out x))))"

definition finish_open :: "'x openssl \<Rightarrow> string \<Rightarrow> nat \<Rightarrow> buffer \<Rightarrow> buffer \<Rightarrow> 'x \<Rightarrow> buffer result outcome" where
  "finish_open S label written tag out x =
     try_step (''OpenSSL '' @ label @ '' tag setup failed'') (ssl_set_tag S tag x) (\<lambda>x.
     try_step (''OpenSSL '' @ label @ '' authentication failed'') (ssl_decrypt_final S x) (\<lambda>(bytes, x).
     write_output out written bytes (\<lambda>out. Returns (Inr (resize_buffer (written + length bytes) out)))))"

definition open_steps :: "'x openssl \<Rightarrow> string \<Rightarrow> evp_cipher \<Rightarrow> buffer \<Rightarrow> buffer \<Rightarrow> buffer \<Rightarrow> buffer \<Rightarrow> buffer result outcome" where
  "open_steps S label cipher key nonce aad protected_payload =
     (let ciphertext_size = length protected_payload - 16;
          ciphertext = take ciphertext_size protected_payload;
          tag = take 16 (drop ciphertext_size protected_payload) in
      try_step (''OpenSSL '' @ label @ '' open setup failed'') (decrypt_setup S cipher key nonce) (\<lambda>x.
      try_step (''OpenSSL '' @ label @ '' open AAD setup failed'') (if aad = [] then Some (0, x) else ssl_decrypt_aad S aad x) (\<lambda>(written, x).
      let out = replicate ciphertext_size 0 in
      if ciphertext_size = 0 then finish_open S label written tag out x
      else try_step (''OpenSSL '' @ label @ '' open failed'') (ssl_decrypt_update S ciphertext x) (\<lambda>(bytes, x).
        write_output out 0 bytes (\<lambda>out. finish_open S label (length bytes) tag out x)))))"

definition initial_aead_seal :: "'x openssl \<Rightarrow> buffer \<Rightarrow> buffer \<Rightarrow> u64 \<Rightarrow> buffer \<Rightarrow> buffer \<Rightarrow> buffer result outcome" where
  "initial_aead_seal S key iv packet_number aad plaintext =
     (if length key \<noteq> 16 \<or> length iv \<noteq> 12
      then Returns (Inl (initial_key_error ''AES-128-GCM Initial protection requires 16-byte key and 12-byte IV''))
      else seal_steps S ''AES-GCM'' EvpAes128Gcm key (nonce_for_packet_number iv packet_number) aad plaintext)"

definition initial_aead_open :: "'x openssl \<Rightarrow> buffer \<Rightarrow> buffer \<Rightarrow> u64 \<Rightarrow> buffer \<Rightarrow> buffer \<Rightarrow> buffer result outcome" where
  "initial_aead_open S key iv packet_number aad protected_payload =
     (if length key \<noteq> 16 \<or> length iv \<noteq> 12 \<or> length protected_payload < 16
      then Returns (Inl (initial_key_error ''AES-128-GCM Initial open requires key, IV, and authentication tag''))
      else open_steps S ''AES-GCM'' EvpAes128Gcm key (nonce_for_packet_number iv packet_number) aad protected_payload)"

definition aead_cipher :: "'x openssl \<Rightarrow> cipher_suite \<Rightarrow> evp_cipher option" where
  "aead_cipher S suite =
     (case suite of
        Aes128GcmSha256 \<Rightarrow> Some EvpAes128Gcm
      | Aes256GcmSha384 \<Rightarrow> Some EvpAes256Gcm
      | Chacha20Poly1305Sha256 \<Rightarrow> if ssl_evp_chacha20_poly1305 S then Some EvpChacha20Poly1305 else None
      | SuiteUnknown \<Rightarrow> None)"

definition aead_seal :: "'x openssl \<Rightarrow> cipher_suite \<Rightarrow> buffer \<Rightarrow> buffer \<Rightarrow> u64 \<Rightarrow> buffer \<Rightarrow> buffer \<Rightarrow> buffer result outcome" where
  "aead_seal S suite key iv packet_number aad plaintext =
     (let lengths = cipher_suite_key_lengths suite in
      if ckl_key lengths = 0 \<or> length key \<noteq> ckl_key lengths \<or> length iv \<noteq> ckl_iv lengths
      then Returns (Inl (initial_key_error ''key/IV length mismatch for cipher suite''))
      else try_step ''unsupported cipher suite for AEAD seal'' (aead_cipher S suite) (\<lambda>cipher.
        seal_steps S ''AEAD'' cipher key (nonce_for_packet_number iv packet_number) aad plaintext))"

definition aead_open :: "'x openssl \<Rightarrow> cipher_suite \<Rightarrow> buffer \<Rightarrow> buffer \<Rightarrow> u64 \<Rightarrow> buffer \<Rightarrow> buffer \<Rightarrow> buffer result outcome" where
  "aead_open S suite key iv packet_number aad protected_payload =
     (let lengths = cipher_suite_key_lengths suite in
      if ckl_key lengths = 0 \<or> length key \<noteq> ckl_key lengths \<or> length iv \<noteq> ckl_iv lengths \<or> length protected_payload < 16
      then Returns (Inl (initial_key_error ''key/IV/tag length mismatch for cipher suite''))
      else try_step ''unsupported cipher suite for AEAD open'' (aead_cipher S suite) (\<lambda>cipher.
        open_steps S ''AEAD'' cipher key (nonce_for_packet_number iv packet_number) aad protected_payload))"

section \<open>Header protection masks\<close>

definition aes_header_protection_mask :: "'x openssl \<Rightarrow> buffer \<Rightarrow> buffer \<Rightarrow> buffer result outcome" where
  "aes_header_protection_mask S header_protection_key sample =
     try_step ''AES header protection requires 16 or 32 byte key''
       (if length header_protection_key = 16 then Some EvpAes128Ecb
        else if length header_protection_key = 32 then Some EvpAes256Ecb else None) (\<lambda>cipher.
     if length sample < 16 then Returns (Inl (initial_key_error ''AES header protection requires at least 16-byte sample''))
     else try_step ''OpenSSL AES-ECB header protection setup failed''
       (do { x \<leftarrow> ssl_new S; x \<leftarrow> ssl_encrypt_init S cipher x; ssl_ecb_key S header_protection_key x }) (\<lambda>x.
     try_step ''OpenSSL AES-ECB header protection failed'' (ssl_encrypt_update S (take 16 sample) x) (\<lambda>(bytes, x).
     write_output (replicate 16 0) 0 bytes (\<lambda>encrypted.
     if length bytes \<noteq> 16 then Returns (Inl (initial_key_error ''OpenSSL AES-ECB header protection failed''))
     else try_step ''OpenSSL AES-ECB header protection finalization failed'' (ssl_encrypt_final S x) (\<lambda>(bytes, x).
     write_output encrypted 16 bytes (\<lambda>encrypted. Returns (Inr (take 5 encrypted))))))))"

text \<open>The ChaCha20 branch passes \<open>sample.data() + 4\<close> as the 16-byte counter and nonce that \<open>EVP_chacha20\<close> reads.\<close>

definition chacha20_header_protection_mask :: "'x openssl \<Rightarrow> buffer \<Rightarrow> buffer \<Rightarrow> buffer result outcome" where
  "chacha20_header_protection_mask S header_protection_key sample =
     (if length header_protection_key \<noteq> 32 \<or> length sample < 16
      then Returns (Inl (initial_key_error ''ChaCha20 header protection requires 32-byte key and 16-byte sample''))
      else case load_bytes sample 4 16 of
          None \<Rightarrow> Undefined
        | Some iv \<Rightarrow>
            try_step ''OpenSSL ChaCha20 header protection setup failed''
              (do { x \<leftarrow> ssl_new S; ssl_chacha20_init S header_protection_key iv x }) (\<lambda>x.
            try_step ''OpenSSL ChaCha20 header protection failed'' (ssl_encrypt_update S (replicate 5 0) x) (\<lambda>(bytes, x).
            write_output (replicate 5 0) 0 bytes (\<lambda>mask. Returns (Inr mask)))))"

definition header_protection_mask :: "'x openssl \<Rightarrow> cipher_suite \<Rightarrow> buffer \<Rightarrow> buffer \<Rightarrow> buffer result outcome" where
  "header_protection_mask S suite header_protection_key sample =
     (if suite = Chacha20Poly1305Sha256
      then if ssl_evp_chacha20 S then chacha20_header_protection_mask S header_protection_key sample
        else Returns (Inl (initial_key_error ''ChaCha20 header protection not available (EVP_CHACHA20 not defined)''))
      else aes_header_protection_mask S header_protection_key sample)"

section \<open>The Initial protector\<close>

definition provider_unavailable :: crypto_provider_status where
  "provider_unavailable = \<lparr>cps_available_from_external_provider = False, cps_suite = SuiteUnknown,
     cps_capabilities = \<lparr>cap_hkdf = False, cap_aead_seal = False, cap_aead_open = False, cap_header_protection = False,
       cap_tls_owns_key_schedule = False\<rparr>\<rparr>"

definition provider_available :: "cipher_suite \<Rightarrow> crypto_capabilities \<Rightarrow> crypto_provider_status" where
  "provider_available suite capabilities =
     \<lparr>cps_available_from_external_provider = True, cps_suite = suite, cps_capabilities = capabilities\<rparr>"

definition packet_capabilities :: crypto_capabilities where
  "packet_capabilities = \<lparr>cap_hkdf = True, cap_aead_seal = True, cap_aead_open = True, cap_header_protection = True,
     cap_tls_owns_key_schedule = False\<rparr>"

definition initial_crypto_backend_status :: crypto_provider_status where
  "initial_crypto_backend_status = provider_available Aes128GcmSha256 packet_capabilities"

datatype initial_packet_protection_direction = ClientDirection | ServerDirection

record initial_packet_protector =
  ipp_status :: crypto_provider_status
  ipp_key :: buffer
  ipp_iv :: buffer
  ipp_header_protection_key :: buffer
  ipp_initialization_error :: flowq_error
  ipp_ready :: bool

definition new_initial_packet_protector ::
    "'x openssl \<Rightarrow> initial_packet_protection_direction \<Rightarrow> buffer \<Rightarrow> initial_packet_protector" where
  "new_initial_packet_protector S direction destination_connection_id =
     (let p = \<lparr>ipp_status = initial_crypto_backend_status, ipp_key = [], ipp_iv = [], ipp_header_protection_key = [],
            ipp_initialization_error = initial_key_error ''Initial packet protector is not initialized'', ipp_ready = False\<rparr> in
      case derive_initial_secrets S destination_connection_id of
        Inl e \<Rightarrow> p\<lparr>ipp_initialization_error := e\<rparr>
      | Inr secrets \<Rightarrow>
          (case derive_initial_key_material S
                  (if direction = ClientDirection then is_client_initial_secret secrets else is_server_initial_secret secrets) of
             Inl e \<Rightarrow> p\<lparr>ipp_initialization_error := e\<rparr>
           | Inr material \<Rightarrow>
               p\<lparr>ipp_key := ikm_key material, ipp_iv := ikm_iv material,
                 ipp_header_protection_key := ikm_header_protection_key material,
                 ipp_initialization_error := no_error, ipp_ready := True\<rparr>))"

definition ipp_validate_context :: "initial_packet_protector \<Rightarrow> packet_protection_context \<Rightarrow> flowq_error" where
  "ipp_validate_context p context =
     (if \<not> ipp_ready p then ipp_initialization_error p
      else if pn_space (ctx_number context) \<noteq> InitialSpace
      then protocol_error ''Initial packet protection requires Initial packet numbers''
      else if ctx_associated_data context = [] then protocol_error ''Initial packet protection requires associated data''
      else no_error)"

definition ipp_protect :: "'x openssl \<Rightarrow> initial_packet_protector \<Rightarrow> packet_protection_context \<Rightarrow> buffer \<Rightarrow> buffer result outcome" where
  "ipp_protect S p context plaintext =
     (let e = ipp_validate_context p context in
      if \<not> error_ok e then Returns (Inl e)
      else initial_aead_seal S (ipp_key p) (ipp_iv p) (pn_value (ctx_number context)) (ctx_associated_data context) plaintext)"

definition ipp_unprotect :: "'x openssl \<Rightarrow> initial_packet_protector \<Rightarrow> packet_protection_context \<Rightarrow> buffer \<Rightarrow> buffer result outcome" where
  "ipp_unprotect S p context protected_payload =
     (let e = ipp_validate_context p context in
      if \<not> error_ok e then Returns (Inl e)
      else initial_aead_open S (ipp_key p) (ipp_iv p) (pn_value (ctx_number context)) (ctx_associated_data context)
        protected_payload)"

definition ipp_header_protection_mask :: "'x openssl \<Rightarrow> initial_packet_protector \<Rightarrow> buffer \<Rightarrow> buffer result outcome" where
  "ipp_header_protection_mask S p sample =
     (if \<not> ipp_ready p then Returns (Inl (ipp_initialization_error p))
      else aes_header_protection_mask S (ipp_header_protection_key p) sample)"

text \<open>As a \<open>packet_protector\<close>: nothing is known about the result of a call whose behaviour is undefined.\<close>

fun behaves :: "'a outcome \<Rightarrow> 'a" where
  "behaves (Returns r) = r"
| "behaves _ = undefined"

definition initial_protector :: "'x openssl \<Rightarrow> initial_packet_protector \<Rightarrow> packet_protector" where
  "initial_protector S p = \<lparr>pp_level = InitialProtection, pp_security_level = AuthenticatedEncrypted,
     pp_provider_status = (if ipp_ready p then ipp_status p else provider_unavailable), pp_protection_overhead = 16,
     pp_header_protection_enabled = ipp_ready p,
     pp_header_protection_mask = (\<lambda>sample. behaves (ipp_header_protection_mask S p sample)),
     pp_protect = (\<lambda>context plaintext. behaves (ipp_protect S p context plaintext)),
     pp_unprotect = (\<lambda>context payload. behaves (ipp_unprotect S p context payload))\<rparr>"

section \<open>The AEAD protector\<close>

record openssl_aead_packet_protector =
  oap_level :: protection_level
  oap_material :: traffic_key_material
  oap_ready :: bool

definition new_openssl_aead_packet_protector :: openssl_aead_packet_protector where
  "new_openssl_aead_packet_protector =
     \<lparr>oap_level = NoProtection, oap_material = new_traffic_key_material, oap_ready = False\<rparr>"

definition create_aead_protector ::
    "openssl_aead_packet_protector \<Rightarrow> protection_level \<Rightarrow> traffic_key_material \<Rightarrow> flowq_error \<times> openssl_aead_packet_protector" where
  "create_aead_protector out level material =
     (let lengths = cipher_suite_key_lengths (tk_suite material) in
      if \<not> error_ok (tk_error material) then (tk_error material, out)
      else if tk_suite material = SuiteUnknown
      then (initial_key_error ''cannot create AEAD protector with unknown cipher suite'', out)
      else if tk_suite material \<notin> {Aes128GcmSha256, Aes256GcmSha384, Chacha20Poly1305Sha256}
      then (initial_key_error ''unsupported cipher suite for openssl_aead_packet_protector'', out)
      else if length (tk_key material) \<noteq> ckl_key lengths \<or> length (tk_iv material) \<noteq> ckl_iv lengths \<or>
        length (tk_header_protection_key material) \<noteq> ckl_header_protection lengths
      then (initial_key_error ''traffic key material length mismatch for cipher suite'', out)
      else (no_error, \<lparr>oap_level = level, oap_material = material, oap_ready = True\<rparr>))"

definition oap_not_ready_error :: flowq_error where
  "oap_not_ready_error = initial_key_error ''OpenSSL AEAD packet protector is not initialized or crypto backend is disabled''"

definition oap_protect :: "'x openssl \<Rightarrow> openssl_aead_packet_protector \<Rightarrow> packet_protection_context \<Rightarrow> buffer \<Rightarrow> buffer result outcome" where
  "oap_protect S p context plaintext =
     (let m = oap_material p in
      if \<not> oap_ready p then Returns (Inl oap_not_ready_error)
      else if ctx_associated_data context = [] then Returns (Inl (protocol_error ''AEAD protection requires associated data''))
      else aead_seal S (tk_suite m) (tk_key m) (tk_iv m) (pn_value (ctx_number context)) (ctx_associated_data context) plaintext)"

definition oap_unprotect :: "'x openssl \<Rightarrow> openssl_aead_packet_protector \<Rightarrow> packet_protection_context \<Rightarrow> buffer \<Rightarrow> buffer result outcome" where
  "oap_unprotect S p context protected_payload =
     (let m = oap_material p in
      if \<not> oap_ready p then Returns (Inl oap_not_ready_error)
      else if ctx_associated_data context = [] then Returns (Inl (protocol_error ''AEAD unprotection requires associated data''))
      else aead_open S (tk_suite m) (tk_key m) (tk_iv m) (pn_value (ctx_number context)) (ctx_associated_data context) protected_payload)"

definition oap_header_protection_mask :: "'x openssl \<Rightarrow> openssl_aead_packet_protector \<Rightarrow> buffer \<Rightarrow> buffer result outcome" where
  "oap_header_protection_mask S p sample =
     (if \<not> oap_ready p then Returns (Inl oap_not_ready_error)
      else header_protection_mask S (tk_suite (oap_material p)) (tk_header_protection_key (oap_material p)) sample)"

definition aead_protector :: "'x openssl \<Rightarrow> openssl_aead_packet_protector \<Rightarrow> packet_protector" where
  "aead_protector S p = \<lparr>pp_level = oap_level p, pp_security_level = AuthenticatedEncrypted,
     pp_provider_status = (if oap_ready p then provider_available (tk_suite (oap_material p)) packet_capabilities
       else provider_unavailable), pp_protection_overhead = 16, pp_header_protection_enabled = oap_ready p,
     pp_header_protection_mask = (\<lambda>sample. behaves (oap_header_protection_mask S p sample)),
     pp_protect = (\<lambda>context plaintext. behaves (oap_protect S p context plaintext)),
     pp_unprotect = (\<lambda>context payload. behaves (oap_unprotect S p context payload))\<rparr>"

section \<open>What an AEAD cipher promises\<close>

text \<open>The calls for one packet, without the buffers of the code around them.\<close>

definition encrypt_run :: "'x openssl \<Rightarrow> evp_cipher \<Rightarrow> buffer \<Rightarrow> buffer \<Rightarrow> buffer \<Rightarrow> buffer \<Rightarrow> (buffer \<times> buffer) option" where
  "encrypt_run S cipher key nonce aad plain =
     do { x \<leftarrow> encrypt_setup S cipher key nonce;
          (w, x) \<leftarrow> (if aad = [] then Some (0, x) else ssl_encrypt_aad S aad x);
          (ct, x) \<leftarrow> ssl_encrypt_update S plain x;
          (rest, x) \<leftarrow> ssl_encrypt_final S x;
          tag \<leftarrow> ssl_get_tag S 16 x;
          Some (ct, tag) }"

definition decrypt_run :: "'x openssl \<Rightarrow> evp_cipher \<Rightarrow> buffer \<Rightarrow> buffer \<Rightarrow> buffer \<Rightarrow> buffer \<Rightarrow> buffer \<Rightarrow> buffer option" where
  "decrypt_run S cipher key nonce aad ct tag =
     do { x \<leftarrow> decrypt_setup S cipher key nonce;
          (w, x) \<leftarrow> (if aad = [] then Some (0, x) else ssl_decrypt_aad S aad x);
          (plain, x) \<leftarrow> ssl_decrypt_update S ct x;
          x \<leftarrow> ssl_set_tag S tag x;
          (rest, x) \<leftarrow> ssl_decrypt_final S x;
          Some (plain @ rest) }"

text \<open>
  Encryption keeps the length, its last step writes nothing, a tag has the length that was asked for, and decrypting with
  the same key, nonce and associated data returns what was encrypted, all of it before the last step.
\<close>

definition aead_law :: "'x openssl \<Rightarrow> bool" where
  "aead_law S \<longleftrightarrow>
     (\<forall>plain x ct y. ssl_encrypt_update S plain x = Some (ct, y) \<longrightarrow> length ct = length plain) \<and>
     (\<forall>x rest y. ssl_encrypt_final S x = Some (rest, y) \<longrightarrow> rest = []) \<and>
     (\<forall>x rest y. ssl_decrypt_final S x = Some (rest, y) \<longrightarrow> rest = []) \<and>
     (\<forall>x tag. ssl_get_tag S 16 x = Some tag \<longrightarrow> length tag = 16) \<and>
     (\<forall>cipher key nonce aad plain ct tag. encrypt_run S cipher key nonce aad plain = Some (ct, tag) \<longrightarrow>
        decrypt_run S cipher key nonce aad ct tag = Some plain)"

lemma aead_lawD:
  assumes "aead_law S"
  shows "ssl_encrypt_update S plain x = Some (ct, y) \<Longrightarrow> length ct = length plain"
    and "ssl_encrypt_final S x = Some (rest, y) \<Longrightarrow> rest = []"
    and "ssl_decrypt_final S x = Some (rest, y) \<Longrightarrow> rest = []"
    and "ssl_get_tag S 16 x = Some tag \<Longrightarrow> length tag = 16"
    and "encrypt_run S cipher key nonce aad plain = Some (ct, tag) \<Longrightarrow> decrypt_run S cipher key nonce aad ct tag = Some plain"
  using assms unfolding aead_law_def by blast+

section \<open>Sealing and opening\<close>

lemma store_exact: "length bytes = n \<Longrightarrow> store_bytes (replicate (n + m) 0) 0 bytes = Some (bytes @ replicate m 0)"
  by (auto simp: store_bytes_def)

lemma store_tag: "length tag = 16 \<Longrightarrow> store_bytes (bytes @ replicate 16 0) (length bytes) tag = Some (bytes @ tag)"
  by (simp add: store_bytes_def)

lemma try_step_simps [simp]:
  "try_step m None k = Returns (Inl (initial_key_error m))" "try_step m (Some x) k = k x"
  by (simp_all add: try_step_def)

lemma finish_seal_cases:
  assumes "aead_law S"
  shows "(\<exists>tag. do { (rest, z) \<leftarrow> ssl_encrypt_final S z; ssl_get_tag S 16 z } = Some tag \<and> length tag = 16 \<and>
      finish_seal S label (length ct) (ct @ replicate 16 0) z = Returns (Inr (ct @ tag))) \<or>
    (\<exists>e. finish_seal S label (length ct) (ct @ replicate 16 0) z = Returns (Inl e))"
proof (cases "ssl_encrypt_final S z")
  case (Some r)
  then obtain y where y: "ssl_encrypt_final S z = Some ([], y)" using aead_lawD(2) [OF assms] by (cases r) auto
  have "store_bytes (ct @ replicate 16 0) (length ct) [] = Some (ct @ replicate 16 0)" by (simp add: store_bytes_def)
  with y aead_lawD(4) [OF assms, of y] show ?thesis
    by (cases "ssl_get_tag S 16 y") (simp_all add: finish_seal_def write_output_def store_tag resize_buffer_def Let_def)
qed (simp add: finish_seal_def)

text \<open>What the buffers of \<open>seal_steps\<close> hold: for a non-empty plaintext it never leaves them.\<close>

lemma seal_steps_cases:
  assumes "aead_law S" and "plain \<noteq> []"
  shows "(\<exists>ct tag. encrypt_run S cipher key nonce aad plain = Some (ct, tag) \<and> length ct = length plain \<and> length tag = 16 \<and>
      seal_steps S label cipher key nonce aad plain = Returns (Inr (ct @ tag))) \<or>
    (\<exists>e. seal_steps S label cipher key nonce aad plain = Returns (Inl e))"
proof (cases "encrypt_setup S cipher key nonce")
  case (Some x)
  note su = Some
  show ?thesis
  proof (cases "if aad = [] then Some (0, x) else ssl_encrypt_aad S aad x")
    case (Some wx)
    obtain w y where wx: "wx = (w, y)" by fastforce
    show ?thesis
    proof (cases "ssl_encrypt_update S plain y")
      case (Some cz)
      obtain ct z where cz: "cz = (ct, z)" by fastforce
      have len: "length ct = length plain" using aead_lawD(1) [OF assms(1)] Some cz by blast
      have run: "encrypt_run S cipher key nonce aad plain =
          map_option (\<lambda>tag. (ct, tag)) (do { (rest, z) \<leftarrow> ssl_encrypt_final S z; ssl_get_tag S 16 z })"
        using su \<open>(if aad = [] then Some (0, x) else ssl_encrypt_aad S aad x) = Some wx\<close> Some
        by (simp add: encrypt_run_def wx cz map_option_bind comp_def split: option.split bind_splits)
      have steps: "seal_steps S label cipher key nonce aad plain = finish_seal S label (length ct) (ct @ replicate 16 0) z"
        using su \<open>(if aad = [] then Some (0, x) else ssl_encrypt_aad S aad x) = Some wx\<close> Some assms(2)
        by (simp add: seal_steps_def wx cz write_output_def store_exact [OF len])
      show ?thesis
        using finish_seal_cases [OF assms(1), where label = label and ct = ct and z = z] len by (auto simp: run steps)
    qed (use su assms(2) in \<open>simp add: seal_steps_def wx Some\<close>)
  qed (use su in \<open>simp add: seal_steps_def\<close>)
qed (simp add: seal_steps_def)

lemma open_steps_run:
  assumes law: "aead_law S" and run: "decrypt_run S cipher key nonce aad ct tag = Some plain"
    and len: "length ct = length plain" "plain \<noteq> []" "length tag = 16"
  shows "open_steps S label cipher key nonce aad (ct @ tag) = Returns (Inr plain)"
proof -
  obtain x w y where x: "decrypt_setup S cipher key nonce = Some x"
      "(if aad = [] then Some (0, x) else ssl_decrypt_aad S aad x) = Some (w, y)"
    and "\<exists>p z z' rest z''. ssl_decrypt_update S ct y = Some (p, z) \<and> ssl_set_tag S tag z = Some z' \<and>
      ssl_decrypt_final S z' = Some (rest, z'') \<and> p @ rest = plain"
    using run unfolding decrypt_run_def by (auto split: bind_splits)
  then obtain p z z' rest z'' where y: "ssl_decrypt_update S ct y = Some (p, z)" "ssl_set_tag S tag z = Some z'"
      "ssl_decrypt_final S z' = Some (rest, z'')" "p @ rest = plain" by blast
  then have p: "rest = []" "p = plain" using aead_lawD(3) [OF law y(3)] by simp_all
  have "store_bytes (replicate (length ct) 0) 0 plain = Some plain"
    using store_exact [of plain "length ct" 0] len by simp
  moreover have "store_bytes plain (length plain) [] = Some plain" by (simp add: store_bytes_def)
  ultimately show ?thesis
    using x y p len by (simp add: open_steps_def finish_open_def write_output_def resize_buffer_def Let_def)
qed

lemma seal_open:
  assumes "aead_law S" and "plain \<noteq> []" and "seal_steps S label cipher key nonce aad plain = Returns (Inr sealed)"
  shows "open_steps S label' cipher key nonce aad sealed = Returns (Inr plain) \<and> 16 \<le> length sealed"
proof -
  obtain ct tag where "encrypt_run S cipher key nonce aad plain = Some (ct, tag)" "length ct = length plain" "length tag = 16"
      "sealed = ct @ tag"
    using seal_steps_cases [OF assms(1,2), of cipher key nonce aad label] assms(3) by auto
  then show ?thesis
    using open_steps_run [OF assms(1) aead_lawD(5) [OF assms(1)] _ assms(2)] by simp
qed

lemma seal_steps_returns:
  assumes "aead_law S" and "plain \<noteq> []"
  shows "\<exists>r. seal_steps S label cipher key nonce aad plain = Returns r"
  using seal_steps_cases [OF assms, of cipher key nonce aad label] by blast

section \<open>The protectors of the code are paired\<close>

definition initial_client_protector :: "'x openssl \<Rightarrow> connection_id \<Rightarrow> initial_packet_protector" where
  "initial_client_protector S destination = new_initial_packet_protector S ClientDirection (cid_bytes destination)"

definition initial_server_protector :: "'x openssl \<Rightarrow> connection_id \<Rightarrow> initial_packet_protector" where
  "initial_server_protector S destination = new_initial_packet_protector S ServerDirection (cid_bytes destination)"

lemma new_initial_status [simp]: "ipp_status (new_initial_packet_protector S d cid) = initial_crypto_backend_status"
  by (simp add: new_initial_packet_protector_def Let_def split: sum.split)

lemma backend_ready: "packet_protection_ready initial_crypto_backend_status"
    "suite \<noteq> SuiteUnknown \<Longrightarrow> packet_protection_ready (provider_available suite packet_capabilities)"
  by (simp_all add: packet_protection_ready_def initial_crypto_backend_status_def provider_available_def packet_capabilities_def)

lemma initial_seal_open:
  assumes "aead_law S" and "plain \<noteq> []" and "behaves (ipp_protect S p c plain) = Inr sealed"
  shows "ipp_unprotect S p c sealed = Returns (Inr plain)"
proof -
  let ?seal = "seal_steps S ''AES-GCM'' EvpAes128Gcm (ipp_key p) (nonce_for_packet_number (ipp_iv p) (pn_value (ctx_number c)))
    (ctx_associated_data c) plain"
  obtain r where r: "?seal = Returns r" using seal_steps_returns [OF assms(1,2)] by blast
  then have ok: "error_ok (ipp_validate_context p c)" "length (ipp_key p) = 16" "length (ipp_iv p) = 12" "r = Inr sealed"
    using assms(3) by (auto simp: ipp_protect_def initial_aead_seal_def Let_def split: if_splits)
  with seal_open [OF assms(1,2)] r show ?thesis
    by (simp add: ipp_unprotect_def initial_aead_open_def Let_def not_less)
qed

lemma aead_seal_open:
  assumes "aead_law S" and "plain \<noteq> []" and "behaves (oap_protect S p c plain) = Inr sealed"
  shows "oap_unprotect S p c sealed = Returns (Inr plain)"
proof -
  let ?m = "oap_material p"
  let ?n = "nonce_for_packet_number (tk_iv ?m) (pn_value (ctx_number c))"
  have ok: "oap_ready p" "ctx_associated_data c \<noteq> []" "ckl_key (cipher_suite_key_lengths (tk_suite ?m)) \<noteq> 0"
      "length (tk_key ?m) = ckl_key (cipher_suite_key_lengths (tk_suite ?m))"
      "length (tk_iv ?m) = ckl_iv (cipher_suite_key_lengths (tk_suite ?m))" "aead_cipher S (tk_suite ?m) \<noteq> None"
    using assms(3) by (auto simp: oap_protect_def aead_seal_def try_step_def Let_def split: if_splits option.splits)
  then obtain cipher where cipher: "aead_cipher S (tk_suite ?m) = Some cipher" by blast
  obtain r where r: "seal_steps S ''AEAD'' cipher (tk_key ?m) ?n (ctx_associated_data c) plain = Returns r"
    using seal_steps_returns [OF assms(1,2)] by blast
  then have "r = Inr sealed"
    using assms(3) ok cipher by (simp add: oap_protect_def aead_seal_def Let_def)
  with seal_open [OF assms(1,2)] r ok cipher show ?thesis
    by (simp add: oap_unprotect_def aead_open_def Let_def not_less)
qed

lemma initial_paired:
  assumes "aead_law S" and "ipp_ready (new_initial_packet_protector S d cid)"
  shows "paired (initial_protector S (new_initial_packet_protector S d cid)) (initial_protector S (new_initial_packet_protector S d cid))"
  using assms initial_seal_open [OF assms(1)]
  by (simp add: paired_def initial_protector_def production_protection_satisfied_def backend_ready)

lemma aead_paired:
  assumes "aead_law S" and "create_aead_protector out level material = (no_error, p)"
  shows "paired (aead_protector S p) (aead_protector S p)"
proof -
  have "oap_ready p" "tk_suite (oap_material p) \<noteq> SuiteUnknown"
    using assms(2) by (auto simp: create_aead_protector_def Let_def no_error_def initial_key_error_def error_ok_def split: if_splits)
  then show ?thesis
    using aead_seal_open [OF assms(1)]
    by (simp add: paired_def aead_protector_def production_protection_satisfied_def backend_ready)
qed

lemma aead_created:
  assumes "create_aead_protector out level material = (no_error, p)"
  shows "p = \<lparr>oap_level = level, oap_material = material, oap_ready = True\<rparr>"
  using assms by (auto simp: create_aead_protector_def Let_def no_error_def initial_key_error_def error_ok_def split: if_splits)

text \<open>C11: with OpenSSL behind them the code's own Initial protectors do what the packet pipeline relies on.  A client Initial
  packet that was assembled with the protector derived from a destination connection ID is parsed by the receiver that
  derives its protector from the same ID, to the same number and the frames of the request followed by padding only.\<close>

theorem initial_packet_exchange:
  assumes "aead_law S" and "ipp_ready (initial_client_protector S destination)"
    and "assemble_long_packet r = Some a" and "ap_datagram a \<noteq> []"
    and "br_protector r = Some (initial_protector S (initial_client_protector S destination))" and "br_version r \<noteq> 0"
    and "br_frames r \<noteq> []"
    and "frames_ok (br_frames r @ (if br_enforce_initial_datagram_minimum r then [PaddingFrame 1] else []))"
  shows "\<exists>packet n. parse_long_packet (ap_datagram a) (Some (initial_protector S (initial_client_protector S destination))) =
      Inr packet \<and> ppk_number packet = br_number r \<and> ppk_protection packet = InitialProtection \<and>
      ppk_frames packet = br_frames r @ padding n \<and> (br_enforce_initial_datagram_minimum r \<or> n = 0)"
proof -
  have pair: "paired (initial_protector S (initial_client_protector S destination))
      (initial_protector S (initial_client_protector S destination))"
    using initial_paired assms(1,2) unfolding initial_client_protector_def by blast
  from long_roundtrip [OF assms(3-5) pair assms(6-8)] show ?thesis
    by (fastforce simp: initial_protector_def)
qed

text \<open>1-RTT packets survive the wire between two endpoints that hold the same TLS traffic secret: the protectors that
  both derive from it with the key schedule of the code understand each other, for every cipher suite that they accept.\<close>

theorem application_packet_exchange:
  assumes "aead_law S" and "create_aead_protector out ApplicationProtection (derive_traffic_key_material S secret suite) = (no_error, p)"
    and "ap_datagram (assemble_application_packet r) \<noteq> []" and "abr_protector r = Some (aead_protector S p)"
    and "abr_frames r \<noteq> []" and "frames_ok (abr_frames r)"
    and "create_aead_protector out' ApplicationProtection (derive_traffic_key_material S secret suite) = (no_error, q)"
  shows "\<exists>packet. parse_short_packet (ap_datagram (assemble_application_packet r))
      (length (cid_bytes (abr_destination_connection_id r))) (Some (aead_protector S q)) = Inr packet \<and>
    ppk_number packet = abr_number r \<and> ppk_frames packet = abr_frames r"
proof -
  have "q = p" using aead_created [OF assms(2)] aead_created [OF assms(7)] by simp
  then show ?thesis
    using application_roundtrip [OF assms(3,4) aead_paired [OF assms(1,2)] assms(5,6)] by fastforce
qed

section \<open>Nonces\<close>

lemma nonce_length [simp]: "length (nonce_step n nonce i) = length nonce" "length (foldl (nonce_step n) iv xs) = length iv"
proof -
  show s: "length (nonce_step n nonce i) = length nonce" for nonce i by (simp add: nonce_step_def)
  show "length (foldl (nonce_step n) iv xs) = length iv" by (induction xs rule: rev_induct) (simp_all add: s)
qed

lemma nonce_step_nth:
  assumes "k < length nonce" and "i < length nonce"
  shows "nonce_step n nonce k ! (length nonce - 1 - i) = (if k = i
    then nonce ! (length nonce - 1 - i) XOR to_byte (drop_bit (i * 8) n AND 0xff) else nonce ! (length nonce - 1 - i))"
proof -
  have "length nonce - 1 - k = length nonce - 1 - i \<longleftrightarrow> k = i" using assms by auto
  then show ?thesis using assms unfolding nonce_step_def by (simp add: nth_list_update)
qed

lemma nonce_loop:
  assumes "k \<le> length iv" and "i < length iv"
  shows "foldl (nonce_step n) iv [0..<k] ! (length iv - 1 - i) =
    (if i < k then iv ! (length iv - 1 - i) XOR to_byte (drop_bit (i * 8) n AND 0xff) else iv ! (length iv - 1 - i))"
  using assms
proof (induction k arbitrary: i)
  case (Suc k)
  then show ?case
    using nonce_step_nth [of k "foldl (nonce_step n) iv [0..<k]" i n] by (simp add: less_Suc_eq)
qed simp

lemma xor_cancel: "c XOR x = c XOR y \<Longrightarrow> x = (y :: byte)"
proof -
  assume "c XOR x = c XOR y"
  then have "c XOR (c XOR x) = c XOR (c XOR y)" by simp
  then show ?thesis by (simp flip: xor.assoc)
qed

lemma byte_bits_determine:
  assumes "a < 2 ^ 64" and "b < 2 ^ 64"
    and "\<And>i. i < 8 \<Longrightarrow> to_byte (drop_bit (i * 8) a AND 0xff) = to_byte (drop_bit (i * 8) b AND 0xff)"
  shows "a = (b :: nat)"
proof (rule bit_eqI)
  fix n
  have eight: "bit (to_byte (drop_bit (i * 8) x AND 0xff)) j = bit x (i * 8 + j)" if "j < 8" for x i j
  proof -
    have "bit (mask 8 :: nat) j" using that by (simp add: bit_mask_iff)
    then have "bit (0xff :: nat) j" by (simp add: mask_eq_exp_minus_1)
    then show ?thesis using that by (simp add: to_byte_def bit_simps)
  qed
  show "bit a n = bit b n"
  proof (cases "n < 64")
    case True
    then have "n div 8 < 8" "n mod 8 < 8" by auto
    then show ?thesis
      using assms(3) [of "n div 8"] eight [of "n mod 8" "n div 8"] by (metis div_mult_mod_eq)
  next
    case False
    then have "2 ^ 64 \<le> (2 :: nat) ^ n" by (intro power_increasing) auto
    with assms(1,2) have "a < 2 ^ n" "b < 2 ^ n" by linarith+
    then show ?thesis by (simp add: bit_iff_odd)
  qed
qed

text \<open>C16: under one key no two packet numbers use the same AEAD nonce: the nonce determines the packet number.\<close>

theorem nonce_unique:
  assumes "8 \<le> length iv" and "is_u64 a" and "is_u64 b"
  shows "nonce_for_packet_number iv a = nonce_for_packet_number iv b \<longleftrightarrow> a = b"
proof
  assume eq: "nonce_for_packet_number iv a = nonce_for_packet_number iv b"
  have "to_byte (drop_bit (i * 8) a AND 0xff) = to_byte (drop_bit (i * 8) b AND 0xff)" if "i < 8" for i
  proof -
    have i: "i < length iv" using that assms(1) by simp
    have nth: "nonce_for_packet_number iv n ! (length iv - 1 - i) =
        iv ! (length iv - 1 - i) XOR to_byte (drop_bit (i * 8) n AND 0xff)" for n
      using nonce_loop [OF assms(1) i, of n] that unfolding nonce_for_packet_number_def by (simp only: if_True)
    have "iv ! (length iv - 1 - i) XOR to_byte (drop_bit (i * 8) a AND 0xff) =
        iv ! (length iv - 1 - i) XOR to_byte (drop_bit (i * 8) b AND 0xff)"
      unfolding nth [symmetric] eq ..
    then show ?thesis by (rule xor_cancel)
  qed
  then show "a = b" using byte_bits_determine [of a b] assms(2,3) by (simp add: is_u64_def)
qed simp

section \<open>Corners\<close>

text \<open>
  An empty plaintext with associated data: the length that the call for the associated data stored is still in \<open>written\<close>,
  and the tag is written that far behind the start of a buffer of 16 bytes.
\<close>

theorem empty_plaintext_overruns:
  assumes "aad \<noteq> []" and "encrypt_setup S cipher key nonce = Some x" and "ssl_encrypt_aad S aad x = Some (length aad, y)"
    and "ssl_encrypt_final S y = Some ([], z)" and "ssl_get_tag S 16 z = Some tag" and "length tag = 16"
  shows "seal_steps S label cipher key nonce aad [] = Undefined"
  using assms by (auto simp: seal_steps_def finish_seal_def write_output_def store_bytes_def Let_def split: option.split)

text \<open>Without the two ChaCha20 macros a ChaCha20 protector is created and reports itself ready, but never protects a packet.\<close>

theorem chacha20_ready_but_useless:
  assumes "create_aead_protector out level material = (no_error, p)" and "tk_suite material = Chacha20Poly1305Sha256"
    and "\<not> ssl_evp_chacha20 S" and "\<not> ssl_evp_chacha20_poly1305 S"
  shows "packet_protection_ready (pp_provider_status (aead_protector S p)) \<and>
    (\<forall>c plain. \<exists>e. pp_protect (aead_protector S p) c plain = Inl e) \<and> (\<forall>sample. \<exists>e. pp_header_protection_mask (aead_protector S p) sample = Inl e)"
proof -
  have p: "p = \<lparr>oap_level = level, oap_material = material, oap_ready = True\<rparr>" by (rule aead_created [OF assms(1)])
  have ready: "packet_protection_ready (pp_provider_status (aead_protector S p))"
    using assms(2) by (simp add: aead_protector_def p backend_ready)
  have protect: "\<exists>e. pp_protect (aead_protector S p) c plain = Inl e" for c plain
    using assms(2,4) by (simp add: aead_protector_def p oap_protect_def aead_seal_def aead_cipher_def Let_def)
  have mask: "\<exists>e. pp_header_protection_mask (aead_protector S p) sample = Inl e" for sample
    using assms(2,3) by (simp add: aead_protector_def p oap_header_protection_mask_def header_protection_mask_def)
  from ready protect mask show ?thesis by blast
qed

text \<open>With them, the mask of a 16-byte sample, the only size the pipeline asks for, reads behind the sample.\<close>

theorem chacha20_mask_overreads:
  assumes "ssl_evp_chacha20 S" and "length key = 32" and "length sample = 16"
  shows "header_protection_mask S Chacha20Poly1305Sha256 key sample = Undefined"
  using assms by (simp add: header_protection_mask_def chacha20_header_protection_mask_def load_bytes_def)

section \<open>Protectors from a TLS handshake\<close>

text \<open>What \<open>tls_protector_factory\<close> asks the handshake adapter for.\<close>

record tls_secrets =
  ts_negotiated_cipher :: cipher_suite
  ts_traffic_secret :: "bool \<Rightarrow> bool \<Rightarrow> buffer"

record tls_protector_set_result =
  tps_error :: flowq_error
  tps_handshake_tx :: "openssl_aead_packet_protector option"
  tps_handshake_rx :: "openssl_aead_packet_protector option"
  tps_application_tx :: "openssl_aead_packet_protector option"
  tps_application_rx :: "openssl_aead_packet_protector option"

definition new_tls_protector_set_result :: tls_protector_set_result where
  "new_tls_protector_set_result = \<lparr>tps_error = no_error, tps_handshake_tx = None, tps_handshake_rx = None,
     tps_application_tx = None, tps_application_rx = None\<rparr>"

definition protection_for :: "bool \<Rightarrow> protection_level" where
  "protection_for application = (if application then ApplicationProtection else HandshakeProtection)"

text \<open>The lambda \<open>create_level_protector\<close>: the error and the new value of \<open>out\<close>.\<close>

definition create_level_protector ::
    "'x openssl \<Rightarrow> tls_secrets \<Rightarrow> bool \<Rightarrow> bool \<Rightarrow> openssl_aead_packet_protector option
     \<Rightarrow> flowq_error \<times> openssl_aead_packet_protector option" where
  "create_level_protector S adapter application is_tx out =
     (let secret_data = ts_traffic_secret adapter application is_tx in
      if out \<noteq> None \<or> secret_data = [] then (no_error, out)
      else
        let material = derive_traffic_key_material S secret_data (ts_negotiated_cipher adapter) in
        if \<not> error_ok (tk_error material) then (tk_error material, out)
        else
          let (e, protector) = create_aead_protector new_openssl_aead_packet_protector (protection_for application) material in
          if \<not> error_ok e then (e, out) else (no_error, Some protector))"

definition create_protectors :: "'x openssl \<Rightarrow> tls_secrets \<Rightarrow> tls_protector_set_result" where
  "create_protectors S adapter =
     (let r = new_tls_protector_set_result in
      if ts_negotiated_cipher adapter = SuiteUnknown then r\<lparr>tps_error := initial_key_error ''unknown cipher suite''\<rparr>
      else
        let (e, p) = create_level_protector S adapter False True (tps_handshake_tx r); r = r\<lparr>tps_handshake_tx := p\<rparr> in
        if \<not> error_ok e then r\<lparr>tps_error := e\<rparr>
        else
          let (e, p) = create_level_protector S adapter False False (tps_handshake_rx r); r = r\<lparr>tps_handshake_rx := p\<rparr> in
          if \<not> error_ok e then r\<lparr>tps_error := e\<rparr>
          else
            let (e, p) = create_level_protector S adapter True True (tps_application_tx r); r = r\<lparr>tps_application_tx := p\<rparr> in
            if \<not> error_ok e then r\<lparr>tps_error := e\<rparr>
            else
              let (e, p) = create_level_protector S adapter True False (tps_application_rx r); r = r\<lparr>tps_application_rx := p\<rparr> in
              if \<not> error_ok e then r\<lparr>tps_error := e\<rparr> else r)"

definition tps_protector :: "tls_protector_set_result \<Rightarrow> packet_number_space \<Rightarrow> bool \<Rightarrow> openssl_aead_packet_protector option" where
  "tps_protector r space is_tx =
     (case space of
        InitialSpace \<Rightarrow> None
      | HandshakeSpace \<Rightarrow> if is_tx then tps_handshake_tx r else tps_handshake_rx r
      | ApplicationSpace \<Rightarrow> if is_tx then tps_application_tx r else tps_application_rx r)"

text \<open>The key schedule of one level.\<close>

lemma expand_lengths:
  "hkdf_expand_label_sha256 S secret label n = Inr out \<Longrightarrow> length out = n"
  by (auto simp: hkdf_expand_label_sha256_def Let_def split: if_splits option.splits)

lemma key_error_not_ok [simp]: "\<not> error_ok (initial_key_error m)"
  by (simp add: initial_key_error_def error_ok_def)

lemma expand_error: "hkdf_expand_label_sha256 S secret label n = Inl e \<Longrightarrow> \<not> error_ok e"
  by (auto simp: hkdf_expand_label_sha256_def initial_key_error_def error_ok_def Let_def split: if_splits option.splits)

lemma expand_keys_cases:
  "(\<exists>e. expand_keys S secret lengths = Inl e \<and> \<not> error_ok e) \<or>
   (\<exists>m. expand_keys S secret lengths = Inr m \<and> length (ikm_key m) = ckl_key lengths \<and> length (ikm_iv m) = ckl_iv lengths \<and>
      length (ikm_header_protection_key m) = ckl_header_protection lengths)"
  by (auto simp: expand_keys_def dest: expand_lengths expand_error split: sum.split)

lemma derived_material:
  assumes "error_ok (tk_error (derive_traffic_key_material S secret suite))"
  shows "create_aead_protector out level (derive_traffic_key_material S secret suite) =
    (no_error, \<lparr>oap_level = level, oap_material = derive_traffic_key_material S secret suite, oap_ready = True\<rparr>)"
proof -
  have u: "ckl_key (cipher_suite_key_lengths SuiteUnknown) = 0" by (simp add: cipher_suite_key_lengths_def)
  have ok: "ckl_key (cipher_suite_key_lengths suite) \<noteq> 0" "secret \<noteq> []"
    using assms by (auto simp: derive_traffic_key_material_def Let_def split: if_splits)
  then have "suite \<in> {Aes128GcmSha256, Aes256GcmSha384, Chacha20Poly1305Sha256}" "suite \<noteq> SuiteUnknown"
    using u by (cases suite; simp)+
  moreover obtain m where m: "expand_keys S secret (cipher_suite_key_lengths suite) = Inr m"
      "length (ikm_key m) = ckl_key (cipher_suite_key_lengths suite)"
      "length (ikm_iv m) = ckl_iv (cipher_suite_key_lengths suite)"
      "length (ikm_header_protection_key m) = ckl_header_protection (cipher_suite_key_lengths suite)"
    using expand_keys_cases [of S secret "cipher_suite_key_lengths suite"] assms ok
    by (auto simp: derive_traffic_key_material_def Let_def)
  moreover have "derive_traffic_key_material S secret suite = \<lparr>tk_key = ikm_key m, tk_iv = ikm_iv m,
      tk_header_protection_key = ikm_header_protection_key m, tk_suite = suite, tk_error = no_error\<rparr>"
    using ok m(1) by (simp add: derive_traffic_key_material_def Let_def)
  ultimately show ?thesis by (simp add: create_aead_protector_def Let_def)
qed

definition level_protector :: "'x openssl \<Rightarrow> tls_secrets \<Rightarrow> bool \<Rightarrow> bool \<Rightarrow> openssl_aead_packet_protector option" where
  "level_protector S adapter application is_tx =
     (if ts_traffic_secret adapter application is_tx = [] then None
      else Some \<lparr>oap_level = protection_for application,
        oap_material = derive_traffic_key_material S (ts_traffic_secret adapter application is_tx) (ts_negotiated_cipher adapter),
        oap_ready = True\<rparr>)"

lemma create_level_protector_ok:
  assumes "create_level_protector S adapter application is_tx None = (e, p)" and "error_ok e"
  shows "p = level_protector S adapter application is_tx \<and>
    (p \<noteq> None \<longrightarrow> error_ok (tk_error (derive_traffic_key_material S (ts_traffic_secret adapter application is_tx)
       (ts_negotiated_cipher adapter))))"
  using assms derived_material [of S "ts_traffic_secret adapter application is_tx" "ts_negotiated_cipher adapter"]
  by (auto simp: create_level_protector_def level_protector_def Let_def split: if_splits prod.splits)

lemma create_protectors_fields:
  assumes "ts_negotiated_cipher adapter \<noteq> SuiteUnknown"
    and "create_level_protector S adapter False True None = (e1, p1)" "create_level_protector S adapter False False None = (e2, p2)"
      "create_level_protector S adapter True True None = (e3, p3)" "create_level_protector S adapter True False None = (e4, p4)"
  shows "error_ok (tps_error (create_protectors S adapter)) \<longleftrightarrow> error_ok e1 \<and> error_ok e2 \<and> error_ok e3 \<and> error_ok e4"
    and "error_ok (tps_error (create_protectors S adapter)) \<Longrightarrow> create_protectors S adapter =
      \<lparr>tps_error = no_error, tps_handshake_tx = p1, tps_handshake_rx = p2, tps_application_tx = p3, tps_application_rx = p4\<rparr>"
  using assms(1) by (auto simp: create_protectors_def new_tls_protector_set_result_def assms(2-5) Let_def split: if_splits)

lemma create_protectors_ok:
  assumes ok: "error_ok (tps_error (create_protectors S adapter))"
  shows "tps_protector (create_protectors S adapter) HandshakeSpace is_tx = level_protector S adapter False is_tx \<and>
    tps_protector (create_protectors S adapter) ApplicationSpace is_tx = level_protector S adapter True is_tx \<and>
    (level_protector S adapter application is_tx \<noteq> None \<longrightarrow>
      error_ok (tk_error (derive_traffic_key_material S (ts_traffic_secret adapter application is_tx) (ts_negotiated_cipher adapter))))"
proof -
  have n: "ts_negotiated_cipher adapter \<noteq> SuiteUnknown"
    using assms by (auto simp: create_protectors_def Let_def)
  obtain e1 p1 where 1: "create_level_protector S adapter False True None = (e1, p1)" by fastforce
  obtain e2 p2 where 2: "create_level_protector S adapter False False None = (e2, p2)" by fastforce
  obtain e3 p3 where 3: "create_level_protector S adapter True True None = (e3, p3)" by fastforce
  obtain e4 p4 where 4: "create_level_protector S adapter True False None = (e4, p4)" by fastforce
  note fields = create_protectors_fields [OF n 1 2 3 4]
  show ?thesis
    using ok fields(1) create_level_protector_ok [OF 1] create_level_protector_ok [OF 2] create_level_protector_ok [OF 3]
      create_level_protector_ok [OF 4]
    unfolding fields(2) [OF ok] by (cases is_tx; cases application) (simp_all add: tps_protector_def)
qed

text \<open>C20: when a TLS handshake has left the sender and the receiver with the same traffic secret for a level, the protectors
  that \<open>tls_protector_factory\<close> creates at the two ends are paired: what one seals the other opens, under the same mask.
  Without an error every level that has a secret has a protector.\<close>

theorem tls_protectors_paired:
  assumes "aead_law S" and "error_ok (tps_error (create_protectors S a))" and "error_ok (tps_error (create_protectors S b))"
    and "ts_negotiated_cipher a = ts_negotiated_cipher b" and "space = HandshakeSpace \<or> space = ApplicationSpace"
    and "ts_traffic_secret a (space = ApplicationSpace) True = ts_traffic_secret b (space = ApplicationSpace) False"
    and "ts_traffic_secret a (space = ApplicationSpace) True \<noteq> []"
  shows "\<exists>tx rx. tps_protector (create_protectors S a) space True = Some tx \<and> tps_protector (create_protectors S b) space False = Some rx \<and>
    paired (aead_protector S tx) (aead_protector S rx)"
proof -
  let ?application = "space = ApplicationSpace"
  let ?m = "derive_traffic_key_material S (ts_traffic_secret a ?application True) (ts_negotiated_cipher a)"
  let ?p = "\<lparr>oap_level = protection_for ?application, oap_material = ?m, oap_ready = True\<rparr>"
  have "tps_protector (create_protectors S a) space True = level_protector S a ?application True"
      "tps_protector (create_protectors S b) space False = level_protector S b ?application False"
    using create_protectors_ok [OF assms(2), of True] create_protectors_ok [OF assms(3), of False] assms(5) by auto
  moreover have l: "level_protector S a ?application True = Some ?p" "level_protector S b ?application False = Some ?p"
    using assms(4,6,7) by (simp_all add: level_protector_def)
  moreover have "error_ok (tk_error ?m)"
    using create_protectors_ok [OF assms(2), of True ?application] l(1) by simp
  from derived_material [OF this] have "paired (aead_protector S ?p) (aead_protector S ?p)"
    by (rule aead_paired [OF assms(1)])
  ultimately show ?thesis by simp
qed

section \<open>Witnesses\<close>

text \<open>A library in which every call succeeds: bytes are masked with a constant, and the tag is constant.\<close>

definition toy_openssl :: "buffer openssl" where
  "toy_openssl = \<lparr>ssl_hkdf_init = True, ssl_hkdf_extract_setup = (\<lambda>_ _. True), ssl_hkdf_extract = (\<lambda>_ _ n. Some (replicate n 1)),
     ssl_hkdf_expand_setup = (\<lambda>_ _. True), ssl_hkdf_expand = (\<lambda>_ _ n. Some (replicate n 2)), ssl_new = Some [],
     ssl_encrypt_init = (\<lambda>_ x. Some x), ssl_decrypt_init = (\<lambda>_ x. Some x), ssl_set_ivlen = (\<lambda>_ x. Some x),
     ssl_encrypt_key = (\<lambda>_ _ x. Some x), ssl_decrypt_key = (\<lambda>_ _ x. Some x), ssl_ecb_key = (\<lambda>_ x. Some x),
     ssl_chacha20_init = (\<lambda>_ _ x. Some x), ssl_encrypt_aad = (\<lambda>aad x. Some (length aad, x)),
     ssl_decrypt_aad = (\<lambda>aad x. Some (length aad, x)), ssl_encrypt_update = (\<lambda>p x. Some (map (\<lambda>b. b XOR 0x5a) p, x)),
     ssl_decrypt_update = (\<lambda>c x. Some (map (\<lambda>b. b XOR 0x5a) c, x)), ssl_encrypt_final = (\<lambda>x. Some ([], x)),
     ssl_decrypt_final = (\<lambda>x. if x = replicate 16 7 then Some ([], x) else None), ssl_get_tag = (\<lambda>n x. Some (replicate n 7)),
     ssl_set_tag = (\<lambda>tag x. Some tag), ssl_evp_chacha20 = False, ssl_evp_chacha20_poly1305 = False\<rparr>"

lemma toy_law: "aead_law toy_openssl"
proof -
  have "map ((\<lambda>b. b XOR 0x5a) \<circ> (\<lambda>b. b XOR 0x5a)) p = p" for p :: buffer
    by (induction p) (simp_all add: xor.assoc)
  then show ?thesis
    by (auto simp: aead_law_def encrypt_run_def decrypt_run_def encrypt_setup_def decrypt_setup_def toy_openssl_def)
qed

lemma toy_seal:
  assumes "plain \<noteq> []"
  shows "seal_steps toy_openssl label cipher key nonce aad plain = Returns (Inr (map (\<lambda>b. b XOR 0x5a) plain @ replicate 16 7))"
  using seal_steps_cases [OF toy_law assms, of cipher key nonce aad label] assms
  by (auto simp: seal_steps_def finish_seal_def encrypt_run_def encrypt_setup_def toy_openssl_def write_output_def Let_def
      split: if_splits option.splits)

definition destination :: connection_id where
  "destination = \<lparr>cid_bytes = [1, 2, 3, 4]\<rparr>"

definition toy_initial :: packet_protector where
  "toy_initial = initial_protector toy_openssl (initial_client_protector toy_openssl destination)"

lemma toy_ready:
  "ipp_ready (initial_client_protector toy_openssl destination)"
  "length (ipp_key (initial_client_protector toy_openssl destination)) = 16"
  "length (ipp_iv (initial_client_protector toy_openssl destination)) = 12"
  "length (ipp_header_protection_key (initial_client_protector toy_openssl destination)) = 16"
  by (simp_all add: initial_client_protector_def new_initial_packet_protector_def derive_initial_secrets_def
      hkdf_extract_sha256_def hkdf_expand_label_sha256_def derive_initial_key_material_def expand_keys_def toy_openssl_def Let_def)

lemma toy_mask: "length sample = 16 \<Longrightarrow> length key = 16 \<Longrightarrow>
    \<exists>m. aes_header_protection_mask toy_openssl key sample = Returns (Inr m)"
  by (simp add: aes_header_protection_mask_def toy_openssl_def write_output_def store_bytes_def)

lemma toy_working: "working toy_initial \<lparr>pn_space = InitialSpace, pn_value = n\<rparr>"
proof -
  have "\<exists>m. pp_header_protection_mask toy_initial sample = Inr m" if "length sample = 16" for sample
    using toy_mask [OF that toy_ready(4)]
    by (auto simp: toy_initial_def initial_protector_def ipp_header_protection_mask_def toy_ready(1))
  then show ?thesis
    by (auto simp: working_def toy_initial_def initial_protector_def ipp_protect_def ipp_validate_context_def toy_ready
        initial_aead_seal_def toy_seal Let_def)
qed

definition toy_request :: packet_build_request where
  "toy_request = \<lparr>br_type = LongInitial, br_version = 1, br_destination_connection_id = destination,
     br_source_connection_id = \<lparr>cid_bytes = [2]\<rparr>, br_token = [], br_number = \<lparr>pn_space = InitialSpace, pn_value = 3\<rparr>,
     br_frames = [PingFrame], br_protector = Some toy_initial, br_max_datagram_size = 1200,
     br_enforce_initial_datagram_minimum = False\<rparr>"

lemma toy_assembled: "\<exists>a. assemble_long_packet toy_request = Some a \<and> ap_datagram a \<noteq> []"
proof -
  have o: "pp_protection_overhead toy_initial = 16" by (simp add: toy_initial_def initial_protector_def)
  have "\<exists>dg. seal_long_packet toy_request toy_initial [0x01] = Inr dg \<and> dg \<noteq> []"
    by (rule seal_long_ok [of _ _ 21])
      (use toy_working [of 3] in \<open>simp_all add: toy_request_def o destination_def long_encodable_def long_prefix_def
        max_varint_def varint_len_def\<close>)
  moreover have "check_long_request toy_request toy_initial = Inr ()"
    by (simp add: check_long_request_def toy_request_def space_for_def protection_level_matches_def
        expected_protection_for_def validate_protection_policy_def toy_initial_def initial_protector_def
        production_protection_satisfied_def backend_ready toy_ready)
      (simp add: initial_client_protector_def backend_ready)
  ultimately show ?thesis
    by (auto simp: assemble_long_packet_def assemble_long_datagram_def toy_request_def pad_initial_def assembled_def)
qed

theorem initial_packet_exchange_witness:
  "\<exists>a packet. assemble_long_packet toy_request = Some a \<and> parse_long_packet (ap_datagram a) (Some toy_initial) = Inr packet \<and>
     ppk_frames packet = [PingFrame] \<and> pn_value (ppk_number packet) = 3"
proof -
  obtain a where a: "assemble_long_packet toy_request = Some a" "ap_datagram a \<noteq> []" using toy_assembled by blast
  have r: "br_protector toy_request = Some (initial_protector toy_openssl (initial_client_protector toy_openssl destination))"
      "br_version toy_request \<noteq> 0" "br_frames toy_request = [PingFrame]" "\<not> br_enforce_initial_datagram_minimum toy_request"
      "pn_value (br_number toy_request) = 3"
    by (simp_all add: toy_request_def toy_initial_def)
  from initial_packet_exchange [OF toy_law toy_ready(1) a r(1,2)] a r show ?thesis
    by (auto simp: padding_def toy_initial_def)
qed

definition toy_secrets :: "bool \<Rightarrow> tls_secrets" where
  "toy_secrets client = \<lparr>ts_negotiated_cipher = Aes128GcmSha256, ts_traffic_secret = (\<lambda>application is_tx.
     if client = is_tx then [1, if application then 1 else 0] else [2, if application then 1 else 0])\<rparr>"

lemma toy_created: "error_ok (tps_error (create_protectors toy_openssl (toy_secrets client)))"
proof -
  have "error_ok (fst (create_level_protector toy_openssl (toy_secrets client) application is_tx None))" for application is_tx
    by (simp add: create_level_protector_def toy_secrets_def derive_traffic_key_material_def expand_keys_def
        hkdf_expand_label_sha256_def toy_openssl_def create_aead_protector_def cipher_suite_key_lengths_def Let_def)
  then have "\<exists>e p. create_level_protector toy_openssl (toy_secrets client) application is_tx None = (e, p) \<and> error_ok e"
    for application is_tx by (metis prod.collapse)
  moreover have "ts_negotiated_cipher (toy_secrets client) \<noteq> SuiteUnknown" by (simp add: toy_secrets_def)
  ultimately show ?thesis using create_protectors_fields(1) by metis
qed

theorem tls_protectors_paired_witness:
  "\<exists>tx rx. tps_protector (create_protectors toy_openssl (toy_secrets True)) ApplicationSpace True = Some tx \<and>
     tps_protector (create_protectors toy_openssl (toy_secrets False)) ApplicationSpace False = Some rx \<and>
     paired (aead_protector toy_openssl tx) (aead_protector toy_openssl rx)"
  by (rule tls_protectors_paired [OF toy_law toy_created toy_created]) (simp_all add: toy_secrets_def)

theorem nonce_unique_witness:
  "nonce_for_packet_number (replicate 12 0) 1 = nonce_for_packet_number (replicate 12 0) 2 \<longleftrightarrow> (1 :: nat) = 2"
  by (rule nonce_unique) (simp_all add: is_u64_def)

end
