(* ===== verification/TlsAdapter.thy ===== *)
theory TlsAdapter
  imports ConnectionTypes Protection
begin

text \<open>
  The TLS handshake adapter, \<open>src/include/flowq/quic/openssl_tls_handshake.hpp\<close>, built with
  \<open>FLOWQ_ENABLE_OPENSSL_QUIC_TLS\<close>.  OpenSSL drives it through callbacks: a call of \<open>SSL_do_handshake\<close> is a script, the callbacks
  that OpenSSL makes during the call and what the call returns, and the theorems hold for every script.  The fields that the
  class has once per encryption level are functions of the level.
\<close>

section \<open>Configuration and state\<close>

record openssl_tls_config =
  tlsc_is_client :: bool
  tlsc_cert_file :: "string option"
  tlsc_key_file :: "string option"
  tlsc_ca_file :: "string option"
  tlsc_server_name :: "string option"
  tlsc_alpn :: "string option"
  tlsc_tls13_ciphersuite :: string
  tlsc_local_transport_parameters :: transport_parameters

text \<open>The OpenSSL calls of the constructor: whether each of them succeeds.\<close>

record ssl_library =
  lib_ctx_new :: bool
  lib_set_ciphersuites :: "string \<Rightarrow> bool"
  lib_use_certificate_chain_file :: "string \<Rightarrow> bool"
  lib_use_private_key_file :: "string \<Rightarrow> bool"
  lib_check_private_key :: bool
  lib_load_verify_locations :: "string \<Rightarrow> bool"
  lib_ssl_new :: bool
  lib_set_host_name :: "string \<Rightarrow> bool"
  lib_set1_host :: "string \<Rightarrow> bool"
  lib_set_alpn_protos :: "buffer \<Rightarrow> bool"
  lib_set_quic_tls_cbs :: bool
  lib_set_transport_params :: "buffer \<Rightarrow> bool"

record tls_adapter =
  ta_ssl :: bool
  ta_state :: handshake_state
  ta_keys :: tls_key_availability
  ta_current_tx_level :: tls_encryption_level
  ta_outbound_crypto :: "crypto_bytes list"
  ta_offset :: "tls_encryption_level \<Rightarrow> u64"
  ta_inbound :: "tls_encryption_level \<Rightarrow> buffer"
  ta_read_pos :: "tls_encryption_level \<Rightarrow> nat"
  ta_secret :: "tls_encryption_level \<Rightarrow> bool \<Rightarrow> buffer"
  ta_local_transport_params :: buffer
  ta_peer_transport_params :: buffer
  ta_alert :: "byte option"
  ta_last_error :: flowq_error
  ta_current_cipher :: "nat option"

definition blank_adapter :: tls_adapter where
  "blank_adapter = \<lparr>ta_ssl = False, ta_state = HandshakeIdle,
     ta_keys = \<lparr>ka_initial = False, ka_handshake = False, ka_application = False\<rparr>, ta_current_tx_level = TlsInitial,
     ta_outbound_crypto = [], ta_offset = (\<lambda>_. 0), ta_inbound = (\<lambda>_. []), ta_read_pos = (\<lambda>_. 0), ta_secret = (\<lambda>_ _. []),
     ta_local_transport_params = [], ta_peer_transport_params = [], ta_alert = None, ta_last_error = no_error,
     ta_current_cipher = None\<rparr>"

definition set_failure :: "string \<Rightarrow> tls_adapter \<Rightarrow> tls_adapter" where
  "set_failure message a = a\<lparr>ta_state := HandshakeFailed, ta_last_error := initial_key_error message\<rparr>"

definition is_empty_name :: "string option \<Rightarrow> bool" where
  "is_empty_name s \<longleftrightarrow> (case s of None \<Rightarrow> True | Some v \<Rightarrow> v = [])"

section \<open>The constructor\<close>

text \<open>The constructor returns at the first call that fails: the checks before \<open>SSL_new\<close>, and those after it.\<close>

definition check_context :: "ssl_library \<Rightarrow> openssl_tls_config \<Rightarrow> string option" where
  "check_context L c =
     (if \<not> lib_ctx_new L then Some ''failed to create OpenSSL SSL_CTX''
      else if \<not> lib_set_ciphersuites L (tlsc_tls13_ciphersuite c) then Some ''failed to configure TLS 1.3 cipher suite''
      else if \<not> tlsc_is_client c then
        (case (tlsc_cert_file c, tlsc_key_file c) of
           (Some cert, Some key) \<Rightarrow>
             if \<not> lib_use_certificate_chain_file L cert then Some ''failed to load server certificate chain''
             else if \<not> lib_use_private_key_file L key then Some ''failed to load server private key''
             else if \<not> lib_check_private_key L then Some ''server certificate and private key do not match''
             else None
         | _ \<Rightarrow> Some ''server TLS requires certificate chain and private key'')
      else if is_empty_name (tlsc_ca_file c) then Some ''client TLS requires CA certificate for peer verification''
      else if is_empty_name (tlsc_server_name c) then Some ''client TLS requires server name for certificate verification''
      else if \<not> lib_load_verify_locations L (the (tlsc_ca_file c)) then Some ''failed to load client CA certificate''
      else None)"

definition check_session :: "ssl_library \<Rightarrow> openssl_tls_config \<Rightarrow> string option" where
  "check_session L c =
     (if tlsc_is_client c \<and> \<not> lib_set_host_name L (the (tlsc_server_name c)) then Some ''failed to configure TLS SNI''
      else if tlsc_is_client c \<and> \<not> lib_set1_host L (the (tlsc_server_name c))
      then Some ''failed to configure TLS certificate hostname verification''
      else
        case (case tlsc_alpn c of
                None \<Rightarrow> None
              | Some alpn \<Rightarrow>
                  if length alpn = 0 \<or> length alpn > 255 then Some ''invalid ALPN length''
                  else if \<not> lib_set_alpn_protos L (to_byte (length alpn) # map byte_of_char alpn)
                  then Some ''failed to configure client ALPN'' else None) of
          Some m \<Rightarrow> Some m
        | None \<Rightarrow> if \<not> lib_set_quic_tls_cbs L then Some ''failed to configure OpenSSL QUIC TLS callbacks'' else None)"

definition new_tls_adapter :: "ssl_library \<Rightarrow> openssl_tls_config \<Rightarrow> tls_adapter" where
  "new_tls_adapter L c =
     (case check_context L c of
        Some m \<Rightarrow> set_failure m blank_adapter
      | None \<Rightarrow>
          if \<not> lib_ssl_new L then set_failure ''failed to create OpenSSL SSL object'' blank_adapter
          else
            let a = blank_adapter\<lparr>ta_ssl := True\<rparr> in
            case check_session L c of
              Some m \<Rightarrow> set_failure m a
            | None \<Rightarrow>
                (case encode_transport_parameters (tlsc_local_transport_parameters c) of
                   Inl e \<Rightarrow> set_failure (err_message e) a
                 | Inr payload \<Rightarrow>
                     let a = a\<lparr>ta_local_transport_params := payload\<rparr> in
                     if \<not> lib_set_transport_params L payload then set_failure ''failed to configure QUIC transport parameters'' a
                     else a))"

section \<open>Secrets and cipher suites\<close>

definition level_key_schedule_owned :: "tls_adapter \<Rightarrow> tls_encryption_level \<Rightarrow> bool" where
  "level_key_schedule_owned a level \<longleftrightarrow> ta_secret a level False \<noteq> [] \<and> ta_secret a level True \<noteq> []"

definition has_traffic_secret :: "tls_adapter \<Rightarrow> tls_encryption_level \<Rightarrow> bool \<Rightarrow> bool" where
  "has_traffic_secret a level is_tx \<longleftrightarrow> ta_secret a level is_tx \<noteq> []"

text \<open>The identifiers \<open>TLS1_3_CK_AES_128_GCM_SHA256\<close>, \<open>TLS1_3_CK_AES_256_GCM_SHA384\<close> and
  \<open>TLS1_3_CK_CHACHA20_POLY1305_SHA256\<close> of \<open>openssl/tls1.h\<close>.\<close>

definition negotiated_cipher_suite :: "tls_adapter \<Rightarrow> cipher_suite" where
  "negotiated_cipher_suite a =
     (if \<not> ta_ssl a then SuiteUnknown
      else case ta_current_cipher a of
          None \<Rightarrow> SuiteUnknown
        | Some i \<Rightarrow>
            if i = 0x03001301 then Aes128GcmSha256
            else if i = 0x03001302 then Aes256GcmSha384
            else if i = 0x03001303 then Chacha20Poly1305Sha256
            else SuiteUnknown)"

definition ta_provider_status :: "tls_adapter \<Rightarrow> crypto_provider_status" where
  "ta_provider_status a =
     (if \<not> level_key_schedule_owned a TlsApplication \<or> negotiated_cipher_suite a = SuiteUnknown then provider_unavailable
      else provider_available (negotiated_cipher_suite a)
        \<lparr>cap_hkdf = False, cap_aead_seal = False, cap_aead_open = False, cap_header_protection = False,
         cap_tls_owns_key_schedule = True\<rparr>)"

text \<open>What \<open>tls_protector_factory\<close> reads.\<close>

definition adapter_secrets :: "tls_adapter \<Rightarrow> tls_secrets" where
  "adapter_secrets a = \<lparr>ts_negotiated_cipher = negotiated_cipher_suite a,
     ts_traffic_secret = (\<lambda>application is_tx. ta_secret a (if application then TlsApplication else TlsHandshake) is_tx)\<rparr>"

text \<open>\<open>OSSL_RECORD_PROTECTION_LEVEL_NONE\<close>, \<open>_HANDSHAKE\<close> and \<open>_APPLICATION\<close> are 0, 2 and 3 (1 is early data).\<close>

definition map_protection_level :: "nat \<Rightarrow> tls_encryption_level option" where
  "map_protection_level prot_level =
     (if prot_level = 0 then Some TlsInitial
      else if prot_level = 2 then Some TlsHandshake
      else if prot_level = 3 then Some TlsApplication
      else None)"

section \<open>Callbacks\<close>

definition crypto_send_cb :: "buffer \<Rightarrow> tls_adapter \<Rightarrow> tls_adapter" where
  "crypto_send_cb buf a =
     (let level = ta_current_tx_level a; offset = ta_offset a level in
      a\<lparr>ta_offset := (ta_offset a)(level := u64_add offset (length buf)),
        ta_outbound_crypto := ta_outbound_crypto a @ [\<lparr>cb_level = level, cb_offset = offset, cb_data = buf\<rparr>]\<rparr>)"

text \<open>The level that \<open>crypto_recv_rcd_cb\<close> and \<open>crypto_release_rcd_cb\<close> turn to, and the bytes the former hands out.\<close>

definition readable_level :: "tls_adapter \<Rightarrow> tls_encryption_level option" where
  "readable_level a = find (\<lambda>level. ta_read_pos a level < length (ta_inbound a level)) [TlsInitial, TlsHandshake, TlsApplication]"

definition crypto_recv_rcd_cb :: "tls_adapter \<Rightarrow> buffer" where
  "crypto_recv_rcd_cb a =
     (case readable_level a of None \<Rightarrow> [] | Some level \<Rightarrow> drop (ta_read_pos a level) (ta_inbound a level))"

definition crypto_release_rcd_cb :: "nat \<Rightarrow> tls_adapter \<Rightarrow> tls_adapter" where
  "crypto_release_rcd_cb bytes_read a =
     (case readable_level a of
        None \<Rightarrow> a
      | Some level \<Rightarrow>
          let pos = ta_read_pos a level + bytes_read in
          if pos \<ge> length (ta_inbound a level)
          then a\<lparr>ta_inbound := (ta_inbound a)(level := []), ta_read_pos := (ta_read_pos a)(level := 0)\<rparr>
          else a\<lparr>ta_read_pos := (ta_read_pos a)(level := pos)\<rparr>)"

definition set_key :: "tls_encryption_level \<Rightarrow> bool \<Rightarrow> tls_key_availability \<Rightarrow> tls_key_availability" where
  "set_key level v keys =
     (case level of
        TlsInitial \<Rightarrow> keys\<lparr>ka_initial := v\<rparr>
      | TlsHandshake \<Rightarrow> keys\<lparr>ka_handshake := v\<rparr>
      | TlsApplication \<Rightarrow> keys\<lparr>ka_application := v\<rparr>)"

text \<open>The rest of \<open>yield_secret_cb\<close>, once its arguments have been checked.\<close>

definition store_secret :: "tls_encryption_level \<Rightarrow> int \<Rightarrow> buffer \<Rightarrow> tls_adapter \<Rightarrow> tls_adapter" where
  "store_secret level direction bytes a =
     (let a = a\<lparr>ta_secret := (ta_secret a)(level := (ta_secret a level)(direction = 1 := bytes))\<rparr>;
          a = a\<lparr>ta_keys := set_key level (level_key_schedule_owned a level) (ta_keys a)\<rparr>;
          a = (if direction = 1 then a\<lparr>ta_current_tx_level := level\<rparr> else a)
      in if level \<noteq> TlsInitial \<and> ta_state a = HandshakeIdle then a\<lparr>ta_state := Handshaking\<rparr> else a)"

text \<open>A null pointer is the secret \<open>None\<close>; the callback returns whether it succeeded.\<close>

definition yield_secret_cb :: "nat \<Rightarrow> int \<Rightarrow> buffer option \<Rightarrow> tls_adapter \<Rightarrow> bool \<times> tls_adapter" where
  "yield_secret_cb prot_level direction secret a =
     (case (map_protection_level prot_level, secret) of
        (Some level, Some bytes) \<Rightarrow>
          if direction \<noteq> 0 \<and> direction \<noteq> 1 \<or> bytes = []
          then (False, set_failure ''OpenSSL yielded invalid QUIC traffic secret metadata'' a)
          else (True, store_secret level direction bytes a)
      | _ \<Rightarrow> (False, set_failure ''OpenSSL yielded invalid QUIC traffic secret metadata'' a))"

definition got_transport_params_cb :: "buffer \<Rightarrow> tls_adapter \<Rightarrow> tls_adapter" where
  "got_transport_params_cb params a = a\<lparr>ta_peer_transport_params := params\<rparr>"

definition alert_cb :: "byte \<Rightarrow> tls_adapter \<Rightarrow> tls_adapter" where
  "alert_cb alert_code a = set_failure ''OpenSSL QUIC TLS alert received'' (a\<lparr>ta_alert := Some alert_code\<rparr>)"

text \<open>\<open>NegotiateCipher\<close> is not a callback: it is the point at which \<open>SSL_get_current_cipher\<close> starts to answer.\<close>

datatype callback =
    CryptoSend buffer | CryptoRelease nat | YieldSecret nat int "buffer option" | GotTransportParams buffer | AlertReceived byte
  | NegotiateCipher nat

fun run_callback :: "tls_adapter \<Rightarrow> callback \<Rightarrow> tls_adapter" where
  "run_callback a (CryptoSend buf) = crypto_send_cb buf a"
| "run_callback a (CryptoRelease n) = crypto_release_rcd_cb n a"
| "run_callback a (YieldSecret prot_level direction secret) = snd (yield_secret_cb prot_level direction secret a)"
| "run_callback a (GotTransportParams params) = got_transport_params_cb params a"
| "run_callback a (AlertReceived alert_code) = alert_cb alert_code a"
| "run_callback a (NegotiateCipher i) = a\<lparr>ta_current_cipher := Some i\<rparr>"

section \<open>Driving the handshake\<close>

datatype handshake_result = WantMore | SslFailure string | Advanced "callback list" bool

text \<open>
  A script: the callbacks during \<open>SSL_do_handshake\<close>, then its result, which is a request for more data, an error with its
  message, or success with the callbacks of the following \<open>SSL_read\<close> and the answer of \<open>SSL_is_init_finished\<close>.
\<close>

type_synonym ssl_script = "callback list \<times> handshake_result"

definition drive_handshake :: "ssl_script \<Rightarrow> tls_adapter \<Rightarrow> flowq_error \<times> tls_adapter" where
  "drive_handshake script a =
     (if \<not> ta_ssl a then (initial_key_error ''SSL object not initialized'', a)
      else
        let a = foldl run_callback a (fst script) in
        case snd script of
          WantMore \<Rightarrow> (no_error, a)
        | SslFailure m \<Rightarrow> (let a = set_failure m a in (ta_last_error a, a))
        | Advanced callbacks finished \<Rightarrow>
            let a = foldl run_callback a callbacks in
            (no_error, if finished then a\<lparr>ta_state := HandshakeConfirmed\<rparr> else a))"

definition failed_error :: "tls_adapter \<Rightarrow> flowq_error" where
  "failed_error a = (if \<not> error_ok (ta_last_error a) then ta_last_error a else initial_key_error ''TLS handshake already failed'')"

definition ta_receive_crypto :: "ssl_script \<Rightarrow> crypto_bytes \<Rightarrow> tls_adapter \<Rightarrow> flowq_error \<times> tls_adapter" where
  "ta_receive_crypto script bytes a =
     (if ta_state a = HandshakeFailed then (failed_error a, a)
      else drive_handshake script
        (a\<lparr>ta_inbound := (ta_inbound a)(cb_level bytes := ta_inbound a (cb_level bytes) @ cb_data bytes)\<rparr>))"

definition ta_advance :: "ssl_script \<Rightarrow> tls_adapter \<Rightarrow> flowq_error \<times> tls_adapter" where
  "ta_advance script a = (if ta_state a = HandshakeFailed then (failed_error a, a) else drive_handshake script a)"

definition ta_drain_crypto :: "tls_adapter \<Rightarrow> crypto_bytes list \<times> tls_adapter" where
  "ta_drain_crypto a = (ta_outbound_crypto a, a\<lparr>ta_outbound_crypto := []\<rparr>)"

section \<open>Runs\<close>

text \<open>A run of an adapter with what has been drained from it so far.\<close>

inductive adapter_run :: "ssl_library \<Rightarrow> openssl_tls_config \<Rightarrow> crypto_bytes list \<Rightarrow> tls_adapter \<Rightarrow> bool" for L c where
  run_created: "adapter_run L c [] (new_tls_adapter L c)"
| run_received: "adapter_run L c out a \<Longrightarrow> adapter_run L c out (snd (ta_receive_crypto script bytes a))"
| run_advanced: "adapter_run L c out a \<Longrightarrow> adapter_run L c out (snd (ta_advance script a))"
| run_drained: "adapter_run L c out a \<Longrightarrow> ta_drain_crypto a = (bytes, a') \<Longrightarrow> adapter_run L c (out @ bytes) a'"

text \<open>The chunks of one level carry consecutive ranges of the CRYPTO stream of that level.\<close>

fun consecutive :: "crypto_bytes list \<Rightarrow> u64 \<Rightarrow> u64 \<Rightarrow> bool" where
  "consecutive [] start stop \<longleftrightarrow> start = stop"
| "consecutive (b # bs) start stop \<longleftrightarrow> cb_offset b = start \<and> consecutive bs (u64_add start (length (cb_data b))) stop"

definition at_level :: "tls_encryption_level \<Rightarrow> crypto_bytes list \<Rightarrow> crypto_bytes list" where
  "at_level level bs = filter (\<lambda>b. cb_level b = level) bs"

lemma consecutive_snoc: "consecutive (bs @ [b]) start stop \<longleftrightarrow>
    (\<exists>mid. consecutive bs start mid \<and> cb_offset b = mid \<and> stop = u64_add mid (length (cb_data b)))"
  by (induction bs arbitrary: start) auto

definition key_of :: "tls_encryption_level \<Rightarrow> tls_key_availability \<Rightarrow> bool" where
  "key_of level keys = (case level of TlsInitial \<Rightarrow> ka_initial keys | TlsHandshake \<Rightarrow> ka_handshake keys | TlsApplication \<Rightarrow> ka_application keys)"

lemma key_of_set_key [simp]: "key_of l (set_key level v keys) = (if l = level then v else key_of l keys)"
  by (cases l; cases level) (simp_all add: key_of_def set_key_def)

text \<open>
  The invariant: chunks are consecutive, the available keys are those with both secrets, and a failed adapter has an error.
\<close>

definition adapter_ok :: "crypto_bytes list \<Rightarrow> tls_adapter \<Rightarrow> bool" where
  "adapter_ok out a \<longleftrightarrow>
     (\<forall>level. consecutive (at_level level (out @ ta_outbound_crypto a)) 0 (ta_offset a level)) \<and>
     (\<forall>level. key_of level (ta_keys a) \<longleftrightarrow> level_key_schedule_owned a level) \<and>
     (ta_state a = HandshakeFailed \<longrightarrow> \<not> error_ok (ta_last_error a))"

lemma adapter_ok_failure: "adapter_ok out a \<Longrightarrow> adapter_ok out (set_failure m a)"
  by (simp add: adapter_ok_def set_failure_def level_key_schedule_owned_def)

lemma adapter_ok_send: "adapter_ok out a \<Longrightarrow> adapter_ok out (crypto_send_cb buf a)"
proof -
  assume ok: "adapter_ok out a"
  have "consecutive (at_level level (out @ ta_outbound_crypto a @
      [\<lparr>cb_level = l, cb_offset = ta_offset a l, cb_data = buf\<rparr>])) 0 (if level = l then u64_add (ta_offset a l) (length buf) else ta_offset a level)"
    for level l
    using ok consecutive_snoc [of "at_level l (out @ ta_outbound_crypto a)"] by (auto simp: adapter_ok_def at_level_def)
  with ok show ?thesis
    by (simp add: adapter_ok_def crypto_send_cb_def Let_def level_key_schedule_owned_def)
qed

lemma adapter_ok_secret:
  assumes "adapter_ok out a" and "b = a\<lparr>ta_secret := (ta_secret a)(level := (ta_secret a level)(d := bytes))\<rparr>"
  shows "adapter_ok out (b\<lparr>ta_keys := set_key level (level_key_schedule_owned b level) (ta_keys b)\<rparr>)"
  using assms(1) unfolding assms(2) by (simp add: adapter_ok_def level_key_schedule_owned_def)

lemma adapter_ok_progress:
  assumes "adapter_ok out a"
  shows "adapter_ok out (if p then a\<lparr>ta_current_tx_level := level\<rparr> else a)"
    and "adapter_ok out (if p then a\<lparr>ta_state := Handshaking\<rparr> else a)"
  using assms by (simp_all add: adapter_ok_def level_key_schedule_owned_def)

lemma adapter_ok_yield:
  assumes "adapter_ok out a"
  shows "adapter_ok out (snd (yield_secret_cb prot_level direction secret a))"
proof -
  have "adapter_ok out (store_secret level direction bytes a)" for level bytes
    unfolding store_secret_def Let_def by (intro adapter_ok_progress adapter_ok_secret [OF assms refl])
  then show ?thesis
    using adapter_ok_failure [OF assms] by (simp add: yield_secret_cb_def split: option.split)
qed

lemma adapter_ok_callback: "adapter_ok out a \<Longrightarrow> adapter_ok out (run_callback a cb)"
proof (cases cb)
  case (CryptoRelease n)
  assume "adapter_ok out a"
  then show ?thesis
    unfolding CryptoRelease
    by (simp add: crypto_release_rcd_cb_def adapter_ok_def level_key_schedule_owned_def Let_def split: option.split)
next
  case (AlertReceived alert_code)
  assume "adapter_ok out a"
  then have "adapter_ok out (a\<lparr>ta_alert := Some alert_code\<rparr>)" by (simp add: adapter_ok_def level_key_schedule_owned_def)
  then show ?thesis unfolding AlertReceived by (simp add: alert_cb_def adapter_ok_failure)
qed (simp_all add: adapter_ok_send adapter_ok_yield got_transport_params_cb_def, simp_all add: adapter_ok_def level_key_schedule_owned_def)

lemma adapter_ok_callbacks: "adapter_ok out a \<Longrightarrow> adapter_ok out (foldl run_callback a cbs)"
  by (induction cbs arbitrary: a) (simp_all add: adapter_ok_callback)

lemma adapter_ok_drive: "adapter_ok out a \<Longrightarrow> adapter_ok out (snd (drive_handshake script a))"
proof -
  assume ok: "adapter_ok out a"
  have "adapter_ok out (b\<lparr>ta_state := HandshakeConfirmed\<rparr>)" if "adapter_ok out b" for b
    using that by (simp add: adapter_ok_def level_key_schedule_owned_def)
  with ok show ?thesis
    by (simp add: drive_handshake_def Let_def adapter_ok_callbacks adapter_ok_failure split: handshake_result.split)
qed

lemma adapter_run_ok: "adapter_run L c out a \<Longrightarrow> adapter_ok out a"
proof (induction rule: adapter_run.induct)
  case run_created
  have "adapter_ok [] (blank_adapter\<lparr>ta_ssl := b, ta_local_transport_params := p\<rparr>)" for b p
    by (auto simp: adapter_ok_def blank_adapter_def at_level_def key_of_def level_key_schedule_owned_def split: tls_encryption_level.split)
  note b = this
  from b [where b = False and p = "[]"] b [where b = True and p = "[]"] b [where b = True] show ?case
    by (auto simp: new_tls_adapter_def Let_def blank_adapter_def intro!: adapter_ok_failure split: option.split sum.split)
next
  case (run_received out a script bytes)
  have "adapter_ok out (a\<lparr>ta_inbound := i\<rparr>)" for i
    using run_received.IH by (simp add: adapter_ok_def level_key_schedule_owned_def)
  with run_received.IH show ?case by (simp add: ta_receive_crypto_def adapter_ok_drive)
next
  case (run_advanced out a script)
  then show ?case by (simp add: ta_advance_def adapter_ok_drive)
next
  case (run_drained out a bytes a')
  then show ?case by (auto simp: ta_drain_crypto_def adapter_ok_def level_key_schedule_owned_def)
qed

text \<open>C17: whatever OpenSSL does, the CRYPTO bytes that an adapter has handed out at a level carry consecutive offsets from 0
  on, whatever the order of handshake calls, secrets, level changes and drains; a level is reported to have keys exactly
  when both of its secrets have arrived; and an adapter that has failed has an error to report.\<close>

theorem crypto_offsets_consecutive:
  assumes "adapter_run L c out a"
  shows "consecutive (at_level level (out @ ta_outbound_crypto a)) 0 (ta_offset a level) \<and>
    (key_of level (ta_keys a) \<longleftrightarrow> has_traffic_secret a level False \<and> has_traffic_secret a level True) \<and>
    (ta_state a = HandshakeFailed \<longrightarrow> \<not> error_ok (failed_error a))"
  using adapter_run_ok [OF assms]
  by (auto simp: adapter_ok_def level_key_schedule_owned_def has_traffic_secret_def failed_error_def)

definition willing_library :: ssl_library where
  "willing_library = \<lparr>lib_ctx_new = True, lib_set_ciphersuites = (\<lambda>_. True), lib_use_certificate_chain_file = (\<lambda>_. True),
     lib_use_private_key_file = (\<lambda>_. True), lib_check_private_key = True, lib_load_verify_locations = (\<lambda>_. True),
     lib_ssl_new = True, lib_set_host_name = (\<lambda>_. True), lib_set1_host = (\<lambda>_. True), lib_set_alpn_protos = (\<lambda>_. True),
     lib_set_quic_tls_cbs = True, lib_set_transport_params = (\<lambda>_. True)\<rparr>"

definition client_config :: openssl_tls_config where
  "client_config = \<lparr>tlsc_is_client = True, tlsc_cert_file = None, tlsc_key_file = None, tlsc_ca_file = Some ''ca.pem'',
     tlsc_server_name = Some ''example.org'', tlsc_alpn = Some ''h3'', tlsc_tls13_ciphersuite = ''TLS_AES_128_GCM_SHA256'',
     tlsc_local_transport_parameters = empty_transport_parameters\<rparr>"

text \<open>The first flight, a secret for sending at the handshake level, and one more byte, which belongs to that level.\<close>

theorem crypto_offsets_consecutive_witness:
  "let a = snd (ta_advance ([CryptoSend [1, 2], CryptoSend [3], YieldSecret 2 1 (Some [9]), CryptoSend [4]], WantMore)
       (new_tls_adapter willing_library client_config))
   in consecutive (at_level TlsInitial (ta_outbound_crypto a)) 0 (ta_offset a TlsInitial) \<and>
      consecutive (at_level TlsHandshake (ta_outbound_crypto a)) 0 (ta_offset a TlsHandshake)"
  using crypto_offsets_consecutive [OF run_advanced [OF run_created]] by (simp add: Let_def)

section \<open>Inbound bytes\<close>

definition unread :: "tls_adapter \<Rightarrow> tls_encryption_level \<Rightarrow> buffer" where
  "unread a level = drop (ta_read_pos a level) (ta_inbound a level)"

text \<open>
  OpenSSL reads a level from the front: a release of at most the bytes that it was offered takes these bytes from the level
  they came from, and no other level changes.
\<close>

lemma release_reads_front:
  assumes "n \<le> length (crypto_recv_rcd_cb a)"
  shows "case readable_level a of
      None \<Rightarrow> crypto_release_rcd_cb n a = a
    | Some l \<Rightarrow> unread a l = crypto_recv_rcd_cb a \<and> unread (crypto_release_rcd_cb n a) l = drop n (crypto_recv_rcd_cb a) \<and>
        (\<forall>l'. l' \<noteq> l \<longrightarrow> unread (crypto_release_rcd_cb n a) l' = unread a l')"
  using assms by (auto simp: crypto_release_rcd_cb_def crypto_recv_rcd_cb_def unread_def Let_def add.commute split: option.split)

text \<open>
  \<open>receive_crypto\<close> appends what arrives and does not look at offsets: a retransmitted CRYPTO frame is offered to TLS a
  second time.
\<close>

theorem duplicate_crypto_doubled:
  assumes "ta_ssl a" and "ta_state a \<noteq> HandshakeFailed" and "\<And>l. unread a l = []" and "ta_read_pos a (cb_level bytes) = 0"
    and "cb_data bytes \<noteq> []"
  shows "crypto_recv_rcd_cb (snd (ta_receive_crypto ([], WantMore) bytes (snd (ta_receive_crypto ([], WantMore) bytes a)))) =
    cb_data bytes @ cb_data bytes"
proof -
  have e: "ta_read_pos a l < length (ta_inbound a l) \<longleftrightarrow> False" for l
    using assms(3) [of l] by (simp add: unread_def)
  have i: "ta_inbound a (cb_level bytes) = []" using assms(3) [of "cb_level bytes"] assms(4) by (simp add: unread_def)
  show ?thesis
    using assms(1,2,4,5) e i
    by (cases "cb_level bytes")
      (simp_all add: ta_receive_crypto_def drive_handshake_def crypto_recv_rcd_cb_def readable_level_def)
qed

text \<open>
  An alert during a call that OpenSSL reports as successful is forgotten: \<open>drive_handshake\<close> sets the state to confirmed.
\<close>

theorem alert_overridden:
  assumes "ta_ssl a" and "ta_state a \<noteq> HandshakeFailed"
  shows "ta_state (snd (ta_advance ([], Advanced [AlertReceived alert_code] True) a)) = HandshakeConfirmed \<and>
    \<not> error_ok (ta_last_error (snd (ta_advance ([], Advanced [AlertReceived alert_code] True) a)))"
  using assms by (simp add: ta_advance_def drive_handshake_def alert_cb_def set_failure_def Let_def)

section \<open>Protectors of a finished handshake\<close>

text \<open>The protectors that the factory creates from an adapter exist for the levels whose secrets have arrived.\<close>

lemma adapter_protectors:
  assumes "error_ok (tps_error (create_protectors S (adapter_secrets a)))"
  shows "tps_protector (create_protectors S (adapter_secrets a)) HandshakeSpace is_tx \<noteq> None \<longleftrightarrow> has_traffic_secret a TlsHandshake is_tx"
    and "tps_protector (create_protectors S (adapter_secrets a)) ApplicationSpace is_tx \<noteq> None \<longleftrightarrow> has_traffic_secret a TlsApplication is_tx"
  using create_protectors_ok [OF assms, of is_tx]
  by (auto simp: level_protector_def adapter_secrets_def has_traffic_secret_def split: if_splits)

end
