(* ===== verification/UdpSession.thy ===== *)
theory UdpSession
  imports Session
begin

text \<open>
  Sessions over a UDP socket, \<open>src/include/flowq/quic/udp_session.hpp\<close>.  asio is the outside world: the model records what is
  handed to the socket and has the completions that asio delivers, with any error code and any byte count.  An operation
  is started once, as its users do, and each accepted asynchronous call is completed once.
\<close>

section \<open>Types\<close>

record udp_endpoint =
  ue_address :: string
  ue_port :: "16 word"

record udp_session_send_result =
  usr_session_result :: session_send_result
  usr_bytes_sent :: u64
  usr_error :: flowq_error

record udp_session_receive_result =
  urr_remote :: udp_endpoint
  urr_session_result :: session_receive_result
  urr_error :: flowq_error

definition udp_send_ok :: "udp_session_send_result \<Rightarrow> bool" where
  "udp_send_ok r \<longleftrightarrow> error_ok (usr_error r) \<and> error_ok (ssnd_error (usr_session_result r))"

definition udp_receive_ok :: "udp_session_receive_result \<Rightarrow> bool" where
  "udp_receive_ok r \<longleftrightarrow> error_ok (urr_error r) \<and> error_ok (srcv_error (urr_session_result r))"

definition udp_session_error :: "string \<Rightarrow> flowq_error" where
  "udp_session_error message = \<lparr>err_code = EC_udp_error, err_message = message\<rparr>"

definition to_flowq_endpoint :: "udp_endpoint \<Rightarrow> string \<Rightarrow> endpoint" where
  "to_flowq_endpoint e alpn = \<lparr>ep_host = ue_address e, ep_port = ue_port e, ep_alpn = alpn\<rparr>"

text \<open>The signal of \<open>complete_error\<close>, the same in both states.\<close>

fun udp_error_signal :: "asio_error \<Rightarrow> 'r signal" where
  "udp_error_signal OperationAborted = SetStopped"
| "udp_error_signal (AsioFailure m) = SetError (udp_session_error m)"
| "udp_error_signal AsioNone = SetError (udp_session_error [])"

section \<open>Sending\<close>

record udp_session_send_state =
  uss_peer :: udp_endpoint
  uss_receiver :: bool
  uss_result :: udp_session_send_result
  uss_next_datagram :: nat
  uss_pending :: nat
  uss_socket :: "(buffer \<times> udp_endpoint) list"
  uss_signals :: "udp_session_send_result signal list"

definition new_udp_session_send_state :: "udp_endpoint \<Rightarrow> udp_session_send_state" where
  "new_udp_session_send_state peer = \<lparr>uss_peer = peer, uss_receiver = True,
     uss_result = \<lparr>usr_session_result = empty_send_result, usr_bytes_sent = 0, usr_error = no_error\<rparr>,
     uss_next_datagram = 0, uss_pending = 0, uss_socket = [], uss_signals = []\<rparr>"

definition uss_signal :: "udp_session_send_result signal \<Rightarrow> udp_session_send_state \<Rightarrow> udp_session_send_state" where
  "uss_signal v st =
     (if \<not> uss_receiver st then st else st\<lparr>uss_receiver := False, uss_signals := uss_signals st @ [v]\<rparr>)"

definition uss_complete_value :: "udp_session_send_state \<Rightarrow> udp_session_send_state" where
  "uss_complete_value st = uss_signal (SetValue (uss_result st)) st"

definition uss_datagrams :: "udp_session_send_state \<Rightarrow> (buffer \<times> endpoint) list" where
  "uss_datagrams st = ssnd_datagrams (usr_session_result (uss_result st))"

definition uss_send_next :: "udp_session_send_state \<Rightarrow> udp_session_send_state" where
  "uss_send_next st =
     (if uss_next_datagram st = length (uss_datagrams st) then uss_complete_value st
      else st\<lparr>uss_socket := uss_socket st @ [(fst (uss_datagrams st ! uss_next_datagram st), uss_peer st)],
             uss_pending := uss_pending st + 1\<rparr>)"

definition uss_complete_send :: "asio_error \<Rightarrow> u64 \<Rightarrow> udp_session_send_state \<Rightarrow> udp_session_send_state" where
  "uss_complete_send code bytes_sent st =
     (if code \<noteq> AsioNone then uss_signal (udp_error_signal code) st
      else uss_send_next (st\<lparr>
        uss_result := (uss_result st)\<lparr>usr_bytes_sent := u64_add (usr_bytes_sent (uss_result st)) bytes_sent\<rparr>,
        uss_next_datagram := uss_next_datagram st + 1\<rparr>))"

definition uss_start ::
    "('w, 'c) connection_env \<Rightarrow> time_point \<Rightarrow> time_point \<Rightarrow> udp_session_send_state \<times> ('w, 'c) session
     \<Rightarrow> udp_session_send_state \<times> ('w, 'c) session" where
  "uss_start E sent_at clock x =
     (let (st, s) = x; (r, s) = ses_flush E sent_at clock s;
          st = st\<lparr>uss_result := (uss_result st)\<lparr>usr_session_result := r\<rparr>\<rparr> in
      (if \<not> error_ok (ssnd_error r) \<or> ssnd_datagrams r = [] then uss_complete_value st else uss_send_next st, s))"

section \<open>Receiving\<close>

record udp_session_receive_state =
  urs_alpn :: string
  urs_storage :: nat
  urs_receiver :: bool
  urs_pending :: nat
  urs_signals :: "udp_session_receive_result signal list"

definition new_udp_session_receive_state :: "nat \<Rightarrow> string \<Rightarrow> udp_session_receive_state" where
  "new_udp_session_receive_state receive_max_size alpn =
     \<lparr>urs_alpn = alpn, urs_storage = receive_max_size, urs_receiver = True, urs_pending = 0, urs_signals = []\<rparr>"

definition urs_signal :: "udp_session_receive_result signal \<Rightarrow> udp_session_receive_state \<Rightarrow> udp_session_receive_state" where
  "urs_signal v st =
     (if \<not> urs_receiver st then st else st\<lparr>urs_receiver := False, urs_signals := urs_signals st @ [v]\<rparr>)"

definition urs_start :: "udp_session_receive_state \<Rightarrow> udp_session_receive_state" where
  "urs_start st = st\<lparr>urs_pending := urs_pending st + 1\<rparr>"

text \<open>asio has stored \<open>bytes\<close>, at most \<open>receive_max_size\<close> of them, and the address of the sender.\<close>

definition urs_complete_receive ::
    "('w, 'c) connection_env \<Rightarrow> time_point \<Rightarrow> asio_error \<Rightarrow> buffer \<Rightarrow> udp_endpoint
     \<Rightarrow> udp_session_receive_state \<times> ('w, 'c) session \<Rightarrow> udp_session_receive_state \<times> ('w, 'c) session" where
  "urs_complete_receive E clock code bytes remote x =
     (let (st, s) = x in
      if code \<noteq> AsioNone then (urs_signal (udp_error_signal code) st, s)
      else
        let (r, s) = ses_on_datagram E bytes (to_flowq_endpoint remote (urs_alpn st)) clock s in
        (urs_signal (SetValue \<lparr>urr_remote = remote, urr_session_result = r, urr_error = no_error\<rparr>) st, s))"

section \<open>The session\<close>

record udp_session_config =
  uc_quic :: session_config
  uc_peer :: udp_endpoint
  uc_receive_max_size :: nat

record ('w, 'c) udp_session =
  us_peer :: udp_endpoint
  us_receive_max_size :: nat
  us_receive_peer_alpn :: string
  us_quic :: "('w, 'c) session"

definition new_udp_session :: "udp_session_config \<Rightarrow> 'c \<Rightarrow> 'w \<Rightarrow> ('w, 'c) udp_session" where
  "new_udp_session c congestion w = \<lparr>us_peer = uc_peer c, us_receive_max_size = uc_receive_max_size c,
     us_receive_peer_alpn = ep_alpn (sc_peer (uc_quic c)), us_quic = new_session (uc_quic c) congestion w\<rparr>"

definition us_append_stream_data :: "u64 \<Rightarrow> buffer \<Rightarrow> ('w, 'c) udp_session \<Rightarrow> flowq_error \<times> ('w, 'c) udp_session" where
  "us_append_stream_data stream_id data u =
     (let (e, s) = ses_append_stream_data stream_id data (us_quic u) in (e, u\<lparr>us_quic := s\<rparr>))"

definition us_queue_stream_data :: "u64 list \<Rightarrow> ('w, 'c) udp_session \<Rightarrow> session_send_result \<times> ('w, 'c) udp_session" where
  "us_queue_stream_data stream_ids u = (let (r, s) = queue_stream_data stream_ids 0 0 (us_quic u) in (r, u\<lparr>us_quic := s\<rparr>))"

definition send_pending :: "('w, 'c) udp_session \<Rightarrow> udp_session_send_state" where
  "send_pending u = new_udp_session_send_state (us_peer u)"

definition async_receive_once :: "('w, 'c) udp_session \<Rightarrow> udp_session_receive_state" where
  "async_receive_once u = new_udp_session_receive_state (us_receive_max_size u) (us_receive_peer_alpn u)"

section \<open>Runs of a send operation\<close>

inductive udp_send_run ::
    "('w, 'c) connection_env \<Rightarrow> time_point \<Rightarrow> time_point \<Rightarrow> ('w, 'c) udp_session \<Rightarrow> udp_session_send_state \<Rightarrow> bool"
  for E sent_at clock u where
  send_started: "udp_send_run E sent_at clock u (fst (uss_start E sent_at clock (send_pending u, us_quic u)))"
| send_completed: "udp_send_run E sent_at clock u st \<Longrightarrow> 0 < uss_pending st \<Longrightarrow>
    udp_send_run E sent_at clock u (uss_complete_send code n (st\<lparr>uss_pending := uss_pending st - 1\<rparr>))"

text \<open>Either the next datagram is on its way, or the receiver has its signal and nothing is pending.\<close>

definition sending :: "udp_endpoint \<Rightarrow> udp_session_send_state \<Rightarrow> bool" where
  "sending peer st \<longleftrightarrow> uss_peer st = peer \<and> uss_receiver st \<and> uss_signals st = [] \<and> uss_pending st = 1 \<and>
     uss_next_datagram st < length (uss_datagrams st) \<and> error_ok (ssnd_error (usr_session_result (uss_result st))) \<and>
     uss_socket st = map (\<lambda>d. (fst d, peer)) (take (uss_next_datagram st + 1) (uss_datagrams st))"

definition settled_send :: "udp_endpoint \<Rightarrow> udp_session_send_state \<Rightarrow> bool" where
  "settled_send peer st \<longleftrightarrow> \<not> uss_receiver st \<and> uss_pending st = 0 \<and> (\<exists>v. uss_signals st = [v] \<and>
     (\<forall>r. v = SetValue r \<longrightarrow> usr_session_result r = usr_session_result (uss_result st) \<and>
        (error_ok (ssnd_error (usr_session_result r)) \<longrightarrow> uss_socket st = map (\<lambda>d. (fst d, peer)) (ssnd_datagrams (usr_session_result r))))) \<and>
     (\<exists>k. uss_socket st = map (\<lambda>d. (fst d, peer)) (take k (uss_datagrams st)))"

lemma udp_error_signal_value [simp]: "udp_error_signal code \<noteq> SetValue r"
  by (cases code) simp_all

lemma uss_fields [simp]: "uss_datagrams (st\<lparr>uss_pending := n\<rparr>) = uss_datagrams st"
    "uss_datagrams (st\<lparr>uss_result := (uss_result st)\<lparr>usr_bytes_sent := b\<rparr>, uss_next_datagram := m\<rparr>) = uss_datagrams st"
  by (simp_all add: uss_datagrams_def)

lemma send_next_cases:
  assumes "uss_peer st = peer" "uss_receiver st" "uss_signals st = []" "uss_pending st = 0"
    "uss_next_datagram st \<le> length (uss_datagrams st)" "error_ok (ssnd_error (usr_session_result (uss_result st)))"
    "uss_socket st = map (\<lambda>d. (fst d, peer)) (take (uss_next_datagram st) (uss_datagrams st))"
  shows "sending peer (uss_send_next st) \<or> settled_send peer (uss_send_next st)"
proof (cases "uss_next_datagram st = length (uss_datagrams st)")
  case True
  then have "settled_send peer (uss_send_next st)"
    using assms by (auto simp: uss_send_next_def uss_complete_value_def uss_signal_def settled_send_def uss_datagrams_def
        intro: exI [of _ "uss_next_datagram st"])
  then show ?thesis ..
next
  case False
  then show ?thesis
    using assms by (simp add: uss_send_next_def sending_def uss_datagrams_def take_Suc_conv_app_nth)
qed

lemma complete_send_cases:
  assumes "sending peer st"
  shows "sending peer (uss_complete_send code n (st\<lparr>uss_pending := uss_pending st - 1\<rparr>)) \<or>
    settled_send peer (uss_complete_send code n (st\<lparr>uss_pending := uss_pending st - 1\<rparr>))"
proof (cases "code = AsioNone")
  case True
  then show ?thesis
    using assms send_next_cases [of "st\<lparr>uss_pending := 0, uss_result := (uss_result st)\<lparr>usr_bytes_sent :=
        u64_add (usr_bytes_sent (uss_result st)) n\<rparr>, uss_next_datagram := uss_next_datagram st + 1\<rparr>" peer]
    by (simp add: uss_complete_send_def sending_def uss_datagrams_def)
next
  case False
  then have "settled_send peer (uss_complete_send code n (st\<lparr>uss_pending := uss_pending st - 1\<rparr>))"
    using assms by (auto simp: uss_complete_send_def uss_signal_def sending_def settled_send_def uss_datagrams_def
        intro: exI [of _ "uss_next_datagram st + 1"])
  then show ?thesis ..
qed

lemma send_run_cases:
  "udp_send_run E sent_at clock u st \<Longrightarrow> sending (us_peer u) st \<or> settled_send (us_peer u) st"
proof (induction rule: udp_send_run.induct)
  case send_started
  obtain r s where r: "ses_flush E sent_at clock (us_quic u) = (r, s)" by fastforce
  let ?st = "(send_pending u)\<lparr>uss_result := (uss_result (send_pending u))\<lparr>usr_session_result := r\<rparr>\<rparr>"
  show ?case
  proof (cases "\<not> error_ok (ssnd_error r) \<or> ssnd_datagrams r = []")
    case True
    then show ?thesis
      by (auto simp: uss_start_def r uss_complete_value_def uss_signal_def settled_send_def send_pending_def
          new_udp_session_send_state_def uss_datagrams_def intro: exI [of _ 0])
  next
    case False
    then show ?thesis
      using send_next_cases [of ?st "us_peer u"]
      by (simp add: uss_start_def r send_pending_def new_udp_session_send_state_def uss_datagrams_def)
  qed
next
  case (send_completed st code n)
  then show ?case using complete_send_cases by (auto simp: settled_send_def)
qed



text \<open>A session whose loop holds two datagrams.\<close>

definition two_datagrams :: "(unit, congestion_controller) udp_session" where
  "two_datagrams = (new_udp_session \<lparr>uc_quic = example_session_config, uc_peer = \<lparr>ue_address = ''peer'', ue_port = 4433\<rparr>,
       uc_receive_max_size = 1500\<rparr> new_congestion_controller ())
     \<lparr>us_quic := example_session\<lparr>ses_loop := app_start\<lparr>cl_actions :=
        [SendDatagram [1, 2] (cfg_peer app_config), SendDatagram [3] (cfg_peer app_config)]\<rparr>\<rparr>\<rparr>"

lemma flush_idle_space: "ps_queue (space_of t space) = [] \<Longrightarrow> flush_space E space sent_at t = t"
  by (simp add: flush_space_def)

lemma flush_idle:
  assumes "cl_state t = Active" and "cfg_key_lifecycle (cl_config t) = new_key_lifecycle" and "cl_pending_path_challenge t = None"
    and "cl_packet_spaces t = new_packet_spaces"
  shows "flush example_env sent_at clock t = t\<lparr>cl_lifecycle_dirty := False\<rparr>"
proof -
  have r: "refresh_key_lifecycle example_env t = t\<lparr>cl_lifecycle_dirty := False\<rparr>"
      "refresh_key_lifecycle example_env (t\<lparr>cl_lifecycle_dirty := False\<rparr>) = t\<lparr>cl_lifecycle_dirty := False\<rparr>"
    using assms by (simp_all add: example_refresh)
  have q: "ps_queue (space_of t space) = []" for space
    using assms(4) by (cases space) (simp_all add: get_space_def new_packet_spaces_def new_packet_space_def)
  show ?thesis
    using assms(1) by (simp add: flush_def loop_active_def r pump_tls_crypto_def flush_idle_space q)
qed

lemma two_datagrams_flush:
  "fst (ses_flush example_env 1 1 (us_quic two_datagrams)) =
     empty_send_result\<lparr>ssnd_datagrams := [([1, 2], cfg_peer app_config), ([3], cfg_peer app_config)]\<rparr>"
  by (simp add: two_datagrams_def ses_flush_def drain_send_actions_def drain_actions_def flush_idle app_start_fields
      app_config_fields empty_send_result_def)

abbreviation first_send :: udp_session_send_state where
  "first_send \<equiv> fst (uss_start example_env 1 1 (send_pending two_datagrams, us_quic two_datagrams))"


text \<open>
  When the flush also closed the connection its datagrams are not sent, although recovery has recorded their packets as
  sent; and every datagram goes to the configured peer, not to the peer that the connection addressed it to.
\<close>

theorem close_drops_datagrams:
  assumes "fst (ses_flush E sent_at clock (us_quic u)) = r" and "\<not> error_ok (ssnd_error r)"
  shows "uss_socket (fst (uss_start E sent_at clock (send_pending u, us_quic u))) = [] \<and>
    uss_pending (fst (uss_start E sent_at clock (send_pending u, us_quic u))) = 0"
  using assms
  by (auto simp: uss_start_def uss_complete_value_def uss_signal_def send_pending_def new_udp_session_send_state_def split: prod.split)

text \<open>A receive operation also gives one signal, and the session it leaves is a reachable one.\<close>

theorem udp_receive_once:
  assumes "session_reachable E config c w s"
    and "urs_complete_receive E clock code bytes remote (urs_start (new_udp_session_receive_state n alpn), s) = (st, s')"
  shows "length (urs_signals st) = 1 \<and> session_reachable E config c w s'"
proof -
  have "session_step E s (snd (ses_on_datagram E bytes (to_flowq_endpoint remote alpn) clock s))" by (rule ses_datagram)
  with assms show ?thesis
    by (auto simp: urs_complete_receive_def urs_signal_def urs_start_def new_udp_session_receive_state_def
        intro: session_next split: if_splits prod.splits)
qed

end
