(* ===== verification/Pacing.thy ===== *)
theory Pacing
  imports Congestion
begin

text \<open>
  Pacing, \<open>src/include/flowq/quic/pacing.hpp\<close>, and the CUBIC controller of \<open>congestion_algorithms.hpp\<close>.  The clock is an
  argument.  Where the code computes with \<open>double\<close>, the value that it converts back to an integer is a parameter of the
  model, with the bounds that the arithmetic guarantees as hypotheses.
\<close>

section \<open>The pacing controller\<close>

text \<open>What the code does with the \<open>double\<close> gain: the comparison with 1.0 and the division of a tick count, truncated.\<close>

record 'g gain_ops =
  gain_one :: 'g
  gain_above_one :: "'g \<Rightarrow> bool"
  gain_divide :: "int \<Rightarrow> 'g \<Rightarrow> int"

record 'g pacing_controller =
  pc_congestion_window :: u64
  pc_smoothed_rtt :: duration
  pc_interval :: duration
  pc_next_send_time :: time_point
  pc_pacing_gain :: 'g

definition time_point_min :: time_point where
  "time_point_min = - (2 ^ 63)"

definition new_pacing_controller :: "'g gain_ops \<Rightarrow> 'g pacing_controller" where
  "new_pacing_controller G = \<lparr>pc_congestion_window = 0, pc_smoothed_rtt = 0, pc_interval = 0,
     pc_next_send_time = time_point_min, pc_pacing_gain = gain_one G\<rparr>"

text \<open>Conversions between the signed and unsigned 64-bit types.\<close>

definition to_u64 :: "int \<Rightarrow> u64" where
  "to_u64 i = nat (i mod 2 ^ 64)"

definition to_i64 :: "u64 \<Rightarrow> int" where
  "to_i64 n = (if n < 2 ^ 63 then int n else int n - 2 ^ 64)"

text \<open>Durations count nanoseconds: 50 microseconds and 100 milliseconds.\<close>

definition min_interval :: duration where
  "min_interval = 50000"

definition max_interval :: duration where
  "max_interval = 100000000"

definition update_interval :: "'g pacing_controller \<Rightarrow> 'g pacing_controller" where
  "update_interval c =
     (if pc_congestion_window c = 0 \<or> pc_smoothed_rtt c = 0 then c\<lparr>pc_interval := 0\<rparr>
      else
        let rtt_us = pc_smoothed_rtt c sdiv 1000 in
        if rtt_us = 0 then c\<lparr>pc_interval := 0\<rparr>
        else
          let interval_us = u64_mul (pc_congestion_window c) 1200 div to_u64 rtt_us;
              interval = to_i64 interval_us * 1000;
              interval = (if interval < min_interval then min_interval else interval);
              interval = (if interval > max_interval then max_interval else interval)
          in c\<lparr>pc_interval := interval\<rparr>)"

definition pc_initialize :: "u64 \<Rightarrow> duration \<Rightarrow> 'g pacing_controller \<Rightarrow> 'g pacing_controller" where
  "pc_initialize congestion_window smoothed_rtt c =
     update_interval (c\<lparr>pc_congestion_window := congestion_window, pc_smoothed_rtt := smoothed_rtt\<rparr>)"

definition pc_set_congestion_window :: "u64 \<Rightarrow> 'g pacing_controller \<Rightarrow> 'g pacing_controller" where
  "pc_set_congestion_window congestion_window c = update_interval (c\<lparr>pc_congestion_window := congestion_window\<rparr>)"

definition pc_set_smoothed_rtt :: "duration \<Rightarrow> 'g pacing_controller \<Rightarrow> 'g pacing_controller" where
  "pc_set_smoothed_rtt smoothed_rtt c = update_interval (c\<lparr>pc_smoothed_rtt := smoothed_rtt\<rparr>)"

definition pc_set_pacing_gain :: "'g \<Rightarrow> 'g pacing_controller \<Rightarrow> 'g pacing_controller" where
  "pc_set_pacing_gain gain c = update_interval (c\<lparr>pc_pacing_gain := gain\<rparr>)"

definition burst_threshold :: "'g pacing_controller \<Rightarrow> u64" where
  "burst_threshold c = min (pc_congestion_window c div 4) 12000"

definition pc_can_send :: "time_point \<Rightarrow> u64 \<Rightarrow> u64 \<Rightarrow> 'g pacing_controller \<Rightarrow> bool" where
  "pc_can_send now bytes_in_flight packet_size c \<longleftrightarrow>
     u64_add bytes_in_flight packet_size \<le> burst_threshold c \<or> now \<ge> pc_next_send_time c"

definition effective_interval :: "'g gain_ops \<Rightarrow> 'g pacing_controller \<Rightarrow> duration" where
  "effective_interval G c =
     (if gain_above_one G (pc_pacing_gain c) then gain_divide G (pc_interval c) (pc_pacing_gain c) else pc_interval c)"

definition pc_on_packet_sent :: "'g gain_ops \<Rightarrow> time_point \<Rightarrow> u64 \<Rightarrow> 'g pacing_controller \<Rightarrow> 'g pacing_controller" where
  "pc_on_packet_sent G now packet_size c =
     (let interval = effective_interval G c;
          next_send_time = (if now \<ge> pc_next_send_time c then now + interval else pc_next_send_time c + interval);
          max_behind = now - interval * 4
      in c\<lparr>pc_next_send_time := (if next_send_time < max_behind then max_behind else next_send_time)\<rparr>)"

definition time_until_next_send :: "time_point \<Rightarrow> 'g pacing_controller \<Rightarrow> duration" where
  "time_until_next_send now c = (if now \<ge> pc_next_send_time c then 0 else pc_next_send_time c - now)"

definition pc_bdp :: "'g pacing_controller \<Rightarrow> u64" where
  "pc_bdp c = (if pc_smoothed_rtt c sdiv 1000 = 0 then 0 else pc_congestion_window c)"

definition pc_reset :: "'g gain_ops \<Rightarrow> 'g pacing_controller \<Rightarrow> 'g pacing_controller" where
  "pc_reset G c = c\<lparr>pc_congestion_window := 0, pc_smoothed_rtt := 0, pc_interval := 0, pc_next_send_time := time_point_min,
     pc_pacing_gain := gain_one G\<rparr>"

section \<open>The burst absorber\<close>

record burst_absorber =
  ba_total_bursts :: u64
  ba_total_packets_burst :: u64
  ba_max_burst_seen :: u64

definition new_burst_absorber :: burst_absorber where
  "new_burst_absorber = \<lparr>ba_total_bursts = 0, ba_total_packets_burst = 0, ba_max_burst_seen = 0\<rparr>"

definition allow_burst :: "u64 \<Rightarrow> u64 \<Rightarrow> bool" where
  "allow_burst burst_size max_burst \<longleftrightarrow> burst_size \<le> max_burst"

definition on_burst :: "u64 \<Rightarrow> burst_absorber \<Rightarrow> burst_absorber" where
  "on_burst burst_size b = b\<lparr>ba_total_bursts := u64_add (ba_total_bursts b) 1,
     ba_total_packets_burst := u64_add (ba_total_packets_burst b) burst_size,
     ba_max_burst_seen := max (ba_max_burst_seen b) burst_size\<rparr>"

lemma bursts_recorded:
  assumes "sum_list bursts < 2 ^ 64" and "length bursts < 2 ^ 64"
  shows "foldl (\<lambda>b n. on_burst n b) new_burst_absorber bursts =
    \<lparr>ba_total_bursts = length bursts, ba_total_packets_burst = sum_list bursts, ba_max_burst_seen = fold max bursts 0\<rparr>"
  using assms
  by (induction bursts rule: rev_induct) (simp_all add: new_burst_absorber_def on_burst_def u64_add_def max.commute)

section \<open>Pacing runs\<close>

text \<open>Division by a gain above one gives a duration between 0 and the interval.\<close>

definition gain_law :: "'g gain_ops \<Rightarrow> bool" where
  "gain_law G \<longleftrightarrow> \<not> gain_above_one G (gain_one G) \<and>
     (\<forall>d g. gain_above_one G g \<and> 0 \<le> d \<longrightarrow> 0 \<le> gain_divide G d g \<and> gain_divide G d g \<le> d)"

inductive pacing_reachable :: "'g gain_ops \<Rightarrow> 'g pacing_controller \<Rightarrow> bool" for G where
  pacing_new: "pacing_reachable G (new_pacing_controller G)"
| pacing_initialize: "pacing_reachable G c \<Longrightarrow> pacing_reachable G (pc_initialize w rtt c)"
| pacing_window: "pacing_reachable G c \<Longrightarrow> pacing_reachable G (pc_set_congestion_window w c)"
| pacing_rtt: "pacing_reachable G c \<Longrightarrow> pacing_reachable G (pc_set_smoothed_rtt rtt c)"
| pacing_gain: "pacing_reachable G c \<Longrightarrow> pacing_reachable G (pc_set_pacing_gain g c)"
| pacing_sent: "pacing_reachable G c \<Longrightarrow> pacing_reachable G (pc_on_packet_sent G now n c)"
| pacing_reset: "pacing_reachable G c \<Longrightarrow> pacing_reachable G (pc_reset G c)"

definition interval_ok :: "'g pacing_controller \<Rightarrow> bool" where
  "interval_ok c \<longleftrightarrow> pc_interval c = 0 \<or> min_interval \<le> pc_interval c \<and> pc_interval c \<le> max_interval"

lemma update_interval_ok: "interval_ok (update_interval c)"
  by (simp add: update_interval_def interval_ok_def Let_def min_interval_def max_interval_def)

lemma pacing_interval_ok: "pacing_reachable G c \<Longrightarrow> interval_ok c"
  by (induction rule: pacing_reachable.induct)
    (simp_all add: pc_initialize_def pc_set_congestion_window_def pc_set_smoothed_rtt_def pc_set_pacing_gain_def
      update_interval_ok, simp_all add: interval_ok_def new_pacing_controller_def pc_on_packet_sent_def pc_reset_def Let_def)

lemma effective_interval_bounds:
  assumes "gain_law G" and "interval_ok c"
  shows "0 \<le> effective_interval G c \<and> effective_interval G c \<le> max_interval"
proof -
  have i: "0 \<le> pc_interval c" "pc_interval c \<le> max_interval"
    using assms(2) by (auto simp: interval_ok_def min_interval_def max_interval_def)
  show ?thesis
  proof (cases "gain_above_one G (pc_pacing_gain c)")
    case True
    then have "0 \<le> gain_divide G (pc_interval c) (pc_pacing_gain c)" "gain_divide G (pc_interval c) (pc_pacing_gain c) \<le> pc_interval c"
      using assms(1) i(1) unfolding gain_law_def by blast+
    with True i(2) show ?thesis by (simp add: effective_interval_def)
  qed (simp add: effective_interval_def i)
qed


text \<open>
  The interval grows with the window and shrinks with the round trip time, where the time between packets at the rate
  \<open>cwnd / rtt\<close> does the opposite.
\<close>

lemma update_interval_value:
  assumes "0 < w" and "w * 1200 < 2 ^ 64" and "1000 \<le> rtt" and "rtt < 2 ^ 63"
  shows "pc_interval (pc_initialize w rtt c) =
    min max_interval (max min_interval (1000 * to_i64 (w * 1200 div nat (rtt div 1000))))"
proof -
  have q: "rtt sdiv 1000 = rtt div 1000" using assms(3) by (simp add: signed_divide_int_def)
  have "0 < rtt div 1000" "rtt div 1000 < 2 ^ 64" using assms(3,4) by auto
  then have "to_u64 (rtt div 1000) = nat (rtt div 1000)" by (simp add: to_u64_def)
  moreover have "rtt div 1000 \<noteq> 0" using assms(3) by auto
  ultimately show ?thesis
    using assms by (simp add: pc_initialize_def update_interval_def q Let_def u64_mul_exact min_def max_def mult.commute)
qed

theorem interval_grows_with_window:
  assumes "0 < w" and "w \<le> w'" and "w' * 1200 < 2 ^ 63" and "1000 \<le> rtt" and "rtt < 2 ^ 63"
  shows "pc_interval (pc_initialize w rtt c) \<le> pc_interval (pc_initialize w' rtt c)"
proof -
  let ?r = "nat (rtt div 1000)"
  have le: "w * 1200 div ?r \<le> w' * 1200 div ?r" using assms(2) by (intro div_le_mono) simp
  have b: "w' * 1200 div ?r < 2 ^ 63" using assms(3) by (meson div_le_dividend order_le_less_trans)
  then have "to_i64 (w * 1200 div ?r) \<le> to_i64 (w' * 1200 div ?r)" using le by (simp add: to_i64_def)
  moreover have "pc_interval (pc_initialize w rtt c) = min max_interval (max min_interval (1000 * to_i64 (w * 1200 div ?r)))"
      "pc_interval (pc_initialize w' rtt c) = min max_interval (max min_interval (1000 * to_i64 (w' * 1200 div ?r)))"
    using assms by (auto intro!: update_interval_value)
  ultimately show ?thesis by (simp add: min_def max_def)
qed

text \<open>A window of 100 packets over a round trip of one millisecond is paced at ten packets a second.\<close>

lemma fast_path_paced_slowly: "pc_interval (pc_initialize 120000 1000000 c) = 100000000"
  by (simp add: pc_initialize_def update_interval_def signed_divide_int_def to_u64_def to_i64_def u64_mul_def min_interval_def
      max_interval_def Let_def)

definition unit_gain :: "unit gain_ops" where
  "unit_gain = \<lparr>gain_one = (), gain_above_one = (\<lambda>_. False), gain_divide = (\<lambda>d _. d)\<rparr>"


section \<open>CUBIC\<close>

text \<open>
  The four values that the code computes in \<open>double\<close> and converts to \<open>std::uint64_t\<close>: the cubic window from the elapsed
  milliseconds and \<open>last_max_cwnd_\<close>, the Reno-friendly window from the current window, the elapsed milliseconds and the
  round trip time, and the products with \<open>beta_\<close> and \<open>(1 + beta_) / 2\<close>.
\<close>

record cubic_floats =
  cf_cubic_window :: "int \<Rightarrow> u64 \<Rightarrow> u64"
  cf_reno_window :: "u64 \<Rightarrow> int \<Rightarrow> duration \<Rightarrow> u64"
  cf_beta :: "u64 \<Rightarrow> u64"
  cf_converge :: "u64 \<Rightarrow> u64"

record cubic_congestion_controller =
  cub_cwnd :: u64
  cub_bytes_in_flight :: u64
  cub_ssthresh :: u64
  cub_last_max_cwnd :: u64
  cub_epoch_start :: time_point
  cub_last_rtt :: duration
  cub_phase :: congestion_phase

definition new_cubic :: cubic_congestion_controller where
  "new_cubic = \<lparr>cub_cwnd = 12000, cub_bytes_in_flight = 0, cub_ssthresh = 12000, cub_last_max_cwnd = 12000,
     cub_epoch_start = 0, cub_last_rtt = 100000000, cub_phase = SlowStart\<rparr>"

definition cubic_min_cwnd :: u64 where
  "cubic_min_cwnd = 2400"

definition cubic_on_packet_sent :: "cubic_congestion_controller \<Rightarrow> u64 \<Rightarrow> bool \<Rightarrow> cubic_congestion_controller" where
  "cubic_on_packet_sent c bytes ack_eliciting = c\<lparr>cub_bytes_in_flight := u64_add (cub_bytes_in_flight c) bytes\<rparr>"

definition start_epoch :: "time_point \<Rightarrow> cubic_congestion_controller \<Rightarrow> cubic_congestion_controller" where
  "start_epoch now c = c\<lparr>cub_phase := CongestionAvoidance, cub_epoch_start := now, cub_last_max_cwnd := cub_cwnd c\<rparr>"

definition cubic_on_packet_acknowledged ::
    "cubic_floats \<Rightarrow> cubic_congestion_controller \<Rightarrow> u64 \<Rightarrow> time_point \<Rightarrow> cubic_congestion_controller" where
  "cubic_on_packet_acknowledged F c bytes now =
     (let c = c\<lparr>cub_bytes_in_flight := u64_sub (cub_bytes_in_flight c) bytes\<rparr>;
          c = (if cub_phase c = Recovery then start_epoch now c else c) in
      if cub_phase c = SlowStart then
        let c = c\<lparr>cub_cwnd := u64_add (cub_cwnd c) bytes\<rparr> in
        if cub_cwnd c \<ge> cub_ssthresh c then start_epoch now c else c
      else if cub_phase c = CongestionAvoidance then
        let elapsed = (now - cub_epoch_start c) sdiv 1000000;
            cubic_window = cf_cubic_window F elapsed (cub_last_max_cwnd c);
            reno_window = cf_reno_window F (cub_cwnd c) elapsed (cub_last_rtt c)
        in c\<lparr>cub_cwnd := max (max cubic_window reno_window) cubic_min_cwnd\<rparr>
      else c)"

text \<open>What a loss and a congestion event have in common.\<close>

definition cubic_reduce :: "cubic_floats \<Rightarrow> cubic_congestion_controller \<Rightarrow> cubic_congestion_controller" where
  "cubic_reduce F c =
     (let c = c\<lparr>cub_last_max_cwnd := (if cub_cwnd c < cub_last_max_cwnd c then cf_converge F (cub_cwnd c) else cub_cwnd c)\<rparr>;
          c = c\<lparr>cub_cwnd := max (cf_beta F (cub_cwnd c)) cubic_min_cwnd\<rparr>
      in c\<lparr>cub_ssthresh := cub_cwnd c\<rparr>)"

definition cubic_on_packet_lost :: "cubic_floats \<Rightarrow> cubic_congestion_controller \<Rightarrow> u64 \<Rightarrow> time_point \<Rightarrow> cubic_congestion_controller" where
  "cubic_on_packet_lost F c bytes now =
     (cubic_reduce F (c\<lparr>cub_bytes_in_flight := u64_sub (cub_bytes_in_flight c) bytes\<rparr>))\<lparr>cub_phase := Recovery, cub_epoch_start := now\<rparr>"

definition cubic_on_congestion_event :: "cubic_floats \<Rightarrow> cubic_congestion_controller \<Rightarrow> cubic_congestion_controller" where
  "cubic_on_congestion_event F c = cubic_reduce F c"

definition cubic_update_rtt :: "duration \<Rightarrow> cubic_congestion_controller \<Rightarrow> cubic_congestion_controller" where
  "cubic_update_rtt rtt c = c\<lparr>cub_last_rtt := rtt\<rparr>"

definition cubic_can_send :: "cubic_congestion_controller \<Rightarrow> bool" where
  "cubic_can_send c \<longleftrightarrow> cub_bytes_in_flight c < cub_cwnd c"

section \<open>The factory\<close>

datatype congestion_algorithm = AlgorithmNewReno | AlgorithmBbr | AlgorithmCubic

text \<open>The object behind the pointer to the interface.\<close>

datatype controller_object =
  NewRenoControl congestion_controller | BbrControl bbr_congestion_controller | CubicControl cubic_congestion_controller

fun create_congestion_controller :: "congestion_algorithm \<Rightarrow> controller_object" where
  "create_congestion_controller AlgorithmNewReno = NewRenoControl new_congestion_controller"
| "create_congestion_controller AlgorithmBbr = BbrControl new_bbr"
| "create_congestion_controller AlgorithmCubic = CubicControl new_cubic"

fun control_can_send :: "controller_object \<Rightarrow> bool" where
  "control_can_send (NewRenoControl c) = can_send c"
| "control_can_send (BbrControl c) = bbr_can_send c"
| "control_can_send (CubicControl c) = cubic_can_send c"

lemma new_controllers_can_send: "control_can_send (create_congestion_controller algorithm)"
  by (cases algorithm) (simp_all add: can_send_def new_congestion_controller_def default_initial_window_def bbr_can_send_def
      new_bbr_def cubic_can_send_def new_cubic_def)

inductive cubic_reachable :: "cubic_floats \<Rightarrow> cubic_congestion_controller \<Rightarrow> bool" for F where
  cubic_new: "cubic_reachable F new_cubic"
| cubic_sent: "cubic_reachable F c \<Longrightarrow> cubic_reachable F (cubic_on_packet_sent c bytes ack_eliciting)"
| cubic_acknowledged: "cubic_reachable F c \<Longrightarrow> is_u64 bytes \<Longrightarrow> cub_cwnd c + bytes < 2 ^ 64 \<Longrightarrow>
    cubic_reachable F (cubic_on_packet_acknowledged F c bytes now)"
| cubic_lost: "cubic_reachable F c \<Longrightarrow> cubic_reachable F (cubic_on_packet_lost F c bytes now)"
| cubic_event: "cubic_reachable F c \<Longrightarrow> cubic_reachable F (cubic_on_congestion_event F c)"
| cubic_rtt: "cubic_reachable F c \<Longrightarrow> cubic_reachable F (cubic_update_rtt rtt c)"

text \<open>The window never falls below two packets, whatever the floating-point values are.\<close>

theorem cubic_window_floor: "cubic_reachable F c \<Longrightarrow> cubic_min_cwnd \<le> cub_cwnd c \<and> cubic_min_cwnd \<le> cub_ssthresh c"
  by (induction rule: cubic_reachable.induct)
    (auto simp: new_cubic_def cubic_on_packet_sent_def cubic_on_packet_acknowledged_def cubic_on_packet_lost_def
      cubic_on_congestion_event_def cubic_reduce_def cubic_update_rtt_def start_epoch_def cubic_min_cwnd_def Let_def u64_add_def)

text \<open>
  The first acknowledgement after a loss replaces \<open>last_max_cwnd_\<close>, the window before the loss or its reduction by fast
  convergence, by the reduced window, so that the cubic function grows from there.
\<close>

theorem cubic_forgets_maximum:
  assumes "c' = cubic_on_packet_lost F c bytes now"
  shows "cub_last_max_cwnd (cubic_on_packet_acknowledged F c' acked at) = max (cf_beta F (cub_cwnd c)) cubic_min_cwnd"
  unfolding assms
  by (simp add: cubic_on_packet_lost_def cubic_reduce_def cubic_on_packet_acknowledged_def start_epoch_def Let_def)

end
