(* ===== verification/Client.thy ===== *)
theory Client
  imports TlsAdapter UdpSession "HOL-Library.Sublist"
begin

text \<open>
  The interoperability client, \<open>src/tools/quic_client.cpp\<close>: a session whose environment is the TLS adapter of
  \<open>openssl_tls_handshake.hpp\<close> and the protectors of \<open>tls_protector_factory.hpp\<close>.  The clock, the socket and OpenSSL are the
  outside world: the readings of the clock and what the socket returns are inputs, the calls of OpenSSL follow scripts.
  Of the output the model keeps the stream lines, which decide the exit code.
\<close>

section \<open>The environment of the session\<close>

text \<open>The adapter, the scripts of the coming calls into it, and what the rest of the environment needs.\<close>

record 'r client_world =
  cw_adapter :: tls_adapter
  cw_scripts :: "ssl_script list"
  cw_rest :: 'r

text \<open>A call for which there is no script makes no progress.\<close>

definition next_script :: "'r client_world \<Rightarrow> ssl_script" where
  "next_script w = (case cw_scripts w of [] \<Rightarrow> ([], WantMore) | script # _ \<Rightarrow> script)"

definition after_call :: "'r client_world \<Rightarrow> flowq_error \<times> tls_adapter \<Rightarrow> flowq_error \<times> 'r client_world" where
  "after_call w r = (fst r, w\<lparr>cw_adapter := snd r, cw_scripts := tl (cw_scripts w)\<rparr>)"

definition refresh_tls_protectors :: "'x openssl \<Rightarrow> tls_adapter \<Rightarrow> packet_protector_update" where
  "refresh_tls_protectors S a =
     (let none = \<lparr>ppu_error = no_error, ppu_handshake_tx = None, ppu_handshake_rx = None, ppu_application_tx = None,
            ppu_application_rx = None\<rparr> in
      if negotiated_cipher_suite a = SuiteUnknown then none
      else
        let refreshed = create_protectors S (adapter_secrets a);
            protector = (\<lambda>space is_tx. map_option (aead_protector S) (tps_protector refreshed space is_tx)) in
        if \<not> error_ok (tps_error refreshed) then none\<lparr>ppu_error := tps_error refreshed\<rparr>
        else \<lparr>ppu_error = no_error, ppu_handshake_tx = protector HandshakeSpace True,
               ppu_handshake_rx = protector HandshakeSpace False, ppu_application_tx = protector ApplicationSpace True,
               ppu_application_rx = protector ApplicationSpace False\<rparr>)"

definition on_rest :: "('r \<Rightarrow> 'a \<times> 'r) \<Rightarrow> 'r client_world \<Rightarrow> 'a \<times> 'r client_world" where
  "on_rest f w = (let (x, rest) = f (cw_rest w) in (x, w\<lparr>cw_rest := rest\<rparr>))"

text \<open>
  The TLS fields of the environment call the adapter, the refresh callback is the lambda of \<open>main\<close>; the path challenges, pacing
  and congestion control of \<open>B\<close> are kept.
\<close>

definition adapter_env :: "'x openssl \<Rightarrow> ('r, 'c) connection_env \<Rightarrow> ('r client_world, 'c) connection_env" where
  "adapter_env S B = \<lparr>env_has_tls = True, env_tls_state = (\<lambda>w. ta_state (cw_adapter w)),
     env_key_availability = (\<lambda>w. ta_keys (cw_adapter w)), env_tls_provider_status = (\<lambda>w. ta_provider_status (cw_adapter w)),
     env_receive_crypto = (\<lambda>bytes w. after_call w (ta_receive_crypto (next_script w) bytes (cw_adapter w))),
     env_drain_crypto = (\<lambda>w. let (bytes, a) = ta_drain_crypto (cw_adapter w) in (bytes, w\<lparr>cw_adapter := a\<rparr>)),
     env_advance = (\<lambda>w. after_call w (ta_advance (next_script w) (cw_adapter w))),
     env_protector_refresh = Some (\<lambda>w. (refresh_tls_protectors S (cw_adapter w), w)),
     env_path_challenge = on_rest (env_path_challenge B), env_zero_copy_build = env_zero_copy_build B,
     env_pacing_can_send = (\<lambda>n m. on_rest (env_pacing_can_send B n m)),
     env_pacing_on_packet_sent = (\<lambda>n w. w\<lparr>cw_rest := env_pacing_on_packet_sent B n (cw_rest w)\<rparr>),
     env_pacing_set_congestion_window = (\<lambda>n w. w\<lparr>cw_rest := env_pacing_set_congestion_window B n (cw_rest w)\<rparr>),
     env_pacing_set_smoothed_rtt = (\<lambda>d w. w\<lparr>cw_rest := env_pacing_set_smoothed_rtt B d (cw_rest w)\<rparr>),
     env_cc_on_packet_sent = env_cc_on_packet_sent B, env_cc_on_packet_acknowledged = env_cc_on_packet_acknowledged B,
     env_cc_on_packet_lost = env_cc_on_packet_lost B, env_cc_on_congestion_event = env_cc_on_congestion_event B,
     env_cc_congestion_window = env_cc_congestion_window B, env_cc_bytes_in_flight = env_cc_bytes_in_flight B,
     env_cc_can_send = env_cc_can_send B\<rparr>"

section \<open>Configuration\<close>

definition configured_value :: "string option \<Rightarrow> string \<Rightarrow> string" where
  "configured_value variable fallback = (case variable of Some v \<Rightarrow> if v \<noteq> [] then v else fallback | None \<Rightarrow> fallback)"

definition default_ca_file :: string where
  "default_ca_file = ''build/certs/cert.pem''"

definition default_server_name :: string where
  "default_server_name = ''localhost''"

definition client_local_cid :: connection_id where
  "client_local_cid = \<lparr>cid_bytes = [1, 2, 3, 4]\<rparr>"

definition client_remote_cid :: connection_id where
  "client_remote_cid = \<lparr>cid_bytes = [5, 6, 7, 8]\<rparr>"

definition default_local_transport_parameters :: transport_parameters where
  "default_local_transport_parameters = empty_transport_parameters\<lparr>tp_max_udp_payload_size := Some 1200,
     tp_initial_max_data := Some 1048576, tp_initial_max_stream_data_bidi_local := Some 262144,
     tp_initial_max_stream_data_bidi_remote := Some 262144, tp_initial_max_stream_data_uni := Some 262144,
     tp_initial_max_streams_bidi := Some 128, tp_initial_max_streams_uni := Some 128, tp_active_connection_id_limit := Some 2\<rparr>"

definition client_tls_config :: "string option \<Rightarrow> string option \<Rightarrow> openssl_tls_config" where
  "client_tls_config ca_variable name_variable = \<lparr>tlsc_is_client = True, tlsc_cert_file = None, tlsc_key_file = None,
     tlsc_ca_file = Some (configured_value ca_variable default_ca_file),
     tlsc_server_name = Some (configured_value name_variable default_server_name), tlsc_alpn = Some ''hq-interop'',
     tlsc_tls13_ciphersuite = ''TLS_AES_128_GCM_SHA256'',
     tlsc_local_transport_parameters = default_local_transport_parameters\<lparr>
       tp_initial_source_connection_id := Some (cid_bytes client_local_cid)\<rparr>\<rparr>"

definition client_session_config :: "'x openssl \<Rightarrow> session_config" where
  "client_session_config S = \<lparr>sc_role = ClientRole, sc_version = 1, sc_local_connection_id = client_local_cid,
     sc_remote_connection_id = client_remote_cid, sc_peer = \<lparr>ep_host = ''127.0.0.1'', ep_port = 4433, ep_alpn = ''hq-interop''\<rparr>,
     sc_max_datagram_size = 1200, sc_initial_stream_send_max_data = u64_max, sc_initial_connection_send_max_data = u64_max,
     sc_max_packet_payload_size = 1200, sc_max_stream_frames = 8, sc_max_stream_data_size = 1200,
     sc_initial_max_stream_data_bidi_local = u64_max, sc_initial_max_stream_data_bidi_remote = u64_max,
     sc_initial_max_stream_data_uni = u64_max, sc_initial_max_streams_bidi = u64_max, sc_initial_max_streams_uni = u64_max,
     sc_max_idle_timeout = 0, sc_max_udp_payload_size = 1200, sc_active_connection_id_limit = 2, sc_ack_delay_exponent = 3,
     sc_max_ack_delay = 25000000, sc_disable_active_migration = False, sc_key_lifecycle = new_key_lifecycle,
     sc_closing_draining_timeout = 3000000000, sc_peer_address_validated = False,
     sc_initial_tx_protector = Some (initial_protector S (initial_client_protector S client_remote_cid)),
     sc_initial_rx_protector = Some (initial_protector S (initial_server_protector S client_remote_cid)),
     sc_handshake_tx_protector = None, sc_handshake_rx_protector = None, sc_application_tx_protector = None,
     sc_application_rx_protector = None\<rparr>"

section \<open>The client\<close>

record ('r, 'c) client =
  cli_session :: "('r client_world, 'c) session"
  cli_application_stream_sent :: bool
  cli_echo_received :: bool
  cli_socket :: "(buffer \<times> udp_endpoint) list"
  cli_stream_lines :: "(u64 \<times> string) list"

text \<open>
  A step either ends \<open>main\<close> with an exit code or goes on.  \<open>net n\<close> tells whether the call of \<open>send_to\<close> with \<open>n\<close> datagrams sent
  before it succeeds; if not, it throws and \<open>main\<close> returns 1.
\<close>

type_synonym ('r, 'c) client_step = "int option \<times> ('r, 'c) client"

definition proceed :: "('r, 'c) client_step \<Rightarrow> (('r, 'c) client \<Rightarrow> ('r, 'c) client_step) \<Rightarrow> ('r, 'c) client_step" where
  "proceed x f = (case fst x of Some code \<Rightarrow> x | None \<Rightarrow> f (snd x))"

fun send_datagrams :: "(nat \<Rightarrow> bool) \<Rightarrow> (buffer \<times> endpoint) list \<Rightarrow> ('r, 'c) client \<Rightarrow> ('r, 'c) client_step" where
  "send_datagrams net [] c = (None, c)"
| "send_datagrams net ((payload, peer) # datagrams) c =
     (if \<not> net (length (cli_socket c)) then (Some 1, c)
      else send_datagrams net datagrams
        (c\<lparr>cli_socket := cli_socket c @ [(payload, \<lparr>ue_address = ep_host peer, ue_port = ep_port peer\<rparr>)]\<rparr>))"

definition text_buffer :: "string \<Rightarrow> buffer" where
  "text_buffer s = map byte_of_char s"

definition buffer_to_string :: "buffer \<Rightarrow> string" where
  "buffer_to_string b = map char_of_byte b"

definition on_session ::
    "(('r client_world, 'c) session \<Rightarrow> 'a \<times> ('r client_world, 'c) session) \<Rightarrow> ('r, 'c) client \<Rightarrow> 'a \<times> ('r, 'c) client" where
  "on_session f c = (let (x, s) = f (cli_session c) in (x, c\<lparr>cli_session := s\<rparr>))"

text \<open>\<open>session.flush()\<close> and sending its datagrams; the two readings of the clock are those of the flush.\<close>

definition flush_and_send ::
    "('r client_world, 'c) connection_env \<Rightarrow> (nat \<Rightarrow> bool) \<Rightarrow> time_point \<times> time_point \<Rightarrow> ('r, 'c) client \<Rightarrow> ('r, 'c) client_step" where
  "flush_and_send E net at c =
     (let (r, c) = on_session (ses_flush E (fst at) (snd at)) c in
      if \<not> error_ok (ssnd_error r) then (Some 1, c) else send_datagrams net (ssnd_datagrams r) c)"

definition send_stream_payload ::
    "('r client_world, 'c) connection_env \<Rightarrow> (nat \<Rightarrow> bool) \<Rightarrow> time_point \<times> time_point \<Rightarrow> string \<Rightarrow> ('r, 'c) client \<Rightarrow> ('r, 'c) client_step" where
  "send_stream_payload E net at payload c =
     (let (e, c) = on_session (ses_append_stream_data 0 (text_buffer payload)) c in
      if \<not> error_ok e then (Some 1, c)
      else
        let (r, c) = on_session (queue_stream_data [0] 0 0) c in
        if \<not> error_ok (ssnd_error r) then (Some 1, c) else flush_and_send E net at c)"

definition retransmit_stream_payload ::
    "('r client_world, 'c) connection_env \<Rightarrow> (nat \<Rightarrow> bool) \<Rightarrow> time_point \<times> time_point \<Rightarrow> u64 \<Rightarrow> ('r, 'c) client \<Rightarrow> ('r, 'c) client_step" where
  "retransmit_stream_payload E net at stream_id c =
     (let (r, c) = on_session (queue_stream_data [stream_id] 0 0) c in
      if \<not> error_ok (ssnd_error r) then (Some 1, c) else flush_and_send E net at c)"

text \<open>The start of \<open>main\<close> up to its loop: an exit code or the client that enters the loop.\<close>

definition start_client ::
    "'x openssl \<Rightarrow> ('r, 'c) connection_env \<Rightarrow> ssl_library \<Rightarrow> string option \<Rightarrow> string option \<Rightarrow> (nat \<Rightarrow> bool)
     \<Rightarrow> ssl_script list \<Rightarrow> 'r \<Rightarrow> 'c \<Rightarrow> time_point \<times> time_point \<Rightarrow> int + ('r, 'c) client" where
  "start_client S B L ca_variable name_variable net scripts rest congestion at =
     (let w = \<lparr>cw_adapter = new_tls_adapter L (client_tls_config ca_variable name_variable), cw_scripts = scripts, cw_rest = rest\<rparr>;
          (e, w) = after_call w (ta_receive_crypto (next_script w) \<lparr>cb_level = TlsInitial, cb_offset = 0, cb_data = []\<rparr> (cw_adapter w)) in
      if \<not> error_ok e then Inl 1
      else
        let c = \<lparr>cli_session = new_session (client_session_config S) congestion w, cli_application_stream_sent = False,
              cli_echo_received = False, cli_socket = [], cli_stream_lines = []\<rparr>;
            (r, c) = on_session (ses_flush (adapter_env S B) (fst at) (snd at)) c in
        if \<not> error_ok (ssnd_error r) \<or> ssnd_datagrams r = [] then Inl 1
        else case send_datagrams net (ssnd_datagrams r) c of (Some code, c) \<Rightarrow> Inl code | (None, c) \<Rightarrow> Inr c)"

text \<open>What the outside world gives to one round of the loop: the readings of the clock and what \<open>receive_from\<close> returns.\<close>

datatype receive_outcome = WouldBlock | ReceiveFailed | Arrived buffer udp_endpoint

record client_input =
  ci_while :: time_point
  ci_hello_at :: "time_point \<times> time_point"
  ci_now :: time_point
  ci_retransmit_at :: "time_point \<times> time_point"
  ci_outcome :: receive_outcome
  ci_received_at :: time_point
  ci_flush_at :: "time_point \<times> time_point"

definition client_adapter :: "('r, 'c) client \<Rightarrow> tls_adapter" where
  "client_adapter c = cw_adapter (cl_world (ses_loop (cli_session c)))"

definition say_hello ::
    "('r client_world, 'c) connection_env \<Rightarrow> (nat \<Rightarrow> bool) \<Rightarrow> client_input \<Rightarrow> ('r, 'c) client \<Rightarrow> ('r, 'c) client_step" where
  "say_hello E net i c =
     (if ta_state (client_adapter c) = HandshakeConfirmed \<and> \<not> cli_application_stream_sent c then
        let c = c\<lparr>cli_session := ses_discard_packet_space HandshakeSpace (cli_session c)\<rparr> in
        proceed (send_stream_payload E net (ci_hello_at i) ''hello from FlowQ'' c)
          (\<lambda>c. (None, c\<lparr>cli_application_stream_sent := True\<rparr>))
      else (None, c))"

definition handle_recovery_timer ::
    "('r client_world, 'c) connection_env \<Rightarrow> (nat \<Rightarrow> bool) \<Rightarrow> client_input \<Rightarrow> ('r, 'c) client \<Rightarrow> ('r, 'c) client_step" where
  "handle_recovery_timer E net i c =
     (let (timer, c) = on_session (ses_next_recovery_timer E) c in
      case timer of
        None \<Rightarrow> (None, c)
      | Some timer \<Rightarrow>
          if ci_now i < crt_deadline timer then (None, c)
          else
            let (r, c) = on_session (ses_on_recovery_timer E (crt_space timer) (ci_now i)) c in
            if crr_newly_lost r = [] then (None, c) else retransmit_stream_payload E net (ci_retransmit_at i) 0 c)"

fun take_deliveries :: "session_stream_delivery list \<Rightarrow> ('r, 'c) client \<Rightarrow> ('r, 'c) client_step" where
  "take_deliveries [] c = (None, c)"
| "take_deliveries (d # ds) c =
     (if \<not> error_ok (sd_error d) then (Some 1, c)
      else
        let payload = buffer_to_string (sd_data d) in
        take_deliveries ds (c\<lparr>cli_stream_lines := cli_stream_lines c @ [(sd_stream_id d, payload)],
          cli_echo_received := cli_echo_received c \<or> (sd_stream_id d = 0 \<and> payload = ''echo from aioquic'')\<rparr>))"

definition install_protectors :: "'x openssl \<Rightarrow> ('r, 'c) client \<Rightarrow> ('r, 'c) client_step" where
  "install_protectors S c =
     (let u = refresh_tls_protectors S (client_adapter c) in
      if \<not> error_ok (ppu_error u) then (Some 1, c)
      else (None, c\<lparr>cli_session := ses_set_packet_protectors (ppu_handshake_tx u) (ppu_handshake_rx u) (ppu_application_tx u)
        (ppu_application_rx u) (cli_session c)\<rparr>))"

definition handle_datagram ::
    "'x openssl \<Rightarrow> ('r client_world, 'c) connection_env \<Rightarrow> (nat \<Rightarrow> bool) \<Rightarrow> client_input \<Rightarrow> buffer \<Rightarrow> udp_endpoint
     \<Rightarrow> ('r, 'c) client \<Rightarrow> ('r, 'c) client_step" where
  "handle_datagram S E net i payload sender c =
     (let (r, c) = on_session (ses_on_datagram E payload (to_flowq_endpoint sender ''hq-interop'') (ci_received_at i)) c in
      if \<not> error_ok (srcv_error r) then (Some 1, c)
      else if srcv_closes r \<noteq> [] then (Some 1, c)
      else
        proceed (take_deliveries (srcv_stream_deliveries r) c)
          (\<lambda>c. if cli_echo_received c then (Some 0, c)
            else proceed (send_datagrams net (srcv_datagrams r) c)
              (\<lambda>c. proceed (install_protectors S c) (flush_and_send E net (ci_flush_at i)))))"

text \<open>One round of the loop, after the test of its condition.\<close>

definition client_round ::
    "'x openssl \<Rightarrow> ('r client_world, 'c) connection_env \<Rightarrow> (nat \<Rightarrow> bool) \<Rightarrow> client_input \<Rightarrow> ('r, 'c) client \<Rightarrow> ('r, 'c) client_step" where
  "client_round S E net i c =
     proceed (say_hello E net i c)
       (\<lambda>c. proceed (handle_recovery_timer E net i c)
         (\<lambda>c. case ci_outcome i of
             WouldBlock \<Rightarrow> (None, c)
           | ReceiveFailed \<Rightarrow> (Some 1, c)
           | Arrived payload sender \<Rightarrow> handle_datagram S E net i payload sender c))"

text \<open>Without more inputs the loop has not ended yet.\<close>

fun client_loop ::
    "'x openssl \<Rightarrow> ('r client_world, 'c) connection_env \<Rightarrow> (nat \<Rightarrow> bool) \<Rightarrow> time_point \<Rightarrow> client_input list \<Rightarrow> ('r, 'c) client
     \<Rightarrow> ('r, 'c) client_step" where
  "client_loop S E net deadline [] c = (None, c)"
| "client_loop S E net deadline (i # inputs) c =
     (if ci_while i < deadline then proceed (client_round S E net i c) (client_loop S E net deadline inputs) else (Some 1, c))"

section \<open>Runs of the client\<close>

text \<open>What every step keeps: the session is only used through its operations, and the two logs grow.\<close>

definition client_keeps :: "('r client_world, 'c) connection_env \<Rightarrow> ('r, 'c) client \<Rightarrow> ('r, 'c) client \<Rightarrow> bool" where
  "client_keeps E c c' \<longleftrightarrow> (session_step E)\<^sup>*\<^sup>* (cli_session c) (cli_session c') \<and> prefix (cli_socket c) (cli_socket c') \<and>
     prefix (cli_stream_lines c) (cli_stream_lines c')"

abbreviation echo :: "u64 \<times> string" where
  "echo \<equiv> (0, ''echo from aioquic'')"

text \<open>
  A step that goes on has not seen the echo; one that ends has exit code 0 only after the echo, and 1 otherwise or after an
  error.
\<close>

definition step_ok :: "('r client_world, 'c) connection_env \<Rightarrow> ('r, 'c) client \<Rightarrow> ('r, 'c) client_step \<Rightarrow> bool" where
  "step_ok E c x \<longleftrightarrow> client_keeps E c (snd x) \<and>
     (fst x = None \<and> \<not> cli_echo_received (snd x) \<and> echo \<notin> set (cli_stream_lines (snd x)) \<or> fst x = Some 1 \<or>
      fst x = Some 0 \<and> echo \<in> set (cli_stream_lines (snd x)))"

definition unanswered :: "('r, 'c) client \<Rightarrow> bool" where
  "unanswered c \<longleftrightarrow> \<not> cli_echo_received c \<and> echo \<notin> set (cli_stream_lines c)"

lemma client_keeps_refl [simp]: "client_keeps E c c"
  by (simp add: client_keeps_def)

lemma client_keeps_trans [trans]: "client_keeps E c d \<Longrightarrow> client_keeps E d e \<Longrightarrow> client_keeps E c e"
  by (auto simp: client_keeps_def intro: prefix_order.trans)

lemma step_ok_proceed:
  assumes "step_ok E c x" and "\<And>d. unanswered d \<Longrightarrow> step_ok E d (f d)"
  shows "step_ok E c (proceed x f)"
proof (cases "fst x")
  case None
  then have "client_keeps E c (snd x)" "unanswered (snd x)" using assms(1) by (auto simp: step_ok_def unanswered_def)
  with assms(2) [of "snd x"] None show ?thesis
    by (auto simp: proceed_def step_ok_def intro: client_keeps_trans)
qed (use assms(1) in \<open>simp add: proceed_def\<close>)

lemma step_ok_after: "client_keeps E c d \<Longrightarrow> step_ok E d x \<Longrightarrow> step_ok E c x"
  by (auto simp: step_ok_def intro: client_keeps_trans)

lemma step_ok_stop [simp]: "step_ok E c (Some 1, d) \<longleftrightarrow> client_keeps E c d"
  by (simp add: step_ok_def)

lemma step_ok_on [simp]: "step_ok E c (None, d) \<longleftrightarrow> client_keeps E c d \<and> unanswered d"
  by (simp add: step_ok_def unanswered_def)

text \<open>An operation of the session.\<close>

lemma on_session_keeps:
  assumes "\<And>s. session_step E s (snd (f s))" and "on_session f c = (x, d)"
  shows "client_keeps E c d \<and> (unanswered d \<longleftrightarrow> unanswered c)"
  using assms(1) [of "cli_session c"] assms(2)
  by (auto simp: on_session_def client_keeps_def unanswered_def split: prod.splits)

lemmas session_keeps = on_session_keeps [OF ses_append] on_session_keeps [OF ses_queue] on_session_keeps [OF ses_flushed]
  on_session_keeps [OF ses_datagram] on_session_keeps [OF ses_recovery_timer] on_session_keeps [OF ses_recovery_fired]

lemma send_datagrams_ok: "unanswered c \<Longrightarrow> step_ok E c (send_datagrams net ds c)"
proof (induction net ds c rule: send_datagrams.induct)
  case (2 net payload peer ds c)
  let ?d = "c\<lparr>cli_socket := cli_socket c @ [(payload, \<lparr>ue_address = ep_host peer, ue_port = ep_port peer\<rparr>)]\<rparr>"
  have "client_keeps E c ?d" "unanswered ?d" using 2(2) by (simp_all add: client_keeps_def unanswered_def)
  with 2 show ?case by (auto intro: step_ok_after)
qed simp

lemma flush_and_send_ok:
  assumes "unanswered c" shows "step_ok E c (flush_and_send E net at c)"
proof -
  obtain r d where d: "on_session (ses_flush E (fst at) (snd at)) c = (r, d)" by fastforce
  from session_keeps(3) [OF d] assms show ?thesis
    by (auto simp: flush_and_send_def d intro: step_ok_after send_datagrams_ok)
qed

lemma retransmit_ok:
  assumes "unanswered c" shows "step_ok E c (retransmit_stream_payload E net at stream_id c)"
proof -
  obtain r d where d: "on_session (queue_stream_data [stream_id] 0 0) c = (r, d)" by fastforce
  from session_keeps(2) [OF d, of E] assms show ?thesis
    by (auto simp: retransmit_stream_payload_def d intro: step_ok_after flush_and_send_ok)
qed

lemma send_payload_ok:
  assumes "unanswered c" shows "step_ok E c (send_stream_payload E net at payload c)"
proof -
  obtain e d where d: "on_session (ses_append_stream_data 0 (text_buffer payload)) c = (e, d)" by fastforce
  have "send_stream_payload E net at payload c =
      (if \<not> error_ok e then (Some 1, d) else retransmit_stream_payload E net at 0 d)"
    by (simp add: send_stream_payload_def retransmit_stream_payload_def d)
  with session_keeps(1) [OF d, of E] assms show ?thesis by (auto intro: step_ok_after retransmit_ok)
qed

lemma say_hello_ok:
  assumes "unanswered c" shows "step_ok E c (say_hello E net i c)"
proof -
  let ?d = "c\<lparr>cli_session := ses_discard_packet_space HandshakeSpace (cli_session c)\<rparr>"
  have d: "client_keeps E c ?d" "unanswered ?d"
    using assms ses_discarded [of E "cli_session c" HandshakeSpace] by (auto simp: client_keeps_def unanswered_def)
  have "step_ok E ?d (proceed (send_stream_payload E net (ci_hello_at i) ''hello from FlowQ'' ?d)
      (\<lambda>c. (None, c\<lparr>cli_application_stream_sent := True\<rparr>)))"
    by (rule step_ok_proceed [OF send_payload_ok [OF d(2)]]) (simp add: client_keeps_def unanswered_def)
  with assms d(1) show ?thesis by (auto simp: say_hello_def Let_def intro: step_ok_after)
qed

lemma recovery_timer_ok:
  assumes "unanswered c" shows "step_ok E c (handle_recovery_timer E net i c)"
proof -
  obtain timer d where d: "on_session (ses_next_recovery_timer E) c = (timer, d)" by fastforce
  note k = session_keeps(5) [OF d]
  show ?thesis
  proof (cases timer)
    case None
    with k assms show ?thesis by (simp add: handle_recovery_timer_def d)
  next
    case (Some t)
    obtain r f where f: "on_session (ses_on_recovery_timer E (crt_space t) (ci_now i)) d = (r, f)" by fastforce
    from session_keeps(6) [OF f] k assms have "client_keeps E c f" "unanswered f" by (auto intro: client_keeps_trans)
    with k assms show ?thesis
      by (auto simp: handle_recovery_timer_def d f Some intro: step_ok_after retransmit_ok)
  qed
qed

lemma take_deliveries_keeps:
  "client_keeps E c (snd (take_deliveries ds c)) \<and> fst (take_deliveries ds c) \<in> {None, Some 1} \<and>
   (cli_echo_received c = (echo \<in> set (cli_stream_lines c)) \<longrightarrow>
      cli_echo_received (snd (take_deliveries ds c)) = (echo \<in> set (cli_stream_lines (snd (take_deliveries ds c)))))"
proof (induction ds arbitrary: c)
  case (Cons d ds)
  let ?d = "c\<lparr>cli_stream_lines := cli_stream_lines c @ [(sd_stream_id d, buffer_to_string (sd_data d))],
    cli_echo_received := cli_echo_received c \<or> (sd_stream_id d = 0 \<and> buffer_to_string (sd_data d) = ''echo from aioquic'')\<rparr>"
  have "client_keeps E c ?d" by (simp add: client_keeps_def)
  moreover have "cli_echo_received ?d = (echo \<in> set (cli_stream_lines ?d))"
    if "cli_echo_received c = (echo \<in> set (cli_stream_lines c))" using that by auto
  ultimately show ?case using Cons.IH [of ?d] by (auto simp: Let_def intro: client_keeps_trans)
qed simp

lemma install_ok: "unanswered c \<Longrightarrow> step_ok E c (install_protectors S c)"
  by (auto simp: install_protectors_def Let_def client_keeps_def unanswered_def intro: ses_protectors)

lemma datagram_ok:
  assumes "unanswered c" shows "step_ok E c (handle_datagram S E net i payload sender c)"
proof -
  obtain r d where d: "on_session (ses_on_datagram E payload (to_flowq_endpoint sender ''hq-interop'') (ci_received_at i)) c = (r, d)"
    by fastforce
  note k = session_keeps(4) [OF d]
  obtain x f where f: "take_deliveries (srcv_stream_deliveries r) d = (x, f)" by fastforce
  have kf: "client_keeps E c f" "x = None \<or> x = Some 1" "cli_echo_received f = (echo \<in> set (cli_stream_lines f))"
    using take_deliveries_keeps [of E d "srcv_stream_deliveries r"] k assms
    by (auto simp: f unanswered_def intro: client_keeps_trans)
  have "step_ok E f (proceed (send_datagrams net (srcv_datagrams r) f)
      (\<lambda>c. proceed (install_protectors S c) (flush_and_send E net (ci_flush_at i))))" if "\<not> cli_echo_received f"
    using that kf(3)
    by (intro step_ok_proceed send_datagrams_ok install_ok flush_and_send_ok) (auto simp: unanswered_def)
  then have "step_ok E c (proceed (x, f) (\<lambda>c. if cli_echo_received c then (Some 0, c)
      else proceed (send_datagrams net (srcv_datagrams r) c)
        (\<lambda>c. proceed (install_protectors S c) (flush_and_send E net (ci_flush_at i)))))"
    using kf by (auto simp: proceed_def [of "(x, f)"] step_ok_def [of E c "(Some 0, f)"] intro: step_ok_after [OF kf(1)])
  with k show ?thesis by (simp add: handle_datagram_def d f)
qed

lemma client_round_ok:
  assumes "unanswered c" shows "step_ok E c (client_round S E net i c)"
  unfolding client_round_def
  by (intro step_ok_proceed say_hello_ok assms recovery_timer_ok)
    (simp_all add: datagram_ok split: receive_outcome.split)

lemma client_loop_ok:
  "unanswered c \<Longrightarrow> step_ok E c (client_loop S E net deadline inputs c)"
proof (induction inputs arbitrary: c)
  case (Cons i inputs)
  then show ?case by (auto intro: step_ok_proceed [OF client_round_ok])
qed simp

lemma client_loop_deadline:
  "fst (client_loop S E net deadline inputs c) = None \<Longrightarrow> list_all (\<lambda>i. ci_while i < deadline) inputs"
  by (induction inputs arbitrary: c) (auto simp: proceed_def split: if_splits option.splits)

lemma start_client_ok:
  assumes "start_client S B L ca_variable name_variable net scripts rest congestion at = Inr c"
  shows "unanswered c \<and> (\<exists>w. session_reachable (adapter_env S B) (client_session_config S) congestion w (cli_session c))"
proof -
  let ?E = "adapter_env S B"
  obtain w r d where d: "on_session (ses_flush ?E (fst at) (snd at)) \<lparr>cli_session = new_session (client_session_config S) congestion w,
        cli_application_stream_sent = False, cli_echo_received = False, cli_socket = [], cli_stream_lines = []\<rparr> = (r, d)"
      and c: "send_datagrams net (ssnd_datagrams r) d = (None, c)"
    using assms by (auto simp: start_client_def Let_def split: if_splits prod.splits option.splits)
  note k = session_keeps(3) [OF d]
  have u: "unanswered d" using k by (simp add: unanswered_def)
  have "step_ok ?E d (None, c)" using send_datagrams_ok [OF u, of ?E net "ssnd_datagrams r"] by (simp add: c)
  then have "(session_step ?E)\<^sup>*\<^sup>* (new_session (client_session_config S) congestion w) (cli_session c)" "unanswered c"
    using k by (auto simp: client_keeps_def)
  from session_run [OF this(1) session_new] this(2) show ?thesis by blast
qed

lemma send_datagrams_code: "send_datagrams net ds c = (Some code, d) \<Longrightarrow> code = 1"
  by (induction net ds c rule: send_datagrams.induct) (auto split: if_splits)

lemma start_client_fails:
  assumes "start_client S B L ca_variable name_variable net scripts rest congestion at = Inl code"
  shows "code = 1"
  using assms unfolding start_client_def Let_def
  by (auto dest: send_datagrams_code split: if_splits prod.splits option.splits)


section \<open>The composition\<close>

text \<open>
  With the adapter in place, the gate of the connection loop for 1-RTT data is the state of the handshake: it is confirmed, both
  application secrets have arrived and the cipher suite is known.
\<close>

lemma adapter_gate:
  assumes "adapter_ok out a" and "cw_adapter (cl_world s) = a"
  shows "application_send_allowed (adapter_env S B) s \<longleftrightarrow>
    ta_state a = HandshakeConfirmed \<and> has_traffic_secret a TlsApplication False \<and> has_traffic_secret a TlsApplication True \<and>
    negotiated_cipher_suite a \<noteq> SuiteUnknown \<and> available (cfg_key_lifecycle (cl_config s)) LevelOneRtt KeySend"
proof -
  have "ka_application (ta_keys a) \<longleftrightarrow> level_key_schedule_owned a TlsApplication"
    using assms(1) unfolding adapter_ok_def by (metis key_of_def tls_encryption_level.simps(9))
  with assms(2) show ?thesis
    by (auto simp: application_send_allowed_def adapter_env_def application_data_ready_def has_traffic_secret_def
        level_key_schedule_owned_def ta_provider_status_def key_schedule_ready_def provider_unavailable_def provider_available_def)
qed

text \<open>The client compares each delivery with the whole echo: an echo that arrives in two packets is not recognised.\<close>

theorem split_echo_missed:
  assumes "sd_data d1 @ sd_data d2 = text_buffer ''echo from aioquic''" and "sd_data d1 \<noteq> []" and "sd_data d2 \<noteq> []"
    and "unanswered c"
  shows "unanswered (snd (take_deliveries [d1, d2] c))"
proof -
  have "length (sd_data d1) + length (sd_data d2) = 17"
    using arg_cong [OF assms(1), of length] by (simp add: text_buffer_def)
  then have "length (buffer_to_string (sd_data d1)) \<noteq> 17" "length (buffer_to_string (sd_data d2)) \<noteq> 17"
    using assms(2,3) by (auto simp: buffer_to_string_def)
  then have "buffer_to_string (sd_data d1) \<noteq> ''echo from aioquic''" "buffer_to_string (sd_data d2) \<noteq> ''echo from aioquic''"
    by auto
  with assms(4) show ?thesis by (auto simp: unanswered_def Let_def)
qed

end
