(* ===== verification/Senders.thy ===== *)
theory Senders
  imports Session
begin

text \<open>
  The senders: \<open>src/include/flowq/execution.hpp\<close> (\<open>just\<close>, \<open>stopped\<close>, \<open>error\<close>), \<open>asio/timer.hpp\<close> (\<open>sleep_for\<close>) and
  \<open>asio/udp.hpp\<close> (\<open>async_send_to\<close>, \<open>async_receive\<close>).  The three asio operations have the same shape: \<open>start\<close> makes one
  asynchronous call and keeps the state alive until asio completes it.  asio is the outside world: the model records the calls
  and has the completions, with any error code.  \<open>cancel\<close> only asks asio to complete the pending calls with \<open>operation_aborted\<close>.
\<close>

section \<open>Senders that complete at once\<close>

text \<open>An operation state is the signal that its \<open>start\<close> gives to the receiver.\<close>

definition just_sender :: "'v \<Rightarrow> 'v signal" where
  "just_sender v = SetValue v"

definition stopped_sender :: "'v signal" where
  "stopped_sender = SetStopped"

definition error_sender :: "flowq_error \<Rightarrow> 'v signal" where
  "error_sender e = SetError e"

section \<open>asio operations\<close>

text \<open>\<open>'p\<close> is what the asynchronous call is given: a duration, a destination with a payload, or a buffer size.\<close>

record ('p, 'v) asio_operation =
  aop_request :: 'p
  aop_receiver :: bool
  aop_calls :: "'p list"
  aop_pending :: nat
  aop_signals :: "'v signal list"

definition new_asio_operation :: "'p \<Rightarrow> ('p, 'v) asio_operation" where
  "new_asio_operation request =
     \<lparr>aop_request = request, aop_receiver = True, aop_calls = [], aop_pending = 0, aop_signals = []\<rparr>"

definition aop_start :: "('p, 'v) asio_operation \<Rightarrow> ('p, 'v) asio_operation" where
  "aop_start op = op\<lparr>aop_calls := aop_calls op @ [aop_request op], aop_pending := aop_pending op + 1\<rparr>"

fun asio_message :: "asio_error \<Rightarrow> string" where
  "asio_message (AsioFailure m) = m"
| "asio_message AsioNone = []"
| "asio_message OperationAborted = []"

definition timer_error :: "asio_error \<Rightarrow> flowq_error" where
  "timer_error code = \<lparr>err_code = EC_internal_error, err_message = asio_message code\<rparr>"

definition udp_error :: "asio_error \<Rightarrow> flowq_error" where
  "udp_error code = \<lparr>err_code = EC_udp_error, err_message = asio_message code\<rparr>"

text \<open>The member \<open>complete\<close>, which the three states share up to the value and the error they pass on.\<close>

definition aop_complete ::
    "(asio_error \<Rightarrow> flowq_error) \<Rightarrow> asio_error \<Rightarrow> 'v \<Rightarrow> ('p, 'v) asio_operation \<Rightarrow> ('p, 'v) asio_operation" where
  "aop_complete error_of code v op =
     (if \<not> aop_receiver op then op
      else
        let op = op\<lparr>aop_receiver := False\<rparr> in
        if code = AsioNone then op\<lparr>aop_signals := aop_signals op @ [SetValue v]\<rparr>
        else if code = OperationAborted then op\<lparr>aop_signals := aop_signals op @ [SetStopped]\<rparr>
        else op\<lparr>aop_signals := aop_signals op @ [SetError (error_of code)]\<rparr>)"

definition sleep_for :: "duration \<Rightarrow> (duration, unit) asio_operation" where
  "sleep_for d = new_asio_operation d"

definition sleep_for_complete :: "asio_error \<Rightarrow> (duration, unit) asio_operation \<Rightarrow> (duration, unit) asio_operation" where
  "sleep_for_complete code op = aop_complete timer_error code () op"

definition async_send_to :: "'e \<Rightarrow> buffer \<Rightarrow> ('e \<times> buffer, nat) asio_operation" where
  "async_send_to remote payload = new_asio_operation (remote, payload)"

definition udp_send_complete :: "asio_error \<Rightarrow> nat \<Rightarrow> ('e \<times> buffer, nat) asio_operation \<Rightarrow> ('e \<times> buffer, nat) asio_operation" where
  "udp_send_complete code bytes_sent op = aop_complete udp_error code bytes_sent op"

definition async_receive :: "nat \<Rightarrow> (nat, buffer \<times> 'e) asio_operation" where
  "async_receive max_size = new_asio_operation max_size"

text \<open>asio has stored \<open>bytes\<close>, at most \<open>max_size\<close> of them, and the address of the sender.\<close>

definition udp_receive_complete ::
    "asio_error \<Rightarrow> buffer \<Rightarrow> 'e \<Rightarrow> (nat, buffer \<times> 'e) asio_operation \<Rightarrow> (nat, buffer \<times> 'e) asio_operation" where
  "udp_receive_complete code bytes remote op = aop_complete udp_error code (bytes, remote) op"

section \<open>One signal\<close>

text \<open>
  What makes an asio operation a sender: the completions of the asynchronous call, whose further arguments are collected in
  \<open>'a\<close>, give the receiver one signal and change nothing else.
\<close>

locale asio_sender =
  fixes complete :: "asio_error \<Rightarrow> 'a \<Rightarrow> ('p, 'v) asio_operation \<Rightarrow> ('p, 'v) asio_operation"
    and payload :: "'a \<Rightarrow> 'v"
  assumes complete_first: "aop_receiver op \<Longrightarrow>
      \<exists>e. complete code x op = op\<lparr>aop_receiver := False, aop_signals := aop_signals op @
        [if code = AsioNone then SetValue (payload x) else if code = OperationAborted then SetStopped else SetError e]\<rparr>"
    and complete_again: "\<not> aop_receiver op \<Longrightarrow> complete code x op = op"
begin

inductive sender_run :: "'p \<Rightarrow> (asio_error \<times> 'a) list \<Rightarrow> ('p, 'v) asio_operation \<Rightarrow> bool" for request where
  sender_connected: "sender_run request [] (new_asio_operation request)"
| sender_started: "sender_run request cs op \<Longrightarrow> sender_run request cs (aop_start op)"
| sender_completed: "sender_run request cs op \<Longrightarrow> 0 < aop_pending op \<Longrightarrow>
    sender_run request (cs @ [(code, x)]) (complete code x (op\<lparr>aop_pending := aop_pending op - 1\<rparr>))"

lemma sender_state:
  "sender_run request cs op \<Longrightarrow> aop_request op = request \<and> set (aop_calls op) \<subseteq> {request} \<and>
    length (aop_calls op) = length cs + aop_pending op \<and> (aop_receiver op \<longleftrightarrow> cs = []) \<and>
    (cs = [] \<longrightarrow> aop_signals op = []) \<and>
    (cs \<noteq> [] \<longrightarrow> (\<exists>e. aop_signals op = [if fst (hd cs) = AsioNone then SetValue (payload (snd (hd cs)))
       else if fst (hd cs) = OperationAborted then SetStopped else SetError e]))"
proof (induction rule: sender_run.induct)
  case (sender_completed cs op code x)
  let ?op = "op\<lparr>aop_pending := aop_pending op - 1\<rparr>"
  show ?case
  proof (cases "aop_receiver op")
    case True
    then obtain e where e: "complete code x ?op = ?op\<lparr>aop_receiver := False, aop_signals := aop_signals ?op @
        [if code = AsioNone then SetValue (payload x) else if code = OperationAborted then SetStopped else SetError e]\<rparr>"
      using complete_first [of ?op code x] by auto
    with True sender_completed show ?thesis unfolding e by auto
  next
    case False
    then have "complete code x ?op = ?op" by (simp add: complete_again)
    with False sender_completed show ?thesis by (auto simp: hd_append)
  qed
qed (auto simp: new_asio_operation_def aop_start_def)

end

interpretation sleep: asio_sender "\<lambda>code (x :: unit). sleep_for_complete code" "\<lambda>x. x"
  by unfold_locales (auto simp: sleep_for_complete_def aop_complete_def Let_def)

interpretation udp_send: asio_sender udp_send_complete "\<lambda>n. n"
  by unfold_locales (auto simp: udp_send_complete_def aop_complete_def Let_def)

interpretation udp_receive: asio_sender "\<lambda>code (bytes, remote). udp_receive_complete code bytes remote" "\<lambda>x. x"
  by unfold_locales (auto simp: udp_receive_complete_def aop_complete_def Let_def split: prod.splits)

text \<open>
  However often a receive operation is started and whatever asio answers, its receiver gets exactly the outcome of the first
  completed call: the datagram, \<open>set_stopped\<close> if it was cancelled, or an error.  Datagrams that later calls received are lost.
\<close>

theorem receive_signals_first:
  assumes "udp_receive.sender_run max_size ((code, x) # cs) op"
  shows "\<exists>e. aop_signals op = [if code = AsioNone then SetValue x else if code = OperationAborted then SetStopped else SetError e]"
  using udp_receive.sender_state [OF assms] by (simp only: list.sel fst_conv snd_conv list.distinct simp_thms)

end
