(* ===== verification/Diagnostics.thy ===== *)
theory Diagnostics
  imports Http3 AckLoss
begin

text \<open>
  Diagnostic events, \<open>src/include/flowq/quic/diagnostics.hpp\<close>.  The sink is the collector or the null sink of that file; the
  clock is an argument.
\<close>

datatype diagnostic_event_type =
  DiagPacketSent | DiagPacketReceived | DiagPacketLost | DiagKeyUpdated | DiagCongestionStateChanged | DiagTransportParameterDecoded

record diagnostic_event =
  de_type :: diagnostic_event_type
  de_timestamp :: time_point
  de_category :: string
  de_message :: string

datatype diagnostic_sink = NullDiagnosticSink | DiagnosticCollector "diagnostic_event list"

fun sink_emit :: "diagnostic_event \<Rightarrow> diagnostic_sink \<Rightarrow> diagnostic_sink" where
  "sink_emit e NullDiagnosticSink = NullDiagnosticSink"
| "sink_emit e (DiagnosticCollector es) = DiagnosticCollector (es @ [e])"

fun sink_clear :: "diagnostic_sink \<Rightarrow> diagnostic_sink" where
  "sink_clear NullDiagnosticSink = NullDiagnosticSink"
| "sink_clear (DiagnosticCollector es) = DiagnosticCollector []"

text \<open>\<open>diagnostics\<close> holds a pointer to a sink or null.\<close>

type_synonym diagnostics = "diagnostic_sink option"

definition diagnostics_enabled :: "diagnostics \<Rightarrow> bool" where
  "diagnostics_enabled d \<longleftrightarrow> d \<noteq> None"

definition emit_event :: "diagnostic_event_type \<Rightarrow> time_point \<Rightarrow> string \<Rightarrow> string \<Rightarrow> diagnostics \<Rightarrow> diagnostics" where
  "emit_event kind now category msg d =
     map_option (sink_emit \<lparr>de_type = kind, de_timestamp = now, de_category = category, de_message = msg\<rparr>) d"

definition diag_packet_sent :: "time_point \<Rightarrow> u64 \<Rightarrow> nat \<Rightarrow> diagnostics \<Rightarrow> diagnostics" where
  "diag_packet_sent now packet_number bytes d =
     emit_event DiagPacketSent now ''transport'' (''packet_sent pn='' @ to_string packet_number @ '' bytes='' @ to_string bytes) d"

definition diag_packet_received :: "time_point \<Rightarrow> u64 \<Rightarrow> nat \<Rightarrow> diagnostics \<Rightarrow> diagnostics" where
  "diag_packet_received now packet_number bytes d =
     emit_event DiagPacketReceived now ''transport'' (''packet_received pn='' @ to_string packet_number @ '' bytes='' @ to_string bytes) d"

definition diag_packet_lost :: "time_point \<Rightarrow> u64 \<Rightarrow> diagnostics \<Rightarrow> diagnostics" where
  "diag_packet_lost now packet_number d =
     emit_event DiagPacketLost now ''recovery'' (''packet_lost pn='' @ to_string packet_number) d"

definition diag_key_updated :: "time_point \<Rightarrow> string \<Rightarrow> diagnostics \<Rightarrow> diagnostics" where
  "diag_key_updated now level d = emit_event DiagKeyUpdated now ''security'' (''key_updated level='' @ level) d"

definition diag_congestion_state_changed :: "time_point \<Rightarrow> string \<Rightarrow> string \<Rightarrow> diagnostics \<Rightarrow> diagnostics" where
  "diag_congestion_state_changed now old_state new_state d =
     emit_event DiagCongestionStateChanged now ''congestion''
       (''congestion_state_changed '' @ old_state @ '' -> '' @ new_state) d"

definition diag_transport_parameter_decoded :: "time_point \<Rightarrow> string \<Rightarrow> diagnostics \<Rightarrow> diagnostics" where
  "diag_transport_parameter_decoded now name d =
     emit_event DiagTransportParameterDecoded now ''transport'' (''transport_parameter_decoded name='' @ name) d"

section \<open>Reading the log\<close>

text \<open>The digits of a number end where the text goes on with another character.\<close>

lemma to_string_split:
  assumes "to_string n @ c # rest = to_string n' @ c # rest'" and "\<not> is_digit c"
  shows "n = n' \<and> rest = rest'"
proof -
  have t: "takeWhile is_digit (to_string k @ c # r) = to_string k" for k r
    using to_string_digits [of k] assms(2) by (simp add: list_all_iff)
  from t [of n rest] t [of n' rest'] assms(1) have "to_string n = to_string n'" by simp
  with assms(1) to_string_digits [of n] to_string_digits [of n'] show ?thesis by (metis append_same_eq same_append_eq list.inject)
qed

lemma to_string_inject: "to_string n = to_string n' \<longleftrightarrow> n = n'"
  using to_string_digits [of n] to_string_digits [of n'] by metis

text \<open>
  The line of a sent packet determines its packet number and its size, so that a collected log can be read back; without a
  sink, or with the null sink, nothing is kept.
\<close>

theorem packet_sent_readable:
  "diag_packet_sent now pn n (Some (DiagnosticCollector es)) = diag_packet_sent now pn' n' (Some (DiagnosticCollector es)) \<longleftrightarrow>
   pn = pn' \<and> n = n'"
proof
  assume "diag_packet_sent now pn n (Some (DiagnosticCollector es)) = diag_packet_sent now pn' n' (Some (DiagnosticCollector es))"
  then have m: "to_string pn @ CHR '' '' # ''bytes='' @ to_string n = to_string pn' @ CHR '' '' # ''bytes='' @ to_string n'"
    by (simp add: diag_packet_sent_def emit_event_def)
  have "\<not> is_digit (CHR '' '')" by (simp add: is_digit_def)
  from to_string_split [OF m this] show "pn = pn' \<and> n = n'" by (simp add: to_string_inject)
qed simp

end
