(* ===== verification/Spec2Isabelle.thy ===== *)
theory Spec2Isabelle
  imports Varint PacketHeader Frame AckLoss Congestion StreamRecv StreamSend ZeroRtt TransportParameters PacketPipeline
    ConnectionProps Routing Qpack Http3 ZeroCopy KeyUpdate Session
    Protection TlsAdapter UdpSession Pacing Client Senders Diagnostics
begin

text \<open>
  FlowQ is a QUIC transport in C++ headers, with QPACK and HTTP/3 on top and a sender/receiver interface to asio.  This
  development models its protocol logic, shallowly embedded and executable, and proves what the parts promise to each other.
  All paths below are relative to \<open>src/include/flowq/quic/\<close> unless they start with \<open>src/\<close>.

  \<^bold>\<open>The parts and how they interact.\<close>  A \<open>session\<close> owns a \<open>connection_loop\<close>.  Datagrams go into the loop, which parses the
  packets in them (packet pipeline, with the protectors of its three packet number spaces), drops numbers it has seen,
  applies the frames (acknowledgements to the recovery state and the congestion controller, CRYPTO bytes to the TLS adapter,
  STREAM data to the reassembly buffers, connection IDs and path validation to its own tables) and records actions:
  datagrams to send, deliveries, closes.  Flushing takes frames from the queues, assembles packets and records them for loss
  detection.  In front of many connections stand the routing table, Retry tokens and the endpoint driver.  A UDP session or the
  client of \<open>src/tools/\<close> connects a session to a socket and to OpenSSL.

  \<^bold>\<open>Theories, and the code they model.\<close>
  \<^item> \<open>Prelude\<close>: bytes as \<open>8 word\<close>, buffers as lists, 64-bit arithmetic with its wrap-around (\<open>u64_add\<close>, \<open>u64_sub\<close>, \<open>u64_mul\<close>),
    errors as the sum \<open>'a result\<close>, exceptions and undefined behaviour as \<open>outcome\<close>, and the locale \<open>cursor_codec\<close>: a reader
    that takes back what a writer wrote, at any offset of any buffer.
  \<^item> \<open>Varint\<close> (\<open>varint.hpp\<close>), \<open>PacketHeader\<close> (\<open>packet_header.hpp\<close>), \<open>Frame\<close> (\<open>frame.hpp\<close>), \<open>TransportParameters\<close>
    (\<open>transport_parameters.hpp\<close>): the codecs.  Round trips in both directions, what a decoder accepts, packet number recovery.
  \<^item> \<open>AckLoss\<close> (\<open>ack_loss.hpp\<close>), \<open>Congestion\<close> (\<open>congestion.hpp\<close>, NewReno and BBR of \<open>congestion_algorithms.hpp\<close>), \<open>Pacing\<close>
    (\<open>pacing.hpp\<close>, CUBIC and the factory): loss detection reports each packet once; in-flight accounting is exact, by one locale
    \<open>congestion_control\<close> interpreted for NewReno and BBR; pacing is bounded in both directions.
  \<^item> \<open>StreamRecv\<close>, \<open>StreamSend\<close> (\<open>stream.hpp\<close>): reassembly refines a partial map from offsets to bytes; a sender that is idle
    has had every byte acknowledged.
  \<^item> \<open>ZeroRtt\<close> (\<open>zero_rtt.hpp\<close>): the bitmap of the replay window refines a set of numbers.
  \<^item> \<open>PacketPipeline\<close> (\<open>packet_pipeline.hpp\<close>, \<open>crypto_provider.hpp\<close>), \<open>ZeroCopy\<close> (\<open>zero_copy_packet_builder.hpp\<close>): assembled
    packets are parsed back for any pair of protectors that are \<open>paired\<close>; exactly when the padding loop of client Initials
    fails to end; the builder that works in place gives the bytes of the other one.
  \<^item> \<open>KeyUpdate\<close> (\<open>key_update.hpp\<close>); \<open>Protection\<close> (\<open>initial_keys.hpp\<close>, \<open>key_derivation.hpp\<close>, \<open>initial_packet_protector.hpp\<close>,
    \<open>openssl_aead_protector.hpp\<close>, \<open>tls_protector_factory.hpp\<close>): nonces are unique, and the protectors that two endpoints derive
    are \<open>paired\<close>, which discharges the hypothesis of the pipeline on the code's own protectors.
  \<^item> \<open>TlsAdapter\<close> (\<open>openssl_tls_handshake.hpp\<close>): the callbacks of OpenSSL and the handshake they drive.
  \<^item> \<open>ConnectionTypes\<close> (\<open>core.hpp\<close>, \<open>key_lifecycle.hpp\<close>, \<open>tls_handshake.hpp\<close>, \<open>connection_packet_spaces.hpp\<close>,
    \<open>connection_types.hpp\<close>), \<open>ConnectionState\<close> and \<open>Connection\<close> (\<open>connection.hpp\<close>): one definition per member function.
    \<open>ConnectionSteps\<close> makes the public operations the rules of \<open>loop_step\<close> and proves in the locales \<open>loop_change\<close> and
    \<open>loop_relation\<close> that a relation which holds for the elementary changes holds for every operation; \<open>ConnectionInv\<close>
    interprets them once per invariant; \<open>ConnectionProps\<close> states the properties of all reachable loops: packet numbers are
    never reused, a packet is processed once, the amplification limit, connection credit, connection IDs, no way back from
    closing, timers, and which datagrams close a connection.
  \<^item> \<open>Session\<close> (\<open>session.hpp\<close>, \<open>events.hpp\<close>, the three schedulers), \<open>UdpSession\<close> (\<open>udp_session.hpp\<close>), \<open>Senders\<close>
    (\<open>src/include/flowq/execution.hpp\<close>, \<open>asio/timer.hpp\<close>, \<open>asio/udp.hpp\<close>): no delivery is lost, every operation gives one
    signal, datagrams are sent in order.  The locales \<open>one_shot_scheduler\<close> and \<open>asio_sender\<close> carry these proofs.
  \<^item> \<open>Client\<close> (\<open>src/tools/quic_client.cpp\<close>): \<open>main\<close>, with a session whose environment is the TLS adapter and the protectors.
  \<^item> \<open>Routing\<close> (\<open>connection_routing.hpp\<close>, \<open>endpoint_driver.hpp\<close>): an issued token is accepted exactly for its address,
    connection ID and lifetime, and an accepted one was issued; the driver with its tables refines a map, by the locale \<open>handle_table\<close>.
  \<^item> \<open>Qpack\<close> (\<open>qpack.hpp\<close>), \<open>Http3\<close> (\<open>http3.hpp\<close>, \<open>http3_request.hpp\<close>), \<open>Diagnostics\<close> (\<open>diagnostics.hpp\<close>).
  \<^item> This theory: properties that span components.  A stream crosses a network that loses, duplicates and reorders;
    acknowledgements of what arrived reach the sender; a stateless reset is recognised.

  \<^bold>\<open>State and time.\<close>  A class is a record, a member function a function that takes and returns the record.  Durations and time
  points are integers counting nanoseconds, and every reading of a clock is an argument.  Sizes (\<open>std::size_t\<close>) are natural
  numbers; 64-bit protocol values are natural numbers with the wrap-around written out, 8, 16 and 32-bit ones are words.  Byte
  counts of the congestion theorems are bounded by \<open>2 ^ 53\<close>, so that the product with the datagram size in congestion
  avoidance does not wrap.

  \<^bold>\<open>Loops.\<close>  Recursion is structural or has a termination proof.  The padding loop of client Initials may run for ever, so it is a
  \<open>partial_function\<close> whose value None means that it does not return, and a theorem says exactly when.  \<open>pop_many k\<close>
  takes \<open>k\<close> frames in a row; with \<open>k\<close> above the number of bytes that is the whole stream, since each frame but the last
  carries at least one byte.

  \<^bold>\<open>Parameters.\<close>  What is not under \<open>src/\<close> is an argument.  OpenSSL is the record \<open>openssl\<close> (\<open>aead_law\<close>: opening what was sealed
  under the same key, nonce and associated data gives it back) and, for TLS, scripts of callbacks about which nothing is assumed.
  asio completes accepted calls with any error code.  A connection takes its TLS adapter, protector refresh, pacing, congestion
  control and random source through \<open>connection_env\<close>, about which the connection theorems assume nothing; \<open>adapter_env\<close> of
  \<open>Client\<close> fills in the adapter.  Floating-point results of pacing gain and CUBIC are parameters (\<open>gain_law\<close>; nothing for CUBIC).

  \<^bold>\<open>Not modelled.\<close>  Erasing memory that is freed afterwards (\<open>src/include/flowq/secure.hpp\<close>), since no value depends on it; move
  constructors and destructors; the fail-closed adapter of builds without OpenSSL and the constant build descriptions of
  \<open>tls_provider_backend.hpp\<close>; the benchmark runner, the example program and the tests.  Pointers between objects are values
  that the holder owns, so lifetimes are not part of the model, and neither are threads: the library has none.
\<close>

section \<open>Streams end to end\<close>

lemma sent_frames_wf: "send_history s fs flight \<Longrightarrow> f \<in> set fs \<Longrightarrow> frame_wf (StreamFrame f)"
proof (induction arbitrary: f rule: send_history.induct)
  case (pop s fs flight k r s')
  have "popped s flight k r s'" using pop_frame_ok [OF send_history_ok [OF pop(1)] pop(2)] .
  then have "ssr_frame r = ssr_frame (make_frame s' (ssr_range r))" using pop(3) by (simp add: popped_def)
  then have "frame_wf (StreamFrame (ssr_frame r))" by (auto simp: make_frame_def)
  with pop(4,5) show ?case by (cases "f \<in> set fs") (blast, simp)
qed auto

text \<open>A datagram payload that carries one STREAM frame is read back as that frame.\<close>

lemma wire_frame:
  assumes "frame_wf (StreamFrame f)" and "encode_frame (StreamFrame f) = Inr bytes" and "decode_frames bytes = Inr [StreamFrame g]"
  shows "g = f"
proof -
  have "decode_frames_loop (concat [bytes]) 0 [] = Inr ([] @ [StreamFrame f])"
    using assms(1,2) by (intro decode_frames_loop_encode) (auto simp: at_bytes_def)
  with assms(3) show ?thesis by (auto simp: decode_frames_def split: if_splits)
qed

text \<open>Every frame in \<open>received\<close> was decoded from a payload that encodes one of \<open>sent\<close>: payloads may be lost,
  reordered and duplicated, not altered, which is what packet protection is for.\<close>

definition carried :: "stream_frame list \<Rightarrow> stream_frame list \<Rightarrow> bool" where
  "carried sent received \<longleftrightarrow> (\<forall>g \<in> set received. \<exists>f \<in> set sent. \<exists>bytes.
     encode_frame (StreamFrame f) = Inr bytes \<and> decode_frames bytes = Inr [StreamFrame g])"

lemma carried_subset:
  assumes "send_history s fs flight" and "carried fs gs"
  shows "set gs \<subseteq> set fs"
proof
  fix g assume "g \<in> set gs"
  with assms(2) obtain f bytes where "f \<in> set fs" "encode_frame (StreamFrame f) = Inr bytes"
      "decode_frames bytes = Inr [StreamFrame g]" by (auto simp: carried_def)
  with wire_frame sent_frames_wf [OF assms(1)] show "g \<in> set fs" by blast
qed

text \<open>C1: Stream safety end to end: whatever the run of the sender (writes, frame sizes, acknowledgements,
  losses and retransmissions, credit) and whichever of its frames arrive, in any order and any number of
  times, the receiver accepts them all and delivers a prefix of the sender's bytes; if it closes the
  stream, the sender has finished it and every byte has been delivered.\<close>

theorem stream_transfer_safe:
  assumes h: "send_history s fs flight" and c: "carried fs gs"
    and m: "send_max_data s \<le> max_data" "max_data < 2 ^ 64"
    and r: "receive_all (new_stream_receive_state max_data) gs = (rs, t)"
  shows "(\<forall>r \<in> set rs. error_ok (srr_error r))
    \<and> concat (map srr_data rs) = take (recv_next_offset t) (send_bytes s)
    \<and> (recv_closed t \<longrightarrow> send_finished s \<and> concat (map srr_data rs) = send_bytes s)"
proof -
  let ?n = "send_next_unsent_offset s"
  let ?bytes = "take ?n (send_bytes s)"
  have ok: "send_ok s flight" using send_history_ok [OF h] .
  then have n: "?n \<le> length (send_bytes s)" "?n \<le> send_max_data s" by (auto simp: send_ok_def)
  have sl: "sent_slice s g" if "g \<in> set gs" for g
    using that carried_subset [OF h c] send_history_slices [OF h] by blast
  have slices: "\<forall>g \<in> set gs. slice_of ?bytes g"
  proof
    fix g assume "g \<in> set gs"
    note g = sl [OF this, unfolded sent_slice_def]
    have "length (sf_data g) \<le> ?n - frame_offset g" using g by (auto simp: frame_end_def)
    then have "take (length (sf_data g)) (drop (frame_offset g) ?bytes) = take (length (sf_data g)) (drop (frame_offset g) (send_bytes s))"
      by (simp add: drop_take take_take)
    then show "slice_of ?bytes g" unfolding slice_of_def using g n by auto
  qed
  have "length ?bytes \<le> max_data" using n m by simp
  note all = receive_slices [OF slices this m(2) r]
  have data: "concat (map srr_data rs) = take (recv_next_offset t) ?bytes" using all by blast
  have "recv_next_offset t \<le> ?n"
  proof (rule ccontr)
    assume "\<not> recv_next_offset t \<le> ?n"
    then have "covered gs ?n" using all by auto
    then show False using sl by (fastforce simp: covered_def sent_slice_def)
  qed
  then have pre: "concat (map srr_data rs) = take (recv_next_offset t) (send_bytes s)" using data by (simp add: take_take min_def)
  have "send_finished s \<and> concat (map srr_data rs) = send_bytes s" if "recv_closed t"
  proof -
    from that all obtain g where g: "g \<in> set gs" "sf_fin g" and full: "concat (map srr_data rs) = ?bytes" by blast
    have "send_finished s" "frame_end g = length (send_bytes s)" "frame_end g \<le> ?n"
      using sl [OF g(1)] g(2) unfolding sent_slice_def by blast+
    then show ?thesis using full by simp
  qed
  with pre all show ?thesis by blast
qed

theorem stream_transfer_safe_witness:
  "\<exists>f rs t. receive_all (new_stream_receive_state 100) [f, f] = (rs, t) \<and> carried [f] [f, f]
     \<and> concat (map srr_data rs) = take (recv_next_offset t) [1, 2, 3]"
proof -
  let ?p = "pop_frame (finished_sender 4 100 [1, 2, 3]) 2"
  have f: "ssr_frame (fst ?p) = \<lparr>sf_stream_id = 4, sf_offset = 0, sf_offset_present = False, sf_length_present = True,
      sf_fin = False, sf_data = [1, 2]\<rparr>" and m: "send_max_data (snd ?p) \<le> 100"
      and b: "send_bytes (snd ?p) = [1, 2, 3]"
    by (simp_all add: finished_sender_def send_append_def send_finish_def new_stream_send_state_def
        pop_frame.simps pop_fresh_def pop_new_data_def make_frame_def upt_rec)
  have e: "encode_frame (StreamFrame (ssr_frame (fst ?p))) = Inr [0x0a, 4, 2, 1, 2]"
    by (simp add: f encode_stream_def stream_type_def varint_bytes_small to_byte_def)
  moreover from e have "decode_frames_loop (concat [[0x0a, 4, 2, 1, 2]]) 0 [] = Inr ([] @ [StreamFrame (ssr_frame (fst ?p))])"
    by (intro decode_frames_loop_encode) (auto simp: f at_bytes_def)
  ultimately have c: "carried [ssr_frame (fst ?p)] [ssr_frame (fst ?p), ssr_frame (fst ?p)]"
    unfolding carried_def by (auto simp: decode_frames_def)
  have "(100 :: nat) < 2 ^ 64" by simp
  from stream_transfer_safe [OF short_history c m this surjective_pairing] c b show ?thesis by (metis surjective_pairing)
qed

text \<open>C2: Stream delivery end to end: a stream of any content within the credit, cut into frames of any
  positive maximum size, is completely sent after at most one pop per byte and one more; and when all its
  frames have arrived, in any order and with duplicates, the receiver has delivered exactly the stream
  and closed it.\<close>

theorem stream_transfer_complete:
  assumes "length data \<le> max_data" and "max_data < 2 ^ 64" and "0 < n" and "length data < k"
    and p: "pop_many k n (finished_sender stream_id max_data data) = (fs, s)"
    and "set gs = set fs" and r: "receive_all (new_stream_receive_state max_data) gs = (rs, t)"
  shows "concat (map srr_data rs) = data \<and> recv_closed t"
proof -
  note f = finished_sender_frames [OF assms(1-4) p]
  have "\<forall>g \<in> set gs. slice_of data g" using f assms(6) by blast
  note all = receive_slices [OF this assms(1,2) r]
  have "covered gs = covered fs" using assms(6) by (simp add: covered_def fun_eq_iff)
  with all f assms(6) show ?thesis by metis
qed

theorem stream_transfer_complete_witness:
  "concat (map srr_data (fst (receive_all (new_stream_receive_state 100)
     (rev (fst (pop_many 6 2 (finished_sender 4 100 [10, 20, 30, 40, 50]))))))) = [10, 20, 30, 40, 50]"
proof -
  let ?fs = "fst (pop_many 6 2 (finished_sender 4 100 [10, 20, 30, 40, 50]))"
  have "length [10, 20, 30, 40, 50 :: byte] \<le> 100" "(100 :: nat) < 2 ^ 64" "0 < (2 :: nat)"
    "length [10, 20, 30, 40, 50 :: byte] < 6" by simp_all
  from stream_transfer_complete [OF this surjective_pairing _ surjective_pairing, of "rev ?fs" 4]
  show ?thesis by simp
qed

section \<open>Acknowledgements end to end\<close>

text \<open>C8: A receiver that has seen packets \<open>ns\<close> sends an ACK frame; when the peer decodes it, its sent-packet
  tracker reports as acknowledged exactly its outstanding packets among \<open>ns\<close>, and the loss threshold
  counts from the largest of them.\<close>

theorem ack_transfer:
  assumes "ns \<noteq> []" and "\<forall>n \<in> set ns. n \<le> max_varint"
    and e: "encode_frame (AckFrame (to_ack_frame (observe_all ns) delay)) = Inr bytes"
    and d: "decode_frames bytes = Inr [AckFrame f]"
  shows "newly_acknowledged (fst (on_ack_received t f k)) =
      map sp_packet_number (filter (\<lambda>p. sp_packet_number p \<in> set ns \<and> sp_state p = Outstanding) (spt_packets t))
    \<and> newly_lost (fst (on_ack_received t f k)) =
      map sp_packet_number (filter (\<lambda>p. sp_packet_number p \<notin> set ns \<and> sp_state p = Outstanding
        \<and> sp_ack_eliciting p \<and> sp_packet_number p + k \<le> Max (set ns)) (spt_packets t))"
proof -
  have "max_varint < 2 ^ 64" by (simp add: max_varint_def)
  then have lt: "\<forall>n \<in> set ns. n < 2 ^ 64" using assms(2) by (meson le_less_trans)
  have S: "finite (set ns)" "set ns \<noteq> {}" using assms(1) by auto
  have "decode_frames_loop (concat [bytes]) 0 [] = Inr ([] @ [AckFrame (to_ack_frame (observe_all ns) delay)])"
    using e by (intro decode_frames_loop_encode) (auto simp: at_bytes_def)
  with d have f: "f = to_ack_frame \<lparr>rpt_packets = set ns\<rparr> delay"
    by (auto simp: decode_frames_def observe_all_packets split: if_splits)
  have ex: "expand_ack_frame f = set ns" using ack_frame_denotes_received [OF S lt] f by simp
  have mx: "af_largest_acknowledged f = Max (set ns)"
    using to_ack_frame_ranges [OF S lt] f by (metis ack_frame.select_convs(1))
  have "Max (set ns) < 2 ^ 64" using S lt by (simp add: Max_in)
  then show ?thesis
    using on_ack_received_packets [of f t k] S by (simp add: ex mx packet_threshold_lost_def)
qed

theorem ack_transfer_witness:
  "\<exists>bytes f. encode_frame (AckFrame (to_ack_frame (observe_all [3, 1]) 0)) = Inr bytes \<and> decode_frames bytes = Inr [AckFrame f]
     \<and> newly_acknowledged (fst (on_ack_received
          (on_packet_sent (on_packet_sent \<lparr>spt_space = InitialSpace, spt_packets = []\<rparr> 1 True) 2 True) f 3)) = [1]"
proof -
  have f: "to_ack_frame (observe_all [3, 1]) 0 = \<lparr>af_largest_acknowledged = 3, af_ack_delay = 0, af_first_ack_range = 0,
     af_ranges = [\<lparr>ar_gap = 0, ar_length = 0\<rparr>], af_ecn_counts = None\<rparr>"
    by (simp add: observe_all_packets to_ack_frame_def u64_sub_exact u64_add_exact)
  have e: "encode_frame (AckFrame (to_ack_frame (observe_all [3, 1]) 0)) = Inr [2, 3, 0, 1, 0, 0, 0]"
    unfolding f by (simp add: encode_ack_def varint_bytes_small to_byte_def ack_range_bytes_def ack_range_valid_def)
  moreover from e have "decode_frames_loop (concat [[2, 3, 0, 1, 0, 0, 0]]) 0 [] = Inr ([] @ [AckFrame (to_ack_frame (observe_all [3, 1]) 0)])"
    by (intro decode_frames_loop_encode) (auto simp: at_bytes_def)
  then have d: "decode_frames [2, 3, 0, 1, 0, 0, 0] = Inr [AckFrame (to_ack_frame (observe_all [3, 1]) 0)]"
    by (simp add: decode_frames_def)
  moreover have "[3, 1] \<noteq> []" "\<forall>n \<in> set [3, 1]. n \<le> max_varint" by simp_all
  note ack_transfer [OF this e d, of "on_packet_sent (on_packet_sent \<lparr>spt_space = InitialSpace, spt_packets = []\<rparr> 1 True) 2 True" 3]
  ultimately show ?thesis by (simp add: on_packet_sent_def)
qed

section \<open>Stateless resets end to end\<close>

text \<open>C36: A stateless reset the driver builds for a retired identifier is smaller than the datagram that
  triggered it, at least 21 bytes long, looks like a short-header packet, and makes a peer that holds the
  token of the identifier enter the draining state.\<close>

theorem stateless_reset_recognised:
  assumes "build_stateless_reset fallback cid n d = Inr pkt"
    and "lookup_stateless_reset_token cid (ed_routing d) = Some tok" and "length tok = stateless_reset_token_size"
    and "item \<in> set (cl_remote_connection_ids s)" and "\<not> rce_retired item" and "rce_stateless_reset_token item = tok"
  shows "lookup_connection cid d = None \<and> minimum_stateless_reset_datagram_size \<le> length pkt \<and> length pkt < n \<and> pkt ! 0 AND 0xc0 = 0x40 \<and>
    handle_short_packet_parse_error pkt e received_at s =
      enter_draining \<lparr>err_code = EC_connection_closed, err_message = ''stateless reset received''\<rparr> received_at s"
proof -
  have b: "build_stateless_reset_packet fallback tok n (ed_stateless_reset d) = Inr pkt" and l: "lookup_connection cid d = None"
    using assms(1,2) by (auto simp: build_stateless_reset_def lookup_connection_def split: if_splits)
  note shape = build_reset_packet_shape [OF b assms(3)]
  have "matches_peer_stateless_reset pkt s"
    using shape(1,5) assms(4-6) by (auto simp: matches_peer_stateless_reset_def list_ex_iff)
  then show ?thesis using shape l by (simp add: handle_short_packet_parse_error_def)
qed

definition reset_driver :: endpoint_driver where
  "reset_driver = unregister_connection \<lparr>cid_bytes = [9]\<rparr> (snd (register_connection_with_token \<lparr>cid_bytes = [9]\<rparr> 1 (replicate 16 3)
     (start (new_endpoint_driver 4 \<lparr>src_preferred_datagram_size = 41, src_random = Some (\<lambda>n. Inr (replicate n 0))\<rparr>))))"

definition reset_peer :: "(unit, congestion_controller) connection_loop" where
  "reset_peer = example_loop\<lparr>cl_remote_connection_ids := [\<lparr>rce_sequence_number = 1, rce_id = \<lparr>cid_bytes = [9]\<rparr>,
     rce_stateless_reset_token = replicate 16 3, rce_retired = False\<rparr>]\<rparr>"

theorem stateless_reset_recognised_witness:
  "\<exists>pkt. build_stateless_reset (\<lambda>_. Inl no_error) \<lparr>cid_bytes = [9]\<rparr> 43 reset_driver = Inr pkt \<and> length pkt < 43 \<and>
     handle_short_packet_parse_error pkt no_error 5 reset_peer =
       enter_draining \<lparr>err_code = EC_connection_closed, err_message = ''stateless reset received''\<rparr> 5 reset_peer"
proof -
  have r: "ed_running reset_driver" "lookup \<lparr>cid_bytes = [9]\<rparr> (ed_routing reset_driver) = None"
    "lookup_stateless_reset_token \<lparr>cid_bytes = [9]\<rparr> (ed_routing reset_driver) = Some (replicate 16 3)"
    "ed_stateless_reset reset_driver = \<lparr>src_preferred_datagram_size = 41, src_random = Some (\<lambda>n. Inr (replicate n 0))\<rparr>"
    by (simp_all add: reset_driver_def driver_defs new_endpoint_driver_def new_routing_table_def lookup_def retire_def add_def
        add_stateless_reset_token_def active_count_def lookup_stateless_reset_token_def)
  then obtain pkt where p: "build_stateless_reset (\<lambda>_. Inl no_error) \<lparr>cid_bytes = [9]\<rparr> 43 reset_driver = Inr pkt"
    by (simp add: build_stateless_reset_def build_stateless_reset_packet_def minimum_stateless_reset_datagram_size_def
        stateless_reset_token_size_def)
  have "cl_remote_connection_ids reset_peer = [\<lparr>rce_sequence_number = 1, rce_id = \<lparr>cid_bytes = [9]\<rparr>,
     rce_stateless_reset_token = replicate 16 3, rce_retired = False\<rparr>]" by (simp add: reset_peer_def)
  then show ?thesis
    using stateless_reset_recognised [OF p r(3), where s = reset_peer and e = no_error and received_at = 5] p
    by (simp add: stateless_reset_token_size_def)
qed

end
